(* ===== verification/Prelude.thy ===== *)
theory Prelude
  imports Complex_Main "HOL-Library.Multiset" "HOL-Library.Sublist"
begin

text \<open>
  What every component shares: results of code that may throw, the comparators handed to
  \<^verbatim>\<open>Array.prototype.sort\<close>, default (code unit) string order, decimal rendering of
  integers in messages, and SQL tables as lists of rows with \<^verbatim>\<open>UPDATE ... WHERE ... RETURNING\<close>.
\<close>

named_theorems row_simps \<open>equations that evaluate table operations\<close>
named_theorems result_simps \<open>equations that take a result apart\<close>

section \<open>Results\<close>

text \<open>
  A function that may throw returns \<open>'e + 'a\<close>: \<open>Inl\<close> the exception, \<open>Inr\<close> the value.
  \<open>and_then m k\<close> is the sequential composition: the rest of the body runs only when no
  exception was thrown.
\<close>

definition and_then :: "'e + 'a \<Rightarrow> ('a \<Rightarrow> 'e + 'b) \<Rightarrow> 'e + 'b" where
  "and_then m k = (case m of Inl e \<Rightarrow> Inl e | Inr a \<Rightarrow> k a)"

lemma and_then_simps [simp]:
  "and_then (Inl e) k = Inl e"
  "and_then (Inr a) k = k a"
  by (simp_all add: and_then_def)

lemma and_then_Inr [result_simps]:
  "and_then m k = Inr b \<longleftrightarrow> (\<exists>a. m = Inr a \<and> k a = Inr b)"
  by (cases m) auto

lemma and_then_Inl [result_simps]:
  "and_then m k = Inl e \<longleftrightarrow> m = Inl e \<or> (\<exists>a. m = Inr a \<and> k a = Inl e)"
  by (cases m) auto

lemma if_Inl_Inr [result_simps]:
  "(if b then Inl e else m) = Inr a \<longleftrightarrow> \<not> b \<and> m = Inr a"
  by simp

definition ok :: "'e + 'a \<Rightarrow> bool" where
  "ok m = (case m of Inl _ \<Rightarrow> False | Inr _ \<Rightarrow> True)"

lemma ok_simps [simp]: "ok (Inr a)" "\<not> ok (Inl e)"
  by (simp_all add: ok_def)

lemma ok_iff: "ok m \<longleftrightarrow> (\<exists>a. m = Inr a)"
  by (cases m) auto

text \<open>\<^verbatim>\<open>xs.map((item, index) => ...)\<close> with a callback that may throw: the first exception wins.\<close>

fun traverse :: "(nat \<Rightarrow> 'a \<Rightarrow> 'e + 'b) \<Rightarrow> nat \<Rightarrow> 'a list \<Rightarrow> 'e + 'b list" where
  "traverse f i [] = Inr []"
| "traverse f i (x # xs) =
     and_then (f i x) (\<lambda>y. and_then (traverse f (Suc i) xs) (\<lambda>ys. Inr (y # ys)))"

lemma traverse_cong [fundef_cong]:
  "xs = ys \<Longrightarrow> (\<And>i x. x \<in> set ys \<Longrightarrow> f i x = g i x) \<Longrightarrow> traverse f i xs = traverse g i ys"
proof (induction xs arbitrary: ys i)
  case (Cons x xs)
  have "traverse f (Suc i) xs = traverse g (Suc i) xs" using Cons.prems by (intro Cons.IH) auto
  with Cons.prems show ?case by auto
qed simp

lemma traverse_length: "traverse f i xs = Inr ys \<Longrightarrow> length ys = length xs"
  by (induction xs arbitrary: i ys) (auto simp: and_then_Inr)

lemma traverse_nth:
  "traverse f i xs = Inr ys \<Longrightarrow> k < length xs \<Longrightarrow> f (i + k) (xs ! k) = Inr (ys ! k)"
proof (induction xs arbitrary: i ys k)
  case Nil
  then show ?case by simp
next
  case (Cons x xs)
  from Cons.prems(1) obtain y ys' where
    y: "f i x = Inr y" and ys': "traverse f (Suc i) xs = Inr ys'" and eq: "ys = y # ys'"
    by (auto simp: and_then_Inr)
  show ?case
  proof (cases k)
    case 0
    with y eq show ?thesis by simp
  next
    case (Suc k')
    with Cons.IH [OF ys', of k'] Cons.prems(2) eq show ?thesis by simp
  qed
qed

lemma traverse_all:
  assumes "traverse f i xs = Inr ys" and "\<And>k x y. x \<in> set xs \<Longrightarrow> f k x = Inr y \<Longrightarrow> P y"
  shows "\<forall>y \<in> set ys. P y"
  using assms by (induction xs arbitrary: i ys) (fastforce simp: and_then_Inr)+

lemma traverse_id:
  assumes "\<And>k x. x \<in> set xs \<Longrightarrow> f k x = Inr (g x)"
  shows "traverse f i xs = Inr (map g xs)"
  using assms by (induction xs arbitrary: i) auto

section \<open>Comparators and sorting\<close>

text \<open>
  JavaScript's \<^verbatim>\<open>sort(compare)\<close> is stable and, for a consistent comparator, returns the
  one stable ordering of the array. \<open>js_sort\<close> computes that ordering by stable insertion.
  \<open>or_else a b\<close> is \<^verbatim>\<open>a || b\<close> on numbers, as the comparators chain their keys.
\<close>

definition or_else :: "int \<Rightarrow> int \<Rightarrow> int" where
  "or_else a b = (if a \<noteq> 0 then a else b)"

fun insert_by :: "('a \<Rightarrow> 'a \<Rightarrow> int) \<Rightarrow> 'a \<Rightarrow> 'a list \<Rightarrow> 'a list" where
  "insert_by cmp x [] = [x]"
| "insert_by cmp x (y # ys) = (if cmp x y \<le> 0 then x # y # ys else y # insert_by cmp x ys)"

fun js_sort :: "('a \<Rightarrow> 'a \<Rightarrow> int) \<Rightarrow> 'a list \<Rightarrow> 'a list" where
  "js_sort cmp [] = []"
| "js_sort cmp (x # xs) = insert_by cmp x (js_sort cmp xs)"

lemma mset_insert_by [simp]: "mset (insert_by cmp x xs) = add_mset x (mset xs)"
  by (induction xs) auto

lemma mset_js_sort [simp]: "mset (js_sort cmp xs) = mset xs"
  by (induction xs) auto

lemma set_js_sort [simp]: "set (js_sort cmp xs) = set xs"
  by (metis mset_js_sort set_mset_mset)

lemma length_js_sort [simp]: "length (js_sort cmp xs) = length xs"
  by (metis mset_js_sort size_mset)

lemma distinct_js_sort [simp]: "distinct (js_sort cmp xs) = distinct xs"
  by (metis mset_js_sort mset_eq_imp_distinct_iff)

lemma js_sort_Nil_iff [simp]: "js_sort cmp xs = [] \<longleftrightarrow> xs = []"
  by (metis length_0_conv length_js_sort)

lemma js_sort_mset_map [simp]: "mset (map f (js_sort cmp xs)) = mset (map f xs)"
  by simp

locale comparator =
  fixes cmp :: "'a \<Rightarrow> 'a \<Rightarrow> int"
  assumes antisym: "0 < cmp x y \<longleftrightarrow> cmp y x < 0"
    and trans: "cmp x y \<le> 0 \<Longrightarrow> cmp y z \<le> 0 \<Longrightarrow> cmp x z \<le> 0"
begin

lemma total: "cmp x y \<le> 0 \<or> cmp y x \<le> 0"
  using antisym [of x y] by linarith

lemma refl: "cmp x x = 0"
  using antisym [of x x] by linarith

lemma zero_sym: "cmp x y = 0 \<longleftrightarrow> cmp y x = 0"
  using antisym [of x y] antisym [of y x] by linarith

lemma sorted_insert_by:
  "sorted_wrt (\<lambda>a b. cmp a b \<le> 0) xs \<Longrightarrow> sorted_wrt (\<lambda>a b. cmp a b \<le> 0) (insert_by cmp x xs)"
proof (induction xs)
  case Nil
  then show ?case by simp
next
  case (Cons y ys)
  have mem: "set (insert_by cmp x ys) = insert x (set ys)"
    by (metis mset_insert_by set_mset_add_mset_insert set_mset_mset)
  show ?case
  proof (cases "cmp x y \<le> 0")
    case True
    with Cons.prems show ?thesis by (auto intro: trans)
  next
    case False
    with total have "cmp y x \<le> 0" by blast
    with False Cons mem show ?thesis by auto
  qed
qed

lemma sorted_js_sort: "sorted_wrt (\<lambda>a b. cmp a b \<le> 0) (js_sort cmp xs)"
  by (induction xs) (simp_all add: sorted_insert_by)

lemma hd_js_sort_least:
  assumes "js_sort cmp xs = y # ys" and "x \<in> set xs"
  shows "cmp y x \<le> 0"
proof -
  have "x \<in> set (y # ys)" using assms by (metis set_js_sort)
  moreover have "sorted_wrt (\<lambda>a b. cmp a b \<le> 0) (y # ys)"
    using sorted_js_sort [of xs] assms(1) by simp
  ultimately show ?thesis using refl [of y] by auto
qed

lemma insert_by_stable:
  "filter (\<lambda>a. cmp a k = 0) (insert_by cmp x xs) =
   (if cmp x k = 0 then x # filter (\<lambda>a. cmp a k = 0) xs else filter (\<lambda>a. cmp a k = 0) xs)"
proof (induction xs)
  case Nil
  then show ?case by simp
next
  case (Cons y ys)
  have "cmp y k \<noteq> 0" if "cmp x k = 0" "\<not> cmp x y \<le> 0"
  proof
    assume "cmp y k = 0"
    then have "cmp k y \<le> 0" using zero_sym [of y k] by simp
    with that trans [of x k y] show False by simp
  qed
  with Cons show ?case by auto
qed

text \<open>Elements that compare equal keep their order: the sort is stable.\<close>

lemma js_sort_stable:
  "filter (\<lambda>a. cmp a k = 0) (js_sort cmp xs) = filter (\<lambda>a. cmp a k = 0) xs"
  by (induction xs) (simp_all add: insert_by_stable)

end

text \<open>Chaining keys with \<^verbatim>\<open>||\<close>, differences of keys and comparisons of projections are consistent.\<close>

lemma comparator_diff: "comparator (\<lambda>x y. f x - (f y :: int))"
  by unfold_locales auto

lemma comparator_diff_desc: "comparator (\<lambda>x y. f y - (f x :: int))"
  by unfold_locales auto

lemma comparator_on: "comparator c \<Longrightarrow> comparator (\<lambda>x y. c (f x) (f y))"
  unfolding comparator_def by blast

lemma comparator_or_else:
  assumes f: "comparator f" and g: "comparator g"
  shows "comparator (\<lambda>x y. or_else (f x y) (g x y))"
proof
  fix x y
  show "0 < or_else (f x y) (g x y) \<longleftrightarrow> or_else (f y x) (g y x) < 0"
    using comparator.antisym [OF f, of x y] comparator.antisym [OF f, of y x]
      comparator.antisym [OF g, of x y]
    by (auto simp: or_else_def)
next
  fix x y z
  assume a: "or_else (f x y) (g x y) \<le> 0" and b: "or_else (f y z) (g y z) \<le> 0"
  from a have fxy: "f x y \<le> 0" by (auto simp: or_else_def split: if_splits)
  from b have fyz: "f y z \<le> 0" by (auto simp: or_else_def split: if_splits)
  have fxz: "f x z \<le> 0" using comparator.trans [OF f fxy fyz] .
  have zero: "f x y = 0 \<and> f y z = 0" if "f x z = 0"
  proof -
    have zx: "f z x \<le> 0" using that comparator.zero_sym [OF f, of x z] by simp
    have "f y x \<le> 0" using comparator.trans [OF f fyz zx] .
    moreover have "f z y \<le> 0" using comparator.trans [OF f zx fxy] .
    ultimately show ?thesis
      using fxy fyz comparator.antisym [OF f, of x y] comparator.antisym [OF f, of y x]
        comparator.antisym [OF f, of y z] comparator.antisym [OF f, of z y] by linarith
  qed
  show "or_else (f x z) (g x z) \<le> 0"
  proof (cases "f x z = 0")
    case True
    with zero a b have "g x y \<le> 0" "g y z \<le> 0" by (auto simp: or_else_def)
    with True comparator.trans [OF g] show ?thesis by (auto simp: or_else_def)
  next
    case False
    with fxz show ?thesis by (simp add: or_else_def)
  qed
qed

section \<open>Strings\<close>

text \<open>
  A JavaScript string is a list of code units; the model keeps the code units below 256, so
  that a string is a HOL \<open>string\<close> and \<open>of_char\<close> reads a unit. \<open>str_cmp\<close> is the order of
  \<^verbatim>\<open>sort()\<close> without a comparator and of SQLite's BINARY collation.
\<close>

fun str_cmp :: "string \<Rightarrow> string \<Rightarrow> int" where
  "str_cmp [] [] = 0"
| "str_cmp [] (_ # _) = -1"
| "str_cmp (_ # _) [] = 1"
| "str_cmp (x # xs) (y # ys) =
     (let a = of_char x :: int; b = of_char y in
      if a < b then -1 else if b < a then 1 else str_cmp xs ys)"

lemma str_cmp_zero: "str_cmp s t = 0 \<longleftrightarrow> s = t"
  by (induction s t rule: str_cmp.induct) (auto simp: Let_def)

lemma str_cmp_flip: "str_cmp t s = - str_cmp s t"
  by (induction s t rule: str_cmp.induct) (auto simp: Let_def)

lemma str_cmp_Cons:
  "str_cmp (x # xs) (y # ys) \<le> 0 \<longleftrightarrow>
   (of_char x :: int) < of_char y \<or> (of_char x :: int) = of_char y \<and> str_cmp xs ys \<le> 0"
  by (cases "x = y") (auto simp: Let_def)

lemma str_cmp_trans: "str_cmp s t \<le> 0 \<Longrightarrow> str_cmp t u \<le> 0 \<Longrightarrow> str_cmp s u \<le> 0"
proof (induction s t arbitrary: u rule: str_cmp.induct)
  case (4 x xs y ys)
  show ?case
  proof (cases u)
    case Nil
    with "4.prems" show ?thesis by simp
  next
    case (Cons z zs)
    have xy: "(of_char x :: int) < of_char y \<or> (of_char x :: int) = of_char y \<and> str_cmp xs ys \<le> 0"
      using "4.prems"(1) by (simp only: str_cmp_Cons)
    have yz: "(of_char y :: int) < of_char z \<or> (of_char y :: int) = of_char z \<and> str_cmp ys zs \<le> 0"
      using "4.prems"(2) Cons by (simp only: str_cmp_Cons)
    have "(of_char x :: int) < of_char z \<or> (of_char x :: int) = of_char z \<and> str_cmp xs zs \<le> 0"
    proof (cases "(of_char x :: int) = of_char y \<and> (of_char y :: int) = of_char z")
      case True
      with xy yz have "str_cmp xs ys \<le> 0" "str_cmp ys zs \<le> 0" by linarith+
      then have "str_cmp xs zs \<le> 0" using "4.IH" [OF HOL.refl HOL.refl, of zs] True by simp
      with True show ?thesis by simp
    next
      case False
      with xy yz show ?thesis by linarith
    qed
    with Cons show ?thesis by (simp only: str_cmp_Cons)
  qed
next
  case 1
  then show ?case by simp
next
  case (2 y ys)
  then show ?case by (cases u) simp_all
next
  case (3 x xs)
  then show ?case by simp
qed

text \<open>
  \<^verbatim>\<open>localeCompare\<close> is a parameter of the model: the collation belongs to the runtime's
  locale data. What the code relies on is that it is a consistent comparator that returns
  0 on a string and itself; code unit order is one such collation.
\<close>

locale collation = comparator lc for lc :: "string \<Rightarrow> string \<Rightarrow> int"

interpretation code_units: collation str_cmp
proof unfold_locales
  fix x y z
  show "0 < str_cmp x y \<longleftrightarrow> str_cmp y x < 0"
    using str_cmp_flip [of y x] by linarith
  show "str_cmp x y \<le> 0 \<Longrightarrow> str_cmp y z \<le> 0 \<Longrightarrow> str_cmp x z \<le> 0"
    by (rule str_cmp_trans)
qed

text \<open>\<^verbatim>\<open>[...new Set(xs)]\<close>: the first occurrence of each element, in order.\<close>

fun js_set :: "'a list \<Rightarrow> 'a list" where
  "js_set [] = []"
| "js_set (x # xs) = x # filter (\<lambda>y. y \<noteq> x) (js_set xs)"

lemma set_js_set [simp]: "set (js_set xs) = set xs"
  by (induction xs) auto

lemma distinct_js_set [simp]: "distinct (js_set xs)"
  by (induction xs) auto

lemma length_js_set: "length (js_set xs) \<le> length xs"
  by (induction xs) (auto intro: le_trans [OF length_filter_le])

lemma js_set_distinct: "distinct xs \<Longrightarrow> js_set xs = xs"
  by (induction xs) (auto intro: filter_True)

text \<open>Decimal rendering of an integer, as template literals print a safe integer.\<close>

fun string_of_nat :: "nat \<Rightarrow> string" where
  "string_of_nat n =
     (if n < 10 then [char_of (48 + n)]
      else string_of_nat (n div 10) @ [char_of (48 + n mod 10)])"

declare string_of_nat.simps [simp del]

definition string_of_int :: "int \<Rightarrow> string" where
  "string_of_int i = (if i < 0 then CHR ''-'' # string_of_nat (nat (- i)) else string_of_nat (nat i))"

section \<open>Tables\<close>

text \<open>
  A table is the list of its rows. \<open>sql_update P f\<close> is
  \<^verbatim>\<open>UPDATE t SET ... WHERE P RETURNING *\<close>: the new table and the updated rows;
  \<open>sql_get\<close> is \<^verbatim>\<open>.get()\<close> on the returned rows, the first one or nothing.
\<close>

definition sql_update :: "('r \<Rightarrow> bool) \<Rightarrow> ('r \<Rightarrow> 'r) \<Rightarrow> 'r list \<Rightarrow> 'r list \<times> 'r list" where
  "sql_update P f rows = (map (\<lambda>r. if P r then f r else r) rows, map f (filter P rows))"

definition sql_get :: "'r list \<Rightarrow> 'r option" where
  "sql_get rows = (case rows of [] \<Rightarrow> None | r # _ \<Rightarrow> Some r)"

lemma sql_get_simps [simp]: "sql_get [] = None" "sql_get (r # rows) = Some r"
  by (simp_all add: sql_get_def)

lemma sql_get_Some: "sql_get rows = Some r \<Longrightarrow> r \<in> set rows"
  by (auto simp: sql_get_def split: list.splits)

lemma sql_get_None [simp]: "sql_get rows = None \<longleftrightarrow> rows = []"
  by (auto simp: sql_get_def split: list.splits)

lemma sql_get_ex [simp]: "(\<exists>r. sql_get rows = Some r) \<longleftrightarrow> rows \<noteq> []"
  by (cases rows) auto

lemma sql_get_filter_Some:
  "sql_get (filter P rows) = Some r \<Longrightarrow> r \<in> set rows \<and> P r"
  by (drule sql_get_Some) auto

lemma sql_update_fst: "fst (sql_update P f rows) = map (\<lambda>r. if P r then f r else r) rows"
  by (simp add: sql_update_def)

lemma sql_update_snd: "snd (sql_update P f rows) = map f (filter P rows)"
  by (simp add: sql_update_def)

text \<open>With a unique key, an update by key returns the one row it changed.\<close>

lemma key_unique:
  "distinct (map key rows) \<Longrightarrow> r \<in> set rows \<Longrightarrow> r' \<in> set rows \<Longrightarrow> key r = key r' \<Longrightarrow> r = r'"
  by (metis distinct_map inj_on_eq_iff)

lemma key_filter_unique:
  assumes "distinct (map key rows)" and "r \<in> set rows" and "P r"
  shows "filter (\<lambda>x. key x = key r \<and> P x) rows = [r]"
  using assms
proof (induction rows)
  case (Cons a rows)
  show ?case
  proof (cases "a = r")
    case True
    with Cons.prems have "key x \<noteq> key r" if "x \<in> set rows" for x
      using that by (metis distinct.simps(2) image_eqI list.map(2) list.set_map)
    then have "filter (\<lambda>x. key x = key r \<and> P x) rows = []"
      by (auto simp: filter_empty_conv)
    with True Cons.prems show ?thesis by simp
  next
    case False
    with Cons.prems have "key a \<noteq> key r" by auto
    with False Cons show ?thesis by simp
  qed
qed simp

lemma sql_update_keys:
  "(\<And>r. key (f r) = key r) \<Longrightarrow> map key (fst (sql_update P f rows)) = map key rows"
  by (simp add: sql_update_def)

lemma sql_update_all:
  assumes "\<forall>r \<in> set rows. I r" and "\<And>r. r \<in> set rows \<Longrightarrow> P r \<Longrightarrow> I r \<Longrightarrow> I (f r)"
  shows "\<forall>r \<in> set (fst (sql_update P f rows)). I r"
  using assms by (auto simp: sql_update_def)

lemma sql_update_none: "filter P rows = [] \<Longrightarrow> sql_update P f rows = (rows, [])"
  by (auto simp: sql_update_def filter_empty_conv map_idI)

text \<open>A statement whose condition fixes the key changes no row or exactly one.\<close>

lemma sql_update_key:
  assumes "distinct (map key rows)" and "\<And>r. P r \<Longrightarrow> key r = k"
  obtains (no_row) "filter P rows = []" "sql_update P f rows = (rows, [])"
  | (one_row) r where "r \<in> set rows" "P r" "key r = k"
      "sql_update P f rows = (map (\<lambda>x. if key x = k then f r else x) rows, [f r])"
proof (cases "filter P rows = []")
  case True
  with no_row sql_update_none show ?thesis by blast
next
  case False
  then obtain r where r: "r \<in> set rows" "P r" by (auto simp: filter_empty_conv)
  then have k: "key r = k" using assms(2) by blast
  have same: "x = r" if "x \<in> set rows" "key x = k" for x
    using key_unique [OF assms(1) that(1) r(1)] that k by simp
  have "filter (\<lambda>x. key x = key r \<and> P x) rows = [r]"
    using assms(1) r by (rule key_filter_unique)
  then have "filter P rows = [r]" using assms(2) k by (metis (mono_tags, lifting) filter_cong)
  moreover have "(if P x then f x else x) = (if key x = k then f r else x)" if "x \<in> set rows" for x
    using same [OF that] r assms(2) [of x] by (cases "P x") auto
  ultimately have "sql_update P f rows = (map (\<lambda>x. if key x = k then f r else x) rows, [f r])"
    by (simp add: sql_update_def)
  with one_row r k show ?thesis by blast
qed

lemma sql_get_key:
  assumes "distinct (map key rows)" and "r \<in> set rows" and "P r" and "\<And>x. P x \<Longrightarrow> key x = key r"
  shows "sql_get (filter P rows) = Some r"
proof -
  have "r \<in> set (filter P rows)" using assms(2,3) by simp
  then obtain x where x: "sql_get (filter P rows) = Some x" by (cases "filter P rows") auto
  from sql_get_filter_Some [OF x] have m: "x \<in> set rows" "P x" by (rule conjunct1, rule conjunct2)
  from key_unique [OF assms(1) m(1) assms(2) assms(4) [OF m(2)]] have "x = r" .
  with x show ?thesis by (simp only:)
qed

end
