(* ===== verification/JsValues.thy ===== *)
theory JsValues
  imports Prelude
begin

text \<open>
  JavaScript values as \<^verbatim>\<open>JSON.parse\<close> produces them, with \<^verbatim>\<open>undefined\<close> for a property that is
  absent, the error classes the program throws, and the validators of
  \<^verbatim>\<open>src/src/shared/validation.mjs\<close>. A finite double is the rational it denotes; the object
  constructor lists the own enumerable properties in enumeration order.
\<close>

section \<open>Values\<close>

datatype jsnum = Finite rat | PosInfinity | NegInfinity | NaN

datatype jsval =
    JUndefined
  | JNull
  | JBool bool
  | JNum jsnum
  | JStr string
  | JArr "jsval list"
  | JObj "(string \<times> jsval) list"

abbreviation JInt :: "int \<Rightarrow> jsval" where
  "JInt i \<equiv> JNum (Finite (rat_of_int i))"

type_synonym js_object = "(string \<times> jsval) list"

datatype error =
    ValidationError string
  | NotFoundError string
  | ConflictError string
  | TypeError string
  | PlainError string
  | DatabaseError string
  | ExecutionClaimDenied string
  | BrokerClaimError string nat
  | BrokerAuthorityObservationError string
  | AsrProtocolError string
  | AdapterIpcError string
  | WorkloadRuntimeError string

type_synonym 'a result = "error + 'a"

text \<open>Reading a property of an object: \<^verbatim>\<open>undefined\<close> when there is none.\<close>

definition js_get :: "js_object \<Rightarrow> string \<Rightarrow> jsval" where
  "js_get kvs k = (case map_of kvs k of None \<Rightarrow> JUndefined | Some v \<Rightarrow> v)"

lemma js_get_simps [simp]:
  "js_get [] k = JUndefined"
  "js_get ((k', v) # kvs) k = (if k = k' then v else js_get kvs k)"
  by (simp_all add: js_get_def)

text \<open>\<^verbatim>\<open>v ?? d\<close>.\<close>

definition nullish :: "jsval \<Rightarrow> jsval \<Rightarrow> jsval" where
  "nullish v d = (case v of JUndefined \<Rightarrow> d | JNull \<Rightarrow> d | _ \<Rightarrow> v)"

text \<open>\<^verbatim>\<open>Number.isSafeInteger(v)\<close>, with the integer it accepts.\<close>

definition max_safe_integer :: int where
  "max_safe_integer = 9007199254740991"

definition safe_integer :: "jsval \<Rightarrow> int option" where
  "safe_integer v =
     (case v of
        JNum (Finite q) \<Rightarrow>
          (case quotient_of q of (n, d) \<Rightarrow>
             if d = 1 \<and> \<bar>n\<bar> \<le> max_safe_integer then Some n else None)
      | _ \<Rightarrow> None)"

lemma safe_integer_JInt [simp]:
  "safe_integer (JInt i) = (if \<bar>i\<bar> \<le> max_safe_integer then Some i else None)"
  by (simp add: safe_integer_def quotient_of_int)

lemma safe_integer_numeral [simp]:
  "safe_integer (JNum (Finite 0)) = Some 0"
  "safe_integer (JNum (Finite 1)) = Some 1"
  "safe_integer (JNum (Finite (numeral k))) = (if numeral k \<le> max_safe_integer then Some (numeral k) else None)"
  "safe_integer (JNum (Finite (- numeral k))) = (if numeral k \<le> max_safe_integer then Some (- numeral k) else None)"
  "safe_integer (JNum (Finite (-1))) = Some (-1)"
  using safe_integer_JInt [of 0] safe_integer_JInt [of 1] safe_integer_JInt [of "numeral k"]
    safe_integer_JInt [of "- numeral k"] safe_integer_JInt [of "-1"]
  by (simp_all add: max_safe_integer_def)

lemma safe_integer_Some:
  assumes "safe_integer v = Some i"
  shows "v = JInt i \<and> \<bar>i\<bar> \<le> max_safe_integer"
proof -
  from assms obtain q where v: "v = JNum (Finite q)" and q: "quotient_of q = (i, 1)"
    and b: "\<bar>i\<bar> \<le> max_safe_integer"
    by (auto simp: safe_integer_def split: jsval.splits jsnum.splits prod.splits if_splits)
  from quotient_of_div [OF q] have "q = rat_of_int i" by simp
  with v b show ?thesis by simp
qed

lemma safe_integer_simps [simp]:
  "safe_integer JUndefined = None" "safe_integer JNull = None" "safe_integer (JBool b) = None"
  "safe_integer (JStr s) = None" "safe_integer (JArr xs) = None" "safe_integer (JObj kvs) = None"
  by (simp_all add: safe_integer_def)

section \<open>String operations\<close>

definition is_js_space :: "char \<Rightarrow> bool" where
  "is_js_space c = ((of_char c :: nat) \<in> {9, 10, 11, 12, 13, 32, 160})"

definition trim :: "string \<Rightarrow> string" where
  "trim s = rev (dropWhile is_js_space (rev (dropWhile is_js_space s)))"

lemma length_trim: "length (trim s) \<le> length s"
  unfolding trim_def by (metis length_dropWhile_le length_rev le_trans)

lemma trim_Nil [simp]: "trim [] = []"
  by (simp add: trim_def)

lemma dropWhile_id: "(xs = [] \<or> \<not> P (hd xs)) \<Longrightarrow> dropWhile P xs = xs"
  by (cases xs) auto

lemma hd_dropWhile_rev:
  assumes "ys \<noteq> []" and "\<not> P (hd ys)"
  shows "rev (dropWhile P (rev ys)) \<noteq> [] \<and> hd (rev (dropWhile P (rev ys))) = hd ys"
proof -
  from assms obtain y zs where ys: "ys = y # zs" by (cases ys) auto
  have "dropWhile P (rev zs @ [y]) = dropWhile P (rev zs) @ [y]"
    using assms ys by (metis append_Nil dropWhile.simps(2) dropWhile_append dropWhile_eq_Nil_conv list.sel(1))
  with ys show ?thesis by simp
qed

lemma trim_idem [simp]: "trim (trim s) = trim s"
proof (cases "dropWhile is_js_space s")
  case Nil
  then have "trim s = rev (dropWhile is_js_space (rev []))" by (simp only: trim_def)
  then have "trim s = []" by simp
  then show ?thesis by simp
next
  case (Cons y ys)
  let ?d = "dropWhile is_js_space s"
  from Cons have nd: "?d \<noteq> []" "\<not> is_js_space (hd ?d)"
    using hd_dropWhile [of is_js_space s] by auto
  from hd_dropWhile_rev [of ?d is_js_space] nd
  have t: "trim s \<noteq> []" "\<not> is_js_space (hd (trim s))" by (simp_all add: trim_def)
  then have "dropWhile is_js_space (trim s) = trim s" by (intro dropWhile_id) simp
  then have "trim (trim s) = rev (dropWhile is_js_space (rev (trim s)))"
    by (simp add: trim_def)
  also have "rev (trim s) = dropWhile is_js_space (rev ?d)" by (simp add: trim_def)
  also have "dropWhile is_js_space (dropWhile is_js_space (rev ?d)) = dropWhile is_js_space (rev ?d)"
    by simp
  finally show ?thesis by (simp add: trim_def)
qed

text \<open>\<^verbatim>\<open>Buffer.byteLength(s, "utf8")\<close>: units from 128 take two bytes.\<close>

definition utf8_length :: "string \<Rightarrow> nat" where
  "utf8_length s = sum_list (map (\<lambda>c. if (of_char c :: nat) < 128 then 1 else 2) s)"

definition starts_with :: "string \<Rightarrow> string \<Rightarrow> bool" where
  "starts_with s p = (take (length p) s = p)"

section \<open>The validators of validation.mjs\<close>

definition requireObject :: "jsval \<Rightarrow> string \<Rightarrow> js_object result" where
  "requireObject v name =
     (case v of
        JObj kvs \<Rightarrow> Inr kvs
      | _ \<Rightarrow> Inl (ValidationError (name @ '' must be an object'')))"

definition optionalObject :: "jsval \<Rightarrow> string \<Rightarrow> js_object result" where
  "optionalObject v name = (if v = JUndefined then Inr [] else requireObject v name)"

definition requireString :: "jsval \<Rightarrow> string \<Rightarrow> nat \<Rightarrow> string result" where
  "requireString v name maximum =
     (case v of
        JStr s \<Rightarrow>
          if trim s = [] then Inl (ValidationError (name @ '' must be a non-empty string''))
          else if length (trim s) > maximum
          then Inl (ValidationError (name @ '' must contain at most '' @ string_of_nat maximum @ '' characters''))
          else Inr (trim s)
      | _ \<Rightarrow> Inl (ValidationError (name @ '' must be a non-empty string'')))"

definition optionalString :: "jsval \<Rightarrow> string \<Rightarrow> string option \<Rightarrow> nat \<Rightarrow> string option result" where
  "optionalString v name fallback maximum =
     (if v = JUndefined \<or> v = JNull \<or> v = JStr [] then Inr fallback
      else and_then (requireString v name maximum) (\<lambda>s. Inr (Some s)))"

definition boundedInteger :: "jsval \<Rightarrow> string \<Rightarrow> int \<Rightarrow> int \<Rightarrow> int option \<Rightarrow> int result" where
  "boundedInteger v name minimum maximum fallback =
     (if v = JUndefined \<and> fallback \<noteq> None then Inr (the fallback)
      else case safe_integer v of
        Some i \<Rightarrow>
          if i < minimum \<or> maximum < i
          then Inl (ValidationError (name @ '' must be an integer between '' @
                 string_of_int minimum @ '' and '' @ string_of_int maximum))
          else Inr i
      | None \<Rightarrow> Inl (ValidationError (name @ '' must be an integer between '' @
                 string_of_int minimum @ '' and '' @ string_of_int maximum)))"

text \<open>\<^verbatim>\<open>if (typeof v !== "boolean") throw new ValidationError(message)\<close>, as several validators write it.\<close>

definition booleanValue :: "jsval \<Rightarrow> string \<Rightarrow> bool result" where
  "booleanValue v message = (case v of JBool b \<Rightarrow> Inr b | _ \<Rightarrow> Inl (ValidationError message))"

lemma booleanValue_Inr [result_simps]: "booleanValue v m = Inr b \<longleftrightarrow> v = JBool b"
  by (auto simp: booleanValue_def split: jsval.splits)

definition item_name :: "string \<Rightarrow> nat \<Rightarrow> string" where
  "item_name name i = name @ ''['' @ string_of_nat i @ '']''"

definition stringArray :: "jsval \<Rightarrow> string \<Rightarrow> nat \<Rightarrow> string list result" where
  "stringArray v name maximumItems =
     (case v of
        JArr items \<Rightarrow>
          if length items > maximumItems
          then Inl (ValidationError (name @ '' must be an array with at most '' @
                 string_of_nat maximumItems @ '' items''))
          else and_then (traverse (\<lambda>i item. requireString item (item_name name i) 100) 0 items)
                 (\<lambda>ss. Inr (js_sort str_cmp (js_set ss)))
      | _ \<Rightarrow> Inl (ValidationError (name @ '' must be an array with at most '' @
                 string_of_nat maximumItems @ '' items'')))"

definition rejectUnknownFields :: "js_object \<Rightarrow> string \<Rightarrow> string list \<Rightarrow> unit result" where
  "rejectUnknownFields object name allowedFields =
     (let unknown = filter (\<lambda>field. field \<notin> set allowedFields) (map fst object) in
      if unknown \<noteq> []
      then Inl (ValidationError (name @ '' contains unexpected field '' @ hd (js_sort str_cmp unknown)))
      else Inr ())"

subsection \<open>What the validators accept\<close>

lemma requireObject_Inr [result_simps]: "requireObject v name = Inr kvs \<longleftrightarrow> v = JObj kvs"
  by (auto simp: requireObject_def split: jsval.splits)

lemma optionalObject_Inr [result_simps]:
  "optionalObject v name = Inr kvs \<longleftrightarrow> (v = JUndefined \<and> kvs = []) \<or> v = JObj kvs"
  by (auto simp: optionalObject_def requireObject_Inr)

definition valid_name :: "nat \<Rightarrow> string \<Rightarrow> bool" where
  "valid_name m s \<longleftrightarrow> s \<noteq> [] \<and> trim s = s \<and> length s \<le> m"

lemma requireString_Inr [result_simps]:
  "requireString v name m = Inr s \<longleftrightarrow> (\<exists>raw. v = JStr raw \<and> s = trim raw \<and> valid_name m s)"
  by (auto simp: requireString_def valid_name_def split: jsval.splits)

lemma requireString_id: "valid_name m s \<Longrightarrow> requireString (JStr s) name m = Inr s"
  by (simp add: requireString_def valid_name_def)

lemma optionalString_Inr [result_simps]:
  "optionalString v name d m = Inr r \<longleftrightarrow>
   (v \<in> {JUndefined, JNull, JStr []} \<and> r = d) \<or>
   (\<exists>raw. v = JStr raw \<and> raw \<noteq> [] \<and> r = Some (trim raw) \<and> valid_name m (trim raw))"
  by (auto simp: optionalString_def and_then_Inr requireString_Inr)

lemma boundedInteger_Inr [result_simps]:
  "boundedInteger v name lo hi d = Inr i \<longleftrightarrow>
   (v = JUndefined \<and> d = Some i) \<or>
   (v = JInt i \<and> lo \<le> i \<and> i \<le> hi \<and> \<bar>i\<bar> \<le> max_safe_integer)"
proof (cases "safe_integer v")
  case None
  then show ?thesis
    by (auto simp: boundedInteger_def split: if_splits)
next
  case (Some j)
  then have "v = JInt j" "\<bar>j\<bar> \<le> max_safe_integer" by (auto dest: safe_integer_Some)
  with Some show ?thesis by (auto simp: boundedInteger_def)
qed

lemma boundedInteger_range:
  "boundedInteger v name lo hi d = Inr i \<Longrightarrow> (\<forall>j. d = Some j \<longrightarrow> lo \<le> j \<and> j \<le> hi) \<Longrightarrow> lo \<le> i \<and> i \<le> hi"
  by (auto simp: boundedInteger_Inr)

lemma boundedInteger_bounds:
  "boundedInteger v name lo hi (Some j) = Inr i \<Longrightarrow> lo \<le> j \<Longrightarrow> j \<le> hi \<Longrightarrow> lo \<le> i \<and> i \<le> hi"
  by (auto simp: boundedInteger_Inr)

lemma requireString_valid: "requireString v name m = Inr s \<Longrightarrow> valid_name m s"
  by (auto simp: requireString_Inr)

lemma optionalString_valid:
  "optionalString v name None m = Inr r \<Longrightarrow> \<forall>k. r = Some k \<longrightarrow> valid_name m k"
  by (auto simp: optionalString_Inr)

lemma rejectUnknownFields_Inr [result_simps]:
  "rejectUnknownFields object name allowed = Inr u \<longleftrightarrow> fst ` set object \<subseteq> set allowed"
  by (auto simp: rejectUnknownFields_def Let_def filter_empty_conv)

text \<open>A validated string array: names, distinct, in code unit order.\<close>

definition valid_names :: "string list \<Rightarrow> bool" where
  "valid_names ss \<longleftrightarrow> list_all (valid_name 100) ss \<and> distinct ss \<and> sorted_wrt (\<lambda>a b. str_cmp a b \<le> 0) ss"

lemma stringArray_Inr:
  assumes "stringArray v name m = Inr ss"
  shows "valid_names ss \<and> length ss \<le> m"
proof -
  from assms obtain items where v: "v = JArr items"
    by (auto simp: stringArray_def split: jsval.splits)
  with assms have len: "length items \<le> m"
    by (auto simp: stringArray_def split: if_splits)
  with assms v obtain raw where
    tr: "traverse (\<lambda>i item. requireString item (item_name name i) 100) 0 items = Inr raw"
    and ss: "ss = js_sort str_cmp (js_set raw)"
    by (auto simp: stringArray_def and_then_Inr)
  have "\<forall>s \<in> set raw. valid_name 100 s"
    using tr by (rule traverse_all) (auto simp: requireString_Inr)
  moreover have "length ss \<le> length items"
    using ss length_js_set [of raw] traverse_length [OF tr] by simp
  ultimately show ?thesis
    using len ss code_units.sorted_js_sort [of "js_set raw"]
    by (auto simp: valid_names_def list_all_iff)
qed

lemma js_sort_id: "comparator cmp \<Longrightarrow> sorted_wrt (\<lambda>a b. cmp a b \<le> 0) xs \<Longrightarrow> js_sort cmp xs = xs"
proof (induction xs)
  case (Cons x xs)
  then have "js_sort cmp xs = xs" by simp
  with Cons.prems show ?case by (cases xs) auto
qed simp

text \<open>Validating a validated array again changes nothing.\<close>

lemma stringArray_id:
  assumes "valid_names ss" and "length ss \<le> m"
  shows "stringArray (JArr (map JStr ss)) name m = Inr ss"
proof -
  have "traverse (\<lambda>i item. requireString item (item_name name i) 100) 0 (map JStr ss) =
        Inr (map (\<lambda>v. case v of JStr s \<Rightarrow> s | _ \<Rightarrow> []) (map JStr ss))"
    using assms(1)
    by (intro traverse_id) (auto simp: valid_names_def list_all_iff requireString_id)
  moreover have "map (\<lambda>v. case v of JStr s \<Rightarrow> s | _ \<Rightarrow> []) (map JStr ss) = ss"
    by (simp add: comp_def)
  moreover have "js_sort str_cmp (js_set ss) = ss"
    using assms(1) js_sort_id [OF code_units.comparator_axioms]
    by (simp add: valid_names_def js_set_distinct)
  ultimately show ?thesis using assms(2) by (simp add: stringArray_def)
qed

section \<open>Identifiers\<close>

text \<open>\<^verbatim>\<open>createId\<close> of \<^verbatim>\<open>src/src/shared/ids.mjs\<close>; what \<^verbatim>\<open>randomUUID()\<close> returned is an argument.\<close>

definition createId :: "string \<Rightarrow> string \<Rightarrow> string" where
  "createId idPrefix randomUUID = idPrefix @ ''_'' @ filter (\<lambda>c. c \<noteq> CHR ''-'') randomUUID"

end
