(* ===== verification/AdapterContracts.thy ===== *)
theory AdapterContracts
  imports JsValues
begin

text \<open>
  What a worker advertises about its adapters: manifests
  (\<^verbatim>\<open>src/src/shared/adapter-manifest.mjs\<close>), health reports
  (\<^verbatim>\<open>src/src/shared/adapter-health.mjs\<close>) and cached models
  (\<^verbatim>\<open>src/src/shared/model-inventory.mjs\<close>). The collation of \<^verbatim>\<open>localeCompare\<close> is the
  argument \<open>lc\<close>.
\<close>

section \<open>Identifier patterns\<close>

definition is_digit :: "char \<Rightarrow> bool" where
  "is_digit c = (48 \<le> (of_char c :: nat) \<and> (of_char c :: nat) \<le> 57)"

definition is_alnum :: "char \<Rightarrow> bool" where
  "is_alnum c = (let n = of_char c :: nat in
     48 \<le> n \<and> n \<le> 57 \<or> 65 \<le> n \<and> n \<le> 90 \<or> 97 \<le> n \<and> n \<le> 122)"

text \<open>\<^verbatim>\<open>/^[A-Za-z0-9][A-Za-z0-9<extra>]*$/u\<close>\<close>

definition identifier_pattern :: "string \<Rightarrow> string \<Rightarrow> bool" where
  "identifier_pattern extra s =
     (case s of [] \<Rightarrow> False
      | c # cs \<Rightarrow> is_alnum c \<and> list_all (\<lambda>d. is_alnum d \<or> d \<in> set extra) cs)"

definition adapterIdPattern :: "string \<Rightarrow> bool" where
  "adapterIdPattern s = identifier_pattern ''._/-'' s"

text \<open>\<^verbatim>\<open>(0|[1-9]\d*)\<close>, followed by whatever comes next in the pattern.\<close>

definition version_number :: "string \<Rightarrow> bool" where
  "version_number ds = (ds = ''0'' \<or> (ds \<noteq> [] \<and> hd ds \<noteq> CHR ''0'' \<and> list_all is_digit ds))"

definition version_label :: "string \<Rightarrow> bool" where
  "version_label s = (s \<noteq> [] \<and> list_all (\<lambda>c. is_alnum c \<or> c \<in> set ''.-'') s)"

definition version_tail :: "string \<Rightarrow> bool" where
  "version_tail s =
     (case s of
        [] \<Rightarrow> True
      | c # cs \<Rightarrow>
          if c = CHR ''-'' then
            (let pre = takeWhile (\<lambda>d. d \<noteq> CHR ''+'') cs; rest = dropWhile (\<lambda>d. d \<noteq> CHR ''+'') cs in
             version_label pre \<and> (rest = [] \<or> version_label (tl rest)))
          else c = CHR ''+'' \<and> version_label cs)"

definition semanticVersionPattern :: "string \<Rightarrow> bool" where
  "semanticVersionPattern s =
     (let major = takeWhile is_digit s; r1 = dropWhile is_digit s;
          minor = takeWhile is_digit (tl r1); r2 = dropWhile is_digit (tl r1);
          patch = takeWhile is_digit (tl r2); r3 = dropWhile is_digit (tl r2) in
      version_number major \<and> r1 \<noteq> [] \<and> hd r1 = CHR ''.'' \<and>
      version_number minor \<and> r2 \<noteq> [] \<and> hd r2 = CHR ''.'' \<and>
      version_number patch \<and> version_tail r3)"

section \<open>Records\<close>

record adapter_manifest =
  am_schemaVersion :: int
  am_type :: string
  am_adapterId :: "string option"
  am_version :: string
  am_executionMode :: string

record adapter_health =
  ah_schemaVersion :: int
  ah_type :: string
  ah_adapterId :: "string option"
  ah_state :: string
  ah_code :: string
  ah_checkedAt :: int

record model_entry =
  me_schemaVersion :: int
  me_modelId :: string
  me_revision :: string
  me_adapterType :: string

section \<open>One entry\<close>

definition ADAPTER_EXECUTION_MODES :: "string list" where
  "ADAPTER_EXECUTION_MODES = [''in-process'', ''bounded-process'', ''streaming-gateway'']"

definition validateAdapterManifest :: "jsval \<Rightarrow> string \<Rightarrow> adapter_manifest result" where
  "validateAdapterManifest v name =
     and_then (requireObject v name) (\<lambda>manifest.
     and_then (boundedInteger (js_get manifest ''schemaVersion'') (name @ ''.schemaVersion'') 1 2 None) (\<lambda>schemaVersion.
     and_then (rejectUnknownFields manifest name
       ([''schemaVersion'', ''type'', ''version'', ''executionMode''] @
        (if schemaVersion = 2 then [''adapterId''] else []))) (\<lambda>_.
     and_then (requireString (js_get manifest ''type'') (name @ ''.type'') 100) (\<lambda>type.
     and_then (requireString (js_get manifest ''version'') (name @ ''.version'') 100) (\<lambda>version.
     if \<not> semanticVersionPattern version
     then Inl (ValidationError (name @ ''.version must be a semantic version''))
     else
     and_then (requireString (js_get manifest ''executionMode'') (name @ ''.executionMode'') 50) (\<lambda>executionMode.
     if executionMode \<notin> set ADAPTER_EXECUTION_MODES
     then Inl (ValidationError (name @ ''.executionMode must be one of in-process, bounded-process, streaming-gateway''))
     else if schemaVersion = 1
     then Inr \<lparr>am_schemaVersion = schemaVersion, am_type = type, am_adapterId = None,
                am_version = version, am_executionMode = executionMode\<rparr>
     else
     and_then (requireString (js_get manifest ''adapterId'') (name @ ''.adapterId'') 200) (\<lambda>adapterId.
     if \<not> adapterIdPattern adapterId
     then Inl (ValidationError (name @ ''.adapterId contains unsupported characters''))
     else Inr \<lparr>am_schemaVersion = schemaVersion, am_type = type, am_adapterId = Some adapterId,
                am_version = version, am_executionMode = executionMode\<rparr>)))))))"

definition ADAPTER_HEALTH_STATES :: "string list" where
  "ADAPTER_HEALTH_STATES = [''ready'', ''unavailable'', ''not-installed'']"

definition stateCodes :: "string \<Rightarrow> string option" where
  "stateCodes state =
     map_of [(''ready'', ''ready''), (''unavailable'', ''readiness_probe_failed''),
             (''not-installed'', ''adapter_not_installed'')] state"

definition validateAdapterHealthReport :: "jsval \<Rightarrow> string \<Rightarrow> adapter_health result" where
  "validateAdapterHealthReport v name =
     and_then (requireObject v name) (\<lambda>report.
     and_then (boundedInteger (js_get report ''schemaVersion'') (name @ ''.schemaVersion'') 1 2 None) (\<lambda>schemaVersion.
     and_then (rejectUnknownFields report name
       ([''schemaVersion'', ''type'', ''state'', ''code'', ''checkedAt''] @
        (if schemaVersion = 2 then [''adapterId''] else []))) (\<lambda>_.
     and_then (requireString (js_get report ''type'') (name @ ''.type'') 100) (\<lambda>type.
     and_then (requireString (js_get report ''state'') (name @ ''.state'') 50) (\<lambda>state.
     if state \<notin> set ADAPTER_HEALTH_STATES
     then Inl (ValidationError (name @ ''.state must be one of ready, unavailable, not-installed''))
     else
     and_then (requireString (js_get report ''code'') (name @ ''.code'') 100) (\<lambda>code.
     if stateCodes state \<noteq> Some code
     then Inl (ValidationError (name @ ''.code must be '' @ the (stateCodes state) @ '' for state '' @ state))
     else
     and_then (boundedInteger (js_get report ''checkedAt'') (name @ ''.checkedAt'') 0 max_safe_integer None) (\<lambda>checkedAt.
     if schemaVersion = 1
     then Inr \<lparr>ah_schemaVersion = schemaVersion, ah_type = type, ah_adapterId = None,
                ah_state = state, ah_code = code, ah_checkedAt = checkedAt\<rparr>
     else
     and_then (requireString (js_get report ''adapterId'') (name @ ''.adapterId'') 200) (\<lambda>adapterId.
     if \<not> adapterIdPattern adapterId
     then Inl (ValidationError (name @ ''.adapterId contains unsupported characters''))
     else Inr \<lparr>ah_schemaVersion = schemaVersion, ah_type = type, ah_adapterId = Some adapterId,
                ah_state = state, ah_code = code, ah_checkedAt = checkedAt\<rparr>))))))))"

definition adapterHealthReport :: "string \<Rightarrow> string \<Rightarrow> jsval \<Rightarrow> adapter_health result" where
  "adapterHealthReport type state checkedAt =
     validateAdapterHealthReport
       (JObj [(''schemaVersion'', JInt 1), (''type'', JStr type), (''state'', JStr state),
              (''code'', (case stateCodes state of None \<Rightarrow> JUndefined | Some c \<Rightarrow> JStr c)),
              (''checkedAt'', checkedAt)])
       ''adapterHealth''"

definition requireIdentifier :: "jsval \<Rightarrow> string \<Rightarrow> nat \<Rightarrow> (string \<Rightarrow> bool) \<Rightarrow> string result" where
  "requireIdentifier v name maximum pattern =
     and_then (requireString v name maximum) (\<lambda>r.
     if \<not> pattern r then Inl (ValidationError (name @ '' contains unsupported characters''))
     else Inr r)"

definition validateModelInventoryEntry :: "jsval \<Rightarrow> string \<Rightarrow> model_entry result" where
  "validateModelInventoryEntry v name =
     and_then (requireObject v name) (\<lambda>entry.
     and_then (rejectUnknownFields entry name
       [''schemaVersion'', ''modelId'', ''revision'', ''adapterType'']) (\<lambda>_.
     and_then (boundedInteger (js_get entry ''schemaVersion'') (name @ ''.schemaVersion'') 1 1 None) (\<lambda>schemaVersion.
     and_then (requireIdentifier (js_get entry ''modelId'') (name @ ''.modelId'') 300
       (identifier_pattern ''._/-'')) (\<lambda>modelId.
     and_then (requireIdentifier (js_get entry ''revision'') (name @ ''.revision'') 200
       (identifier_pattern ''._-'')) (\<lambda>revision.
     and_then (requireIdentifier (js_get entry ''adapterType'') (name @ ''.adapterType'') 100
       (identifier_pattern ''._/-'')) (\<lambda>adapterType.
     Inr \<lparr>me_schemaVersion = schemaVersion, me_modelId = modelId,
           me_revision = revision, me_adapterType = adapterType\<rparr>))))))"

section \<open>Whole lists\<close>

text \<open>
  The loops of \<^verbatim>\<open>validateAdapterManifests\<close> and \<^verbatim>\<open>validateAdapterHealth\<close> are the same code over
  manifests and reports: validate the item, refuse a repeated v1 type or v2 adapter id, and
  remember the types of each schema. The three \<^verbatim>\<open>Set\<close>s are lists in insertion order.
\<close>

fun versioned_items ::
  "(jsval \<Rightarrow> string \<Rightarrow> 'a result) \<Rightarrow> ('a \<Rightarrow> int) \<Rightarrow> ('a \<Rightarrow> string) \<Rightarrow> ('a \<Rightarrow> string option) \<Rightarrow>
   string \<Rightarrow> nat \<Rightarrow> jsval list \<Rightarrow> string list \<Rightarrow> string list \<Rightarrow> string option list \<Rightarrow>
   ('a list \<times> string list \<times> string list) result" where
  "versioned_items validate schema type adapter name i [] v1Types v2Types adapterIds =
     Inr ([], v1Types, v2Types)"
| "versioned_items validate schema type adapter name i (item # items) v1Types v2Types adapterIds =
     and_then (validate item (item_name name i)) (\<lambda>m.
     if schema m = 1 then
       if type m \<in> set v1Types
       then Inl (ValidationError (name @ '' contains duplicate type '' @ type m))
       else and_then (versioned_items validate schema type adapter name (Suc i) items
              (v1Types @ [type m]) v2Types adapterIds) (\<lambda>(ms, t1, t2). Inr (m # ms, t1, t2))
     else
       if adapter m \<in> set adapterIds
       then Inl (ValidationError (name @ '' contains duplicate adapterId '' @ the (adapter m)))
       else and_then (versioned_items validate schema type adapter name (Suc i) items
              v1Types (v2Types @ [type m]) (adapterIds @ [adapter m])) (\<lambda>(ms, t1, t2). Inr (m # ms, t1, t2)))"

text \<open>The comparator of both sorts: by type, then by adapter id (\<^verbatim>\<open>""\<close> when absent).\<close>

definition versioned_order ::
  "('a \<Rightarrow> string) \<Rightarrow> ('a \<Rightarrow> string option) \<Rightarrow> (string \<Rightarrow> string \<Rightarrow> int) \<Rightarrow> 'a \<Rightarrow> 'a \<Rightarrow> int" where
  "versioned_order type adapter lc left right =
     or_else (lc (type left) (type right))
       (lc (case adapter left of None \<Rightarrow> [] | Some a \<Rightarrow> a) (case adapter right of None \<Rightarrow> [] | Some a \<Rightarrow> a))"

definition versioned_list ::
  "(jsval \<Rightarrow> string \<Rightarrow> 'a result) \<Rightarrow> ('a \<Rightarrow> int) \<Rightarrow> ('a \<Rightarrow> string) \<Rightarrow> ('a \<Rightarrow> string option) \<Rightarrow>
   (string \<Rightarrow> string \<Rightarrow> int) \<Rightarrow> jsval \<Rightarrow> string \<Rightarrow> 'a list result" where
  "versioned_list validate schema type adapter lc v name =
     (case v of
        JArr items \<Rightarrow>
          if length items > 64
          then Inl (ValidationError (name @ '' must be an array with at most 64 items''))
          else and_then (versioned_items validate schema type adapter name 0 items [] [] [])
            (\<lambda>(ms, v1Types, v2Types).
               case filter (\<lambda>t. t \<in> set v2Types) v1Types of
                 t # _ \<Rightarrow> Inl (ValidationError (name @ '' cannot mix v1 and v2 for type '' @ t))
               | [] \<Rightarrow> Inr (js_sort (versioned_order type adapter lc) ms))
      | _ \<Rightarrow> Inl (ValidationError (name @ '' must be an array with at most 64 items'')))"

definition validateAdapterManifests ::
  "(string \<Rightarrow> string \<Rightarrow> int) \<Rightarrow> jsval \<Rightarrow> string \<Rightarrow> adapter_manifest list result" where
  "validateAdapterManifests lc v name =
     versioned_list validateAdapterManifest am_schemaVersion am_type am_adapterId lc v name"

definition validateAdapterHealth ::
  "(string \<Rightarrow> string \<Rightarrow> int) \<Rightarrow> jsval \<Rightarrow> string \<Rightarrow> adapter_health list result" where
  "validateAdapterHealth lc v name =
     versioned_list validateAdapterHealthReport ah_schemaVersion ah_type ah_adapterId lc v name"

fun inventory_items :: "string \<Rightarrow> nat \<Rightarrow> jsval list \<Rightarrow> string list \<Rightarrow> model_entry list result" where
  "inventory_items name i [] modelIds = Inr []"
| "inventory_items name i (item # items) modelIds =
     and_then (validateModelInventoryEntry item (item_name name i)) (\<lambda>entry.
     if me_modelId entry \<in> set modelIds
     then Inl (ValidationError (name @ '' contains duplicate modelId '' @ me_modelId entry))
     else and_then (inventory_items name (Suc i) items (modelIds @ [me_modelId entry]))
            (\<lambda>es. Inr (entry # es)))"

definition validateModelInventory ::
  "(string \<Rightarrow> string \<Rightarrow> int) \<Rightarrow> jsval \<Rightarrow> string \<Rightarrow> model_entry list result" where
  "validateModelInventory lc v name =
     (case v of
        JArr items \<Rightarrow>
          if length items > 64
          then Inl (ValidationError (name @ '' must be an array with at most 64 items''))
          else and_then (inventory_items name 0 items [])
            (\<lambda>es. Inr (js_sort (\<lambda>left right. lc (me_modelId left) (me_modelId right)) es))
      | _ \<Rightarrow> Inl (ValidationError (name @ '' must be an array with at most 64 items'')))"

section \<open>What the validators accept\<close>

definition valid_manifest :: "adapter_manifest \<Rightarrow> bool" where
  "valid_manifest m \<longleftrightarrow>
     (case am_adapterId m of
        None \<Rightarrow> am_schemaVersion m = 1
      | Some a \<Rightarrow> am_schemaVersion m = 2 \<and> valid_name 200 a \<and> adapterIdPattern a) \<and>
     valid_name 100 (am_type m) \<and> valid_name 100 (am_version m) \<and>
     semanticVersionPattern (am_version m) \<and> am_executionMode m \<in> set ADAPTER_EXECUTION_MODES"

definition manifest_js :: "adapter_manifest \<Rightarrow> jsval" where
  "manifest_js m = JObj
     ([(''schemaVersion'', JInt (am_schemaVersion m)), (''type'', JStr (am_type m))] @
      (case am_adapterId m of None \<Rightarrow> [] | Some a \<Rightarrow> [(''adapterId'', JStr a)]) @
      [(''version'', JStr (am_version m)), (''executionMode'', JStr (am_executionMode m))])"

definition valid_health :: "adapter_health \<Rightarrow> bool" where
  "valid_health h \<longleftrightarrow>
     (case ah_adapterId h of
        None \<Rightarrow> ah_schemaVersion h = 1
      | Some a \<Rightarrow> ah_schemaVersion h = 2 \<and> valid_name 200 a \<and> adapterIdPattern a) \<and>
     valid_name 100 (ah_type h) \<and> ah_state h \<in> set ADAPTER_HEALTH_STATES \<and>
     stateCodes (ah_state h) = Some (ah_code h) \<and>
     0 \<le> ah_checkedAt h \<and> ah_checkedAt h \<le> max_safe_integer"

definition health_js :: "adapter_health \<Rightarrow> jsval" where
  "health_js h = JObj
     ([(''schemaVersion'', JInt (ah_schemaVersion h)), (''type'', JStr (ah_type h))] @
      (case ah_adapterId h of None \<Rightarrow> [] | Some a \<Rightarrow> [(''adapterId'', JStr a)]) @
      [(''state'', JStr (ah_state h)), (''code'', JStr (ah_code h)), (''checkedAt'', JInt (ah_checkedAt h))])"

definition valid_entry :: "model_entry \<Rightarrow> bool" where
  "valid_entry e \<longleftrightarrow>
     me_schemaVersion e = 1 \<and>
     valid_name 300 (me_modelId e) \<and> identifier_pattern ''._/-'' (me_modelId e) \<and>
     valid_name 200 (me_revision e) \<and> identifier_pattern ''._-'' (me_revision e) \<and>
     valid_name 100 (me_adapterType e) \<and> identifier_pattern ''._/-'' (me_adapterType e)"

definition entry_js :: "model_entry \<Rightarrow> jsval" where
  "entry_js e = JObj [(''schemaVersion'', JInt (me_schemaVersion e)), (''modelId'', JStr (me_modelId e)),
     (''revision'', JStr (me_revision e)), (''adapterType'', JStr (me_adapterType e))]"

lemma short_mode: "s \<in> set ADAPTER_EXECUTION_MODES \<Longrightarrow> valid_name 50 s"
  by (auto simp: ADAPTER_EXECUTION_MODES_def valid_name_def trim_def is_js_space_def)

lemma short_state: "s \<in> set ADAPTER_HEALTH_STATES \<Longrightarrow> valid_name 50 s"
  by (auto simp: ADAPTER_HEALTH_STATES_def valid_name_def trim_def is_js_space_def)

lemma short_code: "stateCodes s = Some c \<Longrightarrow> valid_name 100 c"
  by (auto simp: stateCodes_def valid_name_def trim_def is_js_space_def split: if_splits)

lemma validateAdapterManifest_valid:
  "validateAdapterManifest v name = Inr m \<Longrightarrow> valid_manifest m"
  unfolding validateAdapterManifest_def
  by (auto simp: result_simps valid_manifest_def split: if_splits)

lemma validateAdapterManifest_id:
  assumes "valid_manifest m"
  shows "validateAdapterManifest (manifest_js m) name = Inr m"
proof (cases "am_adapterId m")
  case None
  with assms short_mode show ?thesis
    unfolding validateAdapterManifest_def manifest_js_def valid_manifest_def
    by (simp add: requireObject_def boundedInteger_def rejectUnknownFields_def max_safe_integer_def
        requireString_id)
next
  case (Some a)
  with assms short_mode show ?thesis
    unfolding validateAdapterManifest_def manifest_js_def valid_manifest_def
    by (simp add: requireObject_def boundedInteger_def rejectUnknownFields_def max_safe_integer_def
        requireString_id)
qed

lemma validateAdapterHealthReport_valid:
  "validateAdapterHealthReport v name = Inr h \<Longrightarrow> valid_health h"
  unfolding validateAdapterHealthReport_def
  by (auto simp: result_simps valid_health_def split: if_splits)

lemma validateAdapterHealthReport_id:
  assumes h: "valid_health h"
  shows "validateAdapterHealthReport (health_js h) name = Inr h"
proof -
  from h have state: "valid_name 50 (ah_state h)" and code: "valid_name 100 (ah_code h)"
    by (auto simp: valid_health_def short_state short_code)
  show ?thesis
    using h unfolding validateAdapterHealthReport_def health_js_def valid_health_def
    by (cases "ah_adapterId h") (simp_all add: requireObject_def boundedInteger_def
      rejectUnknownFields_def max_safe_integer_def requireString_id [OF state]
      requireString_id [OF code] requireString_id)
qed

lemma validateModelInventoryEntry_valid:
  "validateModelInventoryEntry v name = Inr e \<Longrightarrow> valid_entry e"
  unfolding validateModelInventoryEntry_def requireIdentifier_def
  by (auto simp: result_simps valid_entry_def split: if_splits)

lemma validateModelInventoryEntry_id:
  "valid_entry e \<Longrightarrow> validateModelInventoryEntry (entry_js e) name = Inr e"
  unfolding validateModelInventoryEntry_def requireIdentifier_def entry_js_def valid_entry_def
  by (simp add: requireObject_def boundedInteger_def rejectUnknownFields_def max_safe_integer_def
      requireString_id)

subsection \<open>Identity across the list\<close>

text \<open>
  No v1 type twice, no adapter id twice, no type under both schemas, at most 64 entries.
\<close>

definition versioned_ok ::
  "('a \<Rightarrow> int) \<Rightarrow> ('a \<Rightarrow> string) \<Rightarrow> ('a \<Rightarrow> string option) \<Rightarrow> 'a list \<Rightarrow> bool" where
  "versioned_ok schema type adapter ms \<longleftrightarrow>
     length ms \<le> 64 \<and>
     distinct (map type (filter (\<lambda>m. schema m = 1) ms)) \<and>
     distinct (map adapter (filter (\<lambda>m. schema m \<noteq> 1) ms)) \<and>
     list_all (\<lambda>t. t \<notin> set (map type (filter (\<lambda>m. schema m \<noteq> 1) ms)))
       (map type (filter (\<lambda>m. schema m = 1) ms))"

lemma versioned_order_comparator:
  "comparator lc \<Longrightarrow> comparator (versioned_order type adapter lc)"
  unfolding versioned_order_def
  by (intro comparator_or_else comparator_on [where f = type]
      comparator_on [where f = "\<lambda>m. case adapter m of None \<Rightarrow> [] | Some a \<Rightarrow> a"])

lemma versioned_items_Inr:
  "versioned_items validate schema type adapter name i items v1 v2 ids = Inr (ms, t1, t2) \<Longrightarrow>
   length ms = length items \<and> (\<forall>m \<in> set ms. \<exists>item n. validate item n = Inr m) \<and>
   t1 = v1 @ map type (filter (\<lambda>m. schema m = 1) ms) \<and>
   t2 = v2 @ map type (filter (\<lambda>m. schema m \<noteq> 1) ms) \<and>
   (distinct v1 \<longrightarrow> distinct t1) \<and>
   (distinct ids \<longrightarrow> distinct (ids @ map adapter (filter (\<lambda>m. schema m \<noteq> 1) ms)))"
proof (induction items arbitrary: i v1 v2 ids ms t1 t2)
  case (Cons item items)
  then obtain m where m: "validate item (item_name name i) = Inr m"
    by (auto simp: and_then_Inr)
  show ?case
  proof (cases "schema m = 1")
    case True
    with Cons.prems m obtain ms' where
      rec: "versioned_items validate schema type adapter name (Suc i) items (v1 @ [type m]) v2 ids = Inr (ms', t1, t2)"
      and ms: "ms = m # ms'" and new: "type m \<notin> set v1"
      by (auto simp: and_then_Inr split: if_splits)
    from Cons.IH [OF rec] ms new m True show ?thesis by (force simp: disjoint_iff)
  next
    case False
    with Cons.prems m obtain ms' where
      rec: "versioned_items validate schema type adapter name (Suc i) items v1 (v2 @ [type m]) (ids @ [adapter m]) = Inr (ms', t1, t2)"
      and ms: "ms = m # ms'" and new: "adapter m \<notin> set ids"
      by (auto simp: and_then_Inr split: if_splits)
    from Cons.IH [OF rec] ms new m False show ?thesis by (force simp: disjoint_iff)
  qed
qed simp

lemma versioned_items_id:
  assumes "\<And>m n. m \<in> set ms \<Longrightarrow> validate (js m) n = Inr m"
    and "distinct (v1 @ map type (filter (\<lambda>m. schema m = 1) ms))"
    and "distinct (ids @ map adapter (filter (\<lambda>m. schema m \<noteq> 1) ms))"
  shows "versioned_items validate schema type adapter name i (map js ms) v1 v2 ids =
    Inr (ms, v1 @ map type (filter (\<lambda>m. schema m = 1) ms), v2 @ map type (filter (\<lambda>m. schema m \<noteq> 1) ms))"
  using assms
proof (induction ms arbitrary: i v1 v2 ids)
  case (Cons m ms)
  from Cons.prems(1) have val: "validate (js m) n = Inr m" for n by simp
  show ?case
  proof (cases "schema m = 1")
    case True
    with Cons.prems have "distinct ((v1 @ [type m]) @ map type (filter (\<lambda>m. schema m = 1) ms))"
      and "distinct (ids @ map adapter (filter (\<lambda>m. schema m \<noteq> 1) ms))"
      by auto
    with Cons.IH [of "v1 @ [type m]" ids] Cons.prems True val show ?thesis by simp
  next
    case False
    with Cons.prems have "distinct (v1 @ map type (filter (\<lambda>m. schema m = 1) ms))"
      and "distinct ((ids @ [adapter m]) @ map adapter (filter (\<lambda>m. schema m \<noteq> 1) ms))"
      by auto
    with Cons.IH [of v1 "ids @ [adapter m]"] Cons.prems False val show ?thesis by simp
  qed
qed simp

lemma versioned_ok_mset:
  assumes "mset xs = mset ys"
  shows "versioned_ok schema type adapter xs = versioned_ok schema type adapter ys"
proof -
  have f: "mset (map h (filter P xs)) = mset (map h (filter P ys))" for h :: "'a \<Rightarrow> 'b" and P
    using assms by (metis mset_filter mset_map)
  have g: "mset (map h (filter P xs)) = mset (map h (filter P ys))" for h :: "'a \<Rightarrow> 'c" and P
    using assms by (metis mset_filter mset_map)
  show ?thesis
    unfolding versioned_ok_def list_all_iff
    using mset_eq_imp_distinct_iff [OF f [of type "\<lambda>m. schema m = 1"]]
      mset_eq_imp_distinct_iff [OF g [of adapter "\<lambda>m. schema m \<noteq> 1"]]
      mset_eq_setD [OF f [of type "\<lambda>m. schema m = 1"]]
      mset_eq_setD [OF f [of type "\<lambda>m. schema m \<noteq> 1"]] mset_eq_length [OF assms]
    by metis
qed

lemma versioned_list_Inr:
  assumes "versioned_list validate schema type adapter lc v name = Inr ms" and "comparator lc"
  shows "versioned_ok schema type adapter ms \<and>
    sorted_wrt (\<lambda>a b. versioned_order type adapter lc a b \<le> 0) ms \<and>
    (\<forall>m \<in> set ms. \<exists>item n. validate item n = Inr m)"
proof -
  from assms(1) obtain items where v: "v = JArr items" and len: "length items \<le> 64"
    by (auto simp: versioned_list_def split: jsval.splits if_splits)
  let ?finish = "\<lambda>(us, t1, t2). case filter (\<lambda>t. t \<in> set t2) t1 of
      t # _ \<Rightarrow> Inl (ValidationError (name @ '' cannot mix v1 and v2 for type '' @ t))
    | [] \<Rightarrow> Inr (js_sort (versioned_order type adapter lc) us)"
  from assms(1) v len have "and_then (versioned_items validate schema type adapter name 0 items [] [] []) ?finish = Inr ms"
    by (simp add: versioned_list_def)
  then obtain r where r: "versioned_items validate schema type adapter name 0 items [] [] [] = Inr r"
    and fin: "?finish r = Inr ms"
    unfolding and_then_Inr by blast
  obtain us t1 t2 where eq: "r = (us, t1, t2)" by (rule prod_cases3)
  from r eq have it: "versioned_items validate schema type adapter name 0 items [] [] [] = Inr (us, t1, t2)"
    by simp
  from fin eq have rest: "(case filter (\<lambda>t. t \<in> set t2) t1 of
        t # _ \<Rightarrow> Inl (ValidationError (name @ '' cannot mix v1 and v2 for type '' @ t))
      | [] \<Rightarrow> Inr (js_sort (versioned_order type adapter lc) us)) = Inr ms"
    by simp
  from rest have mix: "filter (\<lambda>t. t \<in> set t2) t1 = []"
    by (cases "filter (\<lambda>t. t \<in> set t2) t1") simp_all
  with rest have ms: "ms = js_sort (versioned_order type adapter lc) us" by simp
  from versioned_items_Inr [OF it] len mix have "versioned_ok schema type adapter us"
    by (auto simp: versioned_ok_def list_all_iff filter_empty_conv)
  moreover have "mset ms = mset us" using ms by simp
  ultimately have "versioned_ok schema type adapter ms"
    using versioned_ok_mset by metis
  moreover have "\<forall>m \<in> set ms. \<exists>item n. validate item n = Inr m"
    using versioned_items_Inr [OF it] ms by simp
  ultimately show ?thesis
    using comparator.sorted_js_sort [OF versioned_order_comparator [OF assms(2)]] ms by auto
qed

lemma versioned_list_sorts:
  assumes "versioned_ok schema type adapter ms" and "\<And>m n. m \<in> set ms \<Longrightarrow> validate (js m) n = Inr m"
  shows "versioned_list validate schema type adapter lc (JArr (map js ms)) name = Inr (js_sort (versioned_order type adapter lc) ms)"
proof -
  have it: "versioned_items validate schema type adapter name 0 (map js ms) [] [] [] =
    Inr (ms, map type (filter (\<lambda>m. schema m = 1) ms), map type (filter (\<lambda>m. schema m \<noteq> 1) ms))"
    using versioned_items_id [OF assms(2), where ?v1.0 = "[]" and ?v2.0 = "[]" and ids = "[]"] assms(1)
    by (simp add: versioned_ok_def)
  moreover have "filter (\<lambda>t. t \<in> set (map type (filter (\<lambda>m. schema m \<noteq> 1) ms)))
      (map type (filter (\<lambda>m. schema m = 1) ms)) = []"
    using assms(1) by (simp add: versioned_ok_def list_all_iff filter_empty_conv)
  ultimately show ?thesis
    using assms(1) by (simp add: versioned_list_def versioned_ok_def)
qed

lemma versioned_list_id:
  assumes "versioned_ok schema type adapter ms" and "comparator lc"
    and "sorted_wrt (\<lambda>a b. versioned_order type adapter lc a b \<le> 0) ms"
    and "\<And>m n. m \<in> set ms \<Longrightarrow> validate (js m) n = Inr m"
  shows "versioned_list validate schema type adapter lc (JArr (map js ms)) name = Inr ms"
  using versioned_list_sorts [OF assms(1,4)] js_sort_id [OF versioned_order_comparator [OF assms(2)] assms(3)] by simp

definition valid_manifests :: "(string \<Rightarrow> string \<Rightarrow> int) \<Rightarrow> adapter_manifest list \<Rightarrow> bool" where
  "valid_manifests lc ms \<longleftrightarrow>
     list_all valid_manifest ms \<and> versioned_ok am_schemaVersion am_type am_adapterId ms \<and>
     sorted_wrt (\<lambda>a b. versioned_order am_type am_adapterId lc a b \<le> 0) ms"

definition valid_healths :: "(string \<Rightarrow> string \<Rightarrow> int) \<Rightarrow> adapter_health list \<Rightarrow> bool" where
  "valid_healths lc hs \<longleftrightarrow>
     list_all valid_health hs \<and> versioned_ok ah_schemaVersion ah_type ah_adapterId hs \<and>
     sorted_wrt (\<lambda>a b. versioned_order ah_type ah_adapterId lc a b \<le> 0) hs"

definition valid_inventory :: "(string \<Rightarrow> string \<Rightarrow> int) \<Rightarrow> model_entry list \<Rightarrow> bool" where
  "valid_inventory lc es \<longleftrightarrow>
     list_all valid_entry es \<and> length es \<le> 64 \<and> distinct (map me_modelId es) \<and>
     sorted_wrt (\<lambda>a b. lc (me_modelId a) (me_modelId b) \<le> 0) es"

lemma validateAdapterManifests_valid:
  "validateAdapterManifests lc v name = Inr ms \<Longrightarrow> comparator lc \<Longrightarrow> valid_manifests lc ms"
  unfolding validateAdapterManifests_def valid_manifests_def list_all_iff
  using versioned_list_Inr validateAdapterManifest_valid by blast

lemma validateAdapterManifests_id:
  "valid_manifests lc ms \<Longrightarrow> comparator lc \<Longrightarrow>
   validateAdapterManifests lc (JArr (map manifest_js ms)) name = Inr ms"
  unfolding validateAdapterManifests_def valid_manifests_def list_all_iff
  by (intro versioned_list_id validateAdapterManifest_id) auto

lemma validateAdapterHealth_valid:
  "validateAdapterHealth lc v name = Inr hs \<Longrightarrow> comparator lc \<Longrightarrow> valid_healths lc hs"
  unfolding validateAdapterHealth_def valid_healths_def list_all_iff
  using versioned_list_Inr validateAdapterHealthReport_valid by blast

lemma validateAdapterHealth_id:
  "valid_healths lc hs \<Longrightarrow> comparator lc \<Longrightarrow>
   validateAdapterHealth lc (JArr (map health_js hs)) name = Inr hs"
  unfolding validateAdapterHealth_def valid_healths_def list_all_iff
  by (intro versioned_list_id validateAdapterHealthReport_id) auto

lemma inventory_items_Inr:
  "inventory_items name i items ids = Inr es \<Longrightarrow>
   length es = length items \<and> list_all valid_entry es \<and>
   (distinct ids \<longrightarrow> distinct (ids @ map me_modelId es))"
proof (induction items arbitrary: i ids es)
  case (Cons item items)
  then obtain e es' where e: "validateModelInventoryEntry item (item_name name i) = Inr e"
    and new: "me_modelId e \<notin> set ids" and es: "es = e # es'"
    and rec: "inventory_items name (Suc i) items (ids @ [me_modelId e]) = Inr es'"
    by (auto simp: and_then_Inr split: if_splits)
  from Cons.IH [OF rec] validateModelInventoryEntry_valid [OF e] new es show ?case
    by (force simp: disjoint_iff)
qed simp

lemma inventory_items_id:
  "list_all valid_entry es \<Longrightarrow> distinct (ids @ map me_modelId es) \<Longrightarrow>
   inventory_items name i (map entry_js es) ids = Inr es"
  by (induction es arbitrary: i ids) (auto simp: validateModelInventoryEntry_id)

lemma validateModelInventory_valid:
  assumes "validateModelInventory lc v name = Inr es" and "comparator lc"
  shows "valid_inventory lc es"
proof -
  from assms(1) obtain items where v: "v = JArr items" and len: "length items \<le> 64"
    by (auto simp: validateModelInventory_def split: jsval.splits if_splits)
  with assms(1) obtain us where it: "inventory_items name 0 items [] = Inr us"
    and es: "es = js_sort (\<lambda>l r. lc (me_modelId l) (me_modelId r)) us"
    by (auto simp: validateModelInventory_def and_then_Inr)
  have "mset (map me_modelId es) = mset (map me_modelId us)" using es by simp
  then have "distinct (map me_modelId es)"
    using inventory_items_Inr [OF it] mset_eq_imp_distinct_iff by (metis append_Nil distinct.simps(1))
  with inventory_items_Inr [OF it] es len show ?thesis
    using comparator.sorted_js_sort [OF comparator_on [OF assms(2), of me_modelId]]
    by (auto simp: valid_inventory_def list_all_iff)
qed

lemma validateModelInventory_id:
  "valid_inventory lc es \<Longrightarrow> comparator lc \<Longrightarrow>
   validateModelInventory lc (JArr (map entry_js es)) name = Inr es"
  using js_sort_id [OF comparator_on [of lc me_modelId], of es]
  by (simp add: validateModelInventory_def valid_inventory_def inventory_items_id)

lemmas adapter_valid = validateAdapterManifests_valid validateAdapterHealth_valid
  validateModelInventory_valid

lemmas adapter_normal = validateAdapterManifests_id validateAdapterHealth_id
  validateModelInventory_id

end
