(* ===== verification/Database.thy ===== *)
theory Database
  imports AdapterContracts
begin

text \<open>
  The tables of \<^verbatim>\<open>src/src/control-plane/database.mjs\<close> and its statements. A row is the record
  that \<^verbatim>\<open>mapWorker\<close>, \<^verbatim>\<open>mapJob\<close>, \<^verbatim>\<open>mapSession\<close> and \<^verbatim>\<open>mapEvent\<close> return: a JSON column holds
  the value that was stored in it, \<^verbatim>\<open>NULL\<close> is \<open>None\<close>. A statement is a function from the
  database to its result and the new database; one that can fail returns a result.
\<close>

section \<open>Rows\<close>

record gpu =
  g_uuid :: string
  g_index :: int
  g_name :: string
  g_memoryTotalMiB :: int
  g_memoryUsedMiB :: int
  g_utilizationPercent :: int
  g_temperatureC :: int
  g_powerDrawWatts :: "rat option"

datatype worker_status = Online | Offline

record worker =
  w_id :: string
  w_name :: string
  w_version :: string
  w_baseUrl :: "string option"
  w_status :: worker_status
  w_drainMode :: bool
  w_labels :: "(string \<times> string) list"
  w_capabilities :: "string list"
  w_adapterManifests :: "adapter_manifest list"
  w_adapterHealth :: "adapter_health list"
  w_warmModels :: "string list"
  w_modelInventory :: "model_entry list"
  w_gpus :: "gpu list"
  w_lastSeenAt :: int
  w_createdAt :: int
  w_updatedAt :: int

text \<open>
  \<^verbatim>\<open>constraints\<close> of a job and \<^verbatim>\<open>requirements\<close> of a session; a job names no adapter.
\<close>

record requirements =
  rq_gpuCount :: int
  rq_minVramMiB :: int
  rq_capabilities :: "string list"
  rq_model :: "string option"
  rq_adapter :: "string option"

datatype job_status = Queued | Leased | Running | Succeeded | Failed | Cancelled

record job =
  j_id :: string
  j_projectId :: string
  j_type :: string
  j_priority :: int
  j_status :: job_status
  j_constraints :: requirements
  j_payload :: jsval
  j_result :: "jsval option"
  j_error :: "jsval option"
  j_assignedWorkerId :: "string option"
  j_assignedGpuUuid :: "string option"
  j_leaseId :: "string option"
  j_leaseExpiresAt :: "int option"
  j_attempt :: int
  j_maxAttempts :: int
  j_idempotencyKey :: "string option"
  j_createdAt :: int
  j_updatedAt :: int

datatype session_status = Requested | Allocated | Connecting | Active | Interrupted | Closed

record session =
  s_id :: string
  s_schemaVersion :: int
  s_projectId :: string
  s_capability :: string
  s_priority :: int
  s_status :: session_status
  s_requirements :: requirements
  s_metadata :: jsval
  s_maxInterruptions :: int
  s_interruptionCount :: int
  s_assignedWorkerId :: "string option"
  s_assignedGpuUuid :: "string option"
  s_leaseId :: "string option"
  s_leaseExpiresAt :: "int option"
  s_idempotencyKey :: "string option"
  s_createdAt :: int
  s_updatedAt :: int

record event =
  ev_sequence :: int
  ev_type :: string
  ev_subjectId :: string
  ev_payload :: jsval
  ev_createdAt :: int

datatype subject_kind = JobSubject | SessionSubject

datatype fence_state =
    FenceClear | FenceAllocated | FenceReserved | FenceRunning | FenceCleanupRequired | FenceQuarantined

record fence =
  f_workerId :: string
  f_gpuUuid :: string
  f_epoch :: int
  f_safetyState :: fence_state
  f_subjectKind :: "subject_kind option"
  f_subjectId :: "string option"
  f_leaseId :: "string option"
  f_attemptId :: "string option"
  f_updatedAt :: int

datatype attempt_status =
    AttemptReserved | AttemptPreparing | AttemptRunning | AttemptStopping | AttemptTerminated
  | AttemptCleanupRequired | AttemptQuarantined

record attempt =
  a_attemptId :: string
  a_subjectKind :: subject_kind
  a_subjectId :: string
  a_projectId :: string
  a_leaseId :: string
  a_workerId :: string
  a_gpuUuid :: string
  a_fenceEpoch :: int
  a_artifactDigest :: string
  a_adapterIdentity :: string
  a_runtimePolicyRevision :: string
  a_approvalRef :: string
  a_status :: attempt_status
  a_createdAt :: int
  a_updatedAt :: int

text \<open>\<open>db_lastSequence\<close> is the AUTOINCREMENT counter that SQLite keeps for \<^verbatim>\<open>events\<close>.\<close>

record db =
  db_workers :: "worker list"
  db_jobs :: "job list"
  db_sessions :: "session list"
  db_events :: "event list"
  db_lastSequence :: int
  db_fences :: "fence list"
  db_attempts :: "attempt list"

definition empty_db :: db where
  "empty_db = \<lparr>db_workers = [], db_jobs = [], db_sessions = [], db_events = [],
     db_lastSequence = 0, db_fences = [], db_attempts = []\<rparr>"

section \<open>Arguments of the inserts\<close>

record worker_input =
  wi_id :: string
  wi_name :: string
  wi_version :: string
  wi_baseUrl :: "string option"
  wi_labels :: "(string \<times> string) list"
  wi_capabilities :: "string list"
  wi_adapterManifests :: "adapter_manifest list"
  wi_adapterHealth :: "adapter_health list"
  wi_warmModels :: "string list"
  wi_modelInventory :: "model_entry list"
  wi_gpus :: "gpu list"
  wi_now :: int

record heartbeat_input =
  hi_capabilities :: "string list"
  hi_adapterManifests :: "adapter_manifest list"
  hi_adapterHealth :: "adapter_health list"
  hi_warmModels :: "string list"
  hi_modelInventory :: "model_entry list"
  hi_gpus :: "gpu list"
  hi_now :: int

record job_input =
  ji_id :: string
  ji_projectId :: string
  ji_type :: string
  ji_priority :: int
  ji_gpuCount :: int
  ji_minVramMiB :: int
  ji_requiredCapabilities :: "string list"
  ji_requestedModel :: "string option"
  ji_payload :: jsval
  ji_maxAttempts :: int
  ji_idempotencyKey :: "string option"
  ji_now :: int

record session_input =
  si_id :: string
  si_schemaVersion :: int
  si_projectId :: string
  si_capability :: string
  si_priority :: int
  si_requirements :: requirements
  si_metadata :: jsval
  si_maxInterruptions :: int
  si_idempotencyKey :: "string option"
  si_now :: int

record placement =
  p_workerId :: string
  p_gpuUuid :: string

section \<open>Transactions\<close>

text \<open>
  \<^verbatim>\<open>BEGIN IMMEDIATE\<close>, the callback, \<^verbatim>\<open>COMMIT\<close>; an exception rolls everything back. The
  queue of \<^verbatim>\<open>SqlitePersistence\<close> runs one transaction at a time.
\<close>

definition transaction :: "(db \<Rightarrow> ('a \<times> db) result) \<Rightarrow> db \<Rightarrow> 'a result \<times> db" where
  "transaction callback d =
     (case callback d of
        Inl e \<Rightarrow> (Inl e, d)
      | Inr (r, d') \<Rightarrow> (Inr r, d'))"

section \<open>Workers\<close>

definition upsertWorker :: "worker_input \<Rightarrow> db \<Rightarrow> (worker \<times> db) result" where
  "upsertWorker i d =
     (if list_ex (\<lambda>w. w_name w = wi_name i) (db_workers d) then
        (let (rows, updated) = sql_update (\<lambda>w. w_name w = wi_name i)
               (\<lambda>w. w\<lparr>w_version := wi_version i, w_baseUrl := wi_baseUrl i, w_status := Online,
                      w_labels := wi_labels i, w_capabilities := wi_capabilities i,
                      w_adapterManifests := wi_adapterManifests i, w_adapterHealth := wi_adapterHealth i,
                      w_warmModels := wi_warmModels i, w_modelInventory := wi_modelInventory i,
                      w_gpus := wi_gpus i, w_lastSeenAt := wi_now i, w_updatedAt := wi_now i\<rparr>)
               (db_workers d) in
         case updated of
           [] \<Rightarrow> Inl (DatabaseError ''no row returned'')
         | w # _ \<Rightarrow> Inr (w, d\<lparr>db_workers := rows\<rparr>))
      else if list_ex (\<lambda>w. w_id w = wi_id i) (db_workers d)
      then Inl (DatabaseError ''UNIQUE constraint failed: workers.id'')
      else
        (let w = \<lparr>w_id = wi_id i, w_name = wi_name i, w_version = wi_version i, w_baseUrl = wi_baseUrl i,
                  w_status = Online, w_drainMode = False, w_labels = wi_labels i,
                  w_capabilities = wi_capabilities i, w_adapterManifests = wi_adapterManifests i,
                  w_adapterHealth = wi_adapterHealth i, w_warmModels = wi_warmModels i,
                  w_modelInventory = wi_modelInventory i, w_gpus = wi_gpus i,
                  w_lastSeenAt = wi_now i, w_createdAt = wi_now i, w_updatedAt = wi_now i\<rparr> in
         Inr (w, d\<lparr>db_workers := db_workers d @ [w]\<rparr>)))"

definition updateWorkerHeartbeat :: "string \<Rightarrow> heartbeat_input \<Rightarrow> db \<Rightarrow> worker option \<times> db" where
  "updateWorkerHeartbeat workerId h d =
     (let (rows, updated) = sql_update (\<lambda>w. w_id w = workerId)
            (\<lambda>w. w\<lparr>w_status := Online, w_capabilities := hi_capabilities h,
                   w_adapterManifests := hi_adapterManifests h, w_adapterHealth := hi_adapterHealth h,
                   w_warmModels := hi_warmModels h, w_modelInventory := hi_modelInventory h,
                   w_gpus := hi_gpus h, w_lastSeenAt := hi_now h, w_updatedAt := hi_now h\<rparr>)
            (db_workers d) in
      (sql_get updated, d\<lparr>db_workers := rows\<rparr>))"

definition setWorkerDrain_row :: "string \<Rightarrow> bool \<Rightarrow> int \<Rightarrow> db \<Rightarrow> worker option \<times> db" where
  "setWorkerDrain_row workerId drainMode now d =
     (let (rows, updated) = sql_update (\<lambda>w. w_id w = workerId)
            (\<lambda>w. w\<lparr>w_drainMode := drainMode, w_updatedAt := now\<rparr>) (db_workers d) in
      (sql_get updated, d\<lparr>db_workers := rows\<rparr>))"

definition listWorkers :: "db \<Rightarrow> worker list" where
  "listWorkers d = js_sort (\<lambda>a b. str_cmp (w_name a) (w_name b)) (db_workers d)"

definition getWorker :: "string \<Rightarrow> db \<Rightarrow> worker option" where
  "getWorker workerId d = sql_get (filter (\<lambda>w. w_id w = workerId) (db_workers d))"

definition markStaleWorkersOffline :: "int \<Rightarrow> int \<Rightarrow> db \<Rightarrow> string list \<times> db" where
  "markStaleWorkersOffline staleBefore now d =
     (let (rows, updated) = sql_update (\<lambda>w. w_status w = Online \<and> w_lastSeenAt w < staleBefore)
            (\<lambda>w. w\<lparr>w_status := Offline, w_updatedAt := now\<rparr>) (db_workers d) in
      (map w_id updated, d\<lparr>db_workers := rows\<rparr>))"

section \<open>Jobs\<close>

definition job_active :: "job \<Rightarrow> bool" where
  "job_active j = (j_status j \<in> {Leased, Running})"

definition job_status_name :: "job_status \<Rightarrow> string" where
  "job_status_name s =
     (case s of Queued \<Rightarrow> ''queued'' | Leased \<Rightarrow> ''leased'' | Running \<Rightarrow> ''running''
      | Succeeded \<Rightarrow> ''succeeded'' | Failed \<Rightarrow> ''failed'' | Cancelled \<Rightarrow> ''cancelled'')"

definition insertJob :: "job_input \<Rightarrow> db \<Rightarrow> ((job \<times> bool) \<times> db) result" where
  "insertJob i d =
     (if list_ex (\<lambda>j. j_id j = ji_id i) (db_jobs d) \<or>
         (ji_idempotencyKey i \<noteq> None \<and>
          list_ex (\<lambda>j. j_projectId j = ji_projectId i \<and> j_idempotencyKey j = ji_idempotencyKey i) (db_jobs d))
      then
        (case ji_idempotencyKey i of
           Some (_ # _) \<Rightarrow>
             (case sql_get (filter (\<lambda>j. j_projectId j = ji_projectId i \<and>
                     j_idempotencyKey j = ji_idempotencyKey i) (db_jobs d)) of
                Some j \<Rightarrow> Inr ((j, True), d)
              | None \<Rightarrow> Inl (TypeError ''Cannot read properties of undefined''))
         | _ \<Rightarrow> Inl (DatabaseError ''UNIQUE constraint failed''))
      else
        (let j = \<lparr>j_id = ji_id i, j_projectId = ji_projectId i, j_type = ji_type i,
                  j_priority = ji_priority i, j_status = Queued,
                  j_constraints = \<lparr>rq_gpuCount = 1, rq_minVramMiB = ji_minVramMiB i,
                    rq_capabilities = ji_requiredCapabilities i, rq_model = ji_requestedModel i,
                    rq_adapter = None\<rparr>,
                  j_payload = ji_payload i, j_result = None, j_error = None,
                  j_assignedWorkerId = None, j_assignedGpuUuid = None,
                  j_leaseId = None, j_leaseExpiresAt = None,
                  j_attempt = 0, j_maxAttempts = ji_maxAttempts i,
                  j_idempotencyKey = ji_idempotencyKey i,
                  j_createdAt = ji_now i, j_updatedAt = ji_now i\<rparr> in
         Inr ((j, False), d\<lparr>db_jobs := db_jobs d @ [j]\<rparr>)))"

definition getJob :: "string \<Rightarrow> db \<Rightarrow> job option" where
  "getJob jobId d = sql_get (filter (\<lambda>j. j_id j = jobId) (db_jobs d))"

definition sql_limit :: "int \<Rightarrow> 'a list \<Rightarrow> 'a list" where
  "sql_limit n rows = (if n < 0 then rows else take (nat n) rows)"

definition listJobs :: "string option \<Rightarrow> string option \<Rightarrow> int \<Rightarrow> db \<Rightarrow> job list" where
  "listJobs status workerId limit d =
     sql_limit limit (js_sort (\<lambda>a b. j_createdAt b - j_createdAt a)
       (filter (\<lambda>j. (case status of None \<Rightarrow> True | Some s \<Rightarrow> s = [] \<or> job_status_name (j_status j) = s) \<and>
                    (case workerId of None \<Rightarrow> True | Some w \<Rightarrow> w = [] \<or> j_assignedWorkerId j = Some w))
         (db_jobs d)))"

definition listQueuedJobs :: "db \<Rightarrow> job list" where
  "listQueuedJobs d =
     js_sort (\<lambda>a b. or_else (j_priority b - j_priority a)
                (or_else (j_createdAt a - j_createdAt b) (str_cmp (j_id a) (j_id b))))
       (filter (\<lambda>j. j_status j = Queued) (db_jobs d))"

definition listBlockedGpuResources :: "db \<Rightarrow> (string \<times> string) list" where
  "listBlockedGpuResources d =
     map (\<lambda>f. (f_workerId f, f_gpuUuid f))
       (js_sort (\<lambda>a b. or_else (str_cmp (f_workerId a) (f_workerId b)) (str_cmp (f_gpuUuid a) (f_gpuUuid b)))
         (filter (\<lambda>f. f_safetyState f \<noteq> FenceClear) (db_fences d)))"

definition listActiveJobs :: "db \<Rightarrow> job list" where
  "listActiveJobs d = filter job_active (db_jobs d)"

text \<open>\<^verbatim>\<open>lease_expires_at > now\<close>, false on \<^verbatim>\<open>NULL\<close>.\<close>

definition lease_valid :: "int option \<Rightarrow> int \<Rightarrow> bool" where
  "lease_valid expires now = (case expires of None \<Rightarrow> False | Some e \<Rightarrow> e > now)"

text \<open>
  \<^verbatim>\<open>assigned_worker_id\<close> is a foreign key: the statement fails when it would store the id of
  a worker that does not exist.
\<close>

definition assignJob :: "string \<Rightarrow> 'p placement_scheme \<Rightarrow> string \<Rightarrow> int \<Rightarrow> int \<Rightarrow> db \<Rightarrow> (job option \<times> db) result" where
  "assignJob jobId p leaseId leaseExpiresAt now d =
     (let (rows, updated) = sql_update (\<lambda>j. j_id j = jobId \<and> j_status j = Queued)
            (\<lambda>j. j\<lparr>j_status := Leased, j_assignedWorkerId := Some (p_workerId p),
                   j_assignedGpuUuid := Some (p_gpuUuid p), j_leaseId := Some leaseId,
                   j_leaseExpiresAt := Some leaseExpiresAt, j_attempt := j_attempt j + 1,
                   j_updatedAt := now\<rparr>)
            (db_jobs d) in
      if updated \<noteq> [] \<and> \<not> list_ex (\<lambda>w. w_id w = p_workerId p) (db_workers d)
      then Inl (DatabaseError ''FOREIGN KEY constraint failed'')
      else Inr (sql_get updated, d\<lparr>db_jobs := rows\<rparr>))"

definition startJob_row :: "string \<Rightarrow> string \<Rightarrow> string \<Rightarrow> int \<Rightarrow> int \<Rightarrow> db \<Rightarrow> job option \<times> db" where
  "startJob_row jobId workerId leaseId leaseExpiresAt now d =
     (let (rows, updated) = sql_update
            (\<lambda>j. j_id j = jobId \<and> j_status j = Leased \<and> j_assignedWorkerId j = Some workerId \<and>
                 j_leaseId j = Some leaseId \<and> lease_valid (j_leaseExpiresAt j) now)
            (\<lambda>j. j\<lparr>j_status := Running, j_leaseExpiresAt := Some leaseExpiresAt, j_updatedAt := now\<rparr>)
            (db_jobs d) in
      (sql_get updated, d\<lparr>db_jobs := rows\<rparr>))"

definition renewJob_row :: "string \<Rightarrow> string \<Rightarrow> string \<Rightarrow> int \<Rightarrow> int \<Rightarrow> db \<Rightarrow> job option \<times> db" where
  "renewJob_row jobId workerId leaseId leaseExpiresAt now d =
     (let (rows, updated) = sql_update
            (\<lambda>j. j_id j = jobId \<and> j_status j = Running \<and> j_assignedWorkerId j = Some workerId \<and>
                 j_leaseId j = Some leaseId \<and> lease_valid (j_leaseExpiresAt j) now)
            (\<lambda>j. j\<lparr>j_leaseExpiresAt := Some leaseExpiresAt, j_updatedAt := now\<rparr>)
            (db_jobs d) in
      (sql_get updated, d\<lparr>db_jobs := rows\<rparr>))"

definition finishJob_row ::
  "string \<Rightarrow> string \<Rightarrow> string \<Rightarrow> job_status \<Rightarrow> jsval \<Rightarrow> jsval \<Rightarrow> int \<Rightarrow> db \<Rightarrow> job option \<times> db" where
  "finishJob_row jobId workerId leaseId status jobResult err now d =
     (let (rows, updated) = sql_update
            (\<lambda>j. j_id j = jobId \<and> j_status j \<in> {Leased, Running} \<and> j_assignedWorkerId j = Some workerId \<and>
                 j_leaseId j = Some leaseId \<and> lease_valid (j_leaseExpiresAt j) now)
            (\<lambda>j. j\<lparr>j_status := status,
                   j_result := (if jobResult = JNull then None else Some jobResult),
                   j_error := (if err = JNull then None else Some err),
                   j_leaseExpiresAt := None, j_updatedAt := now\<rparr>)
            (db_jobs d) in
      (sql_get updated, d\<lparr>db_jobs := rows\<rparr>))"

definition cancelJob_row :: "string \<Rightarrow> int \<Rightarrow> db \<Rightarrow> job option \<times> db" where
  "cancelJob_row jobId now d =
     (let (rows, updated) = sql_update
            (\<lambda>j. j_id j = jobId \<and> j_status j \<in> {Queued, Leased, Running})
            (\<lambda>j. j\<lparr>j_status := Cancelled, j_leaseExpiresAt := None, j_updatedAt := now\<rparr>)
            (db_jobs d) in
      (sql_get updated, d\<lparr>db_jobs := rows\<rparr>))"

definition job_expired :: "int \<Rightarrow> string list \<Rightarrow> job \<Rightarrow> bool" where
  "job_expired now offline j =
     ((case j_leaseExpiresAt j of None \<Rightarrow> False | Some e \<Rightarrow> e \<le> now) \<or>
      (case j_assignedWorkerId j of None \<Rightarrow> False | Some w \<Rightarrow> w \<in> set offline))"

definition job_recovery_reason :: "string list \<Rightarrow> job \<Rightarrow> string" where
  "job_recovery_reason offline j =
     (if (case j_assignedWorkerId j of None \<Rightarrow> False | Some w \<Rightarrow> w \<in> set offline)
      then ''heartbeat_timeout'' else ''lease_expired'')"

fun recoverJobs :: "int \<Rightarrow> string list \<Rightarrow> job list \<Rightarrow> db \<Rightarrow> (job \<times> string) list \<times> db" where
  "recoverJobs now offline [] d = ([], d)"
| "recoverJobs now offline (job # rest) d =
     (let terminal = (j_attempt job \<ge> j_maxAttempts job);
          status = (if terminal then Failed else Queued);
          err = (if terminal
                 then Some (JObj [(''code'', JStr ''lease_exhausted''),
                                  (''message'', JStr ''Job exhausted its execution attempts'')])
                 else None);
          (rows, updated) = sql_update (\<lambda>j. j_id j = j_id job \<and> j_status j \<in> {Leased, Running})
            (\<lambda>j. j\<lparr>j_status := status, j_assignedWorkerId := None, j_assignedGpuUuid := None,
                   j_leaseId := None, j_leaseExpiresAt := None, j_error := err, j_updatedAt := now\<rparr>)
            (db_jobs d);
          (recovered, d') = recoverJobs now offline rest (d\<lparr>db_jobs := rows\<rparr>) in
      case sql_get updated of
        Some row \<Rightarrow> ((row, job_recovery_reason offline job) # recovered, d')
      | None \<Rightarrow> (recovered, d'))"

definition recoverExpiredJobs :: "int \<Rightarrow> string list \<Rightarrow> db \<Rightarrow> (job \<times> string) list \<times> db" where
  "recoverExpiredJobs now offline d =
     recoverJobs now offline (filter (job_expired now offline) (listActiveJobs d)) d"

section \<open>Sessions\<close>

definition session_occupying :: "session \<Rightarrow> bool" where
  "session_occupying s = (s_status s \<in> {Allocated, Connecting, Active})"

definition session_status_name :: "session_status \<Rightarrow> string" where
  "session_status_name s =
     (case s of Requested \<Rightarrow> ''requested'' | Allocated \<Rightarrow> ''allocated'' | Connecting \<Rightarrow> ''connecting''
      | Active \<Rightarrow> ''active'' | Interrupted \<Rightarrow> ''interrupted'' | Closed \<Rightarrow> ''closed'')"

text \<open>The CHECK constraints of the table on the values an insert supplies.\<close>

definition session_checks :: "session_input \<Rightarrow> bool" where
  "session_checks i =
     (si_schemaVersion i = 1 \<and> rq_minVramMiB (si_requirements i) \<ge> 0 \<and>
      si_maxInterruptions i \<ge> 0 \<and> si_maxInterruptions i \<le> 3)"

definition insertSession :: "session_input \<Rightarrow> db \<Rightarrow> ((session \<times> bool) \<times> db) result" where
  "insertSession i d =
     (if \<not> session_checks i then Inl (DatabaseError ''CHECK constraint failed'')
      else if list_ex (\<lambda>s. s_id s = si_id i) (db_sessions d) \<or>
         (si_idempotencyKey i \<noteq> None \<and>
          list_ex (\<lambda>s. s_projectId s = si_projectId i \<and> s_idempotencyKey s = si_idempotencyKey i) (db_sessions d))
      then
        (case si_idempotencyKey i of
           Some (_ # _) \<Rightarrow>
             (case sql_get (filter (\<lambda>s. s_projectId s = si_projectId i \<and>
                     s_idempotencyKey s = si_idempotencyKey i) (db_sessions d)) of
                Some s \<Rightarrow> Inr ((s, True), d)
              | None \<Rightarrow> Inl (TypeError ''Cannot read properties of undefined''))
         | _ \<Rightarrow> Inl (DatabaseError ''UNIQUE constraint failed''))
      else
        (let s = \<lparr>s_id = si_id i, s_schemaVersion = si_schemaVersion i, s_projectId = si_projectId i,
                  s_capability = si_capability i, s_priority = si_priority i, s_status = Requested,
                  s_requirements = \<lparr>rq_gpuCount = 1,
                    rq_minVramMiB = rq_minVramMiB (si_requirements i),
                    rq_capabilities = rq_capabilities (si_requirements i),
                    rq_model = rq_model (si_requirements i),
                    rq_adapter = rq_adapter (si_requirements i)\<rparr>,
                  s_metadata = si_metadata i, s_maxInterruptions = si_maxInterruptions i,
                  s_interruptionCount = 0,
                  s_assignedWorkerId = None, s_assignedGpuUuid = None,
                  s_leaseId = None, s_leaseExpiresAt = None,
                  s_idempotencyKey = si_idempotencyKey i,
                  s_createdAt = si_now i, s_updatedAt = si_now i\<rparr> in
         Inr ((s, False), d\<lparr>db_sessions := db_sessions d @ [s]\<rparr>)))"

definition getSession :: "string \<Rightarrow> db \<Rightarrow> session option" where
  "getSession sessionId d = sql_get (filter (\<lambda>s. s_id s = sessionId) (db_sessions d))"

definition listSessions :: "string option \<Rightarrow> string option \<Rightarrow> int \<Rightarrow> db \<Rightarrow> session list" where
  "listSessions status workerId limit d =
     sql_limit limit (js_sort (\<lambda>a b. or_else (s_createdAt b - s_createdAt a) (str_cmp (s_id a) (s_id b)))
       (filter (\<lambda>s. (case status of None \<Rightarrow> True | Some t \<Rightarrow> t = [] \<or> session_status_name (s_status s) = t) \<and>
                    (case workerId of None \<Rightarrow> True | Some w \<Rightarrow> w = [] \<or> s_assignedWorkerId s = Some w))
         (db_sessions d)))"

definition listRequestedSessions :: "db \<Rightarrow> session list" where
  "listRequestedSessions d =
     js_sort (\<lambda>a b. or_else (s_priority b - s_priority a)
                (or_else (s_createdAt a - s_createdAt b) (str_cmp (s_id a) (s_id b))))
       (filter (\<lambda>s. s_status s = Requested) (db_sessions d))"

definition listOccupyingSessions :: "db \<Rightarrow> session list" where
  "listOccupyingSessions d =
     js_sort (\<lambda>a b. or_else (s_createdAt a - s_createdAt b) (str_cmp (s_id a) (s_id b)))
       (filter session_occupying (db_sessions d))"

definition assignSession ::
  "string \<Rightarrow> 'p placement_scheme \<Rightarrow> string \<Rightarrow> int \<Rightarrow> int \<Rightarrow> db \<Rightarrow> (session option \<times> db) result" where
  "assignSession sessionId p leaseId leaseExpiresAt now d =
     (let (rows, updated) = sql_update (\<lambda>s. s_id s = sessionId \<and> s_status s = Requested)
            (\<lambda>s. s\<lparr>s_status := Allocated, s_assignedWorkerId := Some (p_workerId p),
                   s_assignedGpuUuid := Some (p_gpuUuid p), s_leaseId := Some leaseId,
                   s_leaseExpiresAt := Some leaseExpiresAt, s_updatedAt := now\<rparr>)
            (db_sessions d) in
      if updated \<noteq> [] \<and> \<not> list_ex (\<lambda>w. w_id w = p_workerId p) (db_workers d)
      then Inl (DatabaseError ''FOREIGN KEY constraint failed'')
      else Inr (sql_get updated, d\<lparr>db_sessions := rows\<rparr>))"

text \<open>The condition of the lease-fenced session statements, from the given states.\<close>

definition session_lease_matches ::
  "session_status set \<Rightarrow> string \<Rightarrow> string \<Rightarrow> string \<Rightarrow> int \<Rightarrow> session \<Rightarrow> bool" where
  "session_lease_matches states sessionId workerId leaseId now s =
     (s_id s = sessionId \<and> s_status s \<in> states \<and> s_assignedWorkerId s = Some workerId \<and>
      s_leaseId s = Some leaseId \<and> lease_valid (s_leaseExpiresAt s) now)"

definition startSession_row ::
  "string \<Rightarrow> string \<Rightarrow> string \<Rightarrow> int \<Rightarrow> int \<Rightarrow> db \<Rightarrow> session option \<times> db" where
  "startSession_row sessionId workerId leaseId leaseExpiresAt now d =
     (let (rows, updated) = sql_update
            (session_lease_matches {Allocated} sessionId workerId leaseId now)
            (\<lambda>s. s\<lparr>s_status := Connecting, s_leaseExpiresAt := Some leaseExpiresAt, s_updatedAt := now\<rparr>)
            (db_sessions d) in
      (sql_get updated, d\<lparr>db_sessions := rows\<rparr>))"

definition activateSession_row ::
  "string \<Rightarrow> string \<Rightarrow> string \<Rightarrow> int \<Rightarrow> int \<Rightarrow> db \<Rightarrow> session option \<times> db" where
  "activateSession_row sessionId workerId leaseId leaseExpiresAt now d =
     (let (rows, updated) = sql_update
            (session_lease_matches {Connecting} sessionId workerId leaseId now)
            (\<lambda>s. s\<lparr>s_status := Active, s_leaseExpiresAt := Some leaseExpiresAt, s_updatedAt := now\<rparr>)
            (db_sessions d) in
      (sql_get updated, d\<lparr>db_sessions := rows\<rparr>))"

definition renewSession_row ::
  "string \<Rightarrow> string \<Rightarrow> string \<Rightarrow> int \<Rightarrow> int \<Rightarrow> db \<Rightarrow> session option \<times> db" where
  "renewSession_row sessionId workerId leaseId leaseExpiresAt now d =
     (let (rows, updated) = sql_update
            (session_lease_matches {Allocated, Connecting, Active} sessionId workerId leaseId now)
            (\<lambda>s. s\<lparr>s_leaseExpiresAt := Some leaseExpiresAt, s_updatedAt := now\<rparr>)
            (db_sessions d) in
      (sql_get updated, d\<lparr>db_sessions := rows\<rparr>))"

definition closeSession_row :: "string \<Rightarrow> int \<Rightarrow> db \<Rightarrow> session option \<times> db" where
  "closeSession_row sessionId now d =
     (let (rows, updated) = sql_update
            (\<lambda>s. s_id s = sessionId \<and> s_status s \<in> {Requested, Allocated, Connecting, Active})
            (\<lambda>s. s\<lparr>s_status := Closed, s_assignedWorkerId := None, s_assignedGpuUuid := None,
                   s_leaseId := None, s_leaseExpiresAt := None, s_updatedAt := now\<rparr>)
            (db_sessions d) in
      (sql_get updated, d\<lparr>db_sessions := rows\<rparr>))"

definition session_expired :: "int \<Rightarrow> string list \<Rightarrow> session \<Rightarrow> bool" where
  "session_expired now offline s =
     ((case s_leaseExpiresAt s of None \<Rightarrow> False | Some e \<Rightarrow> e \<le> now) \<or>
      (case s_assignedWorkerId s of None \<Rightarrow> False | Some w \<Rightarrow> w \<in> set offline))"

definition session_recovery_reason :: "string list \<Rightarrow> session \<Rightarrow> string" where
  "session_recovery_reason offline s =
     (if (case s_assignedWorkerId s of None \<Rightarrow> False | Some w \<Rightarrow> w \<in> set offline)
      then ''heartbeat_timeout'' else ''lease_expired'')"

fun recoverSessions ::
  "int \<Rightarrow> string list \<Rightarrow> session list \<Rightarrow> db \<Rightarrow> (session \<times> string \<times> session_status) list \<times> db" where
  "recoverSessions now offline [] d = ([], d)"
| "recoverSessions now offline (session # rest) d =
     (let interruptionCount = s_interruptionCount session + 1;
          replacementAllowed = (interruptionCount \<le> s_maxInterruptions session);
          status = (if replacementAllowed then Requested else Interrupted);
          (rows, updated) = sql_update
            (\<lambda>s. s_id s = s_id session \<and> s_status s \<in> {Allocated, Connecting, Active})
            (\<lambda>s. s\<lparr>s_status := status, s_interruptionCount := interruptionCount,
                   s_assignedWorkerId := None, s_assignedGpuUuid := None, s_leaseId := None,
                   s_leaseExpiresAt := None, s_updatedAt := now\<rparr>)
            (db_sessions d);
          (recovered, d') = recoverSessions now offline rest (d\<lparr>db_sessions := rows\<rparr>) in
      case sql_get updated of
        Some row \<Rightarrow> ((row, session_recovery_reason offline session, s_status session) # recovered, d')
      | None \<Rightarrow> (recovered, d'))"

definition recoverInterruptedSessions ::
  "int \<Rightarrow> string list \<Rightarrow> db \<Rightarrow> (session \<times> string \<times> session_status) list \<times> db" where
  "recoverInterruptedSessions now offline d =
     recoverSessions now offline (filter (session_expired now offline) (listOccupyingSessions d)) d"

section \<open>Events\<close>

text \<open>\<^verbatim>\<open>MAX(column)\<close>, \<^verbatim>\<open>NULL\<close> on no rows.\<close>

fun sql_max :: "int list \<Rightarrow> int option" where
  "sql_max [] = None"
| "sql_max (x # xs) = Some (case sql_max xs of None \<Rightarrow> x | Some y \<Rightarrow> max x y)"

definition event_retention :: int where
  "event_retention = 10000"

definition appendEvent :: "string \<Rightarrow> string \<Rightarrow> jsval \<Rightarrow> int \<Rightarrow> db \<Rightarrow> event \<times> db" where
  "appendEvent type subjectId payload now d =
     (let row = \<lparr>ev_sequence = db_lastSequence d + 1, ev_type = type, ev_subjectId = subjectId,
                 ev_payload = nullish payload JNull, ev_createdAt = now\<rparr>;
          inserted = db_events d @ [row];
          oldest = (case sql_max (map ev_sequence inserted) of None \<Rightarrow> 0 | Some m \<Rightarrow> m - event_retention) in
      (row, d\<lparr>db_events := filter (\<lambda>e. \<not> ev_sequence e \<le> oldest) inserted,
              db_lastSequence := db_lastSequence d + 1\<rparr>))"

definition listEventsAfter :: "int \<Rightarrow> int \<Rightarrow> db \<Rightarrow> event list" where
  "listEventsAfter sequence limit d =
     sql_limit limit (js_sort (\<lambda>a b. ev_sequence a - ev_sequence b)
       (filter (\<lambda>e. ev_sequence e > sequence) (db_events d)))"

text \<open>\<^verbatim>\<open>GROUP BY status\<close>: no entry for a status without rows.\<close>

definition counts :: "db \<Rightarrow> (worker_status \<rightharpoonup> int) \<times> (job_status \<rightharpoonup> int)" where
  "counts d =
     (let count = (\<lambda>n. if n = (0::nat) then None else Some (int n)) in
      (\<lambda>s. count (length (filter (\<lambda>w. w_status w = s) (db_workers d))),
       \<lambda>s. count (length (filter (\<lambda>j. j_status j = s) (db_jobs d)))))"

end
