(* ===== verification/Scheduler.thy ===== *)
theory Scheduler
  imports Database
begin

text \<open>
  One scheduler pass, \<^verbatim>\<open>Scheduler.#runOnce\<close> of \<^verbatim>\<open>src/src/control-plane/scheduler.mjs\<close>, and the
  placement decision \<^verbatim>\<open>choosePlacement\<close>. Arguments of the model: the collation \<open>lc\<close> of
  \<^verbatim>\<open>localeCompare\<close>, the UUIDs that \<^verbatim>\<open>randomUUID()\<close> returns during the pass (\<open>uuids k\<close> is the
  \<open>k\<close>-th), whether the scheduler lock was acquired, and the clock's reading.
\<close>

section \<open>Placement\<close>

record scheduler_config =
  sc_heartbeatTimeoutMs :: int
  sc_leaseDurationMs :: int
  sc_vramSafetyMiB :: int

record candidate = placement +
  c_warmModel :: bool
  c_cachedModel :: bool
  c_utilizationPercent :: int
  c_headroomMiB :: int

text \<open>
  What \<^verbatim>\<open>choosePlacement\<close> reads of a workload: its constraints or requirements, and the
  capability, which only sessions have.
\<close>

record workload =
  wl_requirements :: "requirements option"
  wl_capability :: "string option"

definition job_workload :: "job \<Rightarrow> workload" where
  "job_workload j = \<lparr>wl_requirements = Some (j_constraints j), wl_capability = None\<rparr>"

definition session_workload :: "session \<Rightarrow> workload" where
  "session_workload s = \<lparr>wl_requirements = Some (s_requirements s), wl_capability = Some (s_capability s)\<rparr>"

text \<open>\<^verbatim>\<open>JSON.stringify([workerId, gpuUuid])\<close> is injective; the key is the pair itself.\<close>

definition resourceKey :: "string \<Rightarrow> string \<Rightarrow> (string \<times> string) result" where
  "resourceKey workerId gpuUuid =
     (if workerId = [] \<or> gpuUuid = []
      then Inl (TypeError ''invalid persistent GPU resource identity'')
      else Inr (workerId, gpuUuid))"

definition worker_live :: "scheduler_config \<Rightarrow> int \<Rightarrow> worker \<Rightarrow> bool" where
  "worker_live cfg now w =
     (\<not> (w_status w \<noteq> Online \<or> w_drainMode w \<or> now - w_lastSeenAt w > sc_heartbeatTimeoutMs cfg))"

definition worker_capable :: "requirements \<Rightarrow> worker \<Rightarrow> bool" where
  "worker_capable r w = (\<not> list_ex (\<lambda>c. c \<notin> set (w_capabilities w)) (rq_capabilities r))"

definition matching_manifests :: "workload \<Rightarrow> requirements \<Rightarrow> string \<Rightarrow> worker \<Rightarrow> adapter_manifest list" where
  "matching_manifests wl r adapter w =
     filter (\<lambda>m. am_schemaVersion m = 2 \<and> am_adapterId m = Some adapter \<and>
                 am_executionMode m = ''streaming-gateway'' \<and>
                 am_type m \<in> set (rq_capabilities r) \<and>
                 (case wl_capability wl of None \<Rightarrow> True | Some c \<Rightarrow> am_type m = c))
       (w_adapterManifests w)"

definition matching_health :: "adapter_manifest \<Rightarrow> worker \<Rightarrow> adapter_health list" where
  "matching_health m w =
     filter (\<lambda>h. ah_schemaVersion h = 2 \<and> ah_adapterId h = am_adapterId m \<and> ah_type h = am_type m)
       (w_adapterHealth w)"

definition adapter_ready :: "workload \<Rightarrow> requirements \<Rightarrow> worker \<Rightarrow> bool" where
  "adapter_ready wl r w =
     (case rq_adapter r of
        None \<Rightarrow> True
      | Some adapter \<Rightarrow>
          (case matching_manifests wl r adapter w of
             [matched] \<Rightarrow>
               (case matching_health matched w of
                  [h] \<Rightarrow> ah_state h = ''ready'' \<and> ah_code h = ''ready''
                | _ \<Rightarrow> False)
           | _ \<Rightarrow> False))"

definition worker_eligible :: "scheduler_config \<Rightarrow> int \<Rightarrow> workload \<Rightarrow> requirements \<Rightarrow> worker \<Rightarrow> bool" where
  "worker_eligible cfg now wl r w =
     (worker_live cfg now w \<and> worker_capable r w \<and> adapter_ready wl r w)"

definition free_vram :: "scheduler_config \<Rightarrow> gpu \<Rightarrow> int" where
  "free_vram cfg g = g_memoryTotalMiB g - g_memoryUsedMiB g - sc_vramSafetyMiB cfg"

definition make_candidate :: "scheduler_config \<Rightarrow> requirements \<Rightarrow> worker \<Rightarrow> gpu \<Rightarrow> candidate" where
  "make_candidate cfg r w g =
     \<lparr>p_workerId = w_id w, p_gpuUuid = g_uuid g,
      c_warmModel = (case rq_model r of None \<Rightarrow> False | Some m \<Rightarrow> m \<in> set (w_warmModels w)),
      c_cachedModel = (case rq_model r of None \<Rightarrow> False
        | Some m \<Rightarrow> list_ex (\<lambda>e. me_modelId e = m \<and> me_adapterType e \<in> set (rq_capabilities r))
                     (w_modelInventory w)),
      c_utilizationPercent = g_utilizationPercent g,
      c_headroomMiB = free_vram cfg g - rq_minVramMiB r\<rparr>"

text \<open>The inner loop over the GPUs of one worker and the outer loop over the workers.\<close>

fun gpu_candidates ::
  "scheduler_config \<Rightarrow> requirements \<Rightarrow> string list \<Rightarrow> (string \<times> string) list \<Rightarrow> worker \<Rightarrow> gpu list \<Rightarrow> candidate list result" where
  "gpu_candidates cfg r occupied blocked w [] = Inr []"
| "gpu_candidates cfg r occupied blocked w (g # gs) =
     (if g_uuid g \<in> set occupied then gpu_candidates cfg r occupied blocked w gs
      else and_then (resourceKey (w_id w) (g_uuid g)) (\<lambda>key.
        if key \<in> set blocked then gpu_candidates cfg r occupied blocked w gs
        else if free_vram cfg g < rq_minVramMiB r then gpu_candidates cfg r occupied blocked w gs
        else and_then (gpu_candidates cfg r occupied blocked w gs)
               (\<lambda>cs. Inr (make_candidate cfg r w g # cs))))"

fun worker_candidates ::
  "scheduler_config \<Rightarrow> int \<Rightarrow> workload \<Rightarrow> requirements \<Rightarrow> string list \<Rightarrow> (string \<times> string) list \<Rightarrow> worker list \<Rightarrow> candidate list result" where
  "worker_candidates cfg now wl r occupied blocked [] = Inr []"
| "worker_candidates cfg now wl r occupied blocked (w # ws) =
     (if \<not> worker_eligible cfg now wl r w then worker_candidates cfg now wl r occupied blocked ws
      else and_then (gpu_candidates cfg r occupied blocked w (w_gpus w)) (\<lambda>cs.
        and_then (worker_candidates cfg now wl r occupied blocked ws) (\<lambda>rest. Inr (cs @ rest))))"

definition number_of_bool :: "bool \<Rightarrow> int" where
  "number_of_bool b = (if b then 1 else 0)"

definition compare_candidates :: "(string \<Rightarrow> string \<Rightarrow> int) \<Rightarrow> candidate \<Rightarrow> candidate \<Rightarrow> int" where
  "compare_candidates lc left right =
     or_else (number_of_bool (c_warmModel right) - number_of_bool (c_warmModel left))
      (or_else (number_of_bool (c_cachedModel right) - number_of_bool (c_cachedModel left))
       (or_else (c_utilizationPercent left - c_utilizationPercent right)
        (or_else (c_headroomMiB left - c_headroomMiB right)
         (or_else (lc (p_workerId left) (p_workerId right))
           (lc (p_gpuUuid left) (p_gpuUuid right))))))"

definition choosePlacement ::
  "(string \<Rightarrow> string \<Rightarrow> int) \<Rightarrow> scheduler_config \<Rightarrow> int \<Rightarrow> workload \<Rightarrow> worker list \<Rightarrow> string list \<Rightarrow> (string \<times> string) list \<Rightarrow> candidate option result" where
  "choosePlacement lc cfg now wl workers occupied blocked =
     (case wl_requirements wl of
        None \<Rightarrow> Inl (TypeError ''workload must contain constraints or requirements'')
      | Some r \<Rightarrow>
          and_then (worker_candidates cfg now wl r occupied blocked workers) (\<lambda>candidates.
            Inr (case js_sort (compare_candidates lc) candidates of [] \<Rightarrow> None | c # _ \<Rightarrow> Some c)))"

section \<open>Pending work\<close>

datatype pending = PendingJob job | PendingSession session

definition pending_workload :: "pending \<Rightarrow> workload" where
  "pending_workload p = (case p of PendingJob j \<Rightarrow> job_workload j | PendingSession s \<Rightarrow> session_workload s)"

definition pending_priority :: "pending \<Rightarrow> int" where
  "pending_priority p = (case p of PendingJob j \<Rightarrow> j_priority j | PendingSession s \<Rightarrow> s_priority s)"

definition pending_createdAt :: "pending \<Rightarrow> int" where
  "pending_createdAt p = (case p of PendingJob j \<Rightarrow> j_createdAt j | PendingSession s \<Rightarrow> s_createdAt s)"

definition pending_id :: "pending \<Rightarrow> string" where
  "pending_id p = (case p of PendingJob j \<Rightarrow> j_id j | PendingSession s \<Rightarrow> s_id s)"

definition pending_kind :: "pending \<Rightarrow> string" where
  "pending_kind p = (case p of PendingJob j \<Rightarrow> ''job'' | PendingSession s \<Rightarrow> ''session'')"

definition comparePendingWork :: "(string \<Rightarrow> string \<Rightarrow> int) \<Rightarrow> pending \<Rightarrow> pending \<Rightarrow> int" where
  "comparePendingWork lc left right =
     or_else (pending_priority right - pending_priority left)
      (or_else (pending_createdAt left - pending_createdAt right)
       (or_else (lc (pending_id left) (pending_id right))
         (lc (pending_kind left) (pending_kind right))))"

definition pending_work :: "(string \<Rightarrow> string \<Rightarrow> int) \<Rightarrow> db \<Rightarrow> pending list" where
  "pending_work lc d =
     js_sort (comparePendingWork lc)
       (map PendingJob (listQueuedJobs d) @ map PendingSession (listRequestedSessions d))"

text \<open>\<^verbatim>\<open>.map((workload) => workload.assignedGpuUuid).filter(Boolean)\<close>\<close>

definition occupied_gpus :: "db \<Rightarrow> string list" where
  "occupied_gpus d =
     map the (filter (\<lambda>u. u \<noteq> None \<and> u \<noteq> Some [])
       (map j_assignedGpuUuid (listActiveJobs d) @ map s_assignedGpuUuid (listOccupyingSessions d)))"

section \<open>The pass\<close>

fun offline_events :: "int \<Rightarrow> string list \<Rightarrow> db \<Rightarrow> db" where
  "offline_events now [] d = d"
| "offline_events now (workerId # rest) d =
     offline_events now rest
       (snd (appendEvent ''worker.offline'' workerId (JObj [(''reason'', JStr ''heartbeat_timeout'')]) now d))"

fun job_recovery_events :: "int \<Rightarrow> (job \<times> string) list \<Rightarrow> db \<Rightarrow> db" where
  "job_recovery_events now [] d = d"
| "job_recovery_events now ((j, reason) # rest) d =
     job_recovery_events now rest
       (snd (appendEvent (if j_status j = Queued then ''job.requeued'' else ''job.failed'') (j_id j)
         (JObj [(''reason'', JStr reason), (''attempt'', JInt (j_attempt j))]) now d))"

fun session_recovery_events :: "int \<Rightarrow> (session \<times> string \<times> session_status) list \<Rightarrow> db \<Rightarrow> db" where
  "session_recovery_events now [] d = d"
| "session_recovery_events now ((s, reason, previousStatus) # rest) d =
     (let d1 = snd (appendEvent ''session.interrupted'' (s_id s)
            (JObj [(''reason'', JStr reason), (''previousStatus'', JStr (session_status_name previousStatus)),
                   (''interruptionCount'', JInt (s_interruptionCount s))]) now d);
          d2 = (if s_status s = Requested
                then snd (appendEvent ''session.requeued'' (s_id s)
                       (JObj [(''reason'', JStr reason), (''interruptionCount'', JInt (s_interruptionCount s))]) now d1)
                else d1) in
      session_recovery_events now rest d2)"

text \<open>
  One entry of the assignment loop: choose a placement, lease it, record it. The result is
  the placed GPU, if any, and the leased job, which \<^verbatim>\<open>assigned\<close> collects.
\<close>

definition assign_entry ::
  "(string \<Rightarrow> string \<Rightarrow> int) \<Rightarrow> scheduler_config \<Rightarrow> int \<Rightarrow> worker list \<Rightarrow> (string \<times> string) list \<Rightarrow> string \<Rightarrow> string list \<Rightarrow> pending \<Rightarrow> db \<Rightarrow> ((string option \<times> job option) \<times> bool \<times> db) result" where
  "assign_entry lc cfg now workers blocked uuid occupied entry d =
     and_then (choosePlacement lc cfg now (pending_workload entry) workers occupied blocked) (\<lambda>choice.
     case choice of
       None \<Rightarrow> Inr ((None, None), False, d)
     | Some p \<Rightarrow>
         (let leaseId = createId ''lease'' uuid; leaseExpiresAt = now + sc_leaseDurationMs cfg in
          case entry of
            PendingJob j \<Rightarrow>
              and_then (assignJob (j_id j) p leaseId leaseExpiresAt now d) (\<lambda>(leased, d1).
              case leased of
                None \<Rightarrow> Inr ((None, None), True, d1)
              | Some leasedJob \<Rightarrow>
                  Inr ((Some (p_gpuUuid p), Some leasedJob), True,
                    snd (appendEvent ''job.leased'' (j_id leasedJob)
                      (JObj [(''workerId'', JStr (p_workerId p)), (''gpuUuid'', JStr (p_gpuUuid p)),
                             (''attempt'', JInt (j_attempt leasedJob))]) now d1)))
          | PendingSession s \<Rightarrow>
              and_then (assignSession (s_id s) p leaseId leaseExpiresAt now d) (\<lambda>(allocated, d1).
              case allocated of
                None \<Rightarrow> Inr ((None, None), True, d1)
              | Some allocatedSession \<Rightarrow>
                  Inr ((Some (p_gpuUuid p), None), True,
                    snd (appendEvent ''session.allocated'' (s_id allocatedSession)
                      (JObj [(''workerId'', JStr (p_workerId p)), (''gpuUuid'', JStr (p_gpuUuid p))]) now d1)))))"

fun assign_pending ::
  "(string \<Rightarrow> string \<Rightarrow> int) \<Rightarrow> scheduler_config \<Rightarrow> int \<Rightarrow> worker list \<Rightarrow> (string \<times> string) list \<Rightarrow> (nat \<Rightarrow> string) \<Rightarrow> nat \<Rightarrow> string list \<Rightarrow> pending list \<Rightarrow> db \<Rightarrow> (job list \<times> db) result" where
  "assign_pending lc cfg now workers blocked uuids k occupied [] d = Inr ([], d)"
| "assign_pending lc cfg now workers blocked uuids k occupied (entry # rest) d =
     and_then (assign_entry lc cfg now workers blocked (uuids k) occupied entry d) (\<lambda>((gpu, leased), drew, d1).
     and_then (assign_pending lc cfg now workers blocked uuids (if drew then Suc k else k)
         (case gpu of None \<Rightarrow> occupied | Some u \<Rightarrow> occupied @ [u]) rest d1) (\<lambda>(assigned, d2).
     Inr ((case leased of None \<Rightarrow> assigned | Some j \<Rightarrow> j # assigned), d2)))"

record pass_result =
  pr_acquired :: bool
  pr_staleWorkerIds :: "string list"
  pr_recoveredJobs :: "job list"
  pr_assigned :: "job list"

text \<open>Everything before placement: stale workers, expired jobs, interrupted sessions.\<close>

definition recovery_phase ::
  "scheduler_config \<Rightarrow> int \<Rightarrow> db \<Rightarrow> string list \<times> (job \<times> string) list \<times> db" where
  "recovery_phase cfg now d =
     (let (stale, d1) = markStaleWorkersOffline (now - sc_heartbeatTimeoutMs cfg) now d;
          d2 = offline_events now stale d1;
          (recoveries, d3) = recoverExpiredJobs now stale d2;
          d4 = job_recovery_events now recoveries d3;
          (sessionRecoveries, d5) = recoverInterruptedSessions now stale d4;
          d6 = session_recovery_events now sessionRecoveries d5 in
      (stale, recoveries, d6))"

definition placement_phase ::
  "(string \<Rightarrow> string \<Rightarrow> int) \<Rightarrow> scheduler_config \<Rightarrow> int \<Rightarrow> (nat \<Rightarrow> string) \<Rightarrow> db \<Rightarrow> (job list \<times> db) result" where
  "placement_phase lc cfg now uuids d =
     and_then (traverse (\<lambda>_ (w, g). resourceKey w g) 0 (listBlockedGpuResources d)) (\<lambda>blocked.
       assign_pending lc cfg now (listWorkers d) blocked uuids 0 (occupied_gpus d) (pending_work lc d) d)"

definition scheduler_pass ::
  "(string \<Rightarrow> string \<Rightarrow> int) \<Rightarrow> scheduler_config \<Rightarrow> bool \<Rightarrow> (nat \<Rightarrow> string) \<Rightarrow> int \<Rightarrow> db \<Rightarrow> (pass_result \<times> db) result" where
  "scheduler_pass lc cfg acquired uuids now d =
     (if \<not> acquired
      then Inr (\<lparr>pr_acquired = False, pr_staleWorkerIds = [], pr_recoveredJobs = [], pr_assigned = []\<rparr>, d)
      else
        (case recovery_phase cfg now d of (stale, recoveries, d1) \<Rightarrow>
          and_then (placement_phase lc cfg now uuids d1) (\<lambda>(assigned, d2).
            Inr (\<lparr>pr_acquired = True, pr_staleWorkerIds = stale,
                  pr_recoveredJobs = map fst recoveries, pr_assigned = assigned\<rparr>, d2))))"

definition runOnce ::
  "(string \<Rightarrow> string \<Rightarrow> int) \<Rightarrow> scheduler_config \<Rightarrow> bool \<Rightarrow> (nat \<Rightarrow> string) \<Rightarrow> int \<Rightarrow> db \<Rightarrow> pass_result result \<times> db" where
  "runOnce lc cfg acquired uuids now d = transaction (scheduler_pass lc cfg acquired uuids now) d"

section \<open>What a placement is\<close>

text \<open>The conditions of the two loops, for one GPU of one worker.\<close>

definition gpu_admissible ::
  "scheduler_config \<Rightarrow> requirements \<Rightarrow> string list \<Rightarrow> (string \<times> string) list \<Rightarrow> worker \<Rightarrow> gpu \<Rightarrow> bool" where
  "gpu_admissible cfg r occupied blocked w g =
     (g_uuid g \<notin> set occupied \<and> (w_id w, g_uuid g) \<notin> set blocked \<and>
      rq_minVramMiB r + sc_vramSafetyMiB cfg \<le> g_memoryTotalMiB g - g_memoryUsedMiB g)"

definition admissible ::
  "scheduler_config \<Rightarrow> int \<Rightarrow> workload \<Rightarrow> requirements \<Rightarrow> worker list \<Rightarrow> string list \<Rightarrow> (string \<times> string) list \<Rightarrow> worker \<Rightarrow> gpu \<Rightarrow> bool" where
  "admissible cfg now wl r workers occupied blocked w g =
     (w \<in> set workers \<and> g \<in> set (w_gpus w) \<and> worker_eligible cfg now wl r w \<and>
      gpu_admissible cfg r occupied blocked w g)"

lemma resourceKey_Inr [result_simps]:
  "resourceKey w g = Inr k \<longleftrightarrow> w \<noteq> [] \<and> g \<noteq> [] \<and> k = (w, g)"
  by (auto simp: resourceKey_def)

lemma gpu_candidates_Inr:
  "gpu_candidates cfg r occupied blocked w gs = Inr cs \<Longrightarrow>
   cs = map (make_candidate cfg r w) (filter (gpu_admissible cfg r occupied blocked w) gs) \<and>
   (\<forall>c \<in> set cs. p_workerId c \<noteq> [] \<and> p_gpuUuid c \<noteq> [])"
  by (induction gs arbitrary: cs)
    (auto simp: gpu_admissible_def free_vram_def make_candidate_def result_simps split: if_splits)

lemma worker_candidates_Inr:
  "worker_candidates cfg now wl r occupied blocked ws = Inr cs \<Longrightarrow>
   cs = concat (map (\<lambda>w. map (make_candidate cfg r w)
          (filter (gpu_admissible cfg r occupied blocked w) (w_gpus w)))
        (filter (worker_eligible cfg now wl r) ws)) \<and>
   (\<forall>c \<in> set cs. p_workerId c \<noteq> [] \<and> p_gpuUuid c \<noteq> [])"
  by (induction ws arbitrary: cs) (auto simp: result_simps dest!: gpu_candidates_Inr split: if_splits)

lemma worker_candidates_set:
  assumes "worker_candidates cfg now wl r occupied blocked ws = Inr cs"
  shows "c \<in> set cs \<longleftrightarrow> (\<exists>w g. admissible cfg now wl r ws occupied blocked w g \<and> c = make_candidate cfg r w g)"
  using worker_candidates_Inr [OF assms] by (auto simp: admissible_def)

lemma compare_candidates_comparator:
  assumes "comparator lc"
  shows "comparator (compare_candidates lc)"
  unfolding compare_candidates_def
  by (intro comparator_or_else comparator_diff comparator_diff_desc
      comparator_on [OF assms, of p_workerId] comparator_on [OF assms, of p_gpuUuid])

lemma choosePlacement_cases:
  assumes "choosePlacement lc cfg now wl workers occupied blocked = Inr choice"
  obtains r cs where "wl_requirements wl = Some r"
    and "worker_candidates cfg now wl r occupied blocked workers = Inr cs"
    and "choice = (case js_sort (compare_candidates lc) cs of [] \<Rightarrow> None | c # _ \<Rightarrow> Some c)"
  using assms by (auto simp: choosePlacement_def result_simps split: option.splits)

lemma choosePlacement_Some:
  assumes "choosePlacement lc cfg now wl workers occupied blocked = Inr (Some c)"
  obtains r w g where "wl_requirements wl = Some r"
    and "admissible cfg now wl r workers occupied blocked w g"
    and "c = make_candidate cfg r w g" and "w_id w \<noteq> []" and "g_uuid g \<noteq> []"
proof -
  from assms obtain r cs where r: "wl_requirements wl = Some r"
    and cs: "worker_candidates cfg now wl r occupied blocked workers = Inr cs"
    and c: "Some c = (case js_sort (compare_candidates lc) cs of [] \<Rightarrow> None | c # _ \<Rightarrow> Some c)"
    by (rule choosePlacement_cases)
  from c obtain rest where s: "js_sort (compare_candidates lc) cs = c # rest"
    by (cases "js_sort (compare_candidates lc) cs") auto
  then have "c \<in> set cs" by (metis list.set_intros(1) set_js_sort)
  with worker_candidates_Inr [OF cs] worker_candidates_set [OF cs] r that show ?thesis
    by (fastforce simp: make_candidate_def)
qed

lemma choosePlacement_None:
  assumes "choosePlacement lc cfg now wl workers occupied blocked = Inr None"
    and "wl_requirements wl = Some r"
  shows "\<not> admissible cfg now wl r workers occupied blocked w g"
proof
  assume a: "admissible cfg now wl r workers occupied blocked w g"
  from assms obtain cs where cs: "worker_candidates cfg now wl r occupied blocked workers = Inr cs"
    and n: "None = (case js_sort (compare_candidates lc) cs of [] \<Rightarrow> None | c # _ \<Rightarrow> Some c)"
    by (auto elim!: choosePlacement_cases)
  from n have "js_sort (compare_candidates lc) cs = []"
    by (cases "js_sort (compare_candidates lc) cs") auto
  then have "cs = []" by simp
  with a worker_candidates_set [OF cs] show False by auto
qed

lemma choosePlacement_best:
  assumes lc: "comparator lc"
    and ch: "choosePlacement lc cfg now wl workers occupied blocked = Inr (Some c)"
    and r: "wl_requirements wl = Some r"
    and a: "admissible cfg now wl r workers occupied blocked w g"
  shows "compare_candidates lc c (make_candidate cfg r w g) \<le> 0"
proof -
  from ch r obtain cs where cs: "worker_candidates cfg now wl r occupied blocked workers = Inr cs"
    and c: "Some c = (case js_sort (compare_candidates lc) cs of [] \<Rightarrow> None | c # _ \<Rightarrow> Some c)"
    by (auto elim!: choosePlacement_cases)
  from c obtain rest where s: "js_sort (compare_candidates lc) cs = c # rest"
    by (cases "js_sort (compare_candidates lc) cs") auto
  have "make_candidate cfg r w g \<in> set cs" using a worker_candidates_set [OF cs] by auto
  with comparator.hd_js_sort_least [OF compare_candidates_comparator [OF lc] s]
  show ?thesis .
qed

subsection \<open>A concrete cluster\<close>

definition sample_config :: scheduler_config where
  "sample_config = \<lparr>sc_heartbeatTimeoutMs = 30000, sc_leaseDurationMs = 60000, sc_vramSafetyMiB = 512\<rparr>"

definition sample_gpu :: "string \<Rightarrow> int \<Rightarrow> gpu" where
  "sample_gpu uuid used = \<lparr>g_uuid = uuid, g_index = 0, g_name = ''A'', g_memoryTotalMiB = 24000,
     g_memoryUsedMiB = used, g_utilizationPercent = 5, g_temperatureC = 40, g_powerDrawWatts = None\<rparr>"

definition sample_worker :: "string \<Rightarrow> gpu list \<Rightarrow> worker" where
  "sample_worker name gpus = \<lparr>w_id = name, w_name = name, w_version = ''1'', w_baseUrl = None,
     w_status = Online, w_drainMode = False, w_labels = [], w_capabilities = [''asr''],
     w_adapterManifests = [\<lparr>am_schemaVersion = 2, am_type = ''asr'', am_adapterId = Some ''a'',
        am_version = ''1.0.0'', am_executionMode = ''streaming-gateway''\<rparr>],
     w_adapterHealth = [\<lparr>ah_schemaVersion = 2, ah_type = ''asr'', ah_adapterId = Some ''a'',
        ah_state = ''ready'', ah_code = ''ready'', ah_checkedAt = 0\<rparr>],
     w_warmModels = [''m''], w_modelInventory = [], w_gpus = gpus,
     w_lastSeenAt = 0, w_createdAt = 0, w_updatedAt = 0\<rparr>"

definition sample_requirements :: requirements where
  "sample_requirements = \<lparr>rq_gpuCount = 1, rq_minVramMiB = 8000, rq_capabilities = [''asr''],
     rq_model = Some ''m'', rq_adapter = Some ''a''\<rparr>"

definition sample_workload :: workload where
  "sample_workload = \<lparr>wl_requirements = Some sample_requirements, wl_capability = Some ''asr''\<rparr>"

definition sample_gpus :: "gpu list" where
  "sample_gpus = [sample_gpu ''g0'' 20000, sample_gpu ''g1'' 500, sample_gpu ''g2'' 1000]"

lemmas sample_defs = sample_gpus_def sample_config_def sample_gpu_def sample_worker_def sample_requirements_def
  sample_workload_def

lemma sample_placement:
  "choosePlacement str_cmp sample_config 1000 sample_workload
     [sample_worker ''w1'' sample_gpus] [''g3''] [(''w2'', ''g2'')] =
   Inr (Some \<lparr>p_workerId = ''w1'', p_gpuUuid = ''g2'', c_warmModel = True, c_cachedModel = False,
      c_utilizationPercent = 5, c_headroomMiB = 14488\<rparr>)"
  by code_simp

subsection \<open>Properties of the placement decision\<close>

text \<open>
  A placement is on a worker of the list that is online, not draining, fresh, has every
  required capability and, when the workload names an adapter, exactly one matching manifest
  whose one health report is ready; its GPU is neither occupied nor blocked and has the
  required memory beyond the safety margin.
\<close>

theorem choosePlacement_sound:
  assumes "choosePlacement lc cfg now wl workers occupied blocked = Inr (Some c)"
    and "wl_requirements wl = Some r"
  shows "\<exists>w \<in> set workers. \<exists>g \<in> set (w_gpus w).
    p_workerId c = w_id w \<and> p_gpuUuid c = g_uuid g \<and>
    w_status w = Online \<and> \<not> w_drainMode w \<and> now - w_lastSeenAt w \<le> sc_heartbeatTimeoutMs cfg \<and>
    set (rq_capabilities r) \<subseteq> set (w_capabilities w) \<and>
    (rq_adapter r = None \<or>
      (\<exists>m h. matching_manifests wl r (the (rq_adapter r)) w = [m] \<and> matching_health m w = [h] \<and>
        ah_state h = ''ready'' \<and> ah_code h = ''ready'')) \<and>
    g_uuid g \<notin> set occupied \<and> (w_id w, g_uuid g) \<notin> set blocked \<and>
    rq_minVramMiB r + sc_vramSafetyMiB cfg \<le> g_memoryTotalMiB g - g_memoryUsedMiB g"
proof -
  from assms(1) obtain r' w g where r': "wl_requirements wl = Some r'"
    and a: "admissible cfg now wl r' workers occupied blocked w g"
    and c: "c = make_candidate cfg r' w g"
    by (rule choosePlacement_Some)
  from r' assms(2) have "r' = r" by simp
  with a c show ?thesis
    unfolding admissible_def worker_eligible_def worker_live_def worker_capable_def
      adapter_ready_def gpu_admissible_def make_candidate_def
    by (intro bexI [of _ w] bexI [of _ g])
      (auto simp: list_ex_iff split: option.splits list.splits)
qed

theorem choosePlacement_sound_witness:
  "\<exists>w \<in> set [sample_worker ''w1'' sample_gpus].
     \<exists>g \<in> set (w_gpus w). ''w1'' = w_id w \<and> ''g2'' = g_uuid g \<and> \<not> w_drainMode w"
  using choosePlacement_sound [OF sample_placement, of sample_requirements]
  by (auto simp: sample_workload_def)

text \<open>
  C16. The decision is complete: when it does not throw, it returns a
  placement exactly when an admissible GPU exists, and then the placement is an admissible
  GPU that no other admissible GPU precedes in the comparator's order (warm model, cached
  model, utilization, headroom, worker, GPU).
\<close>

theorem choosePlacement_optimal:
  assumes "comparator lc" and "wl_requirements wl = Some r"
    and "choosePlacement lc cfg now wl workers occupied blocked = Inr choice"
  shows "case choice of
      None \<Rightarrow> (\<forall>w g. \<not> admissible cfg now wl r workers occupied blocked w g)
    | Some c \<Rightarrow> (\<exists>w g. admissible cfg now wl r workers occupied blocked w g \<and> c = make_candidate cfg r w g) \<and>
        (\<forall>w g. admissible cfg now wl r workers occupied blocked w g \<longrightarrow>
           compare_candidates lc c (make_candidate cfg r w g) \<le> 0)"
proof (cases choice)
  case None
  with assms(2,3) choosePlacement_None [of lc cfg now wl workers occupied blocked r]
  show ?thesis by simp
next
  case (Some c)
  with assms(3) obtain r' w g where "wl_requirements wl = Some r'"
    and "admissible cfg now wl r' workers occupied blocked w g" and "c = make_candidate cfg r' w g"
    by (auto elim: choosePlacement_Some)
  with Some assms choosePlacement_best [of lc cfg now wl workers occupied blocked c r]
  show ?thesis by auto
qed

theorem choosePlacement_optimal_witness:
  "compare_candidates str_cmp \<lparr>p_workerId = ''w1'', p_gpuUuid = ''g2'', c_warmModel = True, c_cachedModel = False,
      c_utilizationPercent = 5, c_headroomMiB = 14488\<rparr>
     (make_candidate sample_config sample_requirements (sample_worker ''w1'' sample_gpus) (sample_gpu ''g1'' 500)) \<le> 0"
proof -
  have "admissible sample_config 1000 sample_workload sample_requirements [sample_worker ''w1'' sample_gpus]
      [''g3''] [(''w2'', ''g2'')] (sample_worker ''w1'' sample_gpus) (sample_gpu ''g1'' 500)"
    by code_simp
  with choosePlacement_optimal [OF code_units.comparator_axioms _ sample_placement, of sample_requirements]
  show ?thesis by (simp add: sample_workload_def)
qed

end
