(* ===== verification/Lifecycle.thy ===== *)
theory Lifecycle
  imports Scheduler
begin

text \<open>
  What every statement of the database keeps. \<open>db_ok\<close> is the well-formedness of the tables:
  unique keys, the columns that each status of a job or session allows, foreign keys, the
  gapless event log and the exclusive holding of GPUs. \<open>evolves\<close> relates the tables before
  and after: rows are never removed, identities never change, terminal rows are frozen,
  attempts and interruptions only grow, and an allocation never changes within an attempt.
\<close>

section \<open>Well-formed rows\<close>

definition job_terminal :: "job \<Rightarrow> bool" where
  "job_terminal j = (j_status j \<in> {Succeeded, Failed, Cancelled})"

definition job_ok :: "job \<Rightarrow> bool" where
  "job_ok j =
     (rq_gpuCount (j_constraints j) = 1 \<and>
      (if j_status j = Queued then
         j_assignedWorkerId j = None \<and> j_assignedGpuUuid j = None \<and> j_leaseId j = None \<and>
         j_leaseExpiresAt j = None \<and> 0 \<le> j_attempt j \<and> j_attempt j < j_maxAttempts j
       else if job_active j then
         j_assignedWorkerId j \<noteq> None \<and> j_assignedGpuUuid j \<noteq> None \<and> j_assignedGpuUuid j \<noteq> Some [] \<and>
         j_leaseId j \<noteq> None \<and> j_leaseExpiresAt j \<noteq> None \<and> 1 \<le> j_attempt j \<and> j_attempt j \<le> j_maxAttempts j
       else j_leaseExpiresAt j = None \<and> 0 \<le> j_attempt j \<and> j_attempt j \<le> j_maxAttempts j))"

definition session_terminal :: "session \<Rightarrow> bool" where
  "session_terminal s = (s_status s \<in> {Interrupted, Closed})"

definition session_unassigned :: "session \<Rightarrow> bool" where
  "session_unassigned s =
     (s_assignedWorkerId s = None \<and> s_assignedGpuUuid s = None \<and> s_leaseId s = None \<and>
      s_leaseExpiresAt s = None)"

definition session_ok :: "session \<Rightarrow> bool" where
  "session_ok s =
     (rq_gpuCount (s_requirements s) = 1 \<and> s_schemaVersion s = 1 \<and>
      0 \<le> s_interruptionCount s \<and> s_maxInterruptions s \<le> 3 \<and>
      (if session_occupying s then
         s_assignedWorkerId s \<noteq> None \<and> s_assignedGpuUuid s \<noteq> None \<and> s_assignedGpuUuid s \<noteq> Some [] \<and>
         s_leaseId s \<noteq> None \<and> s_leaseExpiresAt s \<noteq> None
       else session_unassigned s) \<and>
      (if s_status s = Interrupted then s_interruptionCount s = s_maxInterruptions s + 1
       else s_interruptionCount s \<le> s_maxInterruptions s))"

definition worker_ok :: "worker \<Rightarrow> bool" where
  "worker_ok w = (w_id w \<noteq> [] \<and> (\<forall>g \<in> set (w_gpus w). g_uuid g \<noteq> []))"

lemmas row_ok_defs = job_ok_def job_terminal_def job_active_def session_ok_def session_terminal_def
  session_unassigned_def session_occupying_def

section \<open>Holding a GPU\<close>

definition job_held :: "job \<Rightarrow> string multiset" where
  "job_held j =
     (if job_active j \<and> j_assignedGpuUuid j \<noteq> None \<and> j_assignedGpuUuid j \<noteq> Some []
      then {#the (j_assignedGpuUuid j)#} else {#})"

definition session_held :: "session \<Rightarrow> string multiset" where
  "session_held s =
     (if session_occupying s \<and> s_assignedGpuUuid s \<noteq> None \<and> s_assignedGpuUuid s \<noteq> Some []
      then {#the (s_assignedGpuUuid s)#} else {#})"

definition held_by :: "('r \<Rightarrow> string multiset) \<Rightarrow> 'r list \<Rightarrow> string multiset" where
  "held_by h rows = sum_list (map h rows)"

definition held :: "db \<Rightarrow> string multiset" where
  "held d = held_by job_held (db_jobs d) + held_by session_held (db_sessions d)"

lemma held_by_simps [simp]:
  "held_by h [] = {#}" "held_by h (r # rows) = h r + held_by h rows"
  "held_by h (xs @ ys) = held_by h xs + held_by h ys"
  by (simp_all add: held_by_def)

lemma held_by_column:
  "mset (map the (filter (\<lambda>u. u \<noteq> None \<and> u \<noteq> Some []) (map col (filter act rows)))) =
   held_by (\<lambda>r. if act r \<and> col r \<noteq> None \<and> col r \<noteq> Some [] then {#the (col r)#} else {#}) rows"
  by (induction rows) auto

lemma held_by_mset: "mset xs = mset ys \<Longrightarrow> held_by h xs = held_by h ys"
  unfolding held_by_def by (metis mset_map sum_mset_sum_list)

text \<open>What the scheduler reads as occupied is what is held.\<close>

lemma occupied_held: "mset (occupied_gpus d) = held d"
proof -
  let ?g = "\<lambda>rows :: session list. mset (map the (filter (\<lambda>u. u \<noteq> None \<and> u \<noteq> Some []) (map s_assignedGpuUuid rows)))"
  have "?g (listOccupyingSessions d) = ?g (filter session_occupying (db_sessions d))"
    unfolding listOccupyingSessions_def
    by (metis (no_types, lifting) mset_filter mset_js_sort mset_map)
  then show ?thesis
    unfolding occupied_gpus_def held_def listActiveJobs_def job_held_def [abs_def] session_held_def [abs_def]
    by (simp only: filter_append map_append mset_append held_by_column)
qed

lemma held_by_update:
  "(\<And>r. r \<in> set rows \<Longrightarrow> P r \<Longrightarrow> h (f r) \<subseteq># h r) \<Longrightarrow>
   held_by h (fst (sql_update P f rows)) \<subseteq># held_by h rows"
  by (induction rows) (auto simp: sql_update_def intro!: subset_mset.add_mono)

lemma held_by_add:
  assumes "distinct (map key rows)" and "r \<in> set rows" and "P r"
    and "\<And>x. P x \<Longrightarrow> key x = key r" and "h r = {#}"
  shows "held_by h (fst (sql_update P f rows)) = h (f r) + held_by h rows"
  using assms
proof (induction rows)
  case (Cons a rows)
  show ?case
  proof (cases "a = r")
    case True
    with Cons.prems(1,4) have "\<not> P x" if "x \<in> set rows" for x
      using that by (metis distinct.simps(2) image_eqI list.map(2) list.set_map)
    then have "map (\<lambda>x. if P x then f x else x) rows = rows"
      by (auto simp: map_idI)
    with True Cons.prems(3,5) show ?thesis by (simp add: sql_update_def)
  next
    case False
    with Cons.prems(1,2) have "key a \<noteq> key r" by auto
    with Cons.prems(4) have na: "\<not> P a" by blast
    from False Cons.prems(2) have mem: "r \<in> set rows" by simp
    from Cons.prems(1) have "distinct (map key rows)" by simp
    then have "held_by h (fst (sql_update P f rows)) = h (f r) + held_by h rows"
      using mem Cons.prems(3,4,5) by (rule Cons.IH)
    with na show ?thesis by (simp add: sql_update_def)
  qed
qed simp

section \<open>Well-formed tables\<close>

definition assigned_in :: "string set \<Rightarrow> string option \<Rightarrow> bool" where
  "assigned_in W a = (case a of None \<Rightarrow> True | Some w \<Rightarrow> w \<in> W)"

text \<open>\<^verbatim>\<open>UNIQUE(project_id, idempotency_key)\<close>: \<^verbatim>\<open>NULL\<close> keys are distinct from one another.\<close>

definition unique_idempotency :: "('r \<Rightarrow> string \<times> string option) \<Rightarrow> 'r list \<Rightarrow> bool" where
  "unique_idempotency key rows = distinct (map key (filter (\<lambda>r. snd (key r) \<noteq> None) rows))"

definition job_key :: "job \<Rightarrow> string \<times> string option" where
  "job_key j = (j_projectId j, j_idempotencyKey j)"

definition session_key :: "session \<Rightarrow> string \<times> string option" where
  "session_key s = (s_projectId s, s_idempotencyKey s)"

definition workers_ok :: "db \<Rightarrow> bool" where
  "workers_ok d = (distinct (map w_id (db_workers d)) \<and> distinct (map w_name (db_workers d)) \<and>
     (\<forall>w \<in> set (db_workers d). worker_ok w))"

definition jobs_ok :: "db \<Rightarrow> bool" where
  "jobs_ok d = (distinct (map j_id (db_jobs d)) \<and> unique_idempotency job_key (db_jobs d) \<and>
     (\<forall>j \<in> set (db_jobs d). job_ok j \<and> assigned_in (w_id ` set (db_workers d)) (j_assignedWorkerId j)))"

definition sessions_ok :: "db \<Rightarrow> bool" where
  "sessions_ok d = (distinct (map s_id (db_sessions d)) \<and> unique_idempotency session_key (db_sessions d) \<and>
     (\<forall>s \<in> set (db_sessions d). session_ok s \<and> assigned_in (w_id ` set (db_workers d)) (s_assignedWorkerId s)))"

definition events_ok :: "db \<Rightarrow> bool" where
  "events_ok d = (0 \<le> db_lastSequence d \<and>
     map ev_sequence (db_events d) = [max 1 (db_lastSequence d - event_retention + 1) .. db_lastSequence d])"

definition fence_key :: "fence \<Rightarrow> string \<times> string" where
  "fence_key f = (f_workerId f, f_gpuUuid f)"

definition fences_ok :: "db \<Rightarrow> bool" where
  "fences_ok d = (distinct (map fence_key (db_fences d)) \<and>
     (\<forall>f \<in> set (db_fences d). f_workerId f \<noteq> [] \<and> f_gpuUuid f \<noteq> [] \<and> 1 \<le> f_epoch f))"

text \<open>
  Every attempt is held by the fence of its GPU: the fence is not clear, and names the attempt,
  its lease, its subject and its epoch.
\<close>

definition attempt_key :: "attempt \<Rightarrow> string \<times> string" where
  "attempt_key a = (a_workerId a, a_gpuUuid a)"

definition fence_holds :: "fence \<Rightarrow> attempt \<Rightarrow> bool" where
  "fence_holds f a =
     (fence_key f = attempt_key a \<and> f_safetyState f \<noteq> FenceClear \<and> f_attemptId f = Some (a_attemptId a) \<and>
      f_leaseId f = Some (a_leaseId a) \<and> f_subjectKind f = Some (a_subjectKind a) \<and>
      f_subjectId f = Some (a_subjectId a) \<and> f_epoch f = a_fenceEpoch a)"

definition claims_ok :: "db \<Rightarrow> bool" where
  "claims_ok d =
     (distinct (map a_attemptId (db_attempts d)) \<and> distinct (map attempt_key (db_attempts d)) \<and>
      (\<forall>a \<in> set (db_attempts d). a_status a = AttemptReserved \<and> (\<exists>f \<in> set (db_fences d). fence_holds f a)) \<and>
      (\<forall>f \<in> set (db_fences d). f_safetyState f = FenceReserved))"

definition exclusive :: "db \<Rightarrow> bool" where
  "exclusive d = (\<forall>u. count (held d) u \<le> 1)"

definition db_ok :: "db \<Rightarrow> bool" where
  "db_ok d = (workers_ok d \<and> jobs_ok d \<and> sessions_ok d \<and> events_ok d \<and> fences_ok d \<and>
     claims_ok d \<and> exclusive d)"

lemma exclusive_distinct: "exclusive d \<longleftrightarrow> distinct (occupied_gpus d)"
proof -
  have "distinct xs \<longleftrightarrow> (\<forall>u. count (mset xs) u \<le> 1)" for xs :: "string list"
    by (metis One_nat_def count_mset_0_iff distinct_count_atmost_1 eq_refl le_numeral_extra(3,4) nat_le_linear
        le_SucE le_zero_eq)
  then show ?thesis by (simp only: exclusive_def occupied_held [symmetric])
qed

lemma exclusive_mono: "exclusive d \<Longrightarrow> held d' \<subseteq># held d \<Longrightarrow> exclusive d'"
  unfolding exclusive_def by (meson le_trans mset_subset_eq_count)

section \<open>How rows evolve\<close>

definition job_identity :: "job \<Rightarrow> (string \<times> string \<times> string \<times> int) \<times> (requirements \<times> jsval \<times> int) \<times> string option \<times> int" where
  "job_identity j = ((j_id j, j_projectId j, j_type j, j_priority j),
     (j_constraints j, j_payload j, j_maxAttempts j), j_idempotencyKey j, j_createdAt j)"

definition job_allocation :: "job \<Rightarrow> string option \<times> string option \<times> string option" where
  "job_allocation j = (j_assignedWorkerId j, j_assignedGpuUuid j, j_leaseId j)"

definition job_evolves :: "job \<Rightarrow> job \<Rightarrow> bool" where
  "job_evolves j j' =
     (job_identity j' = job_identity j \<and> j_attempt j \<le> j_attempt j' \<and>
      (job_terminal j \<longrightarrow> j' = j) \<and>
      (j_leaseId j' \<noteq> None \<and> j_attempt j' = j_attempt j \<longrightarrow> job_allocation j' = job_allocation j))"

definition session_identity :: "session \<Rightarrow> (string \<times> string \<times> string \<times> int) \<times> (requirements \<times> jsval \<times> int) \<times> string option \<times> int" where
  "session_identity s = ((s_id s, s_projectId s, s_capability s, s_priority s),
     (s_requirements s, s_metadata s, s_maxInterruptions s), s_idempotencyKey s, s_createdAt s)"

definition session_allocation :: "session \<Rightarrow> string option \<times> string option \<times> string option" where
  "session_allocation s = (s_assignedWorkerId s, s_assignedGpuUuid s, s_leaseId s)"

definition session_evolves :: "session \<Rightarrow> session \<Rightarrow> bool" where
  "session_evolves s s' =
     (session_identity s' = session_identity s \<and> s_interruptionCount s \<le> s_interruptionCount s' \<and>
      (session_terminal s \<longrightarrow> s' = s) \<and>
      (s_leaseId s \<noteq> None \<and> s_interruptionCount s' = s_interruptionCount s \<longrightarrow>
         session_allocation s' = session_allocation s \<or> session_terminal s'))"

definition worker_evolves :: "worker \<Rightarrow> worker \<Rightarrow> bool" where
  "worker_evolves w w' = (w_id w' = w_id w \<and> w_name w' = w_name w \<and> w_createdAt w' = w_createdAt w)"

definition fence_evolves :: "fence \<Rightarrow> fence \<Rightarrow> bool" where
  "fence_evolves f f' =
     (fence_key f' = fence_key f \<and> f_epoch f \<le> f_epoch f' \<and> (f_safetyState f \<noteq> FenceClear \<longrightarrow> f' = f))"

text \<open>Tables only grow, at their end, and each row evolves in place.\<close>

definition grows :: "('r \<Rightarrow> 'r \<Rightarrow> bool) \<Rightarrow> 'r list \<Rightarrow> 'r list \<Rightarrow> bool" where
  "grows R rows rows' = (length rows \<le> length rows' \<and> (\<forall>i < length rows. R (rows ! i) (rows' ! i)))"

definition events_evolve :: "db \<Rightarrow> db \<Rightarrow> bool" where
  "events_evolve d d' =
     (db_lastSequence d \<le> db_lastSequence d' \<and>
      (\<forall>e \<in> set (db_events d). e \<in> set (db_events d') \<or> ev_sequence e \<le> db_lastSequence d' - event_retention) \<and>
      (\<forall>e \<in> set (db_events d'). e \<in> set (db_events d) \<or> db_lastSequence d < ev_sequence e))"

definition evolves :: "db \<Rightarrow> db \<Rightarrow> bool" where
  "evolves d d' =
     (grows job_evolves (db_jobs d) (db_jobs d') \<and> grows session_evolves (db_sessions d) (db_sessions d') \<and>
      grows worker_evolves (db_workers d) (db_workers d') \<and> events_evolve d d' \<and>
      grows fence_evolves (db_fences d) (db_fences d') \<and> grows (=) (db_attempts d) (db_attempts d'))"

definition keeps :: "db \<Rightarrow> db \<Rightarrow> bool" where
  "keeps d d' = (db_ok d \<longrightarrow> db_ok d' \<and> evolves d d')"

lemmas evolve_defs = job_evolves_def job_identity_def job_allocation_def job_terminal_def
  session_evolves_def session_identity_def session_allocation_def session_terminal_def

lemma job_evolves_refl [simp, intro]: "job_evolves j j"
  by (simp add: job_evolves_def)

lemma job_evolves_trans: "job_evolves a b \<Longrightarrow> job_evolves b c \<Longrightarrow> job_evolves a c"
  unfolding job_evolves_def by (auto simp: job_allocation_def)

lemma session_evolves_refl [simp, intro]: "session_evolves s s"
  by (simp add: session_evolves_def)

lemma session_evolves_trans: "session_evolves a b \<Longrightarrow> session_evolves b c \<Longrightarrow> session_evolves a c"
  unfolding session_evolves_def by (auto simp: session_allocation_def)

lemma worker_evolves_refl [simp, intro]: "worker_evolves w w"
  by (simp add: worker_evolves_def)

lemma worker_evolves_trans: "worker_evolves a b \<Longrightarrow> worker_evolves b c \<Longrightarrow> worker_evolves a c"
  by (simp add: worker_evolves_def)

lemma fence_evolves_refl [simp, intro]: "fence_evolves f f"
  by (simp add: fence_evolves_def)

lemma fence_evolves_trans: "fence_evolves a b \<Longrightarrow> fence_evolves b c \<Longrightarrow> fence_evolves a c"
  unfolding fence_evolves_def by auto

lemma grows_refl: "(\<And>r. R r r) \<Longrightarrow> grows R rows rows"
  by (simp add: grows_def)

lemma grows_trans:
  assumes R: "\<And>a b c. R a b \<Longrightarrow> R b c \<Longrightarrow> R a c" and "grows R xs ys" and "grows R ys zs"
  shows "grows R xs zs"
  using assms(2,3) unfolding grows_def by (meson R le_trans less_le_trans)

lemma grows_update:
  "(\<And>r. R r r) \<Longrightarrow> (\<And>r. r \<in> set rows \<Longrightarrow> P r \<Longrightarrow> R r (f r)) \<Longrightarrow> grows R rows (fst (sql_update P f rows))"
  by (simp add: grows_def sql_update_def)

lemma grows_append: "(\<And>r. R r r) \<Longrightarrow> grows R rows (rows @ new)"
  by (simp add: grows_def nth_append)

lemma grows_mem: "grows R rows rows' \<Longrightarrow> r \<in> set rows \<Longrightarrow> \<exists>r' \<in> set rows'. R r r'"
  unfolding grows_def by (metis in_set_conv_nth less_le_trans)

lemma events_evolve_refl [simp]: "events_evolve d d"
  by (simp add: events_evolve_def)

lemma events_evolve_trans: "events_evolve a b \<Longrightarrow> events_evolve b c \<Longrightarrow> events_evolve a c"
  unfolding events_evolve_def by (smt (verit, best))

lemma evolves_refl [simp]: "evolves d d"
  by (simp add: evolves_def grows_refl)

lemma table_trans:
  shows
    "grows job_evolves js js' \<Longrightarrow> grows job_evolves js' js'' \<Longrightarrow> grows job_evolves js js''"
    "grows session_evolves ss ss' \<Longrightarrow> grows session_evolves ss' ss'' \<Longrightarrow> grows session_evolves ss ss''"
    "grows worker_evolves ws ws' \<Longrightarrow> grows worker_evolves ws' ws'' \<Longrightarrow> grows worker_evolves ws ws''"
    "grows fence_evolves fs fs' \<Longrightarrow> grows fence_evolves fs' fs'' \<Longrightarrow> grows fence_evolves fs fs''"
    "grows (=) as as' \<Longrightarrow> grows (=) as' as'' \<Longrightarrow> grows (=) as as''"
  by (rule grows_trans; blast intro: job_evolves_trans session_evolves_trans worker_evolves_trans fence_evolves_trans)+

lemma evolves_trans: "evolves a b \<Longrightarrow> evolves b c \<Longrightarrow> evolves a c"
  unfolding evolves_def
  using table_trans events_evolve_trans
  by blast

lemma keeps_refl [simp, intro]: "keeps d d"
  by (simp add: keeps_def)

lemma keeps_trans: "keeps a b \<Longrightarrow> keeps b c \<Longrightarrow> keeps a c"
  unfolding keeps_def using evolves_trans by blast

section \<open>Statements on jobs and sessions\<close>

lemma assigned_in_mono: "assigned_in W a \<Longrightarrow> W \<subseteq> V \<Longrightarrow> assigned_in V a"
  by (auto simp: assigned_in_def split: option.splits)

lemma assigned_in_simps [simp]: "assigned_in W None" "assigned_in W (Some w) \<longleftrightarrow> w \<in> W"
  by (simp_all add: assigned_in_def)

lemma unique_idempotency_update:
  assumes "\<And>r. key (f r) = key r" and "unique_idempotency key rows"
  shows "unique_idempotency key (fst (sql_update P f rows))"
proof -
  have "map key (filter (\<lambda>r. snd (key r) \<noteq> None) (fst (sql_update P f rows))) =
        map key (filter (\<lambda>r. snd (key r) \<noteq> None) rows)"
    by (induction rows) (auto simp: sql_update_def assms(1))
  with assms(2) show ?thesis by (simp add: unique_idempotency_def)
qed

lemma keys_update:
  assumes "\<And>r. r \<in> set rows \<Longrightarrow> P r \<Longrightarrow> key (f r) = key r"
  shows "map key (fst (sql_update P f rows)) = map key rows"
  using assms by (auto simp: sql_update_def)

text \<open>An update of job rows that releases or keeps what each row holds.\<close>

lemma keeps_jobs:
  assumes "\<And>j. j \<in> set (db_jobs d) \<Longrightarrow> P j \<Longrightarrow> job_ok j \<Longrightarrow> job_ok (f j) \<and> job_evolves j (f j)"
    and "\<And>j. job_key (f j) = job_key j" and "\<And>j. j_id (f j) = j_id j"
    and "\<And>j. P j \<Longrightarrow> job_held (f j) \<subseteq># job_held j"
    and "\<And>j. P j \<Longrightarrow> j_assignedWorkerId (f j) = None \<or> j_assignedWorkerId (f j) = j_assignedWorkerId j"
  shows "keeps d (d\<lparr>db_jobs := fst (sql_update P f (db_jobs d))\<rparr>)"
  unfolding keeps_def
proof
  assume ok: "db_ok d"
  let ?d = "d\<lparr>db_jobs := fst (sql_update P f (db_jobs d))\<rparr>"
  let ?I = "\<lambda>r. job_ok r \<and> assigned_in (w_id ` set (db_workers d)) (j_assignedWorkerId r)"
  have tab: "distinct (map j_id (db_jobs d))" "unique_idempotency job_key (db_jobs d)" "\<forall>r \<in> set (db_jobs d). ?I r"
    using ok unfolding db_ok_def jobs_ok_def by blast+
  have "?I (f r)" if "r \<in> set (db_jobs d)" "P r" "?I r" for r
    using assms(1) [OF that(1,2)] assms(5) [OF that(2)] that(3) by (metis assigned_in_simps(1))
  with tab(3) have "\<forall>r \<in> set (fst (sql_update P f (db_jobs d))). ?I r" by (intro sql_update_all) auto
  with tab(1) unique_idempotency_update [OF assms(2) tab(2)] have "jobs_ok ?d"
    by (simp add: jobs_ok_def keys_update assms(3))
  moreover have "held ?d \<subseteq># held d"
    using assms(4) by (auto simp: held_def intro!: held_by_update)
  ultimately have "db_ok ?d"
    using ok exclusive_mono [of d ?d]
    by (auto simp: db_ok_def workers_ok_def sessions_ok_def events_ok_def fences_ok_def claims_ok_def)
  moreover have "evolves d ?d"
    using ok assms(1) by (auto simp: evolves_def db_ok_def jobs_ok_def events_evolve_def intro!: grows_refl grows_update)
  ultimately show "db_ok ?d \<and> evolves d ?d" ..
qed

lemma keeps_sessions:
  assumes "\<And>s. s \<in> set (db_sessions d) \<Longrightarrow> P s \<Longrightarrow> session_ok s \<Longrightarrow> session_ok (f s) \<and> session_evolves s (f s)"
    and "\<And>s. session_key (f s) = session_key s" and "\<And>s. s_id (f s) = s_id s"
    and "\<And>s. P s \<Longrightarrow> session_held (f s) \<subseteq># session_held s"
    and "\<And>s. P s \<Longrightarrow> s_assignedWorkerId (f s) = None \<or> s_assignedWorkerId (f s) = s_assignedWorkerId s"
  shows "keeps d (d\<lparr>db_sessions := fst (sql_update P f (db_sessions d))\<rparr>)"
  unfolding keeps_def
proof
  assume ok: "db_ok d"
  let ?d = "d\<lparr>db_sessions := fst (sql_update P f (db_sessions d))\<rparr>"
  let ?I = "\<lambda>r. session_ok r \<and> assigned_in (w_id ` set (db_workers d)) (s_assignedWorkerId r)"
  have tab: "distinct (map s_id (db_sessions d))" "unique_idempotency session_key (db_sessions d)" "\<forall>r \<in> set (db_sessions d). ?I r"
    using ok unfolding db_ok_def sessions_ok_def by blast+
  have "?I (f r)" if "r \<in> set (db_sessions d)" "P r" "?I r" for r
    using assms(1) [OF that(1,2)] assms(5) [OF that(2)] that(3) by (metis assigned_in_simps(1))
  with tab(3) have "\<forall>r \<in> set (fst (sql_update P f (db_sessions d))). ?I r" by (intro sql_update_all) auto
  with tab(1) unique_idempotency_update [OF assms(2) tab(2)] have "sessions_ok ?d"
    by (simp add: sessions_ok_def keys_update assms(3))
  moreover have "held ?d \<subseteq># held d"
    using assms(4) by (auto simp: held_def intro!: held_by_update)
  ultimately have "db_ok ?d"
    using ok exclusive_mono [of d ?d]
    by (auto simp: db_ok_def workers_ok_def jobs_ok_def events_ok_def fences_ok_def claims_ok_def)
  moreover have "evolves d ?d"
    using ok assms(1) by (auto simp: evolves_def db_ok_def sessions_ok_def events_evolve_def intro!: grows_refl grows_update)
  ultimately show "db_ok ?d \<and> evolves d ?d" ..
qed


lemmas statement_defs = startJob_row_def renewJob_row_def finishJob_row_def cancelJob_row_def
  startSession_row_def activateSession_row_def renewSession_row_def closeSession_row_def
  case_prod_unfold Let_def

lemmas job_row_defs = job_ok_def job_active_def job_evolves_def job_identity_def job_allocation_def
  job_terminal_def job_held_def job_key_def

lemmas session_row_defs = session_ok_def session_occupying_def session_unassigned_def session_evolves_def
  session_identity_def session_allocation_def session_terminal_def session_held_def session_key_def
  session_lease_matches_def

lemma keeps_startJob_row: "keeps d (snd (startJob_row jobId workerId leaseId e now d))"
  unfolding statement_defs snd_conv by (rule keeps_jobs) (auto simp: job_row_defs)

lemma keeps_renewJob_row: "keeps d (snd (renewJob_row jobId workerId leaseId e now d))"
  unfolding statement_defs snd_conv by (rule keeps_jobs) (auto simp: job_row_defs)

lemma keeps_cancelJob_row: "keeps d (snd (cancelJob_row jobId now d))"
  unfolding statement_defs snd_conv by (rule keeps_jobs) (auto simp: job_row_defs)

lemma keeps_startSession_row: "keeps d (snd (startSession_row sessionId workerId leaseId e now d))"
  unfolding statement_defs snd_conv by (rule keeps_sessions) (auto simp: session_row_defs)

lemma keeps_activateSession_row: "keeps d (snd (activateSession_row sessionId workerId leaseId e now d))"
  unfolding statement_defs snd_conv by (rule keeps_sessions) (auto simp: session_row_defs)

lemma keeps_closeSession_row: "keeps d (snd (closeSession_row sessionId now d))"
  unfolding statement_defs snd_conv by (rule keeps_sessions) (auto simp: session_row_defs)

lemma keeps_finishJob_row:
  "status \<in> {Succeeded, Failed} \<Longrightarrow> keeps d (snd (finishJob_row jobId workerId leaseId status res err now d))"
  unfolding statement_defs snd_conv
  by (rule keeps_jobs; (elim conjE insertE emptyE)?; simp add: job_row_defs)

lemma keeps_renewSession_row: "keeps d (snd (renewSession_row sessionId workerId leaseId e now d))"
  unfolding statement_defs snd_conv session_lease_matches_def
  by (rule keeps_sessions; (elim conjE insertE emptyE)?; simp add: session_row_defs)

lemmas keeps_rows = keeps_startJob_row keeps_renewJob_row keeps_finishJob_row keeps_cancelJob_row
  keeps_startSession_row keeps_activateSession_row keeps_renewSession_row keeps_closeSession_row

subsection \<open>Assignment\<close>

lemma exclusive_add: "exclusive d \<Longrightarrow> u \<notin> set (occupied_gpus d) \<Longrightarrow> held d' = add_mset u (held d) \<Longrightarrow> exclusive d'"
  by (auto simp: exclusive_def count_eq_zero_iff simp flip: occupied_held)

lemma assignJob_effect:
  assumes "db_ok d" and "assignJob jobId p leaseId e now d = Inr (leased, d')"
    and "p_gpuUuid p \<noteq> []" and "p_gpuUuid p \<notin> set (occupied_gpus d)"
  shows "db_ok d' \<and> evolves d d' \<and>
    (leased = None \<and> d' = d \<or> leased \<noteq> None \<and> held d' = add_mset (p_gpuUuid p) (held d))"
proof -
  let ?P = "\<lambda>j. j_id j = jobId \<and> j_status j = Queued"
  let ?f = "\<lambda>j. j\<lparr>j_status := Leased, j_assignedWorkerId := Some (p_workerId p),
                   j_assignedGpuUuid := Some (p_gpuUuid p), j_leaseId := Some leaseId,
                   j_leaseExpiresAt := Some e, j_attempt := j_attempt j + 1, j_updatedAt := now\<rparr>"
  show ?thesis
  proof (cases "filter ?P (db_jobs d) = []")
    case True
    with assms(1,2) show ?thesis by (simp add: assignJob_def sql_update_none Let_def)
  next
    case False
    then obtain r where r: "r \<in> set (db_jobs d)" "?P r" by (auto simp: filter_empty_conv)
    from False assms(2) have d': "d' = d\<lparr>db_jobs := fst (sql_update ?P ?f (db_jobs d))\<rparr>"
      and leased: "leased \<noteq> None" and ex: "\<exists>x \<in> set (db_workers d). w_id x = p_workerId p"
      by (auto simp: assignJob_def Let_def case_prod_unfold sql_update_snd list_ex_iff split: if_splits)
    from ex have w: "p_workerId p \<in> w_id ` set (db_workers d)" by force
    have dist: "distinct (map j_id (db_jobs d))" using assms(1) by (simp add: db_ok_def jobs_ok_def)
    have "held_by job_held (fst (sql_update ?P ?f (db_jobs d))) = job_held (?f r) + held_by job_held (db_jobs d)"
      using r by (intro held_by_add [OF dist]) (auto simp: job_held_def job_active_def)
    then have held: "held d' = add_mset (p_gpuUuid p) (held d)"
      using assms(3) by (simp add: held_def d' job_held_def job_active_def)
    let ?I = "\<lambda>r. job_ok r \<and> assigned_in (w_id ` set (db_workers d)) (j_assignedWorkerId r)"
    have tab: "unique_idempotency job_key (db_jobs d)" "\<forall>r \<in> set (db_jobs d). ?I r"
      using assms(1) by (simp_all add: db_ok_def jobs_ok_def)
    have "\<forall>r \<in> set (fst (sql_update ?P ?f (db_jobs d))). ?I r"
      using tab(2) w assms(3) by (intro sql_update_all) (auto simp: job_ok_def job_active_def)
    with dist unique_idempotency_update [OF _ tab(1), of ?f ?P] have "jobs_ok d'"
      by (simp add: jobs_ok_def d' keys_update job_key_def)
    with assms(1) held exclusive_add [of d "p_gpuUuid p" d'] assms(4) have "db_ok d'"
      by (auto simp: db_ok_def workers_ok_def sessions_ok_def events_ok_def fences_ok_def claims_ok_def d')
    moreover have "evolves d d'"
      by (auto simp: d' evolves_def events_evolve_def job_row_defs intro!: grows_refl grows_update)
    ultimately show ?thesis using held leased by blast
  qed
qed

lemma assignSession_effect:
  assumes "db_ok d" and "assignSession sessionId p leaseId e now d = Inr (allocated, d')"
    and "p_gpuUuid p \<noteq> []" and "p_gpuUuid p \<notin> set (occupied_gpus d)"
  shows "db_ok d' \<and> evolves d d' \<and>
    (allocated = None \<and> d' = d \<or> allocated \<noteq> None \<and> held d' = add_mset (p_gpuUuid p) (held d))"
proof -
  let ?P = "\<lambda>s. s_id s = sessionId \<and> s_status s = Requested"
  let ?f = "\<lambda>s. s\<lparr>s_status := Allocated, s_assignedWorkerId := Some (p_workerId p),
                   s_assignedGpuUuid := Some (p_gpuUuid p), s_leaseId := Some leaseId,
                   s_leaseExpiresAt := Some e, s_updatedAt := now\<rparr>"
  show ?thesis
  proof (cases "filter ?P (db_sessions d) = []")
    case True
    with assms(1,2) show ?thesis by (simp add: assignSession_def sql_update_none Let_def)
  next
    case False
    then obtain r where r: "r \<in> set (db_sessions d)" "?P r" by (auto simp: filter_empty_conv)
    from False assms(2) have d': "d' = d\<lparr>db_sessions := fst (sql_update ?P ?f (db_sessions d))\<rparr>"
      and allocated: "allocated \<noteq> None" and ex: "\<exists>x \<in> set (db_workers d). w_id x = p_workerId p"
      by (auto simp: assignSession_def Let_def case_prod_unfold sql_update_snd list_ex_iff split: if_splits)
    from ex have w: "p_workerId p \<in> w_id ` set (db_workers d)" by force
    have dist: "distinct (map s_id (db_sessions d))" using assms(1) by (simp add: db_ok_def sessions_ok_def)
    have "held_by session_held (fst (sql_update ?P ?f (db_sessions d))) = session_held (?f r) + held_by session_held (db_sessions d)"
      using r by (intro held_by_add [OF dist]) (auto simp: session_held_def session_occupying_def)
    then have held: "held d' = add_mset (p_gpuUuid p) (held d)"
      using assms(3) by (simp add: held_def d' session_held_def session_occupying_def)
    let ?I = "\<lambda>r. session_ok r \<and> assigned_in (w_id ` set (db_workers d)) (s_assignedWorkerId r)"
    have tab: "unique_idempotency session_key (db_sessions d)" "\<forall>r \<in> set (db_sessions d). ?I r"
      using assms(1) by (simp_all add: db_ok_def sessions_ok_def)
    have "\<forall>r \<in> set (fst (sql_update ?P ?f (db_sessions d))). ?I r"
      using tab(2) w assms(3) by (intro sql_update_all) (auto simp: session_ok_def session_occupying_def)
    with dist unique_idempotency_update [OF _ tab(1), of ?f ?P] have "sessions_ok d'"
      by (simp add: sessions_ok_def d' keys_update session_key_def)
    with assms(1) held exclusive_add [of d "p_gpuUuid p" d'] assms(4) have "db_ok d'"
      by (auto simp: db_ok_def workers_ok_def jobs_ok_def events_ok_def fences_ok_def claims_ok_def d')
    moreover have "evolves d d'"
      using tab(2) by (auto simp: d' evolves_def events_evolve_def session_row_defs intro!: grows_refl grows_update)
    ultimately show ?thesis using held allocated by blast
  qed
qed

subsection \<open>Recovery\<close>

lemma mem_update_other:
  "r \<in> set rows \<Longrightarrow> \<not> P r \<Longrightarrow> r \<in> set (fst (sql_update P f rows))"
  by (force simp: sql_update_fst)

lemma job_recovered:
  fixes job :: job
  assumes "job_ok job" and "j_status job = Leased \<or> j_status job = Running"
  shows "job_ok (job\<lparr>j_status := (if j_attempt job \<ge> j_maxAttempts job then Failed else Queued),
       j_assignedWorkerId := None, j_assignedGpuUuid := None, j_leaseId := None,
       j_leaseExpiresAt := None, j_error := e, j_updatedAt := now\<rparr>)" (is "job_ok ?j")
    and "job_evolves job (job\<lparr>j_status := status, j_assignedWorkerId := None, j_assignedGpuUuid := None,
       j_leaseId := None, j_leaseExpiresAt := None, j_error := e, j_updatedAt := now\<rparr>)"
  using assms by (auto simp: job_ok_def job_active_def job_evolves_def job_terminal_def job_identity_def)

lemma session_recovered:
  fixes session :: session
  assumes "session_ok session" and "session_occupying session"
  shows "session_ok (session\<lparr>s_status :=
         (if s_interruptionCount session + 1 \<le> s_maxInterruptions session then Requested else Interrupted),
       s_interruptionCount := s_interruptionCount session + 1, s_assignedWorkerId := None,
       s_assignedGpuUuid := None, s_leaseId := None, s_leaseExpiresAt := None, s_updatedAt := now\<rparr>)"
    and "session_evolves session (session\<lparr>s_status := status,
       s_interruptionCount := s_interruptionCount session + 1, s_assignedWorkerId := None,
       s_assignedGpuUuid := None, s_leaseId := None, s_leaseExpiresAt := None, s_updatedAt := now\<rparr>)"
  using assms
  by (auto simp: session_ok_def session_occupying_def session_unassigned_def session_evolves_def
      session_terminal_def session_identity_def)

lemma keeps_recoverJobs:
  "db_ok d \<Longrightarrow> distinct (map j_id js) \<Longrightarrow> set js \<subseteq> set (db_jobs d) \<Longrightarrow>
   keeps d (snd (recoverJobs now offline js d))"
proof (induction js arbitrary: d)
  case Nil
  then show ?case by simp
next
  case (Cons job rest)
  let ?P = "\<lambda>j. j_id j = j_id job \<and> j_status j \<in> {Leased, Running}"
  let ?t = "j_attempt job \<ge> j_maxAttempts job"
  let ?f = "\<lambda>j. j\<lparr>j_status := (if ?t then Failed else Queued), j_assignedWorkerId := None,
       j_assignedGpuUuid := None, j_leaseId := None, j_leaseExpiresAt := None,
       j_error := (if ?t then Some (JObj [(''code'', JStr ''lease_exhausted''),
                                  (''message'', JStr ''Job exhausted its execution attempts'')])
                 else None), j_updatedAt := now\<rparr>"
  let ?d = "d\<lparr>db_jobs := fst (sql_update ?P ?f (db_jobs d))\<rparr>"
  have same: "j = job" if "j \<in> set (db_jobs d)" "j_id j = j_id job" for j
    using that Cons.prems by (intro key_unique [of j_id "db_jobs d"]) (auto simp: db_ok_def jobs_ok_def)
  have k: "keeps d ?d"
  proof (rule keeps_jobs)
    fix j assume "j \<in> set (db_jobs d)" "?P j" "job_ok j"
    with same [of j] have eq: "j = job" and j: "job_ok job" "j_status job = Leased \<or> j_status job = Running" by auto
    show "job_ok (?f j) \<and> job_evolves j (?f j)"
      unfolding eq using job_recovered [OF j] by blast
  qed (auto simp: job_row_defs)
  have other: "j_id x \<noteq> j_id job" if "x \<in> set rest" for x
    using that Cons.prems(2) by (metis distinct.simps(2) image_eqI list.simps(9) list.set_map)
  have "set rest \<subseteq> set (db_jobs ?d)"
    using Cons.prems(3) other by (auto intro!: mem_update_other)
  with k Cons.prems(1,2) Cons.IH [of ?d] have "keeps ?d (snd (recoverJobs now offline rest ?d))"
    by (simp add: keeps_def)
  from keeps_trans [OF k this] show ?case
    unfolding recoverJobs.simps Let_def case_prod_unfold by (simp only: snd_conv split: option.split) blast
qed

lemma keeps_recoverExpiredJobs: "keeps d (snd (recoverExpiredJobs now offline d))"
  unfolding keeps_def
proof
  assume ok: "db_ok d"
  then have "distinct (map j_id (db_jobs d))" by (simp add: db_ok_def jobs_ok_def)
  then have "keeps d (snd (recoverExpiredJobs now offline d))"
    unfolding recoverExpiredJobs_def
    by (intro keeps_recoverJobs ok) (auto simp: listActiveJobs_def distinct_map_filter)
  with ok show "db_ok (snd (recoverExpiredJobs now offline d)) \<and> evolves d (snd (recoverExpiredJobs now offline d))"
    by (simp add: keeps_def)
qed

lemma keeps_recoverSessions:
  "db_ok d \<Longrightarrow> distinct (map s_id ss) \<Longrightarrow> set ss \<subseteq> set (db_sessions d) \<Longrightarrow>
   keeps d (snd (recoverSessions now offline ss d))"
proof (induction ss arbitrary: d)
  case Nil
  then show ?case by simp
next
  case (Cons session rest)
  let ?P = "\<lambda>s. s_id s = s_id session \<and> s_status s \<in> {Allocated, Connecting, Active}"
  let ?t = "s_interruptionCount session + 1 \<le> s_maxInterruptions session"
  let ?f = "\<lambda>s. s\<lparr>s_status := (if ?t then Requested else Interrupted),
       s_interruptionCount := s_interruptionCount session + 1, s_assignedWorkerId := None,
       s_assignedGpuUuid := None, s_leaseId := None, s_leaseExpiresAt := None, s_updatedAt := now\<rparr>"
  let ?d = "d\<lparr>db_sessions := fst (sql_update ?P ?f (db_sessions d))\<rparr>"
  have same: "s = session" if "s \<in> set (db_sessions d)" "s_id s = s_id session" for s
    using that Cons.prems by (intro key_unique [of s_id "db_sessions d"]) (auto simp: db_ok_def sessions_ok_def)
  have k: "keeps d ?d"
  proof (rule keeps_sessions)
    fix s assume "s \<in> set (db_sessions d)" "?P s" "session_ok s"
    with same [of s] have eq: "s = session" and s: "session_ok session" "session_occupying session"
      by (auto simp: session_occupying_def)
    show "session_ok (?f s) \<and> session_evolves s (?f s)"
      unfolding eq using session_recovered [OF s] by blast
  qed (auto simp: session_row_defs)
  have other: "s_id x \<noteq> s_id session" if "x \<in> set rest" for x
    using that Cons.prems(2) by (metis distinct.simps(2) image_eqI list.simps(9) list.set_map)
  have "set rest \<subseteq> set (db_sessions ?d)"
    using Cons.prems(3) other by (auto intro!: mem_update_other)
  with k Cons.prems(1,2) Cons.IH [of ?d] have "keeps ?d (snd (recoverSessions now offline rest ?d))"
    by (simp add: keeps_def)
  from keeps_trans [OF k this] show ?case
    unfolding recoverSessions.simps Let_def case_prod_unfold by (simp only: snd_conv split: option.split) blast
qed

lemma distinct_map_mset: "mset xs = mset ys \<Longrightarrow> distinct (map f xs) = distinct (map f ys)"
  by (metis mset_eq_imp_distinct_iff mset_map)

lemma keeps_recoverInterruptedSessions: "keeps d (snd (recoverInterruptedSessions now offline d))"
  unfolding keeps_def
proof
  assume ok: "db_ok d"
  let ?l = "filter (session_expired now offline) (listOccupyingSessions d)"
  have "distinct (map s_id (listOccupyingSessions d))"
    using ok unfolding listOccupyingSessions_def
    by (subst distinct_map_mset [OF mset_js_sort]) (auto simp: db_ok_def sessions_ok_def distinct_map_filter)
  then have "keeps d (snd (recoverInterruptedSessions now offline d))"
    unfolding recoverInterruptedSessions_def
    by (intro keeps_recoverSessions ok distinct_map_filter) (auto simp: listOccupyingSessions_def)
  with ok show "db_ok (snd (recoverInterruptedSessions now offline d)) \<and>
      evolves d (snd (recoverInterruptedSessions now offline d))"
    by (simp add: keeps_def)
qed

section \<open>Inserts, workers and events\<close>

lemma unique_idempotency_append:
  assumes "unique_idempotency key rows"
    and "snd (key r) = None \<or> \<not> list_ex (\<lambda>x. key x = key r) rows"
  shows "unique_idempotency key (rows @ [r])"
  using assms by (auto simp: unique_idempotency_def list_ex_iff)

lemma insertJob_effect:
  assumes "insertJob i d = Inr ((j, duplicate), d')" and "db_ok d" and "0 < ji_maxAttempts i"
  shows "db_ok d' \<and> evolves d d' \<and> j \<in> set (db_jobs d') \<and> (duplicate \<longrightarrow> d' = d) \<and>
    (duplicate \<longleftrightarrow> ji_idempotencyKey i \<noteq> None \<and> list_ex (\<lambda>r. job_key r = job_key j) (db_jobs d)) \<and>
    job_key j = (ji_projectId i, ji_idempotencyKey i)"
proof (cases "list_ex (\<lambda>r. j_id r = ji_id i) (db_jobs d) \<or>
         (ji_idempotencyKey i \<noteq> None \<and>
          list_ex (\<lambda>r. j_projectId r = ji_projectId i \<and> j_idempotencyKey r = ji_idempotencyKey i) (db_jobs d))")
  case True
  let ?row = "sql_get (filter (\<lambda>r. j_projectId r = ji_projectId i \<and> j_idempotencyKey r = ji_idempotencyKey i) (db_jobs d))"
  have "(case ji_idempotencyKey i of
           Some (_ # _) \<Rightarrow> (case ?row of Some r \<Rightarrow> Inr ((r, True), d)
              | None \<Rightarrow> Inl (TypeError ''Cannot read properties of undefined''))
         | _ \<Rightarrow> Inl (DatabaseError ''UNIQUE constraint failed'')) = Inr ((j, duplicate), d')"
    using assms(1) unfolding insertJob_def by (simp only: True if_True split: if_splits)
  then have k: "ji_idempotencyKey i \<noteq> None" and g: "?row = Some j" and d: "duplicate" "d' = d"
    by (simp_all split: option.splits list.splits)
  from sql_get_filter_Some [OF g] assms(2) k d show ?thesis
    by (auto simp: job_key_def list_ex_iff)
next
  case False
  with assms(1) have j: "j = \<lparr>j_id = ji_id i, j_projectId = ji_projectId i, j_type = ji_type i,
                  j_priority = ji_priority i, j_status = Queued,
                  j_constraints = \<lparr>rq_gpuCount = 1, rq_minVramMiB = ji_minVramMiB i,
                    rq_capabilities = ji_requiredCapabilities i, rq_model = ji_requestedModel i,
                    rq_adapter = None\<rparr>,
                  j_payload = ji_payload i, j_result = None, j_error = None,
                  j_assignedWorkerId = None, j_assignedGpuUuid = None,
                  j_leaseId = None, j_leaseExpiresAt = None,
                  j_attempt = 0, j_maxAttempts = ji_maxAttempts i,
                  j_idempotencyKey = ji_idempotencyKey i,
                  j_createdAt = ji_now i, j_updatedAt = ji_now i\<rparr>"
    and d': "d' = d\<lparr>db_jobs := db_jobs d @ [j]\<rparr>" "\<not> duplicate"
    by (auto simp: insertJob_def Let_def)
  have ok: "job_ok j" and key: "job_key j = (ji_projectId i, ji_idempotencyKey i)" and none: "j_assignedWorkerId j = None"
    and h: "job_held j = {#}" and id: "j_id j = ji_id i"
    using j assms(3) by (simp_all add: job_ok_def job_key_def job_held_def job_active_def)
  from False key have fresh: "snd (job_key j) = None \<or> \<not> list_ex (\<lambda>r. job_key r = job_key j) (db_jobs d)"
    by (auto simp: job_key_def list_ex_iff)
  have "jobs_ok d'"
    using assms(2) False ok none fresh id
    by (auto simp: db_ok_def jobs_ok_def d' list_ex_iff intro!: unique_idempotency_append)
  moreover have "held d' = held d" using h by (simp add: held_def d')
  ultimately have "db_ok d'"
    using assms(2) by (auto simp: db_ok_def workers_ok_def sessions_ok_def events_ok_def fences_ok_def claims_ok_def exclusive_def d')
  moreover have "evolves d d'"
    by (auto simp: evolves_def events_evolve_def d' intro!: grows_refl grows_append)
  ultimately show ?thesis using d' fresh key by auto
qed

lemma insertSession_effect:
  assumes "insertSession i d = Inr ((s, duplicate), d')" and "db_ok d"
  shows "db_ok d' \<and> evolves d d' \<and> s \<in> set (db_sessions d') \<and> (duplicate \<longrightarrow> d' = d) \<and>
    (duplicate \<longleftrightarrow> si_idempotencyKey i \<noteq> None \<and> list_ex (\<lambda>r. session_key r = session_key s) (db_sessions d)) \<and>
    session_key s = (si_projectId i, si_idempotencyKey i)"
proof (cases "list_ex (\<lambda>r. s_id r = si_id i) (db_sessions d) \<or>
         (si_idempotencyKey i \<noteq> None \<and>
          list_ex (\<lambda>r. s_projectId r = si_projectId i \<and> s_idempotencyKey r = si_idempotencyKey i) (db_sessions d))")
  case True
  let ?row = "sql_get (filter (\<lambda>r. s_projectId r = si_projectId i \<and> s_idempotencyKey r = si_idempotencyKey i) (db_sessions d))"
  have "(case si_idempotencyKey i of
           Some (_ # _) \<Rightarrow> (case ?row of Some r \<Rightarrow> Inr ((r, True), d)
              | None \<Rightarrow> Inl (TypeError ''Cannot read properties of undefined''))
         | _ \<Rightarrow> Inl (DatabaseError ''UNIQUE constraint failed'')) = Inr ((s, duplicate), d')"
    using assms(1) unfolding insertSession_def by (simp only: True if_True split: if_splits) simp
  then have k: "si_idempotencyKey i \<noteq> None" and g: "?row = Some s" and d: "duplicate" "d' = d"
    by (simp_all split: option.splits list.splits)
  from sql_get_filter_Some [OF g] assms(2) k d show ?thesis
    by (auto simp: session_key_def list_ex_iff)
next
  case False
  with assms(1) have checks: "session_checks i"
    and s: "s_id s = si_id i" "s_status s = Requested" "session_unassigned s" "rq_gpuCount (s_requirements s) = 1"
      "s_schemaVersion s = si_schemaVersion i" "s_interruptionCount s = 0" "s_maxInterruptions s = si_maxInterruptions i"
      "session_key s = (si_projectId i, si_idempotencyKey i)"
    and d': "d' = d\<lparr>db_sessions := db_sessions d @ [s]\<rparr>" "\<not> duplicate"
    by (auto simp: insertSession_def Let_def session_unassigned_def session_key_def split: if_splits)
  have ok: "session_ok s" and h: "session_held s = {#}"
    using s checks by (simp_all add: session_ok_def session_held_def session_occupying_def session_checks_def)
  from False s(8) have fresh: "snd (session_key s) = None \<or> \<not> list_ex (\<lambda>r. session_key r = session_key s) (db_sessions d)"
    by (auto simp: session_key_def list_ex_iff)
  have "sessions_ok d'"
    using assms(2) False ok fresh s(1,3)
    by (auto simp: db_ok_def sessions_ok_def d' list_ex_iff session_unassigned_def intro!: unique_idempotency_append)
  moreover have "held d' = held d" using h by (simp add: held_def d')
  ultimately have "db_ok d'"
    using assms(2) by (auto simp: db_ok_def workers_ok_def jobs_ok_def events_ok_def fences_ok_def claims_ok_def exclusive_def d')
  moreover have "evolves d d'"
    by (auto simp: evolves_def events_evolve_def d' intro!: grows_refl grows_append)
  ultimately show ?thesis using d' fresh s(8) by auto
qed

text \<open>An update of worker rows that keeps identities.\<close>

lemma keeps_workers:
  assumes "\<And>w. w_id (f w) = w_id w \<and> w_name (f w) = w_name w \<and> w_createdAt (f w) = w_createdAt w"
    and "\<And>w. worker_ok w \<Longrightarrow> worker_ok (f w)"
  shows "keeps d (d\<lparr>db_workers := fst (sql_update P f (db_workers d))\<rparr>)"
  unfolding keeps_def
proof
  assume ok: "db_ok d"
  let ?d = "d\<lparr>db_workers := fst (sql_update P f (db_workers d))\<rparr>"
  have ids: "map w_id (db_workers ?d) = map w_id (db_workers d)" "map w_name (db_workers ?d) = map w_name (db_workers d)"
    using assms(1) by (auto simp: keys_update)
  then have "w_id ` set (db_workers ?d) = w_id ` set (db_workers d)" by (metis set_map)
  moreover have "\<forall>w \<in> set (db_workers ?d). worker_ok w"
    using ok assms(2) unfolding db_ok_def workers_ok_def by (auto simp: sql_update_fst)
  ultimately have "db_ok ?d"
    using ok ids unfolding db_ok_def workers_ok_def jobs_ok_def sessions_ok_def events_ok_def fences_ok_def claims_ok_def exclusive_def held_def
    by simp
  moreover have "evolves d ?d"
    using assms(1) by (auto simp: evolves_def events_evolve_def worker_evolves_def intro!: grows_refl grows_update)
  ultimately show "db_ok ?d \<and> evolves d ?d" ..
qed

lemma keeps_markStaleWorkersOffline: "keeps d (snd (markStaleWorkersOffline b now d))"
  unfolding markStaleWorkersOffline_def Let_def case_prod_unfold snd_conv
  by (rule keeps_workers) (simp_all add: worker_ok_def)

lemma keeps_setWorkerDrain_row: "keeps d (snd (setWorkerDrain_row workerId drain now d))"
  unfolding setWorkerDrain_row_def Let_def case_prod_unfold snd_conv
  by (rule keeps_workers) (simp_all add: worker_ok_def)

lemma keeps_updateWorkerHeartbeat:
  "\<forall>g \<in> set (hi_gpus h). g_uuid g \<noteq> [] \<Longrightarrow> keeps d (snd (updateWorkerHeartbeat workerId h d))"
  unfolding updateWorkerHeartbeat_def Let_def case_prod_unfold snd_conv
  by (rule keeps_workers) (simp_all add: worker_ok_def)

lemma upsertWorker_effect:
  assumes "upsertWorker i d = Inr (w, d')" and "db_ok d"
    and "wi_id i \<noteq> []" and "\<forall>g \<in> set (wi_gpus i). g_uuid g \<noteq> []"
  shows "db_ok d' \<and> evolves d d' \<and> w \<in> set (db_workers d') \<and> w_name w = wi_name i \<and>
    w_status w = Online \<and> w_gpus w = wi_gpus i \<and> w_lastSeenAt w = wi_now i"
proof (cases "list_ex (\<lambda>w. w_name w = wi_name i) (db_workers d)")
  case True
  let ?f = "\<lambda>w. w\<lparr>w_version := wi_version i, w_baseUrl := wi_baseUrl i, w_status := Online,
                      w_labels := wi_labels i, w_capabilities := wi_capabilities i,
                      w_adapterManifests := wi_adapterManifests i, w_adapterHealth := wi_adapterHealth i,
                      w_warmModels := wi_warmModels i, w_modelInventory := wi_modelInventory i,
                      w_gpus := wi_gpus i, w_lastSeenAt := wi_now i, w_updatedAt := wi_now i\<rparr>"
  let ?u = "sql_update (\<lambda>w. w_name w = wi_name i) ?f (db_workers d)"
  from True assms(1) obtain rest where u: "snd ?u = w # rest" and d': "d' = d\<lparr>db_workers := fst ?u\<rparr>"
    by (auto simp: upsertWorker_def Let_def case_prod_unfold split: list.splits)
  have k: "keeps d (d\<lparr>db_workers := fst ?u\<rparr>)"
    using assms(4) by (intro keeps_workers) (auto simp: worker_ok_def)
  have "w \<in> set (snd ?u)" using u by simp
  then obtain v where v: "v \<in> set (db_workers d)" "w_name v = wi_name i" "w = ?f v"
    by (auto simp: sql_update_snd)
  then have "w \<in> set (fst ?u)" by (force simp: sql_update_fst)
  with k assms(2) d' v show ?thesis by (simp add: keeps_def)
next
  case False
  with assms(1) have fresh: "\<not> list_ex (\<lambda>w. w_id w = wi_id i) (db_workers d)"
    and w: "w_id w = wi_id i" "w_name w = wi_name i" "w_status w = Online" "w_gpus w = wi_gpus i" "w_lastSeenAt w = wi_now i"
    and d': "d' = d\<lparr>db_workers := db_workers d @ [w]\<rparr>"
    by (auto simp: upsertWorker_def Let_def split: if_splits)
  have "workers_ok d'"
    using assms False fresh w by (auto simp: db_ok_def workers_ok_def worker_ok_def d' list_ex_iff)
  moreover have "jobs_ok d'" "sessions_ok d'"
    using assms(2) by (auto simp: db_ok_def jobs_ok_def sessions_ok_def d' intro: assigned_in_mono)
  ultimately have "db_ok d'"
    using assms(2) by (auto simp: db_ok_def events_ok_def fences_ok_def claims_ok_def exclusive_def held_def d')
  moreover have "evolves d d'"
    by (auto simp: evolves_def events_evolve_def d' intro!: grows_refl grows_append)
  ultimately show ?thesis using w d' by simp
qed

lemma sql_max_upto: "a \<le> b \<Longrightarrow> sql_max [a..b] = Some b"
proof (induction "nat (b - a)" arbitrary: a)
  case 0
  then show ?case by simp
next
  case (Suc n)
  then have "sql_max [a + 1..b] = Some b" by (intro Suc.hyps(1)) auto
  moreover have "[a..b] = a # [a + 1..b]" using Suc.prems by (simp add: upto_rec1)
  ultimately show ?case using Suc.prems by simp
qed

lemma filter_upto_gt: "filter (\<lambda>k. \<not> k \<le> c) [a..b] = [max a (c + 1)..b]"
proof (induction "nat (b - a + 1)" arbitrary: a)
  case 0
  then show ?case by simp
next
  case (Suc n)
  then have "filter (\<lambda>k. \<not> k \<le> c) [a + 1..b] = [max (a + 1) (c + 1)..b]" by (intro Suc.hyps(1)) auto
  moreover have "[a..b] = a # [a + 1..b]" using Suc.hyps(2) by (simp add: upto_rec1)
  ultimately show ?case by (cases "a \<le> c") (simp_all add: max_absorb1 max_absorb2)
qed

text \<open>The log after an append: the new event, and the last 10000 sequence numbers without a gap.\<close>

lemma appendEvent_effect:
  assumes d': "d' = snd (appendEvent type subjectId payload now d)" and "events_ok d"
  shows "events_ok d' \<and> db_lastSequence d' = db_lastSequence d + 1 \<and> events_evolve d d' \<and>
    ev_sequence (fst (appendEvent type subjectId payload now d)) = db_lastSequence d + 1 \<and>
    fst (appendEvent type subjectId payload now d) \<in> set (db_events d')"
proof -
  let ?row = "\<lparr>ev_sequence = db_lastSequence d + 1, ev_type = type, ev_subjectId = subjectId,
                 ev_payload = nullish payload JNull, ev_createdAt = now\<rparr>"
  let ?lo = "max 1 (db_lastSequence d - event_retention + 1)"
  from assms(2) have ge: "0 \<le> db_lastSequence d" and seq: "map ev_sequence (db_events d) = [?lo .. db_lastSequence d]"
    by (simp_all add: events_ok_def)
  have lo: "?lo \<le> db_lastSequence d + 1" using ge by (simp add: event_retention_def)
  then have ins: "map ev_sequence (db_events d @ [?row]) = [?lo .. db_lastSequence d + 1]"
    using seq by (simp add: upto_rec2)
  have mx: "sql_max (map ev_sequence (db_events d @ [?row])) = Some (db_lastSequence d + 1)"
    unfolding ins using lo by (rule sql_max_upto)
  let ?c = "db_lastSequence d + 1 - event_retention"
  have ev: "db_events d' = filter (\<lambda>e. \<not> ev_sequence e \<le> ?c) (db_events d @ [?row])"
    and last: "db_lastSequence d' = db_lastSequence d + 1"
    unfolding d' appendEvent_def Let_def by (simp_all only: mx option.case snd_conv) simp_all
  have "map ev_sequence (db_events d') = filter (\<lambda>k. \<not> k \<le> ?c) [?lo .. db_lastSequence d + 1]"
    unfolding ev ins [symmetric] filter_map by (simp add: comp_def)
  also have "\<dots> = [max 1 (?c + 1) .. db_lastSequence d + 1]"
    unfolding filter_upto_gt by (simp add: max_def)
  finally have "events_ok d'" using ge last by (simp add: events_ok_def)
  moreover have "events_evolve d d'"
    unfolding events_evolve_def ev last by auto
  moreover have "?row \<in> set (db_events d')" by (simp add: ev event_retention_def)
  moreover have "fst (appendEvent type subjectId payload now d) = ?row" by (simp add: appendEvent_def Let_def)
  ultimately show ?thesis using last by simp
qed

lemma appendEvent_frame [simp]:
  "db_workers (snd (appendEvent t s p now d)) = db_workers d" "db_jobs (snd (appendEvent t s p now d)) = db_jobs d"
  "db_sessions (snd (appendEvent t s p now d)) = db_sessions d" "db_fences (snd (appendEvent t s p now d)) = db_fences d"
  "db_attempts (snd (appendEvent t s p now d)) = db_attempts d"
  by (simp_all add: appendEvent_def Let_def)

lemma keeps_appendEvent: "keeps d (snd (appendEvent type subjectId payload now d))"
  using appendEvent_effect [OF HOL.refl, of d type subjectId payload now]
  by (auto simp: keeps_def db_ok_def workers_ok_def jobs_ok_def sessions_ok_def fences_ok_def claims_ok_def exclusive_def
      held_def evolves_def intro!: grows_refl)

section \<open>The scheduler pass\<close>

lemma keeps_append_then:
  "(\<And>d. keeps d (k d)) \<Longrightarrow> keeps d (k (snd (appendEvent type subjectId payload now d)))"
  by (rule keeps_trans [OF keeps_appendEvent])

lemma keeps_offline_events: "keeps d (offline_events now ws d)"
  by (induction ws arbitrary: d) (auto intro: keeps_append_then)

lemma keeps_job_recovery_events: "keeps d (job_recovery_events now rs d)"
  by (induction rs arbitrary: d) (simp_all add: split_paired_all keeps_append_then)

lemma keeps_session_recovery_events: "keeps d (session_recovery_events now rs d)"
proof (induction rs arbitrary: d)
  case (Cons r rs)
  obtain s reason p where "r = (s, reason, p)" by (cases r)
  then show ?case
    using Cons.IH keeps_appendEvent keeps_trans by (simp add: Let_def) blast
qed simp

lemma keeps_recovery_phase:
  assumes "recovery_phase cfg now d = (stale, recoveries, d')"
  shows "keeps d d'"
proof -
  let ?m = "markStaleWorkersOffline (now - sc_heartbeatTimeoutMs cfg) now d"
  let ?d2 = "offline_events now (fst ?m) (snd ?m)"
  let ?r = "recoverExpiredJobs now (fst ?m) ?d2"
  let ?d4 = "job_recovery_events now (fst ?r) (snd ?r)"
  let ?s = "recoverInterruptedSessions now (fst ?m) ?d4"
  have "d' = session_recovery_events now (fst ?s) (snd ?s)"
    using assms by (auto simp only: recovery_phase_def Let_def case_prod_unfold prod.inject)
  then show ?thesis
    using keeps_markStaleWorkersOffline [of d "now - sc_heartbeatTimeoutMs cfg" now]
      keeps_offline_events [of "snd ?m" now "fst ?m"]
      keeps_recoverExpiredJobs [of ?d2 now "fst ?m"]
      keeps_job_recovery_events [of "snd ?r" now "fst ?r"]
      keeps_recoverInterruptedSessions [of ?d4 now "fst ?m"]
      keeps_session_recovery_events [of "snd ?s" now "fst ?s"]
    by (blast intro: keeps_trans)
qed

lemma set_occupied: "u \<in> set (occupied_gpus d) \<longleftrightarrow> u \<in># held d"
  by (simp flip: occupied_held)

lemma appendEvent_held [simp]: "held (snd (appendEvent t s p now d)) = held d"
  by (simp add: held_def)

lemma assignJob_workers: "assignJob i p l e now d = Inr (r, d') \<Longrightarrow> db_workers d' = db_workers d"
  by (auto simp: assignJob_def Let_def case_prod_unfold split: if_splits)

lemma assignSession_workers: "assignSession i p l e now d = Inr (r, d') \<Longrightarrow> db_workers d' = db_workers d"
  by (auto simp: assignSession_def Let_def case_prod_unfold split: if_splits)

lemma assign_entry_effect:
  assumes "assign_entry lc cfg now workers blocked uuid occupied entry d = Inr ((gpu, leased), drew, d')"
    and ok: "db_ok d" and occ: "set (occupied_gpus d) \<subseteq> set occupied"
  shows "db_ok d' \<and> evolves d d' \<and> db_workers d' = db_workers d \<and>
    set (occupied_gpus d') \<subseteq> set (case gpu of None \<Rightarrow> occupied | Some u \<Rightarrow> occupied @ [u])"
proof -
  from assms(1) obtain choice where
    ch: "choosePlacement lc cfg now (pending_workload entry) workers occupied blocked = Inr choice"
    by (auto simp: assign_entry_def result_simps)
  show ?thesis
  proof (cases choice)
    case None
    with assms ch show ?thesis by (simp add: assign_entry_def)
  next
    case (Some p)
    with ch obtain r w g where "admissible cfg now (pending_workload entry) r workers occupied blocked w g"
      and "p = make_candidate cfg r w g" "g_uuid g \<noteq> []"
      by (auto elim: choosePlacement_Some)
    then have u: "p_gpuUuid p \<noteq> []" "p_gpuUuid p \<notin> set (occupied_gpus d)"
      using occ by (auto simp: admissible_def gpu_admissible_def make_candidate_def)
    show ?thesis
    proof (cases entry)
      case (PendingJob j)
      with assms(1) ch Some obtain l d1 where
        a: "assignJob (j_id j) p (createId ''lease'' uuid) (now + sc_leaseDurationMs cfg) now d = Inr (l, d1)"
        and l: "gpu = map_option (\<lambda>_. p_gpuUuid p) l" "keeps d1 d'" "held d' = held d1" "db_workers d' = db_workers d1"
        by (auto simp: assign_entry_def result_simps Let_def keeps_appendEvent split: option.splits)
      from a have "db_workers d1 = db_workers d" by (rule assignJob_workers)
      with assignJob_effect [OF ok a u] l occ evolves_trans [of d d1 d'] show ?thesis
        by (auto simp: keeps_def set_occupied subset_iff)
    next
      case (PendingSession s)
      with assms(1) ch Some obtain l d1 where
        a: "assignSession (s_id s) p (createId ''lease'' uuid) (now + sc_leaseDurationMs cfg) now d = Inr (l, d1)"
        and l: "gpu = map_option (\<lambda>_. p_gpuUuid p) l" "keeps d1 d'" "held d' = held d1" "db_workers d' = db_workers d1"
        by (auto simp: assign_entry_def result_simps Let_def keeps_appendEvent split: option.splits)
      from a have "db_workers d1 = db_workers d" by (rule assignSession_workers)
      with assignSession_effect [OF ok a u] l occ evolves_trans [of d d1 d'] show ?thesis
        by (auto simp: keeps_def set_occupied subset_iff)
    qed
  qed
qed

lemma assign_pending_effect:
  "assign_pending lc cfg now workers blocked uuids k occupied entries d = Inr (assigned, d') \<Longrightarrow>
   db_ok d \<Longrightarrow> set (occupied_gpus d) \<subseteq> set occupied \<Longrightarrow>
   db_ok d' \<and> evolves d d' \<and> db_workers d' = db_workers d"
proof (induction entries arbitrary: k occupied d assigned)
  case Nil
  then show ?case by simp
next
  case (Cons entry rest)
  from Cons.prems(1) obtain gpu leased drew d1 assigned' where
    e: "assign_entry lc cfg now workers blocked (uuids k) occupied entry d = Inr ((gpu, leased), drew, d1)" and
    r: "assign_pending lc cfg now workers blocked uuids (if drew then Suc k else k)
         (case gpu of None \<Rightarrow> occupied | Some u \<Rightarrow> occupied @ [u]) rest d1 = Inr (assigned', d')"
    by (auto simp: result_simps)
  from assign_entry_effect [OF e Cons.prems(2,3)] Cons.IH [OF r] evolves_trans [of d d1 d']
  show ?case by auto
qed

lemma keeps_scheduler_pass:
  assumes "scheduler_pass lc cfg acquired uuids now d = Inr (res, d')"
  shows "keeps d d'"
proof (cases acquired)
  case False
  with assms show ?thesis by (simp add: scheduler_pass_def)
next
  case True
  obtain stale recoveries d1 where p: "recovery_phase cfg now d = (stale, recoveries, d1)"
    by (cases "recovery_phase cfg now d")
  with True assms obtain assigned where "placement_phase lc cfg now uuids d1 = Inr (assigned, d')"
    by (auto simp: scheduler_pass_def result_simps)
  then have "db_ok d1 \<Longrightarrow> db_ok d' \<and> evolves d1 d'"
    by (auto simp: placement_phase_def result_simps dest: assign_pending_effect)
  then have "keeps d1 d'" by (simp add: keeps_def)
  with keeps_recovery_phase [OF p] show ?thesis by (rule keeps_trans)
qed

lemma keeps_transaction:
  assumes "\<And>r d'. callback d = Inr (r, d') \<Longrightarrow> keeps d d'"
  shows "keeps d (snd (transaction callback d))"
  using assms by (auto simp: transaction_def split: sum.split)

lemma keeps_runOnce: "keeps d (snd (runOnce lc cfg acquired uuids now d))"
  unfolding runOnce_def by (rule keeps_transaction) (rule keeps_scheduler_pass)

subsection \<open>A pass on well-formed tables does not throw\<close>

lemma gpu_candidates_total:
  "w_id w \<noteq> [] \<Longrightarrow> \<forall>g \<in> set gs. g_uuid g \<noteq> [] \<Longrightarrow> ok (gpu_candidates cfg r occupied blocked w gs)"
  by (induction gs) (auto simp: ok_iff resourceKey_def)

lemma worker_candidates_total:
  "\<forall>w \<in> set ws. worker_ok w \<Longrightarrow> ok (worker_candidates cfg now wl r occupied blocked ws)"
proof (induction ws)
  case (Cons w ws)
  then have "ok (gpu_candidates cfg r occupied blocked w (w_gpus w))"
    by (intro gpu_candidates_total) (auto simp: worker_ok_def)
  with Cons show ?case by (auto simp: ok_iff)
qed simp

lemma choosePlacement_total:
  assumes "\<forall>w \<in> set ws. worker_ok w"
  shows "ok (choosePlacement lc cfg now (pending_workload entry) ws occupied blocked)"
proof -
  obtain r where "wl_requirements (pending_workload entry) = Some r"
    by (cases entry) (auto simp: pending_workload_def job_workload_def session_workload_def)
  with worker_candidates_total [OF assms, of cfg now "pending_workload entry" r occupied blocked]
  show ?thesis by (auto simp: choosePlacement_def ok_iff)
qed

lemma placed_worker:
  assumes "choosePlacement lc cfg now wl ws occupied blocked = Inr (Some p)"
  shows "p_workerId p \<in> w_id ` set ws"
proof -
  from assms obtain r w g where "admissible cfg now wl r ws occupied blocked w g" "p = make_candidate cfg r w g"
    by (rule choosePlacement_Some)
  then show ?thesis by (auto simp: admissible_def make_candidate_def)
qed

lemma assign_entry_total:
  assumes "\<forall>w \<in> set workers. worker_ok w" and "w_id ` set workers \<subseteq> w_id ` set (db_workers d)"
  shows "ok (assign_entry lc cfg now workers blocked uuid occupied entry d)"
proof -
  from choosePlacement_total [OF assms(1)] obtain choice where
    ch: "choosePlacement lc cfg now (pending_workload entry) workers occupied blocked = Inr choice"
    unfolding ok_iff by blast
  show ?thesis
  proof (cases choice)
    case None
    with ch show ?thesis by (simp add: assign_entry_def)
  next
    case (Some p)
    with ch placed_worker assms(2) have "p_workerId p \<in> w_id ` set (db_workers d)" by blast
    then have "list_ex (\<lambda>w. w_id w = p_workerId p) (db_workers d)" by (auto simp: list_ex_iff)
    with ch Some show ?thesis
      by (cases entry)
        (simp_all add: assign_entry_def assignJob_def assignSession_def Let_def case_prod_unfold split: option.split)
  qed
qed

lemma assign_entry_workers:
  assumes "assign_entry lc cfg now workers blocked uuid occupied entry d = Inr ((gpu, leased), drew, d')"
  shows "db_workers d' = db_workers d"
proof -
  from assms obtain choice where
    ch: "choosePlacement lc cfg now (pending_workload entry) workers occupied blocked = Inr choice"
    by (auto simp: assign_entry_def result_simps)
  with assms show ?thesis
    by (cases choice; cases entry)
      (auto simp: assign_entry_def Let_def result_simps split: option.splits
        dest!: assignJob_workers assignSession_workers)
qed

lemma assign_pending_total:
  "\<forall>w \<in> set workers. worker_ok w \<Longrightarrow> w_id ` set workers \<subseteq> w_id ` set (db_workers d) \<Longrightarrow>
   ok (assign_pending lc cfg now workers blocked uuids k occupied entries d)"
proof (induction entries arbitrary: k occupied d)
  case (Cons entry rest)
  from assign_entry_total [OF Cons.prems] obtain gpu leased drew d1 where
    e: "assign_entry lc cfg now workers blocked (uuids k) occupied entry d = Inr ((gpu, leased), drew, d1)"
    by (fastforce simp: ok_iff)
  with assign_entry_workers [OF e] Cons
  have "ok (assign_pending lc cfg now workers blocked uuids (if drew then Suc k else k)
         (case gpu of None \<Rightarrow> occupied | Some u \<Rightarrow> occupied @ [u]) rest d1)" by simp
  with e show ?case by (auto simp: ok_iff)
qed simp

lemma placement_phase_total:
  assumes "db_ok d"
  shows "ok (placement_phase lc cfg now uuids d)"
proof -
  have "traverse (\<lambda>_ (w, g). resourceKey w g) 0 (listBlockedGpuResources d) = Inr (map id (listBlockedGpuResources d))"
    using assms
    by (intro traverse_id) (auto simp: listBlockedGpuResources_def db_ok_def fences_ok_def claims_ok_def resourceKey_def)
  moreover have "set (listWorkers d) = set (db_workers d)" by (simp add: listWorkers_def)
  ultimately show ?thesis
    using assms by (auto simp: placement_phase_def db_ok_def workers_ok_def intro!: assign_pending_total)
qed

lemma scheduler_pass_total:
  assumes "db_ok d"
  shows "ok (scheduler_pass lc cfg acquired uuids now d)"
proof -
  obtain stale recoveries d1 where p: "recovery_phase cfg now d = (stale, recoveries, d1)"
    by (cases "recovery_phase cfg now d")
  with keeps_recovery_phase [OF p] assms have "db_ok d1" by (simp add: keeps_def)
  from placement_phase_total [OF this, of lc cfg now uuids] p show ?thesis
    by (auto simp: scheduler_pass_def ok_iff)
qed

end
