(* ===== verification/WorkloadContracts.thy ===== *)
theory WorkloadContracts
  imports JsValues
begin

text \<open>
  The payload contracts of jobs: \<^verbatim>\<open>src/src/shared/benchmark-contract.mjs\<close>,
  \<^verbatim>\<open>src/src/shared/transcription-contract.mjs\<close> and the dispatch of
  \<^verbatim>\<open>src/src/shared/workload-contracts.mjs\<close>. A validator returns the normalized payload, an
  object with every field present.
\<close>

definition BENCHMARK_TYPE :: string where
  "BENCHMARK_TYPE = ''benchmark.gpu''"

definition BENCHMARK_MATRIX_SIZES :: "int list" where
  "BENCHMARK_MATRIX_SIZES = [1024, 2048, 4096, 8192]"

definition validateBenchmarkPayload :: "jsval \<Rightarrow> jsval result" where
  "validateBenchmarkPayload v =
     and_then (requireObject v ''payload'') (\<lambda>payload.
     and_then (rejectUnknownFields payload ''payload''
       [''schemaVersion'', ''matrixSize'', ''warmupIterations'', ''measuredIterations'']) (\<lambda>_.
     and_then (boundedInteger (js_get payload ''schemaVersion'') ''payload.schemaVersion'' 1 1 (Some 1)) (\<lambda>schemaVersion.
     and_then (boundedInteger (js_get payload ''matrixSize'') ''payload.matrixSize''
       (hd BENCHMARK_MATRIX_SIZES) (last BENCHMARK_MATRIX_SIZES) (Some 4096)) (\<lambda>matrixSize.
     if matrixSize \<notin> set BENCHMARK_MATRIX_SIZES
     then Inl (ValidationError ''payload.matrixSize must be one of 1024, 2048, 4096, 8192'')
     else
     and_then (boundedInteger (js_get payload ''warmupIterations'') ''payload.warmupIterations'' 1 10 (Some 3)) (\<lambda>warmupIterations.
     and_then (boundedInteger (js_get payload ''measuredIterations'') ''payload.measuredIterations'' 1 25 (Some 10)) (\<lambda>measuredIterations.
     Inr (JObj [(''schemaVersion'', JInt schemaVersion), (''matrixSize'', JInt matrixSize),
                (''warmupIterations'', JInt warmupIterations), (''measuredIterations'', JInt measuredIterations)])))))))"

definition TRANSCRIPTION_TYPE :: string where
  "TRANSCRIPTION_TYPE = ''speech.streaming''"

definition TRANSGO_PROTOCOL :: string where
  "TRANSGO_PROTOCOL = ''transgo-v1''"

definition exactInteger :: "jsval \<Rightarrow> string \<Rightarrow> int \<Rightarrow> int result" where
  "exactInteger v name expected = boundedInteger v name expected expected (Some expected)"

definition validateAudioContract :: "js_object \<Rightarrow> jsval result" where
  "validateAudioContract v =
     and_then (rejectUnknownFields v ''payload.audio''
       [''encoding'', ''sampleRateHz'', ''channels'', ''frameDurationMs'']) (\<lambda>_.
     and_then (optionalString (js_get v ''encoding'') ''payload.audio.encoding'' (Some ''pcm-s16le'') 50) (\<lambda>encoding.
     if encoding \<noteq> Some ''pcm-s16le''
     then Inl (ValidationError ''payload.audio.encoding must be pcm-s16le'')
     else
     and_then (exactInteger (js_get v ''sampleRateHz'') ''payload.audio.sampleRateHz'' 16000) (\<lambda>sampleRateHz.
     and_then (exactInteger (js_get v ''channels'') ''payload.audio.channels'' 1) (\<lambda>channels.
     and_then (exactInteger (js_get v ''frameDurationMs'') ''payload.audio.frameDurationMs'' 100) (\<lambda>frameDurationMs.
     Inr (JObj [(''encoding'', JStr (the encoding)), (''sampleRateHz'', JInt sampleRateHz),
                (''channels'', JInt channels), (''frameDurationMs'', JInt frameDurationMs)]))))))"

definition validateTranscriptionPayload :: "jsval \<Rightarrow> jsval result" where
  "validateTranscriptionPayload v =
     and_then (requireObject v ''payload'') (\<lambda>payload.
     and_then (rejectUnknownFields payload ''payload''
       [''schemaVersion'', ''protocol'', ''audio'', ''interimResults'']) (\<lambda>_.
     and_then (boundedInteger (js_get payload ''schemaVersion'') ''payload.schemaVersion'' 1 1 (Some 1)) (\<lambda>schemaVersion.
     and_then (optionalString (js_get payload ''protocol'') ''payload.protocol'' (Some TRANSGO_PROTOCOL) 50) (\<lambda>protocol.
     if protocol \<noteq> Some TRANSGO_PROTOCOL
     then Inl (ValidationError (''payload.protocol must be '' @ TRANSGO_PROTOCOL))
     else
     and_then (optionalObject (js_get payload ''audio'') ''payload.audio'') (\<lambda>audioObject.
     and_then (validateAudioContract audioObject) (\<lambda>audio.
     and_then (booleanValue (nullish (js_get payload ''interimResults'') (JBool True))
       ''payload.interimResults must be a boolean'') (\<lambda>interimResults.
     Inr (JObj [(''schemaVersion'', JInt schemaVersion), (''protocol'', JStr (the protocol)),
                (''audio'', audio), (''interimResults'', JBool interimResults)]))))))))"

definition validateWorkloadPayload :: "string \<Rightarrow> js_object \<Rightarrow> jsval result" where
  "validateWorkloadPayload type payload =
     (if type = BENCHMARK_TYPE then validateBenchmarkPayload (JObj payload)
      else if type = TRANSCRIPTION_TYPE then validateTranscriptionPayload (JObj payload)
      else Inr (JObj payload))"

section \<open>The contracts\<close>

definition benchmark_payload :: "int \<Rightarrow> int \<Rightarrow> int \<Rightarrow> jsval" where
  "benchmark_payload matrixSize warmup measured =
     JObj [(''schemaVersion'', JInt 1), (''matrixSize'', JInt matrixSize),
           (''warmupIterations'', JInt warmup), (''measuredIterations'', JInt measured)]"

definition transcription_payload :: "bool \<Rightarrow> jsval" where
  "transcription_payload interim =
     JObj [(''schemaVersion'', JInt 1), (''protocol'', JStr TRANSGO_PROTOCOL),
           (''audio'', JObj [(''encoding'', JStr ''pcm-s16le''), (''sampleRateHz'', JInt 16000),
              (''channels'', JInt 1), (''frameDurationMs'', JInt 100)]),
           (''interimResults'', JBool interim)]"

lemma validateBenchmarkPayload_valid:
  assumes "validateBenchmarkPayload v = Inr p"
  shows "\<exists>m w n. p = benchmark_payload m w n \<and> m \<in> {1024, 2048, 4096, 8192} \<and> 1 \<le> w \<and> w \<le> 10 \<and> 1 \<le> n \<and> n \<le> 25"
  using assms
  by (auto simp: validateBenchmarkPayload_def benchmark_payload_def result_simps BENCHMARK_MATRIX_SIZES_def
      split: if_splits)

lemma validateBenchmarkPayload_id:
  assumes "m \<in> {1024, 2048, 4096, 8192}" "1 \<le> w" "w \<le> 10" "1 \<le> n" "n \<le> 25"
  shows "validateBenchmarkPayload (benchmark_payload m w n) = Inr (benchmark_payload m w n)"
  using assms
  by (auto simp: validateBenchmarkPayload_def benchmark_payload_def requireObject_def rejectUnknownFields_def
      boundedInteger_def BENCHMARK_MATRIX_SIZES_def max_safe_integer_def)

lemma validateAudioContract_valid:
  "validateAudioContract v = Inr a \<Longrightarrow>
   a = JObj [(''encoding'', JStr ''pcm-s16le''), (''sampleRateHz'', JInt 16000),
              (''channels'', JInt 1), (''frameDurationMs'', JInt 100)]"
  by (auto simp: validateAudioContract_def exactInteger_def and_then_Inr boundedInteger_Inr split: if_splits)

lemma validateTranscriptionPayload_valid:
  "validateTranscriptionPayload v = Inr p \<Longrightarrow> \<exists>b. p = transcription_payload b"
  by (auto simp: validateTranscriptionPayload_def transcription_payload_def and_then_Inr boundedInteger_Inr
      split: if_splits dest!: validateAudioContract_valid)

lemma validateTranscriptionPayload_id:
  "validateTranscriptionPayload (transcription_payload b) = Inr (transcription_payload b)"
  by (cases b) code_simp+

text \<open>
  A payload that validation accepts is normal: validating it again returns it unchanged.
  A benchmark payload has one of the four matrix sizes and iteration counts in range; a
  transcription payload is the fixed protocol and audio format with a boolean switch.
\<close>

theorem validateWorkloadPayload_normal:
  assumes "validateWorkloadPayload type payload = Inr p"
  shows "\<exists>kvs. p = JObj kvs \<and> validateWorkloadPayload type kvs = Inr p \<and>
    (type = BENCHMARK_TYPE \<longrightarrow> (\<exists>m w n. p = benchmark_payload m w n \<and>
       m \<in> {1024, 2048, 4096, 8192} \<and> 1 \<le> w \<and> w \<le> 10 \<and> 1 \<le> n \<and> n \<le> 25)) \<and>
    (type = TRANSCRIPTION_TYPE \<longrightarrow> (\<exists>b. p = transcription_payload b))"
proof -
  consider "type = BENCHMARK_TYPE" | "type = TRANSCRIPTION_TYPE" "type \<noteq> BENCHMARK_TYPE"
    | "type \<noteq> BENCHMARK_TYPE" "type \<noteq> TRANSCRIPTION_TYPE" by blast
  then show ?thesis
  proof cases
    case 1
    with assms have "validateBenchmarkPayload (JObj payload) = Inr p" by (simp add: validateWorkloadPayload_def)
    from validateBenchmarkPayload_valid [OF this] obtain m w n where
      p: "p = benchmark_payload m w n" and r: "m \<in> {1024, 2048, 4096, 8192}" "1 \<le> w" "w \<le> 10" "1 \<le> n" "n \<le> 25"
      by blast
    with 1 validateBenchmarkPayload_id [OF r] show ?thesis
      by (auto simp: validateWorkloadPayload_def BENCHMARK_TYPE_def TRANSCRIPTION_TYPE_def benchmark_payload_def)
  next
    case 2
    with assms have "validateTranscriptionPayload (JObj payload) = Inr p" by (simp add: validateWorkloadPayload_def)
    from validateTranscriptionPayload_valid [OF this] obtain b where "p = transcription_payload b" by blast
    with 2 validateTranscriptionPayload_id [of b] show ?thesis
      by (auto simp: validateWorkloadPayload_def transcription_payload_def)
  next
    case 3
    with assms show ?thesis by (auto simp: validateWorkloadPayload_def)
  qed
qed

theorem validateWorkloadPayload_normal_witness:
  "\<exists>kvs. benchmark_payload 4096 3 10 = JObj kvs \<and> validateWorkloadPayload BENCHMARK_TYPE kvs = Inr (benchmark_payload 4096 3 10)"
proof -
  have "validateWorkloadPayload BENCHMARK_TYPE [] = Inr (benchmark_payload 4096 3 10)" by code_simp
  from validateWorkloadPayload_normal [OF this] show ?thesis by blast
qed

end
