(* ===== verification/SessionContract.thy ===== *)
theory SessionContract
  imports Database
begin

text \<open>
  The session request of \<^verbatim>\<open>src/src/shared/session-contract.mjs\<close>. Parameters: the collation
  \<open>lc\<close> of \<^verbatim>\<open>localeCompare\<close> and \<open>num\<close>, how \<^verbatim>\<open>JSON.stringify\<close> prints a number that is not an
  integer. A validated request is the record that \<^verbatim>\<open>submitSession\<close> spreads into its row.
\<close>

section \<open>Object.fromEntries and JSON.stringify\<close>

text \<open>
  An own property whose key is a canonical array index below \<open>2^32 - 1\<close> is enumerated before
  the others and in ascending order; the others in order of creation. A repeated key keeps
  the place of its first entry and the value of its last.
\<close>

definition digit_value :: "char \<Rightarrow> nat" where
  "digit_value c = of_char c - 48"

definition decimal_value :: "string \<Rightarrow> nat" where
  "decimal_value s = foldl (\<lambda>n c. 10 * n + digit_value c) 0 s"

definition array_index :: "string \<Rightarrow> bool" where
  "array_index s =
     (s \<noteq> [] \<and> list_all (\<lambda>c. 48 \<le> (of_char c :: nat) \<and> (of_char c :: nat) \<le> 57) s \<and>
      (s = ''0'' \<or> hd s \<noteq> CHR ''0'') \<and> decimal_value s < 2 ^ 32 - 1)"

fun set_property :: "string \<Rightarrow> jsval \<Rightarrow> js_object \<Rightarrow> js_object" where
  "set_property k v [] = [(k, v)]"
| "set_property k v ((k', v') # rest) =
     (if k = k' then (k, v) # rest else (k', v') # set_property k v rest)"

definition fromEntries :: "(string \<times> jsval) list \<Rightarrow> js_object" where
  "fromEntries entries =
     (let own = foldl (\<lambda>o' (k, v). set_property k v o') [] entries in
      js_sort (\<lambda>a b. int (decimal_value (fst a)) - int (decimal_value (fst b)))
        (filter (\<lambda>e. array_index (fst e)) own) @
      filter (\<lambda>e. \<not> array_index (fst e)) own)"

definition hex_digit :: "nat \<Rightarrow> char" where
  "hex_digit n = (if n < 10 then char_of (48 + n) else char_of (87 + n))"

definition json_char :: "char \<Rightarrow> string" where
  "json_char c =
     (let n = (of_char c :: nat) in
      if n = 34 then [CHR 0x5C, CHR 0x22]
      else if n = 92 then [CHR 0x5C, CHR 0x5C]
      else if n = 8 then [CHR 0x5C, CHR ''b'']
      else if n = 9 then [CHR 0x5C, CHR ''t'']
      else if n = 10 then [CHR 0x5C, CHR ''n'']
      else if n = 12 then [CHR 0x5C, CHR ''f'']
      else if n = 13 then [CHR 0x5C, CHR ''r'']
      else if n < 32 then [CHR 0x5C, CHR ''u'', CHR ''0'', CHR ''0'', hex_digit (n div 16), hex_digit (n mod 16)]
      else [c])"

definition json_string :: "string \<Rightarrow> string" where
  "json_string s = [CHR 0x22] @ concat (map json_char s) @ [CHR 0x22]"

definition json_number :: "(rat \<Rightarrow> string) \<Rightarrow> jsnum \<Rightarrow> string" where
  "json_number num n =
     (case n of
        Finite q \<Rightarrow>
          (case quotient_of q of (i, d) \<Rightarrow>
             if d = 1 \<and> \<bar>i\<bar> < 10 ^ 21 then string_of_int i else num q)
      | _ \<Rightarrow> ''null'')"

fun json_list :: "string list \<Rightarrow> string" where
  "json_list [] = []"
| "json_list [s] = s"
| "json_list (s # ss) = s @ '','' @ json_list ss"

fun stringifyJson :: "(rat \<Rightarrow> string) \<Rightarrow> jsval \<Rightarrow> string" where
  "stringifyJson num JUndefined = ''null''"
| "stringifyJson num JNull = ''null''"
| "stringifyJson num (JBool b) = (if b then ''true'' else ''false'')"
| "stringifyJson num (JNum n) = json_number num n"
| "stringifyJson num (JStr s) = json_string s"
| "stringifyJson num (JArr vs) = ''['' @ json_list (map (stringifyJson num) vs) @ '']''"
| "stringifyJson num (JObj kvs) =
     ''{'' @ json_list (map (\<lambda>(k, v). json_string k @ '':'' @ stringifyJson num v)
        (filter (\<lambda>(k, v). v \<noteq> JUndefined) kvs)) @ ''}''"

section \<open>Metadata\<close>

definition SESSION_MAX_METADATA_BYTES :: nat where
  "SESSION_MAX_METADATA_BYTES = 8192"

fun normalizeMetadataValue :: "(string \<Rightarrow> string \<Rightarrow> int) \<Rightarrow> jsval \<Rightarrow> string \<Rightarrow> nat \<Rightarrow> jsval result" where
  "normalizeMetadataValue lc v name depth =
     (if depth > 4 then Inl (ValidationError (name @ '' exceeds maximum nesting depth''))
      else case v of
        JNull \<Rightarrow> Inr v
      | JBool _ \<Rightarrow> Inr v
      | JStr s \<Rightarrow>
          if length s > 1000
          then Inl (ValidationError (name @ '' strings must contain at most 1000 characters''))
          else Inr v
      | JNum n \<Rightarrow>
          (case n of Finite _ \<Rightarrow> Inr v
           | _ \<Rightarrow> Inl (ValidationError (name @ '' numbers must be finite'')))
      | JArr items \<Rightarrow>
          if length items > 64
          then Inl (ValidationError (name @ '' arrays must contain at most 64 items''))
          else and_then (traverse (\<lambda>i item. normalizeMetadataValue lc item (item_name name i) (depth + 1)) 0 items)
                 (\<lambda>normalized. Inr (JArr normalized))
      | JUndefined \<Rightarrow> Inl (ValidationError (name @ '' must contain only JSON-compatible values''))
      | JObj entries \<Rightarrow>
          if length entries > 64
          then Inl (ValidationError (name @ '' objects must contain at most 64 fields''))
          else and_then (traverse (\<lambda>i e.
                   and_then (requireString (JStr (fst e)) (name @ '' key'') 100) (\<lambda>normalizedKey.
                   and_then (normalizeMetadataValue lc (snd e) (name @ ''.'' @ normalizedKey) (depth + 1)) (\<lambda>item.
                   Inr (normalizedKey, item)))) 0 entries)
                 (\<lambda>normalizedEntries.
                   Inr (JObj (fromEntries (js_sort (\<lambda>a b. lc (fst a) (fst b)) normalizedEntries)))))"

declare normalizeMetadataValue.simps [simp del]

lemmas normalize_simps = normalizeMetadataValue.simps [of _ JNull] normalizeMetadataValue.simps [of _ "JBool b" for b]
  normalizeMetadataValue.simps [of _ "JStr s" for s] normalizeMetadataValue.simps [of _ "JNum k" for k]
  normalizeMetadataValue.simps [of _ "JArr vs" for vs] normalizeMetadataValue.simps [of _ "JObj kvs" for kvs]

definition validateMetadata :: "(string \<Rightarrow> string \<Rightarrow> int) \<Rightarrow> (rat \<Rightarrow> string) \<Rightarrow> js_object \<Rightarrow> jsval result" where
  "validateMetadata lc num v =
     and_then (normalizeMetadataValue lc (JObj v) ''session.metadata'' 0) (\<lambda>normalized.
     if utf8_length (stringifyJson num normalized) > SESSION_MAX_METADATA_BYTES
     then Inl (ValidationError (''session.metadata must encode to at most '' @
            string_of_nat SESSION_MAX_METADATA_BYTES @ '' bytes''))
     else Inr normalized)"

section \<open>The request\<close>

record session_request =
  sq_schemaVersion :: int
  sq_projectId :: string
  sq_capability :: string
  sq_priority :: int
  sq_requirements :: requirements
  sq_metadata :: jsval
  sq_maxInterruptions :: int

definition requestedCapabilities :: "js_object \<Rightarrow> string \<Rightarrow> string list result" where
  "requestedCapabilities v capability =
     (if js_get v ''capabilities'' = JUndefined then Inr [capability]
      else stringArray (js_get v ''capabilities'') ''session.requirements.capabilities'' 32)"

definition validateRequirements :: "js_object \<Rightarrow> string \<Rightarrow> requirements result" where
  "validateRequirements v capability =
     and_then (rejectUnknownFields v ''session.requirements''
       [''gpuCount'', ''minVramMiB'', ''capabilities'', ''model'', ''adapter'']) (\<lambda>_.
     and_then (boundedInteger (js_get v ''gpuCount'') ''session.requirements.gpuCount'' 1 1 (Some 1)) (\<lambda>gpuCount.
     and_then (boundedInteger (js_get v ''minVramMiB'') ''session.requirements.minVramMiB'' 0 1048576 (Some 0)) (\<lambda>minVramMiB.
     and_then (requestedCapabilities v capability) (\<lambda>capabilities.
     if capability \<notin> set capabilities
     then Inl (ValidationError ''session.requirements.capabilities must include session.capability'')
     else
     and_then (optionalString (js_get v ''model'') ''session.requirements.model'' None 300) (\<lambda>model.
     and_then (optionalString (js_get v ''adapter'') ''session.requirements.adapter'' None 200) (\<lambda>adapter.
     Inr \<lparr>rq_gpuCount = gpuCount, rq_minVramMiB = minVramMiB, rq_capabilities = capabilities,
          rq_model = model, rq_adapter = adapter\<rparr>))))))"

definition SESSION_MAX_INTERRUPTIONS :: int where
  "SESSION_MAX_INTERRUPTIONS = 3"

definition validateRecovery :: "js_object \<Rightarrow> int result" where
  "validateRecovery v =
     and_then (rejectUnknownFields v ''session.recovery'' [''maxInterruptions'']) (\<lambda>_.
       boundedInteger (js_get v ''maxInterruptions'') ''session.recovery.maxInterruptions''
         0 SESSION_MAX_INTERRUPTIONS (Some 0))"

definition validateSessionRequest ::
  "(string \<Rightarrow> string \<Rightarrow> int) \<Rightarrow> (rat \<Rightarrow> string) \<Rightarrow> jsval \<Rightarrow> session_request result" where
  "validateSessionRequest lc num v =
     and_then (requireObject v ''session'') (\<lambda>session.
     and_then (rejectUnknownFields session ''session''
       [''schemaVersion'', ''projectId'', ''capability'', ''priority'', ''requirements'', ''metadata'', ''recovery'']) (\<lambda>_.
     and_then (boundedInteger (js_get session ''schemaVersion'') ''session.schemaVersion'' 1 1 (Some 1)) (\<lambda>schemaVersion.
     and_then (requireString (js_get session ''projectId'') ''session.projectId'' 100) (\<lambda>projectId.
     and_then (requireString (js_get session ''capability'') ''session.capability'' 100) (\<lambda>capability.
     and_then (boundedInteger (js_get session ''priority'') ''session.priority'' (-1000) 1000 (Some 0)) (\<lambda>priority.
     and_then (optionalObject (js_get session ''requirements'') ''session.requirements'') (\<lambda>requirementsObject.
     and_then (validateRequirements requirementsObject capability) (\<lambda>requirements.
     and_then (optionalObject (js_get session ''metadata'') ''session.metadata'') (\<lambda>metadataObject.
     and_then (validateMetadata lc num metadataObject) (\<lambda>metadata.
     and_then (optionalObject (js_get session ''recovery'') ''session.recovery'') (\<lambda>recoveryObject.
     and_then (validateRecovery recoveryObject) (\<lambda>maxInterruptions.
     Inr \<lparr>sq_schemaVersion = schemaVersion, sq_projectId = projectId, sq_capability = capability,
          sq_priority = priority, sq_requirements = requirements, sq_metadata = metadata,
          sq_maxInterruptions = maxInterruptions\<rparr>))))))))))))"

section \<open>What a validated request satisfies\<close>

lemma set_property_set: "set (set_property k v os) \<subseteq> insert (k, v) (set os)"
  by (induction k v os rule: set_property.induct) auto

lemma set_property_keys: "fst ` set (set_property k v os) = insert k (fst ` set os)"
  by (induction k v os rule: set_property.induct) (auto simp: image_iff)

lemma set_property_distinct: "distinct (map fst os) \<Longrightarrow> distinct (map fst (set_property k v os))"
proof (induction k v os rule: set_property.induct)
  case (2 k v k' v' rest)
  have "k' \<notin> fst ` set (set_property k v rest)" if "k \<noteq> k'"
    using 2 that by (simp add: set_property_keys)
  with 2 show ?case by simp
qed simp

lemma foldl_set_property:
  "distinct (map fst os) \<Longrightarrow>
   (let own = foldl (\<lambda>os (k, v). set_property k v os) os es in
     set own \<subseteq> set os \<union> set es \<and> fst ` set own = fst ` set os \<union> fst ` set es \<and> distinct (map fst own))"
proof (induction es arbitrary: os)
  case (Cons e es)
  obtain k v where e: "e = (k, v)" by (cases e)
  let ?own = "foldl (\<lambda>os (k, v). set_property k v os) (set_property k v os) es"
  have "set ?own \<subseteq> set (set_property k v os) \<union> set es"
    "fst ` set ?own = fst ` set (set_property k v os) \<union> fst ` set es" "distinct (map fst ?own)"
    using Cons.IH [OF set_property_distinct [OF Cons.prems, of k v]] by (simp_all add: Let_def)
  moreover have "foldl (\<lambda>os (k, v). set_property k v os) os (e # es) = ?own" by (simp add: e)
  moreover have "set (e # es) = insert (k, v) (set es)" by (simp add: e)
  ultimately show ?case
    using set_property_set [of k v os] set_property_keys [of k v os] unfolding Let_def by simp blast
qed simp

text \<open>The object has the keys of the entries, each once, and only values of the entries.\<close>

lemma fromEntries_spec:
  "set (fromEntries es) \<subseteq> set es \<and> fst ` set (fromEntries es) = fst ` set es \<and> distinct (map fst (fromEntries es))"
proof -
  let ?own = "foldl (\<lambda>os (k, v). set_property k v os) [] es"
  have own: "set ?own \<subseteq> set es" "fst ` set ?own = fst ` set es" "distinct (map fst ?own)"
    using foldl_set_property [of "[]" es] by (simp_all add: Let_def)
  have "mset (fromEntries es) = mset ?own"
    by (simp add: fromEntries_def Let_def)
  with own show ?thesis
    by (metis mset_eq_imp_distinct_iff mset_map set_mset_mset)
qed

lemma fromEntries_length: "length (fromEntries es) \<le> length es"
proof -
  have "length (fromEntries es) = card (fst ` set es)"
    using fromEntries_spec [of es] by (metis distinct_card length_map list.set_map)
  also have "\<dots> \<le> length es" by (metis card_length length_map list.set_map)
  finally show ?thesis .
qed

text \<open>Metadata that stays within the limits, with \<open>n\<close> levels of nesting left.\<close>

fun metadata_ok :: "nat \<Rightarrow> jsval \<Rightarrow> bool" where
  "metadata_ok n JUndefined = False"
| "metadata_ok n JNull = True"
| "metadata_ok n (JBool b) = True"
| "metadata_ok n (JNum k) = (case k of Finite _ \<Rightarrow> True | _ \<Rightarrow> False)"
| "metadata_ok n (JStr s) = (length s \<le> 1000)"
| "metadata_ok n (JArr vs) = (length vs \<le> 64 \<and> list_all (\<lambda>v. 0 < n \<and> metadata_ok (n - 1) v) vs)"
| "metadata_ok n (JObj kvs) =
     (length kvs \<le> 64 \<and> distinct (map fst kvs) \<and>
      list_all (\<lambda>e. valid_name 100 (fst e) \<and> 0 < n \<and> metadata_ok (n - 1) (snd e)) kvs)"

lemma normalizeMetadataValue_ok:
  "normalizeMetadataValue lc v name depth = Inr r \<Longrightarrow> depth \<le> 4 \<and> metadata_ok (4 - depth) r"
proof (induction lc v name depth arbitrary: r rule: normalizeMetadataValue.induct)
  case (1 lc v name depth)
  from "1.prems" have d: "depth \<le> 4" by (simp add: normalizeMetadataValue.simps split: if_splits)
  show ?case
  proof (cases v)
    case (JArr items)
    from "1.prems" [unfolded JArr] d obtain rs where len: "length items \<le> 64" and r: "r = JArr rs"
      and t: "traverse (\<lambda>i item. normalizeMetadataValue lc item (item_name name i) (depth + 1)) 0 items = Inr rs"
      by (auto simp: normalizeMetadataValue.simps [of lc "JArr items"] result_simps split: if_splits)
    have "\<forall>x \<in> set rs. depth + 1 \<le> 4 \<and> metadata_ok (4 - (depth + 1)) x"
      using t by (rule traverse_all) (use "1.IH"(1) JArr d len in auto)
    with d r len traverse_length [OF t] show ?thesis by (auto simp: list_all_iff)
  next
    case (JObj entries)
    let ?f = "\<lambda>(i::nat) e. and_then (requireString (JStr (fst e)) (name @ '' key'') 100) (\<lambda>normalizedKey.
                   and_then (normalizeMetadataValue lc (snd e) (name @ ''.'' @ normalizedKey) (depth + 1)) (\<lambda>item.
                   Inr (normalizedKey, item)))"
    from "1.prems" [unfolded JObj] d obtain es where len: "length entries \<le> 64"
      and t: "traverse ?f 0 entries = Inr es"
      and r: "r = JObj (fromEntries (js_sort (\<lambda>a b. lc (fst a) (fst b)) es))"
      by (auto simp: normalizeMetadataValue.simps [of lc "JObj entries"] result_simps split: if_splits)
    have all: "\<forall>e \<in> set es. valid_name 100 (fst e) \<and> depth + 1 \<le> 4 \<and> metadata_ok (4 - (depth + 1)) (snd e)"
      using t by (rule traverse_all) (use "1.IH"(2) JObj d len in \<open>auto simp: result_simps\<close>)
    let ?s = "js_sort (\<lambda>a b. lc (fst a) (fst b)) es"
    have "length (fromEntries ?s) \<le> 64"
      using fromEntries_length [of ?s] traverse_length [OF t] len by simp
    moreover have "set (fromEntries ?s) \<subseteq> set es" using fromEntries_spec [of ?s] by simp
    ultimately show ?thesis
      using d r all fromEntries_spec [of ?s] by (auto simp: list_all_iff)
  qed (use "1.prems" d in \<open>auto simp: normalizeMetadataValue.simps split: jsnum.splits if_splits\<close>)
qed

text \<open>
  The order of the keys: an object made from ordered entries keeps their order, except that the keys
  that are array indices come first, in ascending order.
\<close>

lemma set_property_map_fst:
  "map fst (set_property k v os) = (if k \<in> fst ` set os then map fst os else map fst os @ [k])"
  by (induction k v os rule: set_property.induct) auto

lemma foldl_set_property_order:
  "sorted_wrt P (map fst os @ map fst es) \<Longrightarrow> sorted_wrt P (map fst (foldl (\<lambda>os (k, v). set_property k v os) os es))"
proof (induction es arbitrary: os)
  case (Cons e es)
  obtain k v where e: "e = (k, v)" by (cases e)
  from Cons.prems have "sorted_wrt P (map fst (set_property k v os) @ map fst es)"
    by (auto simp: e set_property_map_fst sorted_wrt_append)
  from Cons.IH [OF this] show ?case by (simp add: e)
qed simp

fun metadata_ordered :: "(string \<Rightarrow> string \<Rightarrow> int) \<Rightarrow> jsval \<Rightarrow> bool" where
  "metadata_ordered lc (JArr vs) = list_all (metadata_ordered lc) vs"
| "metadata_ordered lc (JObj kvs) =
     (kvs = filter (\<lambda>e. array_index (fst e)) kvs @ filter (\<lambda>e. \<not> array_index (fst e)) kvs \<and>
      sorted_wrt (\<lambda>a b. decimal_value (fst a) \<le> decimal_value (fst b)) (filter (\<lambda>e. array_index (fst e)) kvs) \<and>
      sorted_wrt (\<lambda>a b. lc (fst a) (fst b) \<le> 0) (filter (\<lambda>e. \<not> array_index (fst e)) kvs) \<and>
      list_all (\<lambda>e. metadata_ordered lc (snd e)) kvs)"
| "metadata_ordered lc _ = True"

lemma fromEntries_ordered:
  assumes "sorted_wrt (\<lambda>a b. lc (fst a) (fst b) \<le> 0) es" and "\<forall>e \<in> set es. metadata_ordered lc (snd e)"
  shows "metadata_ordered lc (JObj (fromEntries es))"
proof -
  let ?own = "foldl (\<lambda>os (k, v). set_property k v os) [] es"
  let ?i = "\<lambda>e :: string \<times> jsval. array_index (fst e)"
  let ?idx = "js_sort (\<lambda>a b. int (decimal_value (fst a)) - int (decimal_value (fst b))) (filter ?i ?own)"
  let ?oth = "filter (\<lambda>e. \<not> ?i e) ?own"
  have f: "fromEntries es = ?idx @ ?oth" by (simp add: fromEntries_def Let_def)
  have split: "filter ?i (?idx @ ?oth) = ?idx" "filter (\<lambda>e. \<not> ?i e) (?idx @ ?oth) = ?oth"
    by (auto simp: filter_id_conv filter_empty_conv)
  have "sorted_wrt (\<lambda>a b. int (decimal_value (fst a)) - int (decimal_value (fst b)) \<le> 0) ?idx"
    by (rule comparator.sorted_js_sort) (rule comparator_diff)
  then have idx: "sorted_wrt (\<lambda>a b. decimal_value (fst a) \<le> decimal_value (fst b)) ?idx"
    by simp
  have "sorted_wrt (\<lambda>k l. lc k l \<le> 0) (map fst ?own)"
    using foldl_set_property_order [of "\<lambda>k l. lc k l \<le> 0" "[]" es] assms(1) by (simp add: sorted_wrt_map)
  then have oth: "sorted_wrt (\<lambda>a b. lc (fst a) (fst b) \<le> 0) ?oth"
    by (intro sorted_wrt_filter) (simp add: sorted_wrt_map)
  have "set (fromEntries es) \<subseteq> set es" using fromEntries_spec [of es] by simp
  with assms(2) have rest: "list_all (\<lambda>e. metadata_ordered lc (snd e)) (?idx @ ?oth)"
    unfolding f list_all_iff by blast
  show ?thesis
    unfolding f metadata_ordered.simps split using idx oth rest by blast
qed

lemma normalizeMetadataValue_ordered:
  "comparator lc \<Longrightarrow> normalizeMetadataValue lc v name depth = Inr r \<Longrightarrow> metadata_ordered lc r"
proof (induction lc v name depth arbitrary: r rule: normalizeMetadataValue.induct)
  case (1 lc v name depth)
  from "1.prems"(2) have d: "depth \<le> 4" by (simp add: normalizeMetadataValue.simps split: if_splits)
  show ?case
  proof (cases v)
    case (JArr items)
    from "1.prems"(2) [unfolded JArr] d obtain rs where len: "length items \<le> 64" and r: "r = JArr rs"
      and t: "traverse (\<lambda>i item. normalizeMetadataValue lc item (item_name name i) (depth + 1)) 0 items = Inr rs"
      by (auto simp: normalizeMetadataValue.simps [of lc "JArr items"] result_simps split: if_splits)
    have "\<forall>x \<in> set rs. metadata_ordered lc x"
      using t by (rule traverse_all) (use "1.IH"(1) "1.prems"(1) JArr d len in auto)
    then show ?thesis by (simp add: r list_all_iff)
  next
    case (JObj entries)
    let ?f = "\<lambda>(i::nat) e. and_then (requireString (JStr (fst e)) (name @ '' key'') 100) (\<lambda>normalizedKey.
                   and_then (normalizeMetadataValue lc (snd e) (name @ ''.'' @ normalizedKey) (depth + 1)) (\<lambda>item.
                   Inr (normalizedKey, item)))"
    from "1.prems"(2) [unfolded JObj] d obtain es where len: "length entries \<le> 64"
      and t: "traverse ?f 0 entries = Inr es"
      and r: "r = JObj (fromEntries (js_sort (\<lambda>a b. lc (fst a) (fst b)) es))"
      by (auto simp: normalizeMetadataValue.simps [of lc "JObj entries"] result_simps split: if_splits)
    have "\<forall>e \<in> set es. metadata_ordered lc (snd e)"
      using t by (rule traverse_all) (use "1.IH"(2) "1.prems"(1) JObj d len in \<open>auto simp: result_simps\<close>)
    moreover have "sorted_wrt (\<lambda>a b. lc (fst a) (fst b) \<le> 0) (js_sort (\<lambda>a b. lc (fst a) (fst b)) es)"
      by (rule comparator.sorted_js_sort) (rule comparator_on [OF "1.prems"(1)])
    ultimately show ?thesis unfolding r by (intro fromEntries_ordered) simp_all
  qed (use "1.prems"(2) d in \<open>auto simp: normalizeMetadataValue.simps split: jsnum.splits if_splits\<close>)
qed

definition session_requirements_ok :: "string \<Rightarrow> requirements \<Rightarrow> bool" where
  "session_requirements_ok capability r =
     (rq_gpuCount r = 1 \<and> 0 \<le> rq_minVramMiB r \<and> rq_minVramMiB r \<le> 1048576 \<and>
      capability \<in> set (rq_capabilities r) \<and> valid_names (rq_capabilities r) \<and> length (rq_capabilities r) \<le> 32 \<and>
      (\<forall>m. rq_model r = Some m \<longrightarrow> valid_name 300 m) \<and> (\<forall>a. rq_adapter r = Some a \<longrightarrow> valid_name 200 a))"

lemma validateRequirements_ok:
  assumes "validateRequirements v capability = Inr r" and "valid_name 100 capability"
  shows "session_requirements_ok capability r"
proof -
  from assms(1) obtain cs where cs: "requestedCapabilities v capability = Inr cs"
    and mem: "capability \<in> set cs" and r: "rq_capabilities r = cs" "rq_gpuCount r = 1"
      "0 \<le> rq_minVramMiB r" "rq_minVramMiB r \<le> 1048576"
      "\<forall>m. rq_model r = Some m \<longrightarrow> valid_name 300 m" "\<forall>a. rq_adapter r = Some a \<longrightarrow> valid_name 200 a"
    by (auto simp: validateRequirements_def and_then_Inr boundedInteger_Inr optionalString_Inr split: if_splits)
  have "valid_names cs \<and> length cs \<le> 32"
    using cs assms(2) by (auto simp: requestedCapabilities_def valid_names_def dest: stringArray_Inr split: if_splits)
  with mem r show ?thesis by (auto simp: session_requirements_ok_def)
qed

text \<open>
  C17. A session request that validation accepts has schema version 1, one GPU, a bounded
  priority, memory and interruption budget, requires its own capability, and carries metadata
  that is nested at most four levels below the top, has at most 64 items per container,
  distinct bounded keys and bounded strings, and encodes to at most 8192 bytes. With a consistent
  localeCompare the metadata is in normal form: at every level the keys of an object stand in one
  order, the array indices first and ascending, then the other keys as localeCompare orders them.
\<close>

theorem validateSessionRequest_ok:
  assumes "validateSessionRequest lc num v = Inr q"
  shows "sq_schemaVersion q = 1 \<and> valid_name 100 (sq_projectId q) \<and> valid_name 100 (sq_capability q) \<and>
    -1000 \<le> sq_priority q \<and> sq_priority q \<le> 1000 \<and>
    session_requirements_ok (sq_capability q) (sq_requirements q) \<and>
    metadata_ok 4 (sq_metadata q) \<and> utf8_length (stringifyJson num (sq_metadata q)) \<le> 8192 \<and>
    (comparator lc \<longrightarrow> metadata_ordered lc (sq_metadata q)) \<and>
    0 \<le> sq_maxInterruptions q \<and> sq_maxInterruptions q \<le> 3"
proof -
  from assms obtain reqs meta rec where
    r: "validateRequirements reqs (sq_capability q) = Inr (sq_requirements q)" and
    m: "validateMetadata lc num meta = Inr (sq_metadata q)" and
    i: "validateRecovery rec = Inr (sq_maxInterruptions q)" and
    rest: "sq_schemaVersion q = 1" "valid_name 100 (sq_projectId q)" "valid_name 100 (sq_capability q)"
      "-1000 \<le> sq_priority q" "sq_priority q \<le> 1000"
    by (auto simp: validateSessionRequest_def and_then_Inr boundedInteger_Inr requireString_Inr)
  from m have "metadata_ok 4 (sq_metadata q) \<and> utf8_length (stringifyJson num (sq_metadata q)) \<le> 8192"
    by (auto simp: validateMetadata_def result_simps SESSION_MAX_METADATA_BYTES_def
        dest: normalizeMetadataValue_ok split: if_splits)
  moreover from m have "comparator lc \<longrightarrow> metadata_ordered lc (sq_metadata q)"
    by (auto simp: validateMetadata_def result_simps intro: normalizeMetadataValue_ordered split: if_splits)
  moreover from i have "0 \<le> sq_maxInterruptions q \<and> sq_maxInterruptions q \<le> 3"
    by (auto simp: validateRecovery_def result_simps SESSION_MAX_INTERRUPTIONS_def)
  ultimately show ?thesis using rest validateRequirements_ok [OF r rest(3)] by blast
qed

definition sample_session_request :: jsval where
  "sample_session_request =
     JObj [(''projectId'', JStr ''p''), (''capability'', JStr '' asr ''),
           (''metadata'', JObj [(''b'', JArr [JStr ''x'', JNull]), (''a'', JBool True), (''10'', JStr ''y''), (''9'', JNull)])]"

lemma sample_session_request_valid:
  "validateSessionRequest str_cmp (\<lambda>_. []) sample_session_request =
   Inr \<lparr>sq_schemaVersion = 1, sq_projectId = ''p'', sq_capability = ''asr'', sq_priority = 0,
     sq_requirements = \<lparr>rq_gpuCount = 1, rq_minVramMiB = 0, rq_capabilities = [''asr''], rq_model = None, rq_adapter = None\<rparr>,
     sq_metadata = JObj [(''9'', JNull), (''10'', JStr ''y''), (''a'', JBool True), (''b'', JArr [JStr ''x'', JNull])],
     sq_maxInterruptions = 0\<rparr>"
  by (simp add: sample_session_request_def validateSessionRequest_def requireObject_def optionalObject_def
      rejectUnknownFields_def boundedInteger_def requireString_def trim_def is_js_space_def validateRequirements_def
      requestedCapabilities_def optionalString_def validateMetadata_def validateRecovery_def
      SESSION_MAX_METADATA_BYTES_def utf8_length_def json_string_def json_char_def normalize_simps
      fromEntries_def array_index_def decimal_value_def digit_value_def item_name_def)

theorem validateSessionRequest_ok_witness:
  "utf8_length (stringifyJson (\<lambda>_. [])
     (JObj [(''9'', JNull), (''10'', JStr ''y''), (''a'', JBool True), (''b'', JArr [JStr ''x'', JNull])])) \<le> 8192 \<and>
   metadata_ordered str_cmp
     (JObj [(''9'', JNull), (''10'', JStr ''y''), (''a'', JBool True), (''b'', JArr [JStr ''x'', JNull])])"
proof -
  note valid = validateSessionRequest_ok [OF sample_session_request_valid]
  from valid have "utf8_length (stringifyJson (\<lambda>_. [])
     (JObj [(''9'', JNull), (''10'', JStr ''y''), (''a'', JBool True), (''b'', JArr [JStr ''x'', JNull])])) \<le> 8192"
    by simp
  moreover from valid code_units.comparator_axioms have "metadata_ordered str_cmp
     (JObj [(''9'', JNull), (''10'', JStr ''y''), (''a'', JBool True), (''b'', JArr [JStr ''x'', JNull])])"
    by (simp only: session_request.select_convs)
  ultimately show ?thesis by blast
qed

end
