(* ===== verification/DataPlane.thy ===== *)
theory DataPlane
  imports SessionContract
begin

text \<open>
  Data-plane grants and the sub-protocol offer: \<^verbatim>\<open>src/src/shared/data-plane-grant.mjs\<close> and
  \<^verbatim>\<open>src/src/shared/data-plane-contract.mjs\<close>. Parameters: \<open>hmac\<close>, the bytes of an HMAC-SHA256
  digest of a message under a key; \<open>decode\<close>, which is \<^verbatim>\<open>JSON.parse\<close> of the UTF-8 text of some
  bytes, \<open>None\<close> when it throws; and \<open>num\<close> as in the session contract. Bytes are characters.
\<close>

section \<open>Splitting and base64url\<close>

text \<open>\<^verbatim>\<open>s.split(c)\<close> for a one character separator.\<close>

fun split_on :: "char \<Rightarrow> string \<Rightarrow> string list" where
  "split_on c [] = [[]]"
| "split_on c (x # xs) =
     (if x = c then [] # split_on c xs
      else case split_on c xs of [] \<Rightarrow> [[x]] | p # ps \<Rightarrow> (x # p) # ps)"

lemma split_on_plain: "c \<notin> set xs \<Longrightarrow> split_on c xs = [xs]"
  by (induction xs) auto

lemma split_on_append: "c \<notin> set xs \<Longrightarrow> split_on c (xs @ c # ys) = xs # split_on c ys"
  by (induction xs) auto

definition b64_char :: "nat \<Rightarrow> char" where
  "b64_char n =
     (if n < 26 then char_of (65 + n) else if n < 52 then char_of (97 + (n - 26))
      else if n < 62 then char_of (48 + (n - 52)) else if n = 62 then CHR ''-'' else CHR ''_'')"

definition b64_value :: "char \<Rightarrow> nat" where
  "b64_value c =
     (let n = (of_char c :: nat) in
      if 65 \<le> n \<and> n \<le> 90 then n - 65 else if 97 \<le> n \<and> n \<le> 122 then n - 97 + 26
      else if 48 \<le> n \<and> n \<le> 57 then n - 48 + 52 else if n = 45 then 62 else 63)"

text \<open>\<^verbatim>\<open>bytes.toString("base64url")\<close>, without padding.\<close>

fun base64url :: "string \<Rightarrow> string" where
  "base64url [] = []"
| "base64url [x] =
     (let a = of_char x in [b64_char (a div 4), b64_char ((a mod 4) * 16)])"
| "base64url [x, y] =
     (let a = of_char x; b = of_char y in
      [b64_char (a div 4), b64_char ((a mod 4) * 16 + b div 16), b64_char ((b mod 16) * 4)])"
| "base64url (x # y # z # rest) =
     (let a = of_char x; b = of_char y; c = of_char z in
      b64_char (a div 4) # b64_char ((a mod 4) * 16 + b div 16) #
      b64_char ((b mod 16) * 4 + c div 64) # b64_char (c mod 64) # base64url rest)"

text \<open>
  \<^verbatim>\<open>Buffer.from(text, "base64url")\<close> on text of the alphabet: whole groups, then what the
  last two or three characters hold; a single last character is dropped.
\<close>

fun base64url_decode :: "string \<Rightarrow> string" where
  "base64url_decode (p # q # r # s # rest) =
     (let a = b64_value p; b = b64_value q; c = b64_value r; d = b64_value s in
      char_of (a * 4 + b div 16) # char_of ((b mod 16) * 16 + c div 4) #
      char_of ((c mod 4) * 64 + d) # base64url_decode rest)"
| "base64url_decode [p, q, r] =
     (let a = b64_value p; b = b64_value q; c = b64_value r in
      [char_of (a * 4 + b div 16), char_of ((b mod 16) * 16 + c div 4)])"
| "base64url_decode [p, q] = (let a = b64_value p; b = b64_value q in [char_of (a * 4 + b div 16)])"
| "base64url_decode _ = []"

definition b64_alphabet :: "char \<Rightarrow> bool" where
  "b64_alphabet c =
     (let n = (of_char c :: nat) in
      65 \<le> n \<and> n \<le> 90 \<or> 97 \<le> n \<and> n \<le> 122 \<or> 48 \<le> n \<and> n \<le> 57 \<or> n = 95 \<or> n = 45)"

text \<open>\<^verbatim>\<open>isBase64Url\<close>.\<close>

definition isBase64Url :: "string \<Rightarrow> bool" where
  "isBase64Url s = (s \<noteq> [] \<and> list_all b64_alphabet s)"

lemma of_char_char_of: "n < 256 \<Longrightarrow> of_char (char_of n) = (n :: nat)"
  by simp

lemma of_char_less: "of_char c < (256 :: nat)"
  by (metis of_char_mod_256 mod_less_divisor zero_less_numeral)

lemma b64_value_char [simp]: "n < 64 \<Longrightarrow> b64_value (b64_char n) = n"
  by (auto simp: b64_value_def b64_char_def Let_def)

lemma b64_char_alphabet [simp]: "n < 64 \<Longrightarrow> b64_alphabet (b64_char n)"
  by (auto simp: b64_alphabet_def b64_char_def Let_def)

lemma byte_split:
  assumes "(a::nat) < 256"
  shows "a div 4 < 64" "a mod 4 * 16 < 64" "a mod 16 * 4 < 64" "a mod 64 < 64" "a div 16 < 16" "a div 64 < 4"
  using assms by (auto simp: less_mult_imp_div_less)

lemma b64_join:
  assumes "(a::nat) < 256" "b < 256"
  shows "a mod 4 * 16 + b div 16 < 64" "a mod 16 * 4 + b div 64 < 64"
    "b div 16 div 16 = 0" "b div 16 mod 16 = b div 16" "b div 64 div 4 = 0" "b div 64 mod 4 = b div 64"
proof -
  have "b div 16 < 16" "b div 64 < 4" "a mod 4 < 4" "a mod 16 < 16" using assms by (auto simp: less_mult_imp_div_less)
  then show "a mod 4 * 16 + b div 16 < 64" "a mod 16 * 4 + b div 64 < 64"
    "b div 16 div 16 = 0" "b div 16 mod 16 = b div 16" "b div 64 div 4 = 0" "b div 64 mod 4 = b div 64"
    by (simp_all add: less_mult_imp_div_less)
qed

lemmas b64_facts = b64_join [OF of_char_less of_char_less] byte_split [OF of_char_less]

lemma base64url_roundtrip [simp]: "base64url_decode (base64url bs) = bs"
  by (induction bs rule: base64url.induct) (simp_all add: Let_def b64_facts)

lemma base64url_alphabet: "list_all b64_alphabet (base64url bs)"
  by (induction bs rule: base64url.induct) (simp_all add: Let_def b64_facts)

lemma base64url_Nil_iff [simp]: "base64url bs = [] \<longleftrightarrow> bs = []"
  by (cases bs rule: base64url.cases) (auto simp: Let_def)

lemma isBase64Url_base64url [simp]: "isBase64Url (base64url bs) \<longleftrightarrow> bs \<noteq> []"
  by (simp add: isBase64Url_def base64url_alphabet)

lemma alphabet_no_dot: "list_all b64_alphabet s \<Longrightarrow> CHR ''.'' \<notin> set s"
  by (auto simp: list_all_iff b64_alphabet_def Let_def)

section \<open>Grants\<close>

record grant_claims =
  gc_role :: string
  gc_sessionId :: string
  gc_workerId :: string
  gc_leaseId :: string
  gc_issuedAt :: int
  gc_expiresAt :: int
  gc_nonce :: string

definition DATA_PLANE_GRANT_AUDIENCE :: string where
  "DATA_PLANE_GRANT_AUDIENCE = ''gpulink-data-plane''"

definition DATA_PLANE_GRANT_MAX_TTL_MS :: int where
  "DATA_PLANE_GRANT_MAX_TTL_MS = 60000"

definition DATA_PLANE_GRANT_MAX_TOKEN_BYTES :: nat where
  "DATA_PLANE_GRANT_MAX_TOKEN_BYTES = 4096"

definition CLAIM_FIELDS :: "string list" where
  "CLAIM_FIELDS = [''schemaVersion'', ''audience'', ''role'', ''sessionId'', ''workerId'', ''leaseId'',
     ''issuedAt'', ''expiresAt'', ''nonce'']"

definition boundedString :: "jsval \<Rightarrow> string \<Rightarrow> nat \<Rightarrow> string result" where
  "boundedString v name maximum =
     (let bad = Inl (TypeError (name @ '' must be a non-empty string no longer than '' @
            string_of_nat maximum @ '' characters'')) in
      case v of JStr s \<Rightarrow> if s = [] \<or> length s > maximum then bad else Inr s | _ \<Rightarrow> bad)"

definition timestamp :: "jsval \<Rightarrow> string \<Rightarrow> int result" where
  "timestamp v name =
     (case safe_integer v of
        Some i \<Rightarrow> if i < 0 then Inl (TypeError (name @ '' must be a non-negative safe integer'')) else Inr i
      | None \<Rightarrow> Inl (TypeError (name @ '' must be a non-negative safe integer'')))"

definition grant_role :: "jsval \<Rightarrow> string result" where
  "grant_role v =
     (case v of
        JStr r \<Rightarrow> if r \<in> {''client'', ''worker''} then Inr r
                  else Inl (TypeError ''data-plane grant role must be client or worker'')
      | _ \<Rightarrow> Inl (TypeError ''data-plane grant role must be client or worker''))"

definition validateDataPlaneGrantClaims :: "jsval \<Rightarrow> grant_claims result" where
  "validateDataPlaneGrantClaims v =
     (case v of
        JObj kvs \<Rightarrow>
          (case filter (\<lambda>k. k \<notin> set CLAIM_FIELDS) (map fst kvs) of
             k # _ \<Rightarrow> Inl (TypeError (''data-plane grant claims contain unexpected field '' @ k))
           | [] \<Rightarrow>
               if js_get kvs ''schemaVersion'' \<noteq> JInt 1
               then Inl (TypeError ''data-plane grant schemaVersion must be 1'')
               else if js_get kvs ''audience'' \<noteq> JStr DATA_PLANE_GRANT_AUDIENCE
               then Inl (TypeError ''data-plane grant audience is invalid'')
               else
               and_then (grant_role (js_get kvs ''role'')) (\<lambda>role.
               and_then (boundedString (js_get kvs ''sessionId'') ''data-plane grant sessionId'' 200) (\<lambda>sessionId.
               and_then (boundedString (js_get kvs ''workerId'') ''data-plane grant workerId'' 200) (\<lambda>workerId.
               and_then (boundedString (js_get kvs ''leaseId'') ''data-plane grant leaseId'' 200) (\<lambda>leaseId.
               and_then (boundedString (js_get kvs ''nonce'') ''data-plane grant nonce'' 100) (\<lambda>nonce.
               and_then (timestamp (js_get kvs ''issuedAt'') ''data-plane grant issuedAt'') (\<lambda>issuedAt.
               and_then (timestamp (js_get kvs ''expiresAt'') ''data-plane grant expiresAt'') (\<lambda>expiresAt.
               if expiresAt \<le> issuedAt
               then Inl (TypeError ''data-plane grant expiresAt must be after issuedAt'')
               else if expiresAt - issuedAt > DATA_PLANE_GRANT_MAX_TTL_MS
               then Inl (TypeError ''data-plane grant lifetime exceeds 60 seconds'')
               else Inr \<lparr>gc_role = role, gc_sessionId = sessionId, gc_workerId = workerId, gc_leaseId = leaseId,
                         gc_issuedAt = issuedAt, gc_expiresAt = expiresAt, gc_nonce = nonce\<rparr>))))))))
      | _ \<Rightarrow> Inl (TypeError ''data-plane grant claims must be an object''))"

text \<open>The object the claims are, in the field order of the code.\<close>

definition claims_js :: "grant_claims \<Rightarrow> jsval" where
  "claims_js c = JObj [(''schemaVersion'', JInt 1), (''audience'', JStr DATA_PLANE_GRANT_AUDIENCE),
     (''role'', JStr (gc_role c)), (''sessionId'', JStr (gc_sessionId c)), (''workerId'', JStr (gc_workerId c)),
     (''leaseId'', JStr (gc_leaseId c)), (''issuedAt'', JInt (gc_issuedAt c)),
     (''expiresAt'', JInt (gc_expiresAt c)), (''nonce'', JStr (gc_nonce c))]"

definition validateSigningKey :: "jsval \<Rightarrow> string result" where
  "validateSigningKey v =
     (case v of
        JStr s \<Rightarrow> if utf8_length s < 32
                  then Inl (TypeError ''data-plane signing key must contain at least 32 bytes'') else Inr s
      | _ \<Rightarrow> Inl (TypeError ''data-plane signing key must contain at least 32 bytes''))"

text \<open>\<^verbatim>\<open>Buffer.from(s, "utf8")\<close>.\<close>

definition utf8_bytes :: "string \<Rightarrow> string" where
  "utf8_bytes s = concat (map (\<lambda>c. let n = (of_char c :: nat) in
     if n < 128 then [c] else [char_of (192 + n div 64), char_of (128 + n mod 64)]) s)"

definition TOKEN_PREFIX :: string where
  "TOKEN_PREFIX = ''gdp1''"

definition grant_signature :: "(string \<Rightarrow> string \<Rightarrow> string) \<Rightarrow> string \<Rightarrow> string \<Rightarrow> string" where
  "grant_signature hmac key payload = base64url (hmac (utf8_bytes key) (TOKEN_PREFIX @ ''.'' @ payload))"

definition signDataPlaneGrant ::
  "(rat \<Rightarrow> string) \<Rightarrow> (string \<Rightarrow> string \<Rightarrow> string) \<Rightarrow> jsval \<Rightarrow> jsval \<Rightarrow> string result" where
  "signDataPlaneGrant num hmac v signingKey =
     and_then (validateDataPlaneGrantClaims v) (\<lambda>claims.
     and_then (validateSigningKey signingKey) (\<lambda>key.
     let payload = base64url (utf8_bytes (stringifyJson num (claims_js claims)));
         token = TOKEN_PREFIX @ ''.'' @ payload @ ''.'' @ grant_signature hmac key payload in
     if utf8_length token > DATA_PLANE_GRANT_MAX_TOKEN_BYTES
     then Inl (PlainError ''data-plane grant exceeds maximum token size'')
     else Inr token))"

definition verifyDataPlaneGrant ::
  "(string \<Rightarrow> jsval option) \<Rightarrow> (string \<Rightarrow> string \<Rightarrow> string) \<Rightarrow> jsval \<Rightarrow> jsval \<Rightarrow> int \<Rightarrow> grant_claims option result" where
  "verifyDataPlaneGrant decode hmac tokenValue signingKey now =
     and_then (validateSigningKey signingKey) (\<lambda>key.
     case tokenValue of
       JStr token \<Rightarrow>
         if token = [] \<or> utf8_length token > DATA_PLANE_GRANT_MAX_TOKEN_BYTES then Inr None
         else if now < 0 \<or> now > max_safe_integer
         then Inl (TypeError ''data-plane grant verification time must be a non-negative safe integer'')
         else
           (case split_on CHR ''.'' token of
              [tokenPrefix, payload, suppliedSignature] \<Rightarrow>
                if tokenPrefix \<noteq> TOKEN_PREFIX \<or> \<not> isBase64Url payload \<or> \<not> isBase64Url suppliedSignature \<or>
                   suppliedSignature \<noteq> grant_signature hmac key payload
                then Inr None
                else
                  (case decode (base64url_decode payload) of
                     None \<Rightarrow> Inr None
                   | Some parsed \<Rightarrow>
                       (case validateDataPlaneGrantClaims parsed of
                          Inl _ \<Rightarrow> Inr None
                        | Inr claims \<Rightarrow>
                            if gc_issuedAt claims > now \<or> gc_expiresAt claims \<le> now then Inr None
                            else Inr (Some claims)))
            | _ \<Rightarrow> Inr None)
     | _ \<Rightarrow> Inr None)"

subsection \<open>What a validated grant satisfies\<close>

definition valid_claims :: "grant_claims \<Rightarrow> bool" where
  "valid_claims c =
     (gc_role c \<in> {''client'', ''worker''} \<and>
      gc_sessionId c \<noteq> [] \<and> length (gc_sessionId c) \<le> 200 \<and> gc_workerId c \<noteq> [] \<and> length (gc_workerId c) \<le> 200 \<and>
      gc_leaseId c \<noteq> [] \<and> length (gc_leaseId c) \<le> 200 \<and> gc_nonce c \<noteq> [] \<and> length (gc_nonce c) \<le> 100 \<and>
      0 \<le> gc_issuedAt c \<and> gc_issuedAt c < gc_expiresAt c \<and>
      gc_expiresAt c - gc_issuedAt c \<le> DATA_PLANE_GRANT_MAX_TTL_MS \<and> gc_expiresAt c \<le> max_safe_integer)"

lemma boundedString_Inr [result_simps]:
  "boundedString v name m = Inr s \<longleftrightarrow> v = JStr s \<and> s \<noteq> [] \<and> length s \<le> m"
  by (auto simp: boundedString_def Let_def split: jsval.splits)

lemma timestamp_Inr [result_simps]:
  "timestamp v name = Inr i \<longleftrightarrow> v = JInt i \<and> 0 \<le> i \<and> i \<le> max_safe_integer"
proof (cases "safe_integer v")
  case None
  then show ?thesis by (auto simp: timestamp_def split: if_splits)
next
  case (Some j)
  then have "v = JInt j" "\<bar>j\<bar> \<le> max_safe_integer" by (auto dest: safe_integer_Some)
  with Some show ?thesis by (auto simp: timestamp_def)
qed

lemma grant_role_Inr [result_simps]:
  "grant_role v = Inr r \<longleftrightarrow> v = JStr r \<and> r \<in> {''client'', ''worker''}"
  by (auto simp: grant_role_def split: jsval.splits)

lemma validateSigningKey_Inr [result_simps]:
  "validateSigningKey v = Inr k \<longleftrightarrow> v = JStr k \<and> 32 \<le> utf8_length k"
  by (auto simp: validateSigningKey_def split: jsval.splits)

lemma validateDataPlaneGrantClaims_valid:
  "validateDataPlaneGrantClaims v = Inr c \<Longrightarrow> valid_claims c"
  by (auto simp: validateDataPlaneGrantClaims_def valid_claims_def result_simps
      split: jsval.splits list.splits if_splits)

lemma validateDataPlaneGrantClaims_id:
  assumes "valid_claims c"
  shows "validateDataPlaneGrantClaims (claims_js c) = Inr c"
  using assms
  by (auto simp: validateDataPlaneGrantClaims_def claims_js_def valid_claims_def CLAIM_FIELDS_def grant_role_def
      boundedString_def timestamp_def)

lemma validateDataPlaneGrantClaims_iff:
  "valid_claims c \<longleftrightarrow> (\<exists>v. validateDataPlaneGrantClaims v = Inr c)"
  using validateDataPlaneGrantClaims_valid validateDataPlaneGrantClaims_id by blast

lemma split_token:
  assumes "CHR ''.'' \<notin> set p" and "CHR ''.'' \<notin> set s"
  shows "split_on CHR ''.'' (TOKEN_PREFIX @ ''.'' @ p @ ''.'' @ s) = [TOKEN_PREFIX, p, s]"
  using split_on_append [of "CHR ''.''" TOKEN_PREFIX "p @ ''.'' @ s"]
    split_on_append [OF assms(1), of s] split_on_plain [OF assms(2)]
  by (simp add: TOKEN_PREFIX_def)

lemma split_on_join:
  "split_on c s = [a, b, d] \<Longrightarrow> s = a @ [c] @ b @ [c] @ d"
proof -
  have join: "concat (map (\<lambda>p. p @ [c]) (split_on c s)) = s @ [c] \<and> split_on c s \<noteq> []" for s
    by (induction s) (auto split: list.splits)
  assume "split_on c s = [a, b, d]"
  with join [of s] have "a @ [c] @ b @ [c] @ d @ [c] = s @ [c]" by simp
  then show ?thesis by (simp flip: append_assoc)
qed

lemma verifyDataPlaneGrant_Some:
  assumes "verifyDataPlaneGrant decode hmac tokenValue signingKey now = Inr (Some c)"
  obtains key payload where "signingKey = JStr key" and "32 \<le> utf8_length key"
    and "tokenValue = JStr (TOKEN_PREFIX @ ''.'' @ payload @ ''.'' @ grant_signature hmac key payload)"
    and "isBase64Url payload" and "valid_claims c" and "gc_issuedAt c \<le> now" and "now < gc_expiresAt c"
proof -
  from assms obtain key where k: "validateSigningKey signingKey = Inr key"
    and b: "(case tokenValue of
       JStr token \<Rightarrow>
         if token = [] \<or> utf8_length token > DATA_PLANE_GRANT_MAX_TOKEN_BYTES then Inr None
         else if now < 0 \<or> now > max_safe_integer
         then Inl (TypeError ''data-plane grant verification time must be a non-negative safe integer'')
         else
           (case split_on CHR ''.'' token of
              [tokenPrefix, payload, suppliedSignature] \<Rightarrow>
                if tokenPrefix \<noteq> TOKEN_PREFIX \<or> \<not> isBase64Url payload \<or> \<not> isBase64Url suppliedSignature \<or>
                   suppliedSignature \<noteq> grant_signature hmac key payload
                then Inr None
                else
                  (case decode (base64url_decode payload) of
                     None \<Rightarrow> Inr None
                   | Some parsed \<Rightarrow>
                       (case validateDataPlaneGrantClaims parsed of
                          Inl _ \<Rightarrow> Inr None
                        | Inr claims \<Rightarrow>
                            if gc_issuedAt claims > now \<or> gc_expiresAt claims \<le> now then Inr None
                            else Inr (Some claims)))
            | _ \<Rightarrow> Inr None)
     | _ \<Rightarrow> Inr None) = Inr (Some c)"
    unfolding verifyDataPlaneGrant_def and_then_Inr by blast
  from b obtain token payload sig parsed where
    t: "tokenValue = JStr token" "split_on CHR ''.'' token = [TOKEN_PREFIX, payload, sig]" "isBase64Url payload"
      "sig = grant_signature hmac key payload"
    and c: "validateDataPlaneGrantClaims parsed = Inr c" "gc_issuedAt c \<le> now" "now < gc_expiresAt c"
    by (simp split: jsval.splits list.splits option.splits sum.splits if_splits)
  from split_on_join [OF t(2)] t(1,4)
  have "tokenValue = JStr (TOKEN_PREFIX @ ''.'' @ payload @ ''.'' @ grant_signature hmac key payload)" by simp
  with that k t(3) c validateDataPlaneGrantClaims_valid [OF c(1)] show ?thesis
    by (simp add: validateSigningKey_Inr)
qed

text \<open>
  A grant is accepted only if it carries the signature of its own payload under the
  configured key, names one of the two roles and a bounded identity, lives at most 60 seconds
  and is inside its validity window at the time of verification.
\<close>

theorem verifyDataPlaneGrant_sound:
  assumes "verifyDataPlaneGrant decode hmac tokenValue signingKey now = Inr (Some c)"
  shows "(\<exists>key payload. signingKey = JStr key \<and> 32 \<le> utf8_length key \<and>
      tokenValue = JStr (TOKEN_PREFIX @ ''.'' @ payload @ ''.'' @ grant_signature hmac key payload)) \<and>
    valid_claims c \<and> gc_issuedAt c \<le> now \<and> now < gc_expiresAt c \<and> now < gc_issuedAt c + 60000 + 1"
  using assms by (auto elim!: verifyDataPlaneGrant_Some simp: valid_claims_def DATA_PLANE_GRANT_MAX_TTL_MS_def)

lemma signed_grant_verifies:
  assumes signed: "signDataPlaneGrant num hmac (claims_js c) (JStr key) = Inr token"
    and digest: "\<And>k m. hmac k m \<noteq> []"
    and json: "decode (utf8_bytes (stringifyJson num (claims_js c))) = Some (claims_js c)"
    and now: "0 \<le> now" "now \<le> max_safe_integer"
  shows "verifyDataPlaneGrant decode hmac (JStr token) (JStr key) now =
    Inr (if gc_issuedAt c \<le> now \<and> now < gc_expiresAt c then Some c else None)"
proof -
  from signed obtain c' where c': "validateDataPlaneGrantClaims (claims_js c) = Inr c'"
    by (auto simp: signDataPlaneGrant_def result_simps)
  have inj: "c' = c" if "claims_js c' = claims_js c" for c' using that by (cases c'; cases c) (simp add: claims_js_def)
  from c' have "valid_claims c" and v: "validateDataPlaneGrantClaims (claims_js c) = Inr c"
  proof -
    from c' have "c' = c"
      by (auto simp: validateDataPlaneGrantClaims_def claims_js_def result_simps split: list.splits if_splits)
    with c' validateDataPlaneGrantClaims_valid [OF c'] show "valid_claims c" "validateDataPlaneGrantClaims (claims_js c) = Inr c"
      by simp_all
  qed
  let ?bytes = "utf8_bytes (stringifyJson num (claims_js c))"
  let ?payload = "base64url ?bytes"
  let ?sig = "grant_signature hmac key ?payload"
  from signed v have key: "32 \<le> utf8_length key"
    and token: "token = TOKEN_PREFIX @ ''.'' @ ?payload @ ''.'' @ ?sig"
    and size: "\<not> utf8_length token > DATA_PLANE_GRANT_MAX_TOKEN_BYTES"
    by (auto simp: signDataPlaneGrant_def result_simps Let_def split: if_splits)
  have "?bytes \<noteq> []" by (simp add: claims_js_def utf8_bytes_def)
  then have b64: "isBase64Url ?payload" "isBase64Url ?sig" by (simp_all add: grant_signature_def digest)
  then have "split_on CHR ''.'' token = [TOKEN_PREFIX, ?payload, ?sig]"
    unfolding token by (intro split_token alphabet_no_dot) (simp_all add: isBase64Url_def)
  moreover have "token \<noteq> []" by (simp add: token)
  ultimately show ?thesis
    using key size now json v b64 by (simp add: verifyDataPlaneGrant_def validateSigningKey_def)
qed

text \<open>
  Verifying a signed grant at any time inside its window returns exactly the claims that
  were signed, for every digest function that returns at least one byte and every JSON decoder
  that reads back what was encoded; before the window and from its end on, it returns nothing.
\<close>

theorem sign_verify_roundtrip:
  assumes signed: "signDataPlaneGrant num hmac (claims_js c) (JStr key) = Inr token"
    and digest: "\<And>k m. hmac k m \<noteq> []"
    and json: "decode (utf8_bytes (stringifyJson num (claims_js c))) = Some (claims_js c)"
    and now: "0 \<le> now" "now \<le> max_safe_integer"
  shows "verifyDataPlaneGrant decode hmac (JStr token) (JStr key) now =
    Inr (if gc_issuedAt c \<le> now \<and> now < gc_expiresAt c then Some c else None)"
  using assms by (rule signed_grant_verifies)

lemma length_base64url: "length (base64url bs) \<le> 2 * length bs + 2"
proof (induction bs rule: base64url.induct)
  case (4 x y z rest)
  then have "length (base64url rest) \<le> 2 * length rest + 2" by blast
  then show ?case by (simp add: Let_def)
qed (simp_all add: Let_def)

lemma utf8_length_le: "utf8_length s \<le> 2 * length s"
  by (induction s) (auto simp: utf8_length_def)

lemma length_utf8_bytes: "length (utf8_bytes s) \<le> 2 * length s"
  by (induction s) (auto simp: utf8_bytes_def Let_def)

lemma utf8_length_simps:
  "utf8_length [] = 0" "utf8_length (c # s) = (if (of_char c :: nat) < 128 then 1 else 2) + utf8_length s"
  by (simp_all add: utf8_length_def)

lemma utf8_length_append: "utf8_length (s @ t) = utf8_length s + utf8_length t"
  by (simp add: utf8_length_def)

definition sample_claims :: grant_claims where
  "sample_claims = \<lparr>gc_role = ''client'', gc_sessionId = ''s'', gc_workerId = ''w'', gc_leaseId = ''l'',
     gc_issuedAt = 1000, gc_expiresAt = 2000, gc_nonce = ''n''\<rparr>"

definition sample_key :: string where
  "sample_key = replicate 40 CHR ''k''"

definition sample_digest :: "string \<Rightarrow> string \<Rightarrow> string" where
  "sample_digest k m = ''digest''"

definition sample_decode :: "string \<Rightarrow> jsval option" where
  "sample_decode s = (if s = utf8_bytes (stringifyJson (\<lambda>_. []) (claims_js sample_claims))
     then Some (claims_js sample_claims) else None)"

lemma sample_json_length: "length (stringifyJson (\<lambda>_. []) (claims_js sample_claims)) \<le> 300"
  by (simp add: sample_claims_def claims_js_def json_string_def json_char_def json_number_def Let_def
      DATA_PLANE_GRANT_AUDIENCE_def string_of_int_def string_of_nat.simps)

lemma sample_key_length: "utf8_length sample_key = 40"
  by (simp add: sample_key_def utf8_length_def sum_list_replicate)

text \<open>Short valid claims are signed under a long enough key.\<close>

lemma sign_short:
  assumes v: "valid_claims c" and "length (stringifyJson num (claims_js c)) \<le> 300"
    and "length (grant_signature hmac key (base64url (utf8_bytes (stringifyJson num (claims_js c))))) \<le> 100"
    and "32 \<le> utf8_length key"
  shows "signDataPlaneGrant num hmac (claims_js c) (JStr key) =
   Inr (TOKEN_PREFIX @ ''.'' @ base64url (utf8_bytes (stringifyJson num (claims_js c))) @ ''.'' @
     grant_signature hmac key (base64url (utf8_bytes (stringifyJson num (claims_js c)))))"
proof -
  let ?j = "stringifyJson num (claims_js c)"
  let ?p = "base64url (utf8_bytes ?j)"
  let ?s = "grant_signature hmac key ?p"
  have "length ?p \<le> 1202"
    using length_base64url [of "utf8_bytes ?j"] length_utf8_bytes [of ?j] assms(2) by linarith
  with assms(3) have "utf8_length (TOKEN_PREFIX @ ''.'' @ ?p @ ''.'' @ ?s) \<le> 4096"
    using utf8_length_le [of "TOKEN_PREFIX @ ''.'' @ ?p @ ''.'' @ ?s"] by (simp add: TOKEN_PREFIX_def)
  moreover have "validateSigningKey (JStr key) = Inr key" using assms(4) by (simp add: validateSigningKey_def)
  ultimately show ?thesis
    by (simp add: signDataPlaneGrant_def validateDataPlaneGrantClaims_id [OF v] Let_def
        DATA_PLANE_GRANT_MAX_TOKEN_BYTES_def)
qed

lemma sample_signature_length: "length (grant_signature sample_digest key p) \<le> 100"
  using length_base64url [of "''digest''"] by (simp add: grant_signature_def sample_digest_def)

lemma sample_sign:
  "signDataPlaneGrant (\<lambda>_. []) sample_digest (claims_js sample_claims) (JStr sample_key) =
   Inr (TOKEN_PREFIX @ ''.'' @ base64url (utf8_bytes (stringifyJson (\<lambda>_. []) (claims_js sample_claims))) @ ''.'' @
     grant_signature sample_digest sample_key (base64url (utf8_bytes (stringifyJson (\<lambda>_. []) (claims_js sample_claims)))))"
proof -
  have "valid_claims sample_claims"
    by (simp add: valid_claims_def sample_claims_def DATA_PLANE_GRANT_MAX_TTL_MS_def max_safe_integer_def)
  from sign_short [OF this sample_json_length sample_signature_length] show ?thesis by (simp add: sample_key_length)
qed

theorem sign_verify_roundtrip_witness:
  "verifyDataPlaneGrant sample_decode sample_digest
     (JStr (TOKEN_PREFIX @ ''.'' @ base64url (utf8_bytes (stringifyJson (\<lambda>_. []) (claims_js sample_claims))) @ ''.'' @
     grant_signature sample_digest sample_key (base64url (utf8_bytes (stringifyJson (\<lambda>_. []) (claims_js sample_claims))))))
     (JStr sample_key) 1999 = Inr (Some sample_claims)"
proof -
  have "sample_digest k m \<noteq> []" for k m by (simp add: sample_digest_def)
  moreover have "sample_decode (utf8_bytes (stringifyJson (\<lambda>_. []) (claims_js sample_claims))) = Some (claims_js sample_claims)"
    by (simp add: sample_decode_def)
  ultimately show ?thesis
    using sign_verify_roundtrip [OF sample_sign, of sample_decode 1999]
    by (simp add: sample_claims_def max_safe_integer_def)
qed

definition sample_token :: jsval where
  "sample_token = JStr (TOKEN_PREFIX @ ''.'' @ base64url ''{}'' @ ''.'' @ grant_signature sample_digest sample_key (base64url ''{}''))"

lemma sample_verified:
  assumes "valid_claims c" and "gc_issuedAt c \<le> t" and "t < gc_expiresAt c"
  shows "verifyDataPlaneGrant (\<lambda>_. Some (claims_js c)) sample_digest sample_token (JStr sample_key) t = Inr (Some c)"
proof -
  have d: "base64url ''digest'' = ''ZGlnZXN0''" and e: "base64url ''{}'' = ''e30''" by code_simp+
  then have s: "grant_signature sample_digest sample_key p = ''ZGlnZXN0''" for p
    by (simp add: grant_signature_def sample_digest_def)
  have "0 \<le> t" "t \<le> max_safe_integer" using assms by (auto simp: valid_claims_def)
  then show ?thesis
    using assms(2,3) unfolding sample_token_def s e verifyDataPlaneGrant_def validateSigningKey_def
    by (simp add: sample_key_length TOKEN_PREFIX_def utf8_length_simps
        DATA_PLANE_GRANT_MAX_TOKEN_BYTES_def isBase64Url_def b64_alphabet_def Let_def
        s validateDataPlaneGrantClaims_id [OF assms(1)])
qed

theorem verifyDataPlaneGrant_sound_witness: "(1000::int) \<le> 1999 \<and> valid_claims sample_claims"
proof -
  have "valid_claims sample_claims" and "gc_issuedAt sample_claims = 1000" and "gc_expiresAt sample_claims = 2000"
    by (simp_all add: valid_claims_def sample_claims_def DATA_PLANE_GRANT_MAX_TTL_MS_def max_safe_integer_def)
  with verifyDataPlaneGrant_sound [OF sample_verified, of sample_claims 1999] show ?thesis by simp
qed

section \<open>The sub-protocol offer\<close>

definition DATA_PLANE_SUBPROTOCOL :: string where
  "DATA_PLANE_SUBPROTOCOL = ''gpulink.data-plane.v1''"

definition DATA_PLANE_SUBPROTOCOL_V2 :: string where
  "DATA_PLANE_SUBPROTOCOL_V2 = ''gpulink.data-plane.v2''"

definition DATA_PLANE_RELAY_READY_V2 :: string where
  "DATA_PLANE_RELAY_READY_V2 = ''gpulink.relay.ready.v2''"

definition DATA_PLANE_GRANT_SUBPROTOCOL_PREFIX :: string where
  "DATA_PLANE_GRANT_SUBPROTOCOL_PREFIX = ''gpulink.grant.''"

definition DATA_PLANE_MAX_FRAME_BYTES :: int where
  "DATA_PLANE_MAX_FRAME_BYTES = 1048576"

definition DATA_PLANE_MAX_BUFFERED_BYTES :: int where
  "DATA_PLANE_MAX_BUFFERED_BYTES = 4194304"

text \<open>\<^verbatim>\<open>/^gdp1\.[A-Za-z0-9_-]+\.[A-Za-z0-9_-]+$/u\<close>: no part contains a dot.\<close>

definition grant_pattern :: "string \<Rightarrow> bool" where
  "grant_pattern s =
     (case split_on CHR ''.'' s of
        [a, b, c] \<Rightarrow> a = ''gdp1'' \<and> isBase64Url b \<and> isBase64Url c
      | _ \<Rightarrow> False)"

definition requireGrant :: "string \<Rightarrow> string result" where
  "requireGrant grant =
     (if grant = [] \<or> length grant > 4096 \<or> \<not> grant_pattern grant
      then Inl (TypeError ''data-plane grant token is invalid'')
      else Inr grant)"

definition createDataPlaneProtocols :: "string \<Rightarrow> string list result" where
  "createDataPlaneProtocols grant =
     and_then (requireGrant grant) (\<lambda>normalizedGrant.
       Inr [DATA_PLANE_SUBPROTOCOL, DATA_PLANE_GRANT_SUBPROTOCOL_PREFIX @ normalizedGrant])"

definition parseDataPlaneProtocols :: "string option \<Rightarrow> (string \<times> string) option" where
  "parseDataPlaneProtocols header =
     (case header of
        None \<Rightarrow> None
      | Some h \<Rightarrow>
          if h = [] \<or> length h > 8192 then None
          else
            (let values = filter (\<lambda>v. v \<noteq> []) (map trim (split_on CHR '','' h)) in
             case List.find (\<lambda>v. v = DATA_PLANE_SUBPROTOCOL \<or> v = DATA_PLANE_SUBPROTOCOL_V2) values of
               None \<Rightarrow> None
             | Some protocol \<Rightarrow>
                 if length values \<noteq> 2 \<or> length (js_set values) \<noteq> 2 then None
                 else
                   (case List.find (\<lambda>v. starts_with v DATA_PLANE_GRANT_SUBPROTOCOL_PREFIX) values of
                      None \<Rightarrow> None
                    | Some grantProtocol \<Rightarrow>
                        (let grant = drop (length DATA_PLANE_GRANT_SUBPROTOCOL_PREFIX) grantProtocol in
                         case requireGrant grant of
                           Inl _ \<Rightarrow> None
                         | Inr _ \<Rightarrow> Some (protocol, grant)))))"

definition validateDataPlaneFrameSize :: "int \<Rightarrow> bool result" where
  "validateDataPlaneFrameSize byteLength =
     (if byteLength < 0 \<or> byteLength > max_safe_integer
      then Inl (TypeError ''data-plane frame byte length must be a non-negative safe integer'')
      else if byteLength > DATA_PLANE_MAX_FRAME_BYTES then Inr False
      else Inr True)"

definition isDataPlaneBackpressured :: "int \<Rightarrow> bool result" where
  "isDataPlaneBackpressured bufferedAmount =
     (if bufferedAmount < 0 \<or> bufferedAmount > max_safe_integer
      then Inl (TypeError ''data-plane buffered amount must be a non-negative safe integer'')
      else Inr (bufferedAmount > DATA_PLANE_MAX_BUFFERED_BYTES))"

lemma trim_plain: "list_all (\<lambda>c. \<not> is_js_space c) s \<Longrightarrow> trim s = s"
proof -
  assume a: "list_all (\<lambda>c. \<not> is_js_space c) s"
  then have "dropWhile is_js_space s = s" by (cases s) auto
  moreover have "list_all (\<lambda>c. \<not> is_js_space c) (rev s)" using a by (simp add: list_all_iff)
  then have "dropWhile is_js_space (rev s) = rev s" by (cases "rev s") auto
  ultimately show ?thesis by (simp add: trim_def)
qed

lemma trim_space: "trim (CHR '' '' # s) = trim s"
  by (simp add: trim_def is_js_space_def)

lemma alphabet_plain: "b64_alphabet c \<Longrightarrow> \<not> is_js_space c \<and> c \<noteq> CHR '',''"
  by (auto simp: b64_alphabet_def is_js_space_def Let_def)

lemma grant_pattern_chars:
  assumes "grant_pattern g"
  shows "list_all (\<lambda>c. \<not> is_js_space c) g \<and> CHR '','' \<notin> set g"
proof -
  from assms obtain a b c where s: "split_on CHR ''.'' g = [a, b, c]"
    and p: "a = ''gdp1''" "isBase64Url b" "isBase64Url c"
    by (auto simp: grant_pattern_def split: list.splits)
  have plain: "list_all (\<lambda>c. \<not> is_js_space c) t \<and> CHR '','' \<notin> set t" if "isBase64Url t" for t
    using that alphabet_plain unfolding isBase64Url_def list_all_iff by blast
  show ?thesis
    using plain [OF p(2)] plain [OF p(3)] p(1) split_on_join [OF s] by (simp add: is_js_space_def)
qed

text \<open>
  The offer a client builds for a valid grant is read back by the server as version 1 and
  the same grant, whether the header lists the two values with or without a space.
\<close>

theorem protocols_roundtrip:
  assumes "createDataPlaneProtocols grant = Inr [first, second]"
  shows "parseDataPlaneProtocols (Some (first @ '','' @ second)) = Some (DATA_PLANE_SUBPROTOCOL, grant) \<and>
    parseDataPlaneProtocols (Some (first @ '', '' @ second)) = Some (DATA_PLANE_SUBPROTOCOL, grant)"
proof -
  let ?g = "DATA_PLANE_GRANT_SUBPROTOCOL_PREFIX @ grant"
  from assms have g: "requireGrant grant = Inr grant" and fs: "first = DATA_PLANE_SUBPROTOCOL" "second = ?g"
    by (auto simp: createDataPlaneProtocols_def result_simps requireGrant_def split: if_splits)
  from g have len: "length grant \<le> 4096" and pat: "grant_pattern grant"
    by (auto simp: requireGrant_def split: if_splits)
  have t: "trim ?g = ?g" "trim first = first"
    using grant_pattern_chars [OF pat]
    by (intro trim_plain; simp add: fs DATA_PLANE_GRANT_SUBPROTOCOL_PREFIX_def DATA_PLANE_SUBPROTOCOL_def is_js_space_def)+
  have c: "CHR '','' \<notin> set ?g" "CHR '','' \<notin> set first"
    using grant_pattern_chars [OF pat] by (simp_all add: DATA_PLANE_GRANT_SUBPROTOCOL_PREFIX_def DATA_PLANE_SUBPROTOCOL_def fs)
  have sp: "split_on CHR '','' (first @ CHR '','' # ?g) = [first, ?g]"
    "split_on CHR '','' (first @ CHR '','' # CHR '' '' # ?g) = [first, CHR '' '' # ?g]"
    using split_on_append [OF c(2)] split_on_plain [of "CHR '',''" ?g] split_on_plain [of "CHR '',''" "CHR '' '' # ?g"] c(1)
    by simp_all
  have ne: "first \<noteq> ?g" "first \<noteq> []" "?g \<noteq> []" "\<not> starts_with first DATA_PLANE_GRANT_SUBPROTOCOL_PREFIX"
    "starts_with ?g DATA_PLANE_GRANT_SUBPROTOCOL_PREFIX"
    by (simp_all add: fs DATA_PLANE_GRANT_SUBPROTOCOL_PREFIX_def DATA_PLANE_SUBPROTOCOL_def starts_with_def)
  show ?thesis
    using g len sp t ne unfolding parseDataPlaneProtocols_def
    by (simp add: fs(2) trim_space fs(1) [symmetric] DATA_PLANE_GRANT_SUBPROTOCOL_PREFIX_def [THEN arg_cong, of length])
      (simp add: fs DATA_PLANE_SUBPROTOCOL_def)
qed

theorem protocols_roundtrip_witness:
  "parseDataPlaneProtocols (Some (DATA_PLANE_SUBPROTOCOL @ '', '' @ DATA_PLANE_GRANT_SUBPROTOCOL_PREFIX @ ''gdp1.a.b'')) =
   Some (DATA_PLANE_SUBPROTOCOL, ''gdp1.a.b'')"
proof -
  have "createDataPlaneProtocols ''gdp1.a.b'' =
      Inr [DATA_PLANE_SUBPROTOCOL, DATA_PLANE_GRANT_SUBPROTOCOL_PREFIX @ ''gdp1.a.b'']"
    by (simp add: createDataPlaneProtocols_def requireGrant_def grant_pattern_def isBase64Url_def b64_alphabet_def)
  from protocols_roundtrip [OF this] show ?thesis by simp
qed

lemma parseDataPlaneProtocols_Some:
  assumes "parseDataPlaneProtocols header = Some (protocol, grant)"
  shows "protocol \<in> {DATA_PLANE_SUBPROTOCOL, DATA_PLANE_SUBPROTOCOL_V2} \<and> grant_pattern grant \<and> length grant \<le> 4096"
  using assms
  by (auto simp: parseDataPlaneProtocols_def requireGrant_def Let_def find_Some_iff
      split: option.splits if_splits sum.splits)

end
