(* ===== verification/Service.thy ===== *)
theory Service
  imports Lifecycle WorkloadContracts DataPlane
begin

text \<open>
  \<^verbatim>\<open>ControlPlaneService\<close> of \<^verbatim>\<open>src/src/control-plane/service.mjs\<close>: authentication, the request
  validators and one function per operation. An operation that the code runs as a transaction
  followed by a scheduler pass is modelled by two definitions, its transaction (\<open>..._tx\<close>) and
  the composition, in which \<open>pass\<close> stands for the state change of \<^verbatim>\<open>scheduler.runOnce()\<close>.
  What \<^verbatim>\<open>randomUUID()\<close> returned and the clock's reading are arguments.
\<close>

section \<open>Configuration and authentication\<close>

record service_config =
  cf_tokens :: "(string \<times> string) list"
  cf_scheduler :: scheduler_config
  cf_leaseDurationMs :: int
  cf_dataPlaneGrantTtlMs :: jsval
  cf_dataPlaneSigningKey :: jsval

definition authenticate :: "service_config \<Rightarrow> jsval \<Rightarrow> string list \<Rightarrow> bool" where
  "authenticate cfg authorization allowedScopes =
     (case authorization of
        JStr a \<Rightarrow>
          if \<not> starts_with a ''Bearer '' then False
          else
            (let supplied = utf8_bytes (drop 7 a) in
             list_ex (\<lambda>scope. case map_of (cf_tokens cfg) scope of
                 None \<Rightarrow> False
               | Some token \<Rightarrow>
                   if token = [] then False
                   else length supplied = length (utf8_bytes token) \<and> supplied = utf8_bytes token)
               (js_set (allowedScopes @ [''admin''])))
      | _ \<Rightarrow> False)"

section \<open>Validators\<close>

definition adapter_identity :: "int \<Rightarrow> string \<Rightarrow> string option \<Rightarrow> int \<times> string \<times> string option" where
  "adapter_identity schemaVersion type adapterId = (schemaVersion, type, adapterId)"

definition manifest_identity :: "adapter_manifest \<Rightarrow> int \<times> string \<times> string option" where
  "manifest_identity m = adapter_identity (am_schemaVersion m) (am_type m) (am_adapterId m)"

definition health_identity :: "adapter_health \<Rightarrow> int \<times> string \<times> string option" where
  "health_identity h = adapter_identity (ah_schemaVersion h) (ah_type h) (ah_adapterId h)"

definition sameStringSet :: "'a list \<Rightarrow> 'a list \<Rightarrow> bool" where
  "sameStringSet left right =
     (length (js_set left) = length (js_set right) \<and> list_all (\<lambda>v. v \<in> set right) (js_set left))"

definition validateAdvertisedAdapterState ::
  "(string \<Rightarrow> string \<Rightarrow> int) \<Rightarrow> js_object \<Rightarrow> string list \<Rightarrow> (adapter_manifest list \<times> adapter_health list) result" where
  "validateAdvertisedAdapterState lc object capabilities =
     and_then (validateAdapterManifests lc (nullish (js_get object ''adapterManifests'') (JArr [])) ''adapterManifests'') (\<lambda>manifests.
     and_then (validateAdapterHealth lc (nullish (js_get object ''adapterHealth'') (JArr [])) ''adapterHealth'') (\<lambda>health.
     case filter (\<lambda>m. am_type m \<notin> set capabilities) manifests of
       m # _ \<Rightarrow> Inl (ValidationError (''adapter manifest '' @ am_type m @ '' must match an advertised capability''))
     | [] \<Rightarrow>
         if health = [] then
           (if list_ex (\<lambda>m. am_schemaVersion m = 2) manifests
            then Inl (ValidationError ''v2 adapter manifests require adapter health reports'')
            else Inr (manifests, health))
         else
           (let readyReports = filter (\<lambda>h. ah_state h = ''ready'') health in
            if \<not> sameStringSet (map manifest_identity manifests) (map health_identity readyReports) \<or>
               \<not> sameStringSet capabilities (map ah_type readyReports)
            then Inl (ValidationError
              (if list_ex (\<lambda>m. am_schemaVersion m = 2) manifests \<or> list_ex (\<lambda>h. ah_schemaVersion h = 2) health
               then ''ready adapter manifests, health, and advertised capabilities must match by identity''
               else ''ready adapter health, manifests, and advertised capabilities must match''))
            else Inr (manifests, health))))"

definition label_text :: "jsval \<Rightarrow> string" where
  "label_text v = (case v of JStr s \<Rightarrow> s | _ \<Rightarrow> [])"

definition validateLabels :: "js_object \<Rightarrow> (string \<times> string) list result" where
  "validateLabels labels =
     (if length labels > 64 then Inl (ValidationError ''labels may contain at most 64 entries'')
      else and_then (traverse (\<lambda>_ e.
             and_then (requireString (JStr (fst e)) ''label key'' 100) (\<lambda>k.
             and_then (requireString (snd e) (''label '' @ fst e) 200) (\<lambda>v.
             Inr (k, JStr v)))) 0 labels)
           (\<lambda>entries. Inr (map (\<lambda>(k, v). (k, label_text v)) (fromEntries entries))))"

definition finite_number :: "jsval \<Rightarrow> rat option" where
  "finite_number v = (case v of JNum (Finite q) \<Rightarrow> Some q | _ \<Rightarrow> None)"

fun validate_gpu_items :: "nat \<Rightarrow> string list \<Rightarrow> jsval list \<Rightarrow> gpu list result" where
  "validate_gpu_items i uuids [] = Inr []"
| "validate_gpu_items i uuids (item # items) =
     (let name = item_name ''gpus'' i in
      and_then (requireObject item name) (\<lambda>object.
      and_then (requireString (js_get object ''uuid'') (name @ ''.uuid'') 100) (\<lambda>uuid.
      if uuid \<in> set uuids then Inl (ValidationError (''duplicate GPU UUID '' @ uuid))
      else
      and_then (boundedInteger (js_get object ''index'') (name @ ''.index'') 0 128 None) (\<lambda>index.
      and_then (requireString (js_get object ''name'') (name @ ''.name'') 200) (\<lambda>gpuName.
      and_then (boundedInteger (js_get object ''memoryTotalMiB'') (name @ ''.memoryTotalMiB'') 1 max_safe_integer None) (\<lambda>memoryTotalMiB.
      and_then (boundedInteger (js_get object ''memoryUsedMiB'') (name @ ''.memoryUsedMiB'') 0 max_safe_integer None) (\<lambda>memoryUsedMiB.
      and_then (boundedInteger (js_get object ''utilizationPercent'') (name @ ''.utilizationPercent'') 0 100 None) (\<lambda>utilizationPercent.
      and_then (boundedInteger (js_get object ''temperatureC'') (name @ ''.temperatureC'') 0 200 None) (\<lambda>temperatureC.
      and_then (validate_gpu_items (Suc i) (uuid # uuids) items) (\<lambda>rest.
      Inr (\<lparr>g_uuid = uuid, g_index = index, g_name = gpuName, g_memoryTotalMiB = memoryTotalMiB,
            g_memoryUsedMiB = memoryUsedMiB, g_utilizationPercent = utilizationPercent,
            g_temperatureC = temperatureC, g_powerDrawWatts = finite_number (js_get object ''powerDrawWatts'')\<rparr> # rest)))))))))))"

definition validateGpus :: "jsval \<Rightarrow> gpu list result" where
  "validateGpus v =
     (case v of
        JArr items \<Rightarrow>
          if length items > 16 then Inl (ValidationError ''gpus must be an array containing at most 16 GPUs'')
          else validate_gpu_items 0 [] items
      | _ \<Rightarrow> Inl (ValidationError ''gpus must be an array containing at most 16 GPUs''))"

definition validateWorker :: "(string \<Rightarrow> string \<Rightarrow> int) \<Rightarrow> string \<Rightarrow> jsval \<Rightarrow> int \<Rightarrow> worker_input result" where
  "validateWorker lc uuid input now =
     and_then (requireObject input ''worker'') (\<lambda>object.
     and_then (stringArray (nullish (js_get object ''capabilities'') (JArr [])) ''capabilities'' 64) (\<lambda>capabilities.
     and_then (validateAdvertisedAdapterState lc object capabilities) (\<lambda>(manifests, health).
     and_then (optionalString (js_get object ''id'') ''id'' (Some (createId ''worker'' uuid)) 100) (\<lambda>id.
     and_then (requireString (js_get object ''name'') ''name'' 100) (\<lambda>name.
     and_then (requireString (js_get object ''version'') ''version'' 50) (\<lambda>version.
     and_then (optionalString (js_get object ''baseUrl'') ''baseUrl'' None 500) (\<lambda>baseUrl.
     and_then (optionalObject (js_get object ''labels'') ''labels'') (\<lambda>labelsObject.
     and_then (validateLabels labelsObject) (\<lambda>labels.
     and_then (stringArray (nullish (js_get object ''warmModels'') (JArr [])) ''warmModels'' 64) (\<lambda>warmModels.
     and_then (validateModelInventory lc (nullish (js_get object ''modelInventory'') (JArr [])) ''modelInventory'') (\<lambda>modelInventory.
     and_then (validateGpus (js_get object ''gpus'')) (\<lambda>gpus.
     Inr \<lparr>wi_id = the id, wi_name = name, wi_version = version, wi_baseUrl = baseUrl, wi_labels = labels,
          wi_capabilities = capabilities, wi_adapterManifests = manifests, wi_adapterHealth = health,
          wi_warmModels = warmModels, wi_modelInventory = modelInventory, wi_gpus = gpus, wi_now = now\<rparr>))))))))))))"

definition validateHeartbeat :: "(string \<Rightarrow> string \<Rightarrow> int) \<Rightarrow> jsval \<Rightarrow> int \<Rightarrow> heartbeat_input result" where
  "validateHeartbeat lc input now =
     and_then (requireObject input ''heartbeat'') (\<lambda>object.
     and_then (stringArray (nullish (js_get object ''capabilities'') (JArr [])) ''capabilities'' 64) (\<lambda>capabilities.
     and_then (validateAdvertisedAdapterState lc object capabilities) (\<lambda>(manifests, health).
     and_then (stringArray (nullish (js_get object ''warmModels'') (JArr [])) ''warmModels'' 64) (\<lambda>warmModels.
     and_then (validateModelInventory lc (nullish (js_get object ''modelInventory'') (JArr [])) ''modelInventory'') (\<lambda>modelInventory.
     and_then (validateGpus (js_get object ''gpus'')) (\<lambda>gpus.
     Inr \<lparr>hi_capabilities = capabilities, hi_adapterManifests = manifests, hi_adapterHealth = health,
          hi_warmModels = warmModels, hi_modelInventory = modelInventory, hi_gpus = gpus, hi_now = now\<rparr>))))))"

definition validateJob :: "string \<Rightarrow> jsval \<Rightarrow> jsval \<Rightarrow> int \<Rightarrow> job_input result" where
  "validateJob uuid input idempotencyHeader now =
     and_then (requireObject input ''job'') (\<lambda>object.
     and_then (optionalObject (js_get object ''constraints'') ''constraints'') (\<lambda>constraints.
     and_then (requireString (js_get object ''type'') ''type'' 100) (\<lambda>type.
     and_then (boundedInteger (js_get constraints ''gpuCount'') ''constraints.gpuCount'' 1 1 (Some 1)) (\<lambda>gpuCount.
     and_then (requireString (js_get object ''projectId'') ''projectId'' 100) (\<lambda>projectId.
     and_then (boundedInteger (js_get object ''priority'') ''priority'' (-1000) 1000 (Some 0)) (\<lambda>priority.
     and_then (boundedInteger (js_get constraints ''minVramMiB'') ''constraints.minVramMiB'' 1 1000000 (Some 1)) (\<lambda>minVramMiB.
     and_then (stringArray (nullish (js_get constraints ''capabilities'') (JArr [js_get object ''type'']))
       ''constraints.capabilities'' 64) (\<lambda>requiredCapabilities.
     and_then (optionalString (js_get constraints ''model'') ''constraints.model'' None 300) (\<lambda>requestedModel.
     and_then (optionalObject (js_get object ''payload'') ''payload'') (\<lambda>payloadObject.
     and_then (validateWorkloadPayload type payloadObject) (\<lambda>payload.
     and_then (boundedInteger (js_get object ''maxAttempts'') ''maxAttempts'' 1 20 (Some 3)) (\<lambda>maxAttempts.
     and_then (optionalString (nullish idempotencyHeader (js_get object ''idempotencyKey'')) ''idempotencyKey'' None 200) (\<lambda>idempotencyKey.
     Inr \<lparr>ji_id = createId ''job'' uuid, ji_projectId = projectId, ji_type = type, ji_priority = priority,
          ji_gpuCount = gpuCount, ji_minVramMiB = minVramMiB, ji_requiredCapabilities = requiredCapabilities,
          ji_requestedModel = requestedModel, ji_payload = payload, ji_maxAttempts = maxAttempts,
          ji_idempotencyKey = idempotencyKey, ji_now = now\<rparr>)))))))))))))"

record lease_action =
  la_workerId :: string
  la_leaseId :: string

definition validateLeaseAction :: "jsval \<Rightarrow> lease_action result" where
  "validateLeaseAction input =
     and_then (requireObject input ''request'') (\<lambda>object.
     and_then (requireString (js_get object ''workerId'') ''workerId'' 100) (\<lambda>workerId.
     and_then (requireString (js_get object ''leaseId'') ''leaseId'' 100) (\<lambda>leaseId.
     Inr \<lparr>la_workerId = workerId, la_leaseId = leaseId\<rparr>)))"

definition validateDataPlaneRole :: "string \<Rightarrow> string result" where
  "validateDataPlaneRole role =
     (if role \<noteq> ''client'' \<and> role \<noteq> ''worker''
      then Inl (TypeError ''expected data-plane role must be client or worker'')
      else Inr role)"

section \<open>Operations\<close>

type_synonym scheduler_run = "db \<Rightarrow> pass_result result \<times> db"

text \<open>A committed transaction, then \<^verbatim>\<open>await this.scheduler.runOnce()\<close>; a failing pass rejects the call.\<close>

definition then_pass :: "scheduler_run \<Rightarrow> 'a result \<times> db \<Rightarrow> 'a result \<times> db" where
  "then_pass pass r =
     (case r of
        (Inl e, d) \<Rightarrow> (Inl e, d)
      | (Inr x, d) \<Rightarrow> (case pass d of (Inl e, d') \<Rightarrow> (Inl e, d') | (Inr _, d') \<Rightarrow> (Inr x, d')))"

text \<open>A validator that throws leaves the database alone.\<close>

definition validated :: "'i result \<Rightarrow> ('i \<Rightarrow> db \<Rightarrow> 'a result \<times> db) \<Rightarrow> db \<Rightarrow> 'a result \<times> db" where
  "validated v k d = (case v of Inl e \<Rightarrow> (Inl e, d) | Inr i \<Rightarrow> k i d)"

subsection \<open>Workers\<close>

definition registerWorker_tx :: "worker_input \<Rightarrow> db \<Rightarrow> worker result \<times> db" where
  "registerWorker_tx worker =
     transaction (\<lambda>d. and_then (upsertWorker worker d) (\<lambda>(stored, d1).
       Inr (stored, snd (appendEvent ''worker.online'' (w_id stored)
         (JObj [(''name'', JStr (w_name stored)), (''gpuCount'', JInt (int (length (w_gpus stored))))])
         (wi_now worker) d1))))"

definition registerWorker ::
  "(string \<Rightarrow> string \<Rightarrow> int) \<Rightarrow> scheduler_run \<Rightarrow> string \<Rightarrow> jsval \<Rightarrow> int \<Rightarrow> db \<Rightarrow> worker result \<times> db" where
  "registerWorker lc pass uuid input now =
     validated (validateWorker lc uuid input now) (\<lambda>worker d. then_pass pass (registerWorker_tx worker d))"

definition heartbeatWorker_tx :: "string \<Rightarrow> heartbeat_input \<Rightarrow> db \<Rightarrow> worker result \<times> db" where
  "heartbeatWorker_tx workerId heartbeat d =
     (case updateWorkerHeartbeat workerId heartbeat d of
        (None, d1) \<Rightarrow> (Inl (NotFoundError ''worker not found''), d1)
      | (Some w, d1) \<Rightarrow> (Inr w, d1))"

definition heartbeatWorker ::
  "(string \<Rightarrow> string \<Rightarrow> int) \<Rightarrow> scheduler_run \<Rightarrow> string \<Rightarrow> jsval \<Rightarrow> int \<Rightarrow> db \<Rightarrow> worker result \<times> db" where
  "heartbeatWorker lc pass workerId input now =
     validated (validateHeartbeat lc input now) (\<lambda>heartbeat d. then_pass pass (heartbeatWorker_tx workerId heartbeat d))"

definition drain_flag :: "jsval \<Rightarrow> bool result" where
  "drain_flag input =
     and_then (requireObject input ''request'') (\<lambda>object.
       booleanValue (js_get object ''drain'') ''drain must be a boolean'')"

definition setWorkerDrain :: "string \<Rightarrow> jsval \<Rightarrow> int \<Rightarrow> db \<Rightarrow> worker result \<times> db" where
  "setWorkerDrain workerId input now =
     validated (drain_flag input) (\<lambda>drain. transaction (\<lambda>d.
       (case setWorkerDrain_row workerId drain now d of
          (None, _) \<Rightarrow> Inl (NotFoundError ''worker not found'')
        | (Some w, d1) \<Rightarrow>
            Inr (w, snd (appendEvent (if drain then ''worker.draining'' else ''worker.resumed'') (w_id w) (JObj []) now d1)))))"

subsection \<open>Jobs\<close>

definition submitJob_tx :: "job_input \<Rightarrow> db \<Rightarrow> (job \<times> bool) result \<times> db" where
  "submitJob_tx i =
     transaction (\<lambda>d. and_then (insertJob i d) (\<lambda>((j, duplicate), d1).
       Inr ((j, duplicate),
         if duplicate then d1
         else snd (appendEvent ''job.queued'' (j_id j)
           (JObj [(''projectId'', JStr (j_projectId j)), (''type'', JStr (j_type j)),
                  (''priority'', JInt (j_priority j))]) (ji_now i) d1))))"

text \<open>The answer rereads the job after the pass.\<close>

definition reread :: "('a \<Rightarrow> db \<Rightarrow> 'b) \<Rightarrow> ('a \<times> bool) result \<times> db \<Rightarrow> ('b \<times> bool) result \<times> db" where
  "reread get r =
     (case r of (Inl e, d) \<Rightarrow> (Inl e, d) | (Inr (x, duplicate), d) \<Rightarrow> (Inr (get x d, duplicate), d))"

definition submitJob ::
  "scheduler_run \<Rightarrow> string \<Rightarrow> jsval \<Rightarrow> jsval \<Rightarrow> int \<Rightarrow> db \<Rightarrow> (job option \<times> bool) result \<times> db" where
  "submitJob pass uuid input idempotencyHeader now =
     validated (validateJob uuid input idempotencyHeader now) (\<lambda>i d.
       reread (\<lambda>j. getJob (j_id j)) (then_pass pass (submitJob_tx i d)))"

text \<open>
  A lease-fenced statement, its error when no row matched, and the event of its success.
\<close>

definition fenced :: "(db \<Rightarrow> 'r option \<times> db) \<Rightarrow> string \<Rightarrow> ('r \<Rightarrow> db \<Rightarrow> db) \<Rightarrow> db \<Rightarrow> 'r result \<times> db" where
  "fenced statement message record_event =
     transaction (\<lambda>d.
       case statement d of
         (None, _) \<Rightarrow> Inl (ConflictError message)
       | (Some r, d1) \<Rightarrow> Inr (r, record_event r d1))"

definition startJob :: "service_config \<Rightarrow> string \<Rightarrow> jsval \<Rightarrow> int \<Rightarrow> db \<Rightarrow> job result \<times> db" where
  "startJob cfg jobId input now =
     validated (validateLeaseAction input) (\<lambda>lease.
       fenced (startJob_row jobId (la_workerId lease) (la_leaseId lease) (now + cf_leaseDurationMs cfg) now)
         ''job lease is not valid for this worker''
         (\<lambda>j d. snd (appendEvent ''job.started'' (j_id j)
            (JObj [(''workerId'', JStr (la_workerId lease)), (''attempt'', JInt (j_attempt j))]) now d)))"

definition renewJob :: "service_config \<Rightarrow> string \<Rightarrow> jsval \<Rightarrow> int \<Rightarrow> db \<Rightarrow> job result \<times> db" where
  "renewJob cfg jobId input now =
     validated (validateLeaseAction input) (\<lambda>lease.
       fenced (renewJob_row jobId (la_workerId lease) (la_leaseId lease) (now + cf_leaseDurationMs cfg) now)
         ''running job lease is not valid for this worker'' (\<lambda>j d. d))"

record finish_input =
  fi_lease :: lease_action
  fi_outcome :: string
  fi_result :: jsval
  fi_error :: jsval

definition validateFinish :: "jsval \<Rightarrow> finish_input result" where
  "validateFinish input =
     and_then (requireObject input ''request'') (\<lambda>object.
     and_then (validateLeaseAction (JObj object)) (\<lambda>lease.
     and_then (requireString (js_get object ''outcome'') ''outcome'' 20) (\<lambda>outcome.
     if outcome \<notin> {''succeeded'', ''failed''}
     then Inl (ValidationError ''outcome must be succeeded or failed'')
     else Inr \<lparr>fi_lease = lease, fi_outcome = outcome,
       fi_result = (if js_get object ''result'' = JUndefined then JNull else js_get object ''result''),
       fi_error = (if js_get object ''error'' = JUndefined then JNull else js_get object ''error'')\<rparr>)))"

definition outcome_status :: "string \<Rightarrow> job_status" where
  "outcome_status outcome = (if outcome = ''succeeded'' then Succeeded else Failed)"

definition finishJob_tx :: "string \<Rightarrow> finish_input \<Rightarrow> int \<Rightarrow> db \<Rightarrow> job result \<times> db" where
  "finishJob_tx jobId i now =
     fenced (finishJob_row jobId (la_workerId (fi_lease i)) (la_leaseId (fi_lease i))
         (outcome_status (fi_outcome i)) (fi_result i) (fi_error i) now)
       ''job lease is not valid for this worker''
       (\<lambda>j d. snd (appendEvent (''job.'' @ fi_outcome i) (j_id j)
          (JObj [(''workerId'', JStr (la_workerId (fi_lease i))), (''attempt'', JInt (j_attempt j))]) now d))"

definition finishJob :: "scheduler_run \<Rightarrow> string \<Rightarrow> jsval \<Rightarrow> int \<Rightarrow> db \<Rightarrow> job result \<times> db" where
  "finishJob pass jobId input now =
     validated (validateFinish input) (\<lambda>i d. then_pass pass (finishJob_tx jobId i now d))"

definition cancelJob_tx :: "string \<Rightarrow> int \<Rightarrow> db \<Rightarrow> job result \<times> db" where
  "cancelJob_tx jobId now =
     transaction (\<lambda>d.
       case getJob jobId d of
         None \<Rightarrow> Inl (NotFoundError ''job not found'')
       | Some existing \<Rightarrow>
           (case cancelJob_row jobId now d of
              (None, _) \<Rightarrow> Inl (ConflictError (''job is already '' @ job_status_name (j_status existing)))
            | (Some cancelled, d1) \<Rightarrow>
                Inr (cancelled, snd (appendEvent ''job.cancelled'' jobId (JObj []) now d1))))"

definition cancelJob :: "scheduler_run \<Rightarrow> string \<Rightarrow> int \<Rightarrow> db \<Rightarrow> job result \<times> db" where
  "cancelJob pass jobId now d = then_pass pass (cancelJob_tx jobId now d)"

subsection \<open>Sessions\<close>

definition session_submission ::
  "(string \<Rightarrow> string \<Rightarrow> int) \<Rightarrow> (rat \<Rightarrow> string) \<Rightarrow> string \<Rightarrow> jsval \<Rightarrow> jsval \<Rightarrow> int \<Rightarrow> session_input result" where
  "session_submission lc num uuid input idempotencyHeader now =
     and_then (validateSessionRequest lc num input) (\<lambda>request.
     and_then (optionalString idempotencyHeader ''idempotencyKey'' None 200) (\<lambda>idempotencyKey.
     Inr \<lparr>si_id = createId ''session'' uuid, si_schemaVersion = sq_schemaVersion request,
          si_projectId = sq_projectId request, si_capability = sq_capability request,
          si_priority = sq_priority request, si_requirements = sq_requirements request,
          si_metadata = sq_metadata request, si_maxInterruptions = sq_maxInterruptions request,
          si_idempotencyKey = idempotencyKey, si_now = now\<rparr>))"

definition submitSession_tx :: "session_input \<Rightarrow> db \<Rightarrow> (session \<times> bool) result \<times> db" where
  "submitSession_tx i =
     transaction (\<lambda>d. and_then (insertSession i d) (\<lambda>((s, duplicate), d1).
       Inr ((s, duplicate),
         if duplicate then d1
         else snd (appendEvent ''session.requested'' (s_id s)
           (JObj [(''projectId'', JStr (s_projectId s)), (''capability'', JStr (s_capability s)),
                  (''priority'', JInt (s_priority s))]) (si_now i) d1))))"

definition submitSession ::
  "(string \<Rightarrow> string \<Rightarrow> int) \<Rightarrow> (rat \<Rightarrow> string) \<Rightarrow> scheduler_run \<Rightarrow> string \<Rightarrow> jsval \<Rightarrow> jsval \<Rightarrow> int \<Rightarrow> db \<Rightarrow> (session option \<times> bool) result \<times> db" where
  "submitSession lc num pass uuid input idempotencyHeader now =
     validated (session_submission lc num uuid input idempotencyHeader now) (\<lambda>i d.
       reread (\<lambda>s. getSession (s_id s)) (then_pass pass (submitSession_tx i d)))"

definition startSession :: "service_config \<Rightarrow> string \<Rightarrow> jsval \<Rightarrow> int \<Rightarrow> db \<Rightarrow> session result \<times> db" where
  "startSession cfg sessionId input now =
     validated (validateLeaseAction input) (\<lambda>lease.
       fenced (startSession_row sessionId (la_workerId lease) (la_leaseId lease) (now + cf_leaseDurationMs cfg) now)
         ''session lease is not valid for this worker''
         (\<lambda>s d. snd (appendEvent ''session.connecting'' (s_id s) (JObj [(''workerId'', JStr (la_workerId lease))]) now d)))"

definition activateSession :: "service_config \<Rightarrow> string \<Rightarrow> jsval \<Rightarrow> int \<Rightarrow> db \<Rightarrow> session result \<times> db" where
  "activateSession cfg sessionId input now =
     validated (validateLeaseAction input) (\<lambda>lease.
       fenced (activateSession_row sessionId (la_workerId lease) (la_leaseId lease) (now + cf_leaseDurationMs cfg) now)
         ''connecting session lease is not valid for this worker''
         (\<lambda>s d. snd (appendEvent ''session.active'' (s_id s) (JObj [(''workerId'', JStr (la_workerId lease))]) now d)))"

definition renewSession :: "service_config \<Rightarrow> string \<Rightarrow> jsval \<Rightarrow> int \<Rightarrow> db \<Rightarrow> session result \<times> db" where
  "renewSession cfg sessionId input now =
     validated (validateLeaseAction input) (\<lambda>lease d.
       case renewSession_row sessionId (la_workerId lease) (la_leaseId lease) (now + cf_leaseDurationMs cfg) now d of
         (None, d1) \<Rightarrow> (Inl (ConflictError ''session lease is not valid for this worker''), d1)
       | (Some s, d1) \<Rightarrow> (Inr s, d1))"

definition closeSession_tx :: "string \<Rightarrow> int \<Rightarrow> db \<Rightarrow> session result \<times> db" where
  "closeSession_tx sessionId now =
     transaction (\<lambda>d.
       case getSession sessionId d of
         None \<Rightarrow> Inl (NotFoundError ''session not found'')
       | Some existing \<Rightarrow>
           (case closeSession_row sessionId now d of
              (None, _) \<Rightarrow> Inl (ConflictError (''session cannot be closed from '' @ session_status_name (s_status existing)))
            | (Some closedRow, d1) \<Rightarrow>
                Inr (closedRow, snd (appendEvent ''session.closed'' sessionId
                  (JObj [(''previousStatus'', JStr (session_status_name (s_status existing)))]) now d1))))"

definition closeSession :: "scheduler_run \<Rightarrow> string \<Rightarrow> int \<Rightarrow> db \<Rightarrow> session result \<times> db" where
  "closeSession pass sessionId now d = then_pass pass (closeSession_tx sessionId now d)"

subsection \<open>Data-plane grants\<close>

definition session_allocated :: "session \<Rightarrow> bool" where
  "session_allocated s = (s_status s \<in> {Allocated, Connecting, Active})"

definition safe_lease_expiry :: "int \<Rightarrow> int option \<Rightarrow> int option" where
  "safe_lease_expiry now expires =
     (case expires of
        None \<Rightarrow> None
      | Some e \<Rightarrow> if \<bar>e\<bar> \<le> max_safe_integer \<and> now < e then Some e else None)"

definition worker_lease_check :: "string \<Rightarrow> jsval \<Rightarrow> session \<Rightarrow> unit result" where
  "worker_lease_check role input s =
     (if role = ''worker'' then
        and_then (validateLeaseAction input) (\<lambda>lease.
          if Some (la_workerId lease) \<noteq> s_assignedWorkerId s \<or> Some (la_leaseId lease) \<noteq> s_leaseId s
          then Inl (ConflictError ''session lease is not valid for this worker'')
          else Inr ())
      else Inr ())"

definition grant_ttl :: "service_config \<Rightarrow> int result" where
  "grant_ttl cfg =
     (case safe_integer (cf_dataPlaneGrantTtlMs cfg) of
        Some ttl \<Rightarrow> if ttl \<le> 0 then Inl (PlainError ''data-plane grant TTL is not configured'') else Inr ttl
      | None \<Rightarrow> Inl (PlainError ''data-plane grant TTL is not configured''))"

definition issueDataPlaneGrant ::
  "(rat \<Rightarrow> string) \<Rightarrow> (string \<Rightarrow> string \<Rightarrow> string) \<Rightarrow> service_config \<Rightarrow> string \<Rightarrow> string \<Rightarrow> string \<Rightarrow> jsval \<Rightarrow> int \<Rightarrow> db \<Rightarrow> (string \<times> int) result" where
  "issueDataPlaneGrant num hmac cfg uuid sessionId role input now d =
     (if role \<noteq> ''client'' \<and> role \<noteq> ''worker''
      then Inl (ValidationError ''data-plane grant role must be client or worker'')
      else case getSession sessionId d of
        None \<Rightarrow> Inl (NotFoundError ''session not found'')
      | Some s \<Rightarrow>
          if \<not> session_allocated s
          then Inl (ConflictError ''session does not own an active allocation'')
          else (case (s_assignedWorkerId s, s_leaseId s, safe_lease_expiry now (s_leaseExpiresAt s)) of
            (Some (w # ws), Some (l # ls), Some leaseExpiresAt) \<Rightarrow>
              and_then (worker_lease_check role input s) (\<lambda>_.
              and_then (grant_ttl cfg) (\<lambda>ttl.
              let expiresAt = min (now + ttl) leaseExpiresAt in
              if expiresAt \<le> now then Inl (ConflictError ''session lease is not currently valid'')
              else
              and_then (signDataPlaneGrant num hmac
                  (claims_js \<lparr>gc_role = role, gc_sessionId = s_id s, gc_workerId = w # ws, gc_leaseId = l # ls,
                     gc_issuedAt = now, gc_expiresAt = expiresAt, gc_nonce = createId ''grant'' uuid\<rparr>)
                  (cf_dataPlaneSigningKey cfg)) (\<lambda>token.
              Inr (token, expiresAt))))
          | _ \<Rightarrow> Inl (ConflictError ''session lease is not currently valid'')))"

definition authorizeDataPlaneAllocation ::
  "jsval \<Rightarrow> string \<Rightarrow> int \<Rightarrow> db \<Rightarrow> (grant_claims \<times> session) option result" where
  "authorizeDataPlaneAllocation claims expectedRole now d =
     and_then (validateDataPlaneRole expectedRole) (\<lambda>_.
     case validateDataPlaneGrantClaims claims of
       Inl _ \<Rightarrow> Inr None
     | Inr c \<Rightarrow>
         if gc_role c \<noteq> expectedRole then Inr None
         else (case getSession (gc_sessionId c) d of
             None \<Rightarrow> Inr None
           | Some s \<Rightarrow>
               if \<not> session_allocated s \<or> s_assignedWorkerId s \<noteq> Some (gc_workerId c) \<or>
                  s_leaseId s \<noteq> Some (gc_leaseId c) \<or> safe_lease_expiry now (s_leaseExpiresAt s) = None
               then Inr None else Inr (Some (c, s))))"

text \<open>\<open>now\<close> and \<open>now'\<close> are the two readings of the clock, at verification and at the lookup.\<close>

definition authorizeDataPlaneGrant ::
  "(string \<Rightarrow> jsval option) \<Rightarrow> (string \<Rightarrow> string \<Rightarrow> string) \<Rightarrow> service_config \<Rightarrow> jsval \<Rightarrow> string \<Rightarrow> int \<Rightarrow> int \<Rightarrow> db \<Rightarrow> (grant_claims \<times> session) option result" where
  "authorizeDataPlaneGrant decode hmac cfg token expectedRole now now' d =
     and_then (validateDataPlaneRole expectedRole) (\<lambda>_.
     and_then (verifyDataPlaneGrant decode hmac token (cf_dataPlaneSigningKey cfg) now) (\<lambda>verified.
     case verified of
       None \<Rightarrow> Inr None
     | Some claims \<Rightarrow> authorizeDataPlaneAllocation (claims_js claims) expectedRole now' d))"

section \<open>What the validators guarantee\<close>

lemma sameStringSet_iff: "sameStringSet left right \<longleftrightarrow> set left = set right"
proof
  assume a: "sameStringSet left right"
  then have sub: "set (js_set left) \<subseteq> set (js_set right)" and len: "length (js_set left) = length (js_set right)"
    by (auto simp: sameStringSet_def list_all_iff)
  from len have "card (set (js_set left)) = card (set (js_set right))"
    by (metis distinct_card distinct_js_set)
  with sub have "set (js_set left) = set (js_set right)" by (simp add: card_subset_eq)
  then show "set left = set right" by simp
next
  assume a: "set left = set right"
  then have "card (set (js_set left)) = card (set (js_set right))" by simp
  then have "length (js_set left) = length (js_set right)" by (metis distinct_card distinct_js_set)
  with a show "sameStringSet left right" by (simp add: sameStringSet_def list_all_iff)
qed

definition gpu_ok :: "gpu \<Rightarrow> bool" where
  "gpu_ok g = (valid_name 100 (g_uuid g) \<and> 0 \<le> g_index g \<and> g_index g \<le> 128 \<and> valid_name 200 (g_name g) \<and>
     1 \<le> g_memoryTotalMiB g \<and> 0 \<le> g_memoryUsedMiB g \<and> 0 \<le> g_utilizationPercent g \<and> g_utilizationPercent g \<le> 100 \<and>
     0 \<le> g_temperatureC g \<and> g_temperatureC g \<le> 200)"

lemma validate_gpu_items_ok:
  "validate_gpu_items i uuids items = Inr gs \<Longrightarrow>
   length gs = length items \<and> (\<forall>g \<in> set gs. gpu_ok g \<and> g_uuid g \<notin> set uuids) \<and> distinct (map g_uuid gs)"
proof (induction items arbitrary: i uuids gs)
  case (Cons item items)
  from Cons.prems obtain g rest where gs: "gs = g # rest" and g: "gpu_ok g" "g_uuid g \<notin> set uuids"
    and r: "validate_gpu_items (Suc i) (g_uuid g # uuids) items = Inr rest"
    by (auto simp: Let_def and_then_Inr boundedInteger_Inr requireString_Inr gpu_ok_def split: if_splits)
  from Cons.IH [OF r] g gs show ?case by auto
qed simp

definition gpus_ok :: "gpu list \<Rightarrow> bool" where
  "gpus_ok gs = (length gs \<le> 16 \<and> (\<forall>g \<in> set gs. gpu_ok g) \<and> distinct (map g_uuid gs))"

lemma validateGpus_ok: "validateGpus v = Inr gs \<Longrightarrow> gpus_ok gs"
  by (auto simp: validateGpus_def gpus_ok_def dest: validate_gpu_items_ok split: jsval.splits if_splits)

definition adapter_state_ok ::
  "(string \<Rightarrow> string \<Rightarrow> int) \<Rightarrow> string list \<Rightarrow> adapter_manifest list \<Rightarrow> adapter_health list \<Rightarrow> bool" where
  "adapter_state_ok lc capabilities ms hs =
     (valid_manifests lc ms \<and> valid_healths lc hs \<and> am_type ` set ms \<subseteq> set capabilities \<and>
      (if hs = [] then \<forall>m \<in> set ms. am_schemaVersion m \<noteq> 2
       else manifest_identity ` set ms = health_identity ` {h \<in> set hs. ah_state h = ''ready''} \<and>
            set capabilities = ah_type ` {h \<in> set hs. ah_state h = ''ready''}))"

lemma validateAdvertisedAdapterState_ok:
  assumes "validateAdvertisedAdapterState lc object capabilities = Inr (ms, hs)" and "comparator lc"
  shows "adapter_state_ok lc capabilities ms hs"
proof -
  let ?ready = "filter (\<lambda>h. ah_state h = ''ready'')"
  from assms(1) obtain a b where
    m: "validateAdapterManifests lc (nullish (js_get object ''adapterManifests'') (JArr [])) ''adapterManifests'' = Inr a"
    and h: "validateAdapterHealth lc (nullish (js_get object ''adapterHealth'') (JArr [])) ''adapterHealth'' = Inr b"
    unfolding validateAdvertisedAdapterState_def and_then_Inr by blast
  have body: "a = ms \<and> b = hs \<and> filter (\<lambda>m. am_type m \<notin> set capabilities) ms = [] \<and>
      (hs = [] \<longrightarrow> \<not> list_ex (\<lambda>m. am_schemaVersion m = 2) ms) \<and>
      (hs \<noteq> [] \<longrightarrow> sameStringSet (map manifest_identity ms) (map health_identity (?ready hs)) \<and>
        sameStringSet capabilities (map ah_type (?ready hs)))"
    using assms(1) unfolding validateAdvertisedAdapterState_def m h and_then_simps Let_def
    by (cases "filter (\<lambda>m. am_type m \<notin> set capabilities) a") (simp_all split: if_splits)
  then have t: "filter (\<lambda>m. am_type m \<notin> set capabilities) ms = []"
    and e: "hs = [] \<Longrightarrow> \<not> list_ex (\<lambda>m. am_schemaVersion m = 2) ms"
    and n: "hs \<noteq> [] \<Longrightarrow> sameStringSet (map manifest_identity ms) (map health_identity (?ready hs)) \<and>
      sameStringSet capabilities (map ah_type (?ready hs))" by simp_all
  note m = m [unfolded body [THEN conjunct1]] and h = h [unfolded body [THEN conjunct2, THEN conjunct1]]
  from t have "am_type ` set ms \<subseteq> set capabilities" by (auto simp: filter_empty_conv)
  with validateAdapterManifests_valid [OF m assms(2)] validateAdapterHealth_valid [OF h assms(2)] e n show ?thesis
    by (auto simp: adapter_state_ok_def sameStringSet_iff list_ex_iff)
qed

definition worker_input_ok :: "(string \<Rightarrow> string \<Rightarrow> int) \<Rightarrow> worker_input \<Rightarrow> bool" where
  "worker_input_ok lc w =
     (wi_id w \<noteq> [] \<and> valid_name 100 (wi_name w) \<and> valid_name 50 (wi_version w) \<and>
      valid_names (wi_capabilities w) \<and> valid_names (wi_warmModels w) \<and>
      adapter_state_ok lc (wi_capabilities w) (wi_adapterManifests w) (wi_adapterHealth w) \<and>
      valid_inventory lc (wi_modelInventory w) \<and> gpus_ok (wi_gpus w))"

lemma createId_nonempty [simp]: "createId p u \<noteq> []"
  by (simp add: createId_def)

lemma validateWorker_ok:
  assumes "validateWorker lc uuid input now = Inr w" and "comparator lc"
  shows "worker_input_ok lc w \<and> wi_now w = now"
  using assms(1)
  by (auto simp: validateWorker_def and_then_Inr requireString_Inr optionalString_Inr worker_input_ok_def valid_name_def
      dest!: stringArray_Inr validateGpus_ok validateModelInventory_valid [OF _ assms(2)]
        validateAdvertisedAdapterState_ok [OF _ assms(2)])

lemma validateHeartbeat_ok:
  assumes "validateHeartbeat lc input now = Inr h" and "comparator lc"
  shows "valid_names (hi_capabilities h) \<and> valid_names (hi_warmModels h) \<and>
    adapter_state_ok lc (hi_capabilities h) (hi_adapterManifests h) (hi_adapterHealth h) \<and>
    valid_inventory lc (hi_modelInventory h) \<and> gpus_ok (hi_gpus h) \<and> hi_now h = now"
  using assms(1)
  by (auto simp: validateHeartbeat_def and_then_Inr
      dest!: stringArray_Inr validateGpus_ok validateModelInventory_valid [OF _ assms(2)]
        validateAdvertisedAdapterState_ok [OF _ assms(2)])

lemma validateJob_ok:
  assumes "validateJob uuid input header now = Inr i"
  shows "ji_id i = createId ''job'' uuid \<and> valid_name 100 (ji_projectId i) \<and> valid_name 100 (ji_type i) \<and>
    -1000 \<le> ji_priority i \<and> ji_priority i \<le> 1000 \<and> ji_gpuCount i = 1 \<and>
    1 \<le> ji_minVramMiB i \<and> ji_minVramMiB i \<le> 1000000 \<and> valid_names (ji_requiredCapabilities i) \<and>
    1 \<le> ji_maxAttempts i \<and> ji_maxAttempts i \<le> 20 \<and> ji_now i = now \<and>
    (\<exists>payload. validateWorkloadPayload (ji_type i) payload = Inr (ji_payload i)) \<and>
    (\<forall>k. ji_idempotencyKey i = Some k \<longrightarrow> valid_name 200 k)"
  using assms unfolding validateJob_def and_then_Inr
  apply (elim exE conjE)
  apply ((drule boundedInteger_bounds, simp, simp)+, drule stringArray_Inr,
      (drule requireString_valid)+, (drule optionalString_valid)+)
  by auto

end
