(* ===== verification/ExecutionClaims.thy ===== *)
theory ExecutionClaims
  imports Lifecycle DataPlane
begin

text \<open>
  Execution attempts and GPU fences: \<^verbatim>\<open>src/src/control-plane/execution-claim-authority.mjs\<close>,
  \<^verbatim>\<open>src/src/control-plane/broker-claim-service.mjs\<close>,
  \<^verbatim>\<open>src/src/control-plane/broker-authority-observation.mjs\<close> and the two statements of
  \<^verbatim>\<open>src/src/control-plane/database.mjs\<close> they run. Every answer denies launch.
\<close>

section \<open>Claims\<close>

definition claim_char :: "char \<Rightarrow> bool" where
  "claim_char c = (is_alnum c \<or> c \<in> set ''_.:-'')"

text \<open>\<^verbatim>\<open>/^[a-zA-Z0-9_.:-]{1,128}$/\<close>, \<^verbatim>\<open>/^sha256:[a-f0-9]{64}$/\<close> and \<^verbatim>\<open>/^[A-Za-z0-9][A-Za-z0-9._:-]{0,127}$/u\<close>.\<close>

definition claim_id :: "string \<Rightarrow> bool" where
  "claim_id s = (s \<noteq> [] \<and> length s \<le> 128 \<and> list_all claim_char s)"

definition sha256_digest :: "string \<Rightarrow> bool" where
  "sha256_digest s =
     (starts_with s ''sha256:'' \<and> length s = 71 \<and>
      list_all (\<lambda>c. is_digit c \<or> c \<in> set ''abcdef'') (drop 7 s))"

definition broker_id :: "string \<Rightarrow> bool" where
  "broker_id s = (claim_id s \<and> is_alnum (hd s))"

record execution_claim =
  ec_subjectKind :: subject_kind
  ec_subjectId :: string
  ec_leaseId :: string
  ec_workerId :: string
  ec_gpuUuid :: string
  ec_attemptId :: string
  ec_artifactDigest :: string
  ec_adapterIdentity :: string
  ec_runtimePolicyRevision :: string
  ec_approvalRef :: string
  ec_now :: int
  ec_maxHeartbeatAgeMs :: int

definition REQUIRED :: "string list" where
  "REQUIRED = [''subjectKind'', ''subjectId'', ''leaseId'', ''workerId'', ''gpuUuid'', ''attemptId'',
     ''artifactDigest'', ''adapterIdentity'', ''runtimePolicyRevision'', ''approvalRef'', ''now'', ''maxHeartbeatAgeMs'']"

definition invalid_claim :: "'a result" where
  "invalid_claim = Inl (ExecutionClaimDenied ''invalid_claim'')"

definition parse_kind :: "jsval \<Rightarrow> subject_kind option" where
  "parse_kind v = (if v = JStr ''job'' then Some JobSubject else if v = JStr ''session'' then Some SessionSubject else None)"

definition kind_js :: "subject_kind \<Rightarrow> jsval" where
  "kind_js k = (case k of JobSubject \<Rightarrow> JStr ''job'' | SessionSubject \<Rightarrow> JStr ''session'')"

definition id_field :: "js_object \<Rightarrow> string \<Rightarrow> string result" where
  "id_field own name =
     (case js_get own name of JStr s \<Rightarrow> if claim_id s then Inr s else invalid_claim | _ \<Rightarrow> invalid_claim)"

definition digest_field :: "js_object \<Rightarrow> string \<Rightarrow> string result" where
  "digest_field own name =
     (case js_get own name of JStr s \<Rightarrow> if sha256_digest s then Inr s else invalid_claim | _ \<Rightarrow> invalid_claim)"

definition positive_field :: "js_object \<Rightarrow> string \<Rightarrow> int \<Rightarrow> int result" where
  "positive_field own name maximum =
     (case safe_integer (js_get own name) of
        Some i \<Rightarrow> if i < 1 \<or> i > maximum then invalid_claim else Inr i
      | None \<Rightarrow> invalid_claim)"

definition validateExecutionClaim :: "jsval \<Rightarrow> execution_claim result" where
  "validateExecutionClaim input =
     (case input of
        JObj own \<Rightarrow>
          if length own \<noteq> length REQUIRED \<or> list_ex (\<lambda>k. k \<notin> set (map fst own)) REQUIRED then invalid_claim
          else (case parse_kind (js_get own ''subjectKind'') of
            None \<Rightarrow> invalid_claim
          | Some kind \<Rightarrow>
              and_then (id_field own ''subjectId'') (\<lambda>subjectId.
              and_then (id_field own ''leaseId'') (\<lambda>leaseId.
              and_then (id_field own ''workerId'') (\<lambda>workerId.
              and_then (id_field own ''gpuUuid'') (\<lambda>gpuUuid.
              and_then (id_field own ''attemptId'') (\<lambda>attemptId.
              and_then (id_field own ''adapterIdentity'') (\<lambda>adapterIdentity.
              and_then (id_field own ''runtimePolicyRevision'') (\<lambda>runtimePolicyRevision.
              and_then (id_field own ''approvalRef'') (\<lambda>approvalRef.
              and_then (digest_field own ''artifactDigest'') (\<lambda>artifactDigest.
              and_then (positive_field own ''now'' max_safe_integer) (\<lambda>now.
              and_then (positive_field own ''maxHeartbeatAgeMs'' 300000) (\<lambda>maxHeartbeatAgeMs.
              Inr \<lparr>ec_subjectKind = kind, ec_subjectId = subjectId, ec_leaseId = leaseId, ec_workerId = workerId,
                   ec_gpuUuid = gpuUuid, ec_attemptId = attemptId, ec_artifactDigest = artifactDigest,
                   ec_adapterIdentity = adapterIdentity, ec_runtimePolicyRevision = runtimePolicyRevision,
                   ec_approvalRef = approvalRef, ec_now = now, ec_maxHeartbeatAgeMs = maxHeartbeatAgeMs\<rparr>))))))))))))
      | _ \<Rightarrow> invalid_claim)"

definition claim_js :: "execution_claim \<Rightarrow> jsval" where
  "claim_js c = JObj [(''subjectKind'', kind_js (ec_subjectKind c)), (''subjectId'', JStr (ec_subjectId c)),
     (''leaseId'', JStr (ec_leaseId c)), (''workerId'', JStr (ec_workerId c)), (''gpuUuid'', JStr (ec_gpuUuid c)),
     (''attemptId'', JStr (ec_attemptId c)), (''artifactDigest'', JStr (ec_artifactDigest c)),
     (''adapterIdentity'', JStr (ec_adapterIdentity c)), (''runtimePolicyRevision'', JStr (ec_runtimePolicyRevision c)),
     (''approvalRef'', JStr (ec_approvalRef c)), (''now'', JInt (ec_now c)), (''maxHeartbeatAgeMs'', JInt (ec_maxHeartbeatAgeMs c))]"

section \<open>Owners\<close>

text \<open>What the checks read of a job or session.\<close>

record owner =
  ow_live :: bool
  ow_projectId :: string
  ow_leaseId :: "string option"
  ow_workerId :: "string option"
  ow_gpuUuid :: "string option"
  ow_leaseExpiresAt :: "int option"

definition job_owner :: "job \<Rightarrow> owner" where
  "job_owner j = \<lparr>ow_live = job_active j, ow_projectId = j_projectId j, ow_leaseId = j_leaseId j,
     ow_workerId = j_assignedWorkerId j, ow_gpuUuid = j_assignedGpuUuid j, ow_leaseExpiresAt = j_leaseExpiresAt j\<rparr>"

definition session_owner :: "session \<Rightarrow> owner" where
  "session_owner s = \<lparr>ow_live = session_occupying s, ow_projectId = s_projectId s, ow_leaseId = s_leaseId s,
     ow_workerId = s_assignedWorkerId s, ow_gpuUuid = s_assignedGpuUuid s, ow_leaseExpiresAt = s_leaseExpiresAt s\<rparr>"

definition lookup_owner :: "subject_kind \<Rightarrow> string \<Rightarrow> db \<Rightarrow> owner option" where
  "lookup_owner kind subjectId d =
     (case kind of
        JobSubject \<Rightarrow> map_option job_owner (getJob subjectId d)
      | SessionSubject \<Rightarrow> map_option session_owner (getSession subjectId d))"

definition validateCurrentExecutionOwner :: "execution_claim \<Rightarrow> worker option \<Rightarrow> owner option \<Rightarrow> owner result" where
  "validateCurrentExecutionOwner input worker workload =
     (case worker of
        None \<Rightarrow> Inl (ExecutionClaimDenied ''worker_unavailable'')
      | Some w \<Rightarrow>
          if w_status w \<noteq> Online \<or> w_drainMode w \<or> \<bar>w_lastSeenAt w\<bar> > max_safe_integer \<or> w_lastSeenAt w > ec_now input \<or>
             ec_now input - w_lastSeenAt w \<ge> ec_maxHeartbeatAgeMs input \<or>
             \<not> list_ex (\<lambda>g. g_uuid g = ec_gpuUuid input) (w_gpus w)
          then Inl (ExecutionClaimDenied ''worker_unavailable'')
          else (case workload of
            None \<Rightarrow> Inl (ExecutionClaimDenied ''stale_lease'')
          | Some s \<Rightarrow>
              if \<not> ow_live s \<or> ow_leaseId s \<noteq> Some (ec_leaseId input) \<or> ow_workerId s \<noteq> Some (ec_workerId input) \<or>
                 ow_gpuUuid s \<noteq> Some (ec_gpuUuid input) \<or>
                 (case ow_leaseExpiresAt s of None \<Rightarrow> True | Some e \<Rightarrow> \<bar>e\<bar> > max_safe_integer \<or> e \<le> ec_now input)
              then Inl (ExecutionClaimDenied ''stale_lease'')
              else Inr s))"

section \<open>The statement\<close>

definition resource_occupied :: "execution_claim \<Rightarrow> db \<Rightarrow> bool" where
  "resource_occupied c d =
     (list_ex (\<lambda>j. j_assignedWorkerId j = Some (ec_workerId c) \<and> j_assignedGpuUuid j = Some (ec_gpuUuid c) \<and> job_active j \<and>
          j_id j \<noteq> (if ec_subjectKind c = JobSubject then ec_subjectId c else [])) (db_jobs d) \<or>
      list_ex (\<lambda>s. s_assignedWorkerId s = Some (ec_workerId c) \<and> s_assignedGpuUuid s = Some (ec_gpuUuid c) \<and> session_occupying s \<and>
          s_id s \<noteq> (if ec_subjectKind c = SessionSubject then ec_subjectId c else [])) (db_sessions d))"

text \<open>
  \<^verbatim>\<open>INSERT ... ON CONFLICT(worker_id,gpu_uuid) DO UPDATE ... WHERE safety_state='clear' RETURNING epoch\<close>.
\<close>

definition reserved_fence :: "execution_claim \<Rightarrow> int \<Rightarrow> fence" where
  "reserved_fence c epoch =
     \<lparr>f_workerId = ec_workerId c, f_gpuUuid = ec_gpuUuid c, f_epoch = epoch, f_safetyState = FenceReserved,
      f_subjectKind = Some (ec_subjectKind c), f_subjectId = Some (ec_subjectId c), f_leaseId = Some (ec_leaseId c),
      f_attemptId = Some (ec_attemptId c), f_updatedAt = ec_now c\<rparr>"

definition upsert_fence :: "execution_claim \<Rightarrow> fence list \<Rightarrow> int option \<times> fence list" where
  "upsert_fence c fences =
     (let here = (\<lambda>f. f_workerId f = ec_workerId c \<and> f_gpuUuid f = ec_gpuUuid c) in
      if list_ex here fences then
        (let (rows, updated) = sql_update (\<lambda>f. here f \<and> f_safetyState f = FenceClear)
               (\<lambda>f. reserved_fence c (f_epoch f + 1)) fences in
         (map_option f_epoch (sql_get updated), rows))
      else (Some 1, fences @ [reserved_fence c 1]))"

definition attempt_row :: "execution_claim \<Rightarrow> string \<Rightarrow> int \<Rightarrow> attempt" where
  "attempt_row c projectId epoch =
     \<lparr>a_attemptId = ec_attemptId c, a_subjectKind = ec_subjectKind c, a_subjectId = ec_subjectId c,
      a_projectId = projectId, a_leaseId = ec_leaseId c, a_workerId = ec_workerId c, a_gpuUuid = ec_gpuUuid c,
      a_fenceEpoch = epoch, a_artifactDigest = ec_artifactDigest c, a_adapterIdentity = ec_adapterIdentity c,
      a_runtimePolicyRevision = ec_runtimePolicyRevision c, a_approvalRef = ec_approvalRef c,
      a_status = AttemptReserved, a_createdAt = ec_now c, a_updatedAt = ec_now c\<rparr>"

text \<open>The constraints of \<^verbatim>\<open>execution_attempts\<close>: primary key, one open attempt per GPU, non-empty project.\<close>

definition insert_attempt :: "attempt \<Rightarrow> db \<Rightarrow> db result" where
  "insert_attempt a d =
     (if list_ex (\<lambda>b. a_attemptId b = a_attemptId a) (db_attempts d)
      then Inl (DatabaseError ''UNIQUE constraint failed: execution_attempts.attempt_id'')
      else if list_ex (\<lambda>b. a_workerId b = a_workerId a \<and> a_gpuUuid b = a_gpuUuid a \<and> a_status b \<noteq> AttemptTerminated) (db_attempts d)
      then Inl (DatabaseError ''UNIQUE constraint failed: execution_attempts.worker_id, execution_attempts.gpu_uuid'')
      else if a_projectId a = [] then Inl (DatabaseError ''CHECK constraint failed'')
      else Inr (d\<lparr>db_attempts := db_attempts d @ [a]\<rparr>))"

record reservation =
  rv_attemptId :: string
  rv_fenceEpoch :: int
  rv_canLaunch :: bool

definition reserveExecutionAttempt :: "jsval \<Rightarrow> db \<Rightarrow> (reservation \<times> db) result" where
  "reserveExecutionAttempt rawInput d =
     and_then (validateExecutionClaim rawInput) (\<lambda>c.
     and_then (validateCurrentExecutionOwner c (getWorker (ec_workerId c) d) (lookup_owner (ec_subjectKind c) (ec_subjectId c) d)) (\<lambda>workload.
     if resource_occupied c d then Inl (ExecutionClaimDenied ''resource_conflict'')
     else case upsert_fence c (db_fences d) of
       (None, _) \<Rightarrow> Inl (ExecutionClaimDenied ''resource_held'')
     | (Some epoch, fences) \<Rightarrow>
         and_then (insert_attempt (attempt_row c (ow_projectId workload) epoch) (d\<lparr>db_fences := fences\<rparr>)) (\<lambda>d1.
         Inr (\<lparr>rv_attemptId = ec_attemptId c, rv_fenceEpoch = epoch, rv_canLaunch = False\<rparr>, d1))))"

text \<open>\<^verbatim>\<open>reservePersistedExecutionAttempt\<close>.\<close>

definition reservation_check :: "string \<Rightarrow> error \<Rightarrow> reservation \<Rightarrow> db \<Rightarrow> (reservation \<times> db) result" where
  "reservation_check attemptId e r d =
     (if rv_canLaunch r \<or> rv_attemptId r \<noteq> attemptId \<or> \<bar>rv_fenceEpoch r\<bar> > max_safe_integer \<or> rv_fenceEpoch r < 1
      then Inl e else Inr (r, d))"

definition reservePersistedExecutionAttempt :: "jsval \<Rightarrow> db \<Rightarrow> reservation result \<times> db" where
  "reservePersistedExecutionAttempt rawInput d =
     (case validateExecutionClaim rawInput of
        Inl e \<Rightarrow> (Inl e, d)
      | Inr c \<Rightarrow>
          transaction (\<lambda>d. and_then (reserveExecutionAttempt (claim_js c) d) (\<lambda>(r, d1).
            reservation_check (ec_attemptId c) (ExecutionClaimDenied ''authority_unavailable'') r d1)) d)"

section \<open>Broker claims\<close>

record broker_profile =
  bp_brokerId :: string
  bp_workerId :: string
  bp_projectId :: string
  bp_token :: string
  bp_artifactDigest :: string
  bp_adapterIdentity :: string
  bp_runtimePolicyRevision :: string
  bp_approvalRef :: string

definition APPROVAL_FIELDS :: "string list" where
  "APPROVAL_FIELDS = [''brokerId'', ''workerId'', ''projectId'', ''token'', ''artifactDigest'',
     ''adapterIdentity'', ''runtimePolicyRevision'', ''approvalRef'']"

definition ownValues :: "jsval \<Rightarrow> string list \<Rightarrow> js_object option" where
  "ownValues v names =
     (case v of
        JObj kvs \<Rightarrow>
          if length kvs \<noteq> length names \<or> list_ex (\<lambda>k. k \<notin> set (map fst kvs)) names then None
          else Some (map (\<lambda>k. (k, js_get kvs k)) names)
      | _ \<Rightarrow> None)"

definition profile_id :: "js_object \<Rightarrow> string \<Rightarrow> string result" where
  "profile_id entry field =
     (case js_get entry field of
        JStr s \<Rightarrow> if broker_id s then Inr s else Inl (PlainError ''invalid GPULINK_BROKER_PROFILES_JSON identifier'')
      | _ \<Rightarrow> Inl (PlainError ''invalid GPULINK_BROKER_PROFILES_JSON identifier''))"

definition token_char :: "char \<Rightarrow> bool" where
  "token_char c = (33 \<le> (of_char c :: nat) \<and> (of_char c :: nat) \<le> 126)"

definition parse_profile :: "jsval \<Rightarrow> broker_profile result" where
  "parse_profile candidate =
     (case ownValues candidate APPROVAL_FIELDS of
        None \<Rightarrow> Inl (PlainError ''invalid GPULINK_BROKER_PROFILES_JSON profile'')
      | Some entry \<Rightarrow>
          and_then (profile_id entry ''brokerId'') (\<lambda>brokerId.
          and_then (profile_id entry ''workerId'') (\<lambda>workerId.
          and_then (profile_id entry ''projectId'') (\<lambda>projectId.
          and_then (profile_id entry ''adapterIdentity'') (\<lambda>adapterIdentity.
          and_then (profile_id entry ''runtimePolicyRevision'') (\<lambda>runtimePolicyRevision.
          and_then (profile_id entry ''approvalRef'') (\<lambda>approvalRef.
          case (js_get entry ''artifactDigest'', js_get entry ''token'') of
            (JStr digest, tokenValue) \<Rightarrow>
              if \<not> sha256_digest digest then Inl (PlainError ''invalid GPULINK_BROKER_PROFILES_JSON digest'')
              else (case tokenValue of
                JStr token \<Rightarrow>
                  if length token < 32 \<or> length token > 512 \<or> \<not> list_all token_char token
                  then Inl (PlainError ''invalid GPULINK_BROKER_PROFILES_JSON credential'')
                  else Inr \<lparr>bp_brokerId = brokerId, bp_workerId = workerId, bp_projectId = projectId, bp_token = token,
                       bp_artifactDigest = digest, bp_adapterIdentity = adapterIdentity,
                       bp_runtimePolicyRevision = runtimePolicyRevision, bp_approvalRef = approvalRef\<rparr>
              | _ \<Rightarrow> Inl (PlainError ''invalid GPULINK_BROKER_PROFILES_JSON credential''))
          | _ \<Rightarrow> Inl (PlainError ''invalid GPULINK_BROKER_PROFILES_JSON digest''))))))))"

text \<open>The identity \<^verbatim>\<open>`${workerId}\u0000${projectId}`\<close> is injective: neither id contains NUL.\<close>

fun parse_profiles :: "string list \<Rightarrow> string list \<Rightarrow> (string \<times> string) list \<Rightarrow> jsval list \<Rightarrow> broker_profile list result" where
  "parse_profiles tokens ids identities [] = Inr []"
| "parse_profiles tokens ids identities (candidate # rest) =
     and_then (parse_profile candidate) (\<lambda>entry.
     if bp_brokerId entry \<in> set ids \<or> (bp_workerId entry, bp_projectId entry) \<in> set identities \<or> bp_token entry \<in> set tokens
     then Inl (PlainError ''GPULINK_BROKER_PROFILES_JSON contains ambiguous/reused broker identity or credential'')
     else
     and_then (parse_profiles (bp_token entry # tokens) (bp_brokerId entry # ids)
         ((bp_workerId entry, bp_projectId entry) # identities) rest) (\<lambda>profiles.
     Inr (entry # profiles)))"

definition parseBrokerProfiles :: "(string \<Rightarrow> jsval option) \<Rightarrow> jsval \<Rightarrow> string list \<Rightarrow> broker_profile list result" where
  "parseBrokerProfiles parseJson raw otherSecrets =
     (if raw = JUndefined \<or> raw = JNull \<or> raw = JStr [] then Inr []
      else case raw of
        JStr s \<Rightarrow>
          if length s > 16000 then Inl (PlainError ''invalid GPULINK_BROKER_PROFILES_JSON'')
          else (case parseJson s of
            None \<Rightarrow> Inl (PlainError ''invalid GPULINK_BROKER_PROFILES_JSON'')
          | Some (JArr candidates) \<Rightarrow>
              if length candidates < 1 \<or> length candidates > 16
              then Inl (PlainError ''GPULINK_BROKER_PROFILES_JSON must contain 1-16 broker profiles'')
              else parse_profiles otherSecrets [] [] candidates
          | Some _ \<Rightarrow> Inl (PlainError ''GPULINK_BROKER_PROFILES_JSON must contain 1-16 broker profiles''))
      | _ \<Rightarrow> Inl (PlainError ''invalid GPULINK_BROKER_PROFILES_JSON''))"

definition authenticateBroker :: "broker_profile list \<Rightarrow> jsval \<Rightarrow> broker_profile option" where
  "authenticateBroker profiles authorization =
     (case authorization of
        JStr a \<Rightarrow>
          if \<not> starts_with a ''Bearer '' \<or> length a > 530 then None
          else fold (\<lambda>profile matched.
                 if utf8_bytes (bp_token profile) = utf8_bytes (drop 7 a) then Some profile else matched) profiles None
      | _ \<Rightarrow> None)"

record broker_request =
  br_subjectKind :: subject_kind
  br_subjectId :: string
  br_leaseId :: string
  br_attemptId :: string

definition REQUEST_FIELDS :: "string list" where
  "REQUEST_FIELDS = [''schemaVersion'', ''subjectKind'', ''subjectId'', ''leaseId'', ''attemptId'']"

definition validateBrokerClaimRequest :: "jsval \<Rightarrow> broker_request result" where
  "validateBrokerClaimRequest raw =
     (let bad = Inl (BrokerClaimError ''broker_invalid_request'' 400) in
      case ownValues raw REQUEST_FIELDS of
        None \<Rightarrow> bad
      | Some v \<Rightarrow>
          if js_get v ''schemaVersion'' \<noteq> JInt 1 then bad
          else (case (parse_kind (js_get v ''subjectKind''), js_get v ''subjectId'', js_get v ''leaseId'', js_get v ''attemptId'') of
            (Some kind, JStr subjectId, JStr leaseId, JStr attemptId) \<Rightarrow>
              if broker_id subjectId \<and> broker_id leaseId \<and> broker_id attemptId
              then Inr \<lparr>br_subjectKind = kind, br_subjectId = subjectId, br_leaseId = leaseId, br_attemptId = attemptId\<rparr>
              else bad
          | _ \<Rightarrow> bad))"

text \<open>The final \<^verbatim>\<open>catch\<close> of a broker operation.\<close>

definition broker_catch :: "'a result \<times> db \<Rightarrow> 'a result \<times> db" where
  "broker_catch r =
     (case r of
        (Inr x, d) \<Rightarrow> (Inr x, d)
      | (Inl (BrokerClaimError c s), d) \<Rightarrow> (Inl (BrokerClaimError c s), d)
      | (Inl (ExecutionClaimDenied _), d) \<Rightarrow> (Inl (BrokerClaimError ''broker_claim_denied'' 409), d)
      | (Inl _, d) \<Rightarrow> (Inl (BrokerClaimError ''broker_authority_unavailable'' 503), d))"

record broker_reservation =
  bv_attemptId :: string
  bv_fenceEpoch :: int
  bv_status :: string
  bv_canLaunch :: bool

definition broker_reserve_tx :: "broker_profile \<Rightarrow> broker_request \<Rightarrow> int \<Rightarrow> int \<Rightarrow> db \<Rightarrow> (broker_reservation \<times> db) result" where
  "broker_reserve_tx profile input now maxHeartbeatAgeMs d =
     (case lookup_owner (br_subjectKind input) (br_subjectId input) d of
        None \<Rightarrow> Inl (BrokerClaimError ''broker_claim_denied'' 409)
      | Some stored \<Rightarrow>
          if ow_projectId stored \<noteq> bp_projectId profile \<or> ow_workerId stored \<noteq> Some (bp_workerId profile) \<or>
             ow_leaseId stored \<noteq> Some (br_leaseId input) \<or> ow_gpuUuid stored = None
          then Inl (BrokerClaimError ''broker_claim_denied'' 409)
          else
          and_then (reserveExecutionAttempt (claim_js
              \<lparr>ec_subjectKind = br_subjectKind input, ec_subjectId = br_subjectId input, ec_leaseId = br_leaseId input,
               ec_workerId = bp_workerId profile, ec_gpuUuid = the (ow_gpuUuid stored), ec_attemptId = br_attemptId input,
               ec_artifactDigest = bp_artifactDigest profile, ec_adapterIdentity = bp_adapterIdentity profile,
               ec_runtimePolicyRevision = bp_runtimePolicyRevision profile, ec_approvalRef = bp_approvalRef profile,
               ec_now = now, ec_maxHeartbeatAgeMs = maxHeartbeatAgeMs\<rparr>) d) (\<lambda>(r, d1).
          and_then (reservation_check (br_attemptId input) (BrokerClaimError ''broker_authority_unavailable'' 503) r d1) (\<lambda>(r, d1).
          Inr (\<lparr>bv_attemptId = rv_attemptId r, bv_fenceEpoch = rv_fenceEpoch r,
                bv_status = ''reserved-not-launchable'', bv_canLaunch = False\<rparr>, d1))))"

definition reserveBrokerBoundAttempt ::
  "broker_profile list \<Rightarrow> jsval \<Rightarrow> jsval \<Rightarrow> int \<Rightarrow> int \<Rightarrow> db \<Rightarrow> broker_reservation result \<times> db" where
  "reserveBrokerBoundAttempt profiles authorization request now maxHeartbeatAgeMs d =
     (if profiles = [] then (Inl (BrokerClaimError ''broker_disabled'' 404), d)
      else case authenticateBroker profiles authorization of
        None \<Rightarrow> (Inl (BrokerClaimError ''broker_unauthorized'' 401), d)
      | Some profile \<Rightarrow>
          (case validateBrokerClaimRequest request of
             Inl e \<Rightarrow> (Inl e, d)
           | Inr input \<Rightarrow>
               if now < 1 \<or> now > max_safe_integer \<or> maxHeartbeatAgeMs < 1 \<or> maxHeartbeatAgeMs > 300000
               then (Inl (BrokerClaimError ''broker_authority_unavailable'' 503), d)
               else broker_catch (transaction (broker_reserve_tx profile input now maxHeartbeatAgeMs) d)))"

text \<open>\<^verbatim>\<open>observeExecutionAttempt\<close>: the attempt and, when there is one, the fence of its GPU.\<close>

definition observeExecutionAttempt :: "broker_request \<Rightarrow> string \<Rightarrow> string \<Rightarrow> db \<Rightarrow> (attempt \<times> fence option) option" where
  "observeExecutionAttempt input workerId projectId d =
     map_option (\<lambda>a. (a, sql_get (filter (\<lambda>f. f_workerId f = a_workerId a \<and> f_gpuUuid f = a_gpuUuid a) (db_fences d))))
       (sql_get (filter (\<lambda>a. a_attemptId a = br_attemptId input \<and> a_workerId a = workerId \<and> a_projectId a = projectId \<and>
          a_subjectKind a = br_subjectKind input \<and> a_subjectId a = br_subjectId input \<and> a_leaseId a = br_leaseId input)
        (db_attempts d)))"

definition attempt_held :: "attempt \<times> fence option \<Rightarrow> bool" where
  "attempt_held row =
     (case row of (a, f) \<Rightarrow>
        (case f of
           None \<Rightarrow> False
         | Some f \<Rightarrow> f_safetyState f \<noteq> FenceClear \<and> f_attemptId f = Some (a_attemptId a) \<and>
             f_leaseId f = Some (a_leaseId a) \<and> f_subjectKind f = Some (a_subjectKind a) \<and>
             f_subjectId f = Some (a_subjectId a) \<and> f_epoch f = a_fenceEpoch a))"

record broker_observation =
  bo_attemptId :: string
  bo_disposition :: string
  bo_fenceEpoch :: "int option"
  bo_canLaunch :: bool
  bo_canRelease :: bool
  bo_evidenceVerified :: bool

definition observeBrokerBoundAttempt ::
  "broker_profile list \<Rightarrow> jsval \<Rightarrow> jsval \<Rightarrow> db \<Rightarrow> broker_observation result" where
  "observeBrokerBoundAttempt profiles authorization request d =
     (if profiles = [] then Inl (BrokerClaimError ''broker_disabled'' 404)
      else case authenticateBroker profiles authorization of
        None \<Rightarrow> Inl (BrokerClaimError ''broker_unauthorized'' 401)
      | Some profile \<Rightarrow>
          and_then (validateBrokerClaimRequest request) (\<lambda>input.
          case observeExecutionAttempt input (bp_workerId profile) (bp_projectId profile) d of
            None \<Rightarrow> Inr \<lparr>bo_attemptId = br_attemptId input, bo_disposition = ''not_found'', bo_fenceEpoch = None,
                       bo_canLaunch = False, bo_canRelease = False, bo_evidenceVerified = False\<rparr>
          | Some row \<Rightarrow>
              if \<bar>a_fenceEpoch (fst row)\<bar> > max_safe_integer \<or> a_fenceEpoch (fst row) < 1
              then Inl (BrokerClaimError ''broker_authority_unavailable'' 503)
              else Inr \<lparr>bo_attemptId = br_attemptId input,
                bo_disposition = (if attempt_held row then ''held'' else ''unconfirmed''),
                bo_fenceEpoch = Some (a_fenceEpoch (fst row)),
                bo_canLaunch = False, bo_canRelease = False, bo_evidenceVerified = False\<rparr>))"

section \<open>What a reservation does\<close>

lemma validateExecutionClaim_ids:
  assumes "validateExecutionClaim v = Inr c"
  shows "claim_id (ec_subjectId c) \<and> claim_id (ec_leaseId c) \<and> claim_id (ec_workerId c) \<and> claim_id (ec_gpuUuid c) \<and>
    claim_id (ec_attemptId c) \<and> claim_id (ec_adapterIdentity c) \<and> claim_id (ec_runtimePolicyRevision c) \<and>
    claim_id (ec_approvalRef c) \<and> sha256_digest (ec_artifactDigest c) \<and>
    1 \<le> ec_now c \<and> ec_now c \<le> max_safe_integer \<and> 1 \<le> ec_maxHeartbeatAgeMs c \<and> ec_maxHeartbeatAgeMs c \<le> 300000"
proof -
  have i: "id_field own n = Inr s \<Longrightarrow> claim_id s" for own n s
    by (auto simp: id_field_def invalid_claim_def split: jsval.splits if_splits)
  have g: "digest_field own n = Inr s \<Longrightarrow> sha256_digest s" for own n s
    by (auto simp: digest_field_def invalid_claim_def split: jsval.splits if_splits)
  have p: "positive_field own n m = Inr k \<Longrightarrow> 1 \<le> k \<and> k \<le> m" for own n m k
    by (auto simp: positive_field_def invalid_claim_def split: option.splits if_splits)
  from assms show ?thesis
    by (auto simp: validateExecutionClaim_def and_then_Inr invalid_claim_def
        dest!: i g p split: jsval.splits option.splits if_splits)
qed

lemma validateCurrentExecutionOwner_Inr:
  "validateCurrentExecutionOwner c worker workload = Inr s \<Longrightarrow>
   workload = Some s \<and> ow_live s \<and> ow_leaseId s = Some (ec_leaseId c) \<and> ow_workerId s = Some (ec_workerId c) \<and>
   ow_gpuUuid s = Some (ec_gpuUuid c) \<and> (\<exists>e. ow_leaseExpiresAt s = Some e \<and> ec_now c < e) \<and>
   (\<exists>w. worker = Some w \<and> w_status w = Online \<and> \<not> w_drainMode w \<and> w_lastSeenAt w \<le> ec_now c \<and>
      ec_now c - w_lastSeenAt w < ec_maxHeartbeatAgeMs c \<and> ec_gpuUuid c \<in> g_uuid ` set (w_gpus w))"
  by (force simp: validateCurrentExecutionOwner_def list_ex_iff split: option.splits if_splits)

text \<open>A successful reservation, taken apart.\<close>

lemma reserveExecutionAttempt_cases:
  assumes "reserveExecutionAttempt rawInput d = Inr (r, d')"
  obtains c s epoch fences where "validateExecutionClaim rawInput = Inr c"
    and "validateCurrentExecutionOwner c (getWorker (ec_workerId c) d) (lookup_owner (ec_subjectKind c) (ec_subjectId c) d) = Inr s"
    and "\<not> resource_occupied c d" and "upsert_fence c (db_fences d) = (Some epoch, fences)"
    and "d' = d\<lparr>db_fences := fences, db_attempts := db_attempts d @ [attempt_row c (ow_projectId s) epoch]\<rparr>"
    and "r = \<lparr>rv_attemptId = ec_attemptId c, rv_fenceEpoch = epoch, rv_canLaunch = False\<rparr>"
    and "\<forall>b \<in> set (db_attempts d). a_attemptId b \<noteq> ec_attemptId c \<and>
      (attempt_key b = (ec_workerId c, ec_gpuUuid c) \<longrightarrow> a_status b = AttemptTerminated)"
proof -
  from assms obtain c s where v: "validateExecutionClaim rawInput = Inr c"
    and o: "validateCurrentExecutionOwner c (getWorker (ec_workerId c) d) (lookup_owner (ec_subjectKind c) (ec_subjectId c) d) = Inr s"
    and n: "\<not> resource_occupied c d"
    by (auto simp: reserveExecutionAttempt_def and_then_Inr split: if_splits)
  obtain e fences where u: "upsert_fence c (db_fences d) = (e, fences)" by (cases "upsert_fence c (db_fences d)")
  with assms v o n obtain epoch where e: "e = Some epoch"
    by (cases e) (auto simp: reserveExecutionAttempt_def)
  with assms v o n u that show ?thesis
    by (auto simp: reserveExecutionAttempt_def and_then_Inr insert_attempt_def attempt_row_def attempt_key_def list_ex_iff
        split: if_splits)
qed

text \<open>Under the invariant no fence is ever clear, so a reservation always creates its fence.\<close>

lemma upsert_fence_effect:
  assumes "\<forall>f \<in> set fences. f_safetyState f = FenceReserved" and "upsert_fence c fences = (Some epoch, fences')"
  shows "(ec_workerId c, ec_gpuUuid c) \<notin> fence_key ` set fences \<and> epoch = 1 \<and> fences' = fences @ [reserved_fence c 1]"
proof (cases "list_ex (\<lambda>f. f_workerId f = ec_workerId c \<and> f_gpuUuid f = ec_gpuUuid c) fences")
  case True
  have "filter (\<lambda>f. (f_workerId f = ec_workerId c \<and> f_gpuUuid f = ec_gpuUuid c) \<and> f_safetyState f = FenceClear) fences = []"
    using assms(1) by (auto simp: filter_empty_conv)
  with True assms(2) show ?thesis by (auto simp: upsert_fence_def sql_update_none Let_def)
next
  case False
  then have "upsert_fence c fences = (Some 1, fences @ [reserved_fence c 1])"
    by (simp only: upsert_fence_def Let_def if_False)
  with assms(2) False show ?thesis by (auto simp: list_ex_iff fence_key_def)
qed

lemma attempt_held_iff: "attempt_held (a, Some f) \<longleftrightarrow>
    f_safetyState f \<noteq> FenceClear \<and> f_attemptId f = Some (a_attemptId a) \<and> f_leaseId f = Some (a_leaseId a) \<and>
    f_subjectKind f = Some (a_subjectKind a) \<and> f_subjectId f = Some (a_subjectId a) \<and> f_epoch f = a_fenceEpoch a"
  by (simp add: attempt_held_def)

lemma fence_holds_iff: "fence_holds f a \<longleftrightarrow> fence_key f = attempt_key a \<and> attempt_held (a, Some f)"
  by (auto simp: fence_holds_def attempt_held_iff)

lemma keeps_reserve:
  assumes "reserveExecutionAttempt rawInput d = Inr (r, d')"
  shows "keeps d d'"
  unfolding keeps_def
proof
  assume ok: "db_ok d"
  from assms obtain c s epoch fences where v: "validateExecutionClaim rawInput = Inr c"
    and "validateCurrentExecutionOwner c (getWorker (ec_workerId c) d) (lookup_owner (ec_subjectKind c) (ec_subjectId c) d) = Inr s"
    and "\<not> resource_occupied c d" and u: "upsert_fence c (db_fences d) = (Some epoch, fences)"
    and d': "d' = d\<lparr>db_fences := fences, db_attempts := db_attempts d @ [attempt_row c (ow_projectId s) epoch]\<rparr>"
    and "r = \<lparr>rv_attemptId = ec_attemptId c, rv_fenceEpoch = epoch, rv_canLaunch = False\<rparr>"
    and fresh: "\<forall>b \<in> set (db_attempts d). a_attemptId b \<noteq> ec_attemptId c \<and>
      (attempt_key b = (ec_workerId c, ec_gpuUuid c) \<longrightarrow> a_status b = AttemptTerminated)"
    by (rule reserveExecutionAttempt_cases)
  have cl: "claims_ok d" and fo: "fences_ok d" using ok by (simp_all add: db_ok_def)
  from cl have "\<forall>f \<in> set (db_fences d). f_safetyState f = FenceReserved" by (simp add: claims_ok_def)
  from upsert_fence_effect [OF this u] have new: "(ec_workerId c, ec_gpuUuid c) \<notin> fence_key ` set (db_fences d)"
    and e: "epoch = 1" and f: "fences = db_fences d @ [reserved_fence c 1]" by simp_all
  have ids: "ec_workerId c \<noteq> []" "ec_gpuUuid c \<noteq> []"
    using validateExecutionClaim_ids [OF v] by (auto simp: claim_id_def)
  have "fences_ok d'"
    using fo new ids by (auto simp: fences_ok_def d' f fence_key_def reserved_fence_def)
  moreover have "claims_ok d'"
    using cl fresh unfolding claims_ok_def d' f e
    by (auto simp: attempt_key_def attempt_row_def reserved_fence_def fence_holds_def fence_key_def)
  ultimately have "db_ok d'"
    using ok by (simp add: db_ok_def workers_ok_def jobs_ok_def sessions_ok_def events_ok_def exclusive_def held_def d')
  moreover have "evolves d d'"
    by (auto simp: evolves_def events_evolve_def d' f intro!: grows_refl grows_append)
  ultimately show "db_ok d' \<and> evolves d d'" ..
qed

lemma keeps_broker_catch: "snd (broker_catch r) = snd r"
  by (cases r) (auto simp: broker_catch_def split: sum.split error.split)

lemma keeps_reserveBrokerBoundAttempt:
  "keeps d (snd (reserveBrokerBoundAttempt profiles authorization request now maxAge d))"
proof -
  have "keeps d (snd (transaction (broker_reserve_tx profile input now maxAge) d))" for profile input
    by (rule keeps_transaction)
      (auto simp: broker_reserve_tx_def and_then_Inr reservation_check_def dest: keeps_reserve
        split: option.splits if_splits)
  then show ?thesis
    by (auto simp: reserveBrokerBoundAttempt_def keeps_broker_catch split: option.split sum.split)
qed

lemma keeps_reservePersistedExecutionAttempt: "keeps d (snd (reservePersistedExecutionAttempt rawInput d))"
proof -
  have "keeps d (snd (transaction (\<lambda>d. and_then (reserveExecutionAttempt (claim_js c) d) (\<lambda>(r, d1).
            reservation_check (ec_attemptId c) (ExecutionClaimDenied ''authority_unavailable'') r d1)) d))" for c
    by (rule keeps_transaction)
      (auto simp: and_then_Inr reservation_check_def dest: keeps_reserve split: if_splits)
  then show ?thesis by (auto simp: reservePersistedExecutionAttempt_def split: sum.split)
qed

end
