(* ===== verification/ControlPlane.thy ===== *)
theory ControlPlane
  imports Service ExecutionClaims
begin

text \<open>
  The control plane as a transition system: the state is the database, a step is one atomic
  write of an operation (a committed or rolled back transaction, or a single statement), one
  scheduler pass, or one broker reservation. Every interleaving of concurrent requests is a
  sequence of such steps, because the persistence layer serializes transactions.
\<close>

section \<open>Operations keep the tables well-formed\<close>

lemma keeps_validated:
  assumes "\<And>i. v = Inr i \<Longrightarrow> keeps d (snd (k i d))"
  shows "keeps d (snd (validated v k d))"
  using assms by (auto simp: validated_def split: sum.split)

lemma keeps_fenced:
  assumes s: "\<And>d. keeps d (snd (statement d))" and e: "\<And>r d. keeps d (record_event r d)"
  shows "keeps d (snd (fenced statement message record_event d))"
  unfolding fenced_def
proof (rule keeps_transaction)
  fix r d'
  assume "(case statement d of (None, _) \<Rightarrow> Inl (ConflictError message) | (Some r, d1) \<Rightarrow> Inr (r, record_event r d1)) = Inr (r, d')"
  then obtain d1 where "statement d = (Some r, d1)" "d' = record_event r d1"
    by (auto split: prod.splits option.splits)
  with s [of d] e [of d1 r] show "keeps d d'" by (auto intro: keeps_trans)
qed

lemma keeps_registerWorker_tx:
  assumes "worker_input_ok lc w"
  shows "keeps d (snd (registerWorker_tx w d))"
  unfolding registerWorker_tx_def
proof (rule keeps_transaction)
  fix r d'
  assume "and_then (upsertWorker w d) (\<lambda>(stored, d1).
       Inr (stored, snd (appendEvent ''worker.online'' (w_id stored)
         (JObj [(''name'', JStr (w_name stored)), (''gpuCount'', JInt (int (length (w_gpus stored))))])
         (wi_now w) d1))) = Inr (r, d')"
  then obtain d1 t s p where u: "upsertWorker w d = Inr (r, d1)" and d': "d' = snd (appendEvent t s p (wi_now w) d1)"
    by (auto simp: and_then_Inr)
  have "\<forall>g \<in> set (wi_gpus w). g_uuid g \<noteq> []"
    using assms by (auto simp: worker_input_ok_def gpus_ok_def gpu_ok_def valid_name_def)
  with upsertWorker_effect [OF u] assms have "keeps d d1"
    by (auto simp: keeps_def worker_input_ok_def)
  from keeps_trans [OF this keeps_appendEvent] show "keeps d d'" unfolding d' .
qed

lemma keeps_heartbeatWorker_tx:
  assumes "gpus_ok (hi_gpus h)"
  shows "keeps d (snd (heartbeatWorker_tx workerId h d))"
proof -
  have "\<forall>g \<in> set (hi_gpus h). g_uuid g \<noteq> []"
    using assms by (auto simp: gpus_ok_def gpu_ok_def valid_name_def)
  from keeps_updateWorkerHeartbeat [OF this, of d workerId] show ?thesis
    by (auto simp: heartbeatWorker_tx_def split: prod.split option.split)
qed

lemma keeps_setWorkerDrain: "keeps d (snd (setWorkerDrain workerId input now d))"
  unfolding setWorkerDrain_def
proof (rule keeps_validated, rule keeps_transaction)
  fix drain r d'
  assume "(case setWorkerDrain_row workerId drain now d of (None, _) \<Rightarrow> Inl (NotFoundError ''worker not found'')
        | (Some w, d1) \<Rightarrow> Inr (w, snd (appendEvent (if drain then ''worker.draining'' else ''worker.resumed'') (w_id w) (JObj []) now d1)))
      = Inr (r, d')"
  with keeps_setWorkerDrain_row [of d workerId drain now] show "keeps d d'"
    by (auto split: prod.splits option.splits intro: keeps_trans [OF _ keeps_appendEvent])
qed

lemma keeps_submitJob_tx:
  assumes "0 < ji_maxAttempts i"
  shows "keeps d (snd (submitJob_tx i d))"
  unfolding submitJob_tx_def
proof (rule keeps_transaction)
  fix r d'
  assume "and_then (insertJob i d) (\<lambda>((j, duplicate), d1). Inr ((j, duplicate),
         if duplicate then d1
         else snd (appendEvent ''job.queued'' (j_id j)
           (JObj [(''projectId'', JStr (j_projectId j)), (''type'', JStr (j_type j)),
                  (''priority'', JInt (j_priority j))]) (ji_now i) d1))) = Inr (r, d')"
  then obtain j duplicate d1 where ins: "insertJob i d = Inr ((j, duplicate), d1)" and "keeps d1 d'"
    by (auto simp: and_then_Inr keeps_appendEvent split: if_splits)
  moreover from insertJob_effect [OF ins _ assms] have "keeps d d1" by (simp add: keeps_def)
  ultimately show "keeps d d'" by (blast intro: keeps_trans)
qed

lemma keeps_submitSession_tx: "keeps d (snd (submitSession_tx i d))"
  unfolding submitSession_tx_def
proof (rule keeps_transaction)
  fix r d'
  assume "and_then (insertSession i d) (\<lambda>((s, duplicate), d1). Inr ((s, duplicate),
         if duplicate then d1
         else snd (appendEvent ''session.requested'' (s_id s)
           (JObj [(''projectId'', JStr (s_projectId s)), (''capability'', JStr (s_capability s)),
                  (''priority'', JInt (s_priority s))]) (si_now i) d1))) = Inr (r, d')"
  then obtain s duplicate d1 where ins: "insertSession i d = Inr ((s, duplicate), d1)" and "keeps d1 d'"
    by (auto simp: and_then_Inr keeps_appendEvent split: if_splits)
  moreover from insertSession_effect [OF ins] have "keeps d d1" by (simp add: keeps_def)
  ultimately show "keeps d d'" by (blast intro: keeps_trans)
qed

lemma keeps_startJob: "keeps d (snd (startJob cfg jobId input now d))"
  unfolding startJob_def
  by (rule keeps_validated, rule keeps_fenced) (rule keeps_startJob_row, rule keeps_appendEvent)

lemma keeps_renewJob: "keeps d (snd (renewJob cfg jobId input now d))"
  unfolding renewJob_def by (rule keeps_validated, rule keeps_fenced) (rule keeps_renewJob_row, rule keeps_refl)

lemma keeps_finishJob_tx: "keeps d (snd (finishJob_tx jobId i now d))"
  unfolding finishJob_tx_def
  by (rule keeps_fenced) (rule keeps_finishJob_row, simp add: outcome_status_def, rule keeps_appendEvent)

lemma keeps_cancelJob_tx: "keeps d (snd (cancelJob_tx jobId now d))"
  unfolding cancelJob_tx_def
  using keeps_cancelJob_row [of d jobId now]
  by (intro keeps_transaction)
    (auto split: prod.splits option.splits intro: keeps_trans [OF _ keeps_appendEvent])

lemma keeps_startSession: "keeps d (snd (startSession cfg sessionId input now d))"
  unfolding startSession_def
  by (rule keeps_validated, rule keeps_fenced) (rule keeps_startSession_row, rule keeps_appendEvent)

lemma keeps_activateSession: "keeps d (snd (activateSession cfg sessionId input now d))"
  unfolding activateSession_def
  by (rule keeps_validated, rule keeps_fenced) (rule keeps_activateSession_row, rule keeps_appendEvent)

lemma keeps_renewSession: "keeps d (snd (renewSession cfg sessionId input now d))"
  unfolding renewSession_def
proof (rule keeps_validated)
  fix lease
  show "keeps d (snd (case renewSession_row sessionId (la_workerId lease) (la_leaseId lease)
        (now + cf_leaseDurationMs cfg) now d of
         (None, d1) \<Rightarrow> (Inl (ConflictError ''session lease is not valid for this worker''), d1)
       | (Some s, d1) \<Rightarrow> (Inr s, d1)))"
    using keeps_renewSession_row [of d sessionId "la_workerId lease" "la_leaseId lease" "now + cf_leaseDurationMs cfg" now]
    by (auto split: prod.split option.split)
qed

lemma keeps_closeSession_tx: "keeps d (snd (closeSession_tx sessionId now d))"
  unfolding closeSession_tx_def
  using keeps_closeSession_row [of d sessionId now]
  by (intro keeps_transaction)
    (auto split: prod.splits option.splits intro: keeps_trans [OF _ keeps_appendEvent])

section \<open>The transition system\<close>

inductive cp_step ::
  "(string \<Rightarrow> string \<Rightarrow> int) \<Rightarrow> (rat \<Rightarrow> string) \<Rightarrow> service_config \<Rightarrow> db \<Rightarrow> db \<Rightarrow> bool"
  for lc num cfg where
  register: "validateWorker lc uuid input now = Inr w \<Longrightarrow> cp_step lc num cfg d (snd (registerWorker_tx w d))"
| heartbeat: "validateHeartbeat lc input now = Inr h \<Longrightarrow> cp_step lc num cfg d (snd (heartbeatWorker_tx workerId h d))"
| drain: "cp_step lc num cfg d (snd (setWorkerDrain workerId input now d))"
| submit_job: "validateJob uuid input header now = Inr i \<Longrightarrow> cp_step lc num cfg d (snd (submitJob_tx i d))"
| start_job: "cp_step lc num cfg d (snd (startJob cfg jobId input now d))"
| renew_job: "cp_step lc num cfg d (snd (renewJob cfg jobId input now d))"
| finish_job: "validateFinish input = Inr f \<Longrightarrow> cp_step lc num cfg d (snd (finishJob_tx jobId f now d))"
| cancel_job: "cp_step lc num cfg d (snd (cancelJob_tx jobId now d))"
| submit_session: "session_submission lc num uuid input header now = Inr s \<Longrightarrow> cp_step lc num cfg d (snd (submitSession_tx s d))"
| start_session: "cp_step lc num cfg d (snd (startSession cfg sessionId input now d))"
| activate_session: "cp_step lc num cfg d (snd (activateSession cfg sessionId input now d))"
| renew_session: "cp_step lc num cfg d (snd (renewSession cfg sessionId input now d))"
| close_session: "cp_step lc num cfg d (snd (closeSession_tx sessionId now d))"
| schedule: "cp_step lc num cfg d (snd (runOnce lc (cf_scheduler cfg) acquired uuids now d))"
| reserve: "cp_step lc num cfg d (snd (reserveBrokerBoundAttempt profiles authorization request now maxAge d))"
| claim: "cp_step lc num cfg d (snd (reservePersistedExecutionAttempt rawInput d))"

inductive cp_steps ::
  "(string \<Rightarrow> string \<Rightarrow> int) \<Rightarrow> (rat \<Rightarrow> string) \<Rightarrow> service_config \<Rightarrow> db \<Rightarrow> db \<Rightarrow> bool"
  for lc num cfg where
  none: "cp_steps lc num cfg d d"
| more: "cp_steps lc num cfg d d' \<Longrightarrow> cp_step lc num cfg d' d'' \<Longrightarrow> cp_steps lc num cfg d d''"

abbreviation cp_reachable ::
  "(string \<Rightarrow> string \<Rightarrow> int) \<Rightarrow> (rat \<Rightarrow> string) \<Rightarrow> service_config \<Rightarrow> db \<Rightarrow> bool" where
  "cp_reachable lc num cfg \<equiv> cp_steps lc num cfg empty_db"

lemma cp_step_keeps:
  assumes "cp_step lc num cfg d d'" and lc: "comparator lc"
  shows "keeps d d'"
  using assms(1)
proof cases
  case (register uuid input now w)
  then show ?thesis using keeps_registerWorker_tx validateWorker_ok [OF _ lc] by blast
next
  case (heartbeat input now h workerId)
  then show ?thesis using keeps_heartbeatWorker_tx validateHeartbeat_ok [OF _ lc] by blast
next
  case (submit_job uuid input header now i)
  then show ?thesis using keeps_submitJob_tx [of i d] validateJob_ok by force
qed (simp_all add: keeps_setWorkerDrain keeps_startJob keeps_renewJob keeps_finishJob_tx keeps_cancelJob_tx
    keeps_submitSession_tx keeps_startSession keeps_activateSession keeps_renewSession keeps_closeSession_tx
    keeps_runOnce keeps_reserveBrokerBoundAttempt keeps_reservePersistedExecutionAttempt)

lemma cp_steps_keeps: "cp_steps lc num cfg d d' \<Longrightarrow> comparator lc \<Longrightarrow> keeps d d'"
proof (induction rule: cp_steps.induct)
  case (more d d' d'')
  then show ?case using cp_step_keeps keeps_trans by blast
qed simp

lemma empty_db_ok: "db_ok empty_db"
  by (simp add: db_ok_def workers_ok_def jobs_ok_def sessions_ok_def events_ok_def fences_ok_def claims_ok_def
      exclusive_def held_def empty_db_def unique_idempotency_def event_retention_def)

lemma cp_reachable_ok: "cp_reachable lc num cfg d \<Longrightarrow> comparator lc \<Longrightarrow> db_ok d"
  using cp_steps_keeps [of lc num cfg empty_db d] empty_db_ok by (simp add: keeps_def)

lemma cp_steps_evolves:
  "cp_reachable lc num cfg d \<Longrightarrow> cp_steps lc num cfg d d' \<Longrightarrow> comparator lc \<Longrightarrow> db_ok d' \<and> evolves d d'"
  using cp_reachable_ok cp_steps_keeps by (fastforce simp: keeps_def)

lemma cp_steps_trans: "cp_steps lc num cfg d d' \<Longrightarrow> cp_steps lc num cfg d' d'' \<Longrightarrow> cp_steps lc num cfg d d''"
  by (rotate_tac, induction rule: cp_steps.induct) (auto intro: cp_steps.more)

section \<open>A concrete run\<close>

text \<open>A worker with two GPUs registers, a job is submitted, and a pass leases the GPU to it.\<close>

definition sample_service :: service_config where
  "sample_service = \<lparr>cf_tokens = [(''client'', ''c'')], cf_scheduler = sample_config,
     cf_leaseDurationMs = 60000, cf_dataPlaneGrantTtlMs = JInt 15000, cf_dataPlaneSigningKey = JStr sample_key\<rparr>"

definition sample_worker_request :: jsval where
  "sample_worker_request = JObj [(''id'', JStr ''w1''), (''name'', JStr ''alpha''), (''version'', JStr ''1''),
     (''capabilities'', JArr [JStr ''asr'']),
     (''gpus'', JArr [JObj [(''uuid'', JStr ''g1''), (''index'', JInt 0), (''name'', JStr ''A''),
        (''memoryTotalMiB'', JInt 24000), (''memoryUsedMiB'', JInt 100), (''utilizationPercent'', JInt 1),
        (''temperatureC'', JInt 40)],
        JObj [(''uuid'', JStr ''g2''), (''index'', JInt 1), (''name'', JStr ''A''),
        (''memoryTotalMiB'', JInt 24000), (''memoryUsedMiB'', JInt 100), (''utilizationPercent'', JInt 2),
        (''temperatureC'', JInt 40)]])]"

definition sample_job_request :: jsval where
  "sample_job_request = JObj [(''projectId'', JStr ''p''), (''type'', JStr ''asr''), (''idempotencyKey'', JStr ''k'')]"

definition sample_uuids :: "nat \<Rightarrow> string" where
  "sample_uuids k = ''u''"

definition sample_worker_input :: worker_input where
  "sample_worker_input = \<lparr>wi_id = ''w1'', wi_name = ''alpha'', wi_version = ''1'', wi_baseUrl = None,
     wi_labels = [], wi_capabilities = [''asr''], wi_adapterManifests = [], wi_adapterHealth = [], wi_warmModels = [],
     wi_modelInventory = [], wi_gpus = [\<lparr>g_uuid = ''g1'', g_index = 0, g_name = ''A'', g_memoryTotalMiB = 24000,
       g_memoryUsedMiB = 100, g_utilizationPercent = 1, g_temperatureC = 40, g_powerDrawWatts = None\<rparr>,
      \<lparr>g_uuid = ''g2'', g_index = 1, g_name = ''A'', g_memoryTotalMiB = 24000,
       g_memoryUsedMiB = 100, g_utilizationPercent = 2, g_temperatureC = 40, g_powerDrawWatts = None\<rparr>], wi_now = 1000\<rparr>"

definition run1 :: db where
  "run1 = snd (registerWorker_tx sample_worker_input empty_db)"

definition sample_job_input :: job_input where
  "sample_job_input = \<lparr>ji_id = ''job_j'', ji_projectId = ''p'', ji_type = ''asr'', ji_priority = 0,
     ji_gpuCount = 1, ji_minVramMiB = 1, ji_requiredCapabilities = [''asr''], ji_requestedModel = None,
     ji_payload = JObj [], ji_maxAttempts = 3, ji_idempotencyKey = Some ''k'', ji_now = 2000\<rparr>"

definition run2 :: db where
  "run2 = snd (submitJob_tx sample_job_input run1)"

definition run3 :: db where
  "run3 = snd (runOnce str_cmp sample_config True sample_uuids 3000 run2)"

definition sample_run_worker :: worker where
  "sample_run_worker = \<lparr>w_id = ''w1'', w_name = ''alpha'', w_version = ''1'', w_baseUrl = None, w_status = Online,
     w_drainMode = False, w_labels = [], w_capabilities = [''asr''], w_adapterManifests = [], w_adapterHealth = [],
     w_warmModels = [], w_modelInventory = [], w_gpus = wi_gpus sample_worker_input,
     w_lastSeenAt = 1000, w_createdAt = 1000, w_updatedAt = 1000\<rparr>"

definition sample_leased_job :: job where
  "sample_leased_job = \<lparr>j_id = ''job_j'', j_projectId = ''p'', j_type = ''asr'', j_priority = 0, j_status = Leased,
     j_constraints = \<lparr>rq_gpuCount = 1, rq_minVramMiB = 1, rq_capabilities = [''asr''], rq_model = None, rq_adapter = None\<rparr>,
     j_payload = JObj [], j_result = None, j_error = None,
     j_assignedWorkerId = Some ''w1'', j_assignedGpuUuid = Some ''g1'', j_leaseId = Some ''lease_u'',
     j_leaseExpiresAt = Some 63000, j_attempt = 1, j_maxAttempts = 3, j_idempotencyKey = Some ''k'',
     j_createdAt = 2000, j_updatedAt = 3000\<rparr>"

lemma run3_eq: "db_jobs run3 = [sample_leased_job]" "db_workers run3 = [sample_run_worker]" "db_sessions run3 = []"
  by code_simp+

lemma sample_worker_valid: "validateWorker str_cmp ''x'' sample_worker_request 1000 = Inr sample_worker_input"
  by (simp add: sample_worker_request_def sample_worker_input_def validateWorker_def requireObject_def optionalObject_def
      requireString_def trim_def is_js_space_def boundedInteger_def stringArray_def nullish_def item_name_def string_of_nat.simps
      optionalString_def validateAdvertisedAdapterState_def validateAdapterManifests_def validateAdapterHealth_def
      versioned_list_def validateLabels_def fromEntries_def validateModelInventory_def validateGpus_def max_safe_integer_def
      finite_number_def)

lemma sample_job_valid: "validateJob ''j'' sample_job_request JNull 2000 = Inr sample_job_input"
  by (simp add: sample_job_request_def sample_job_input_def validateJob_def requireObject_def optionalObject_def
      requireString_def trim_def is_js_space_def boundedInteger_def stringArray_def nullish_def item_name_def string_of_nat.simps
      optionalString_def validateWorkloadPayload_def BENCHMARK_TYPE_def TRANSCRIPTION_TYPE_def createId_def)

lemma run2_reachable: "cp_reachable str_cmp num sample_service run2"
  unfolding run2_def run1_def
  by (rule cp_steps.more [OF cp_steps.more [OF cp_steps.none cp_step.register] cp_step.submit_job]) (rule sample_worker_valid sample_job_valid)+

lemma run3_step: "cp_steps str_cmp num sample_service run2 run3"
proof -
  have "cf_scheduler sample_service = sample_config" by (simp add: sample_service_def)
  with cp_step.schedule [of str_cmp num sample_service run2 True sample_uuids 3000] show ?thesis
    unfolding run3_def by (metis cp_steps.more cp_steps.none)
qed

lemma run3_reachable: "cp_reachable str_cmp num sample_service run3"
  using run2_reachable run3_step by (rule cp_steps_trans)

text \<open>A session is submitted after the worker registered, and a pass allocates the GPU to it.\<close>

definition sample_session_input :: session_input where
  "sample_session_input = \<lparr>si_id = ''session_s'', si_schemaVersion = 1, si_projectId = ''p'', si_capability = ''asr'',
     si_priority = 0, si_requirements = \<lparr>rq_gpuCount = 1, rq_minVramMiB = 0, rq_capabilities = [''asr''],
       rq_model = None, rq_adapter = None\<rparr>,
     si_metadata = JObj [(''9'', JNull), (''10'', JStr ''y''), (''a'', JBool True), (''b'', JArr [JStr ''x'', JNull])],
     si_maxInterruptions = 0, si_idempotencyKey = None, si_now = 2000\<rparr>"

definition run4 :: db where
  "run4 = snd (submitSession_tx sample_session_input run1)"

definition run5 :: db where
  "run5 = snd (runOnce str_cmp sample_config True sample_uuids 3000 run4)"

definition sample_allocated_session :: session where
  "sample_allocated_session = \<lparr>s_id = ''session_s'', s_schemaVersion = 1, s_projectId = ''p'', s_capability = ''asr'',
     s_priority = 0, s_status = Allocated, s_requirements = si_requirements sample_session_input,
     s_metadata = si_metadata sample_session_input, s_maxInterruptions = 0, s_interruptionCount = 0,
     s_assignedWorkerId = Some ''w1'', s_assignedGpuUuid = Some ''g1'', s_leaseId = Some ''lease_u'',
     s_leaseExpiresAt = Some 63000, s_idempotencyKey = None, s_createdAt = 2000, s_updatedAt = 3000\<rparr>"

lemma run5_eq: "db_sessions run5 = [sample_allocated_session]" "db_workers run5 = [sample_run_worker]" "db_jobs run5 = []"
  by code_simp+

lemma sample_session_valid:
  "session_submission str_cmp (\<lambda>_. []) ''s'' sample_session_request JNull 2000 = Inr sample_session_input"
  by (simp add: session_submission_def sample_session_request_valid sample_session_input_def optionalString_def createId_def)

lemma run4_reachable: "cp_reachable str_cmp (\<lambda>_. []) sample_service run4"
  unfolding run4_def run1_def
  by (rule cp_steps.more [OF cp_steps.more [OF cp_steps.none cp_step.register] cp_step.submit_session])
    (rule sample_worker_valid sample_session_valid)+

lemma run5_step: "cp_steps str_cmp num sample_service run4 run5"
proof -
  have "cf_scheduler sample_service = sample_config" by (simp add: sample_service_def)
  with cp_step.schedule [of str_cmp num sample_service run4 True sample_uuids 3000] show ?thesis
    unfolding run5_def by (metis cp_steps.more cp_steps.none)
qed

lemma run5_reachable: "cp_reachable str_cmp (\<lambda>_. []) sample_service run5"
  using run4_reachable run5_step by (rule cp_steps_trans)

text \<open>The session submitted while the job holds its GPU: a pass gives it the other one.\<close>

definition run6 :: db where
  "run6 = snd (submitSession_tx sample_session_input run3)"

definition run7 :: db where
  "run7 = snd (runOnce str_cmp sample_config True sample_uuids 3000 run6)"

definition sample_second_session :: session where
  "sample_second_session = sample_allocated_session\<lparr>s_assignedGpuUuid := Some ''g2''\<rparr>"

lemma run7_eq: "db_jobs run7 = [sample_leased_job]" "db_sessions run7 = [sample_second_session]"
  by code_simp+

lemma run7_reachable: "cp_reachable str_cmp (\<lambda>_. []) sample_service run7"
proof -
  have "cf_scheduler sample_service = sample_config" by (simp add: sample_service_def)
  moreover have "cp_reachable str_cmp (\<lambda>_. []) sample_service run6"
    unfolding run6_def
    by (rule cp_steps.more [OF run3_reachable cp_step.submit_session]) (rule sample_session_valid)
  ultimately show ?thesis
    unfolding run7_def using cp_step.schedule [of str_cmp "\<lambda>_. []" sample_service run6 True sample_uuids 3000]
    by (metis cp_steps.more)
qed

section \<open>Properties of every reachable state\<close>

lemma held_by_mem: "r \<in> set rows \<Longrightarrow> count (h r) u \<le> count (held_by h rows) u"
  by (induction rows) auto

lemma held_by_two:
  "r \<in> set rows \<Longrightarrow> r' \<in> set rows \<Longrightarrow> r \<noteq> r' \<Longrightarrow> count (h r) u + count (h r') u \<le> count (held_by h rows) u"
proof (induction rows)
  case (Cons x rows)
  then show ?case using held_by_mem [of r rows h u] held_by_mem [of r' rows h u] by auto
qed simp

lemma active_held:
  "job_ok j \<Longrightarrow> job_active j \<Longrightarrow> \<exists>u. j_assignedGpuUuid j = Some u \<and> job_held j = {#u#}"
  "session_ok s \<Longrightarrow> session_occupying s \<Longrightarrow> \<exists>u. s_assignedGpuUuid s = Some u \<and> session_held s = {#u#}"
  by (auto simp: job_ok_def job_held_def job_active_def session_ok_def session_held_def split: if_splits)

text \<open>
  C1. In every reachable state a GPU has at most one holder: two different active jobs, two
  different occupying sessions, or an active job and an occupying session never have the same
  GPU assigned, whatever interleaving of requests, passes and reservations led there.
\<close>

theorem gpu_exclusive:
  assumes "cp_reachable lc num cfg d" and "comparator lc"
  shows "(\<forall>j \<in> set (db_jobs d). \<forall>j' \<in> set (db_jobs d). job_active j \<and> job_active j' \<and> j \<noteq> j' \<longrightarrow>
      j_assignedGpuUuid j \<noteq> None \<and> j_assignedGpuUuid j \<noteq> j_assignedGpuUuid j') \<and>
    (\<forall>s \<in> set (db_sessions d). \<forall>s' \<in> set (db_sessions d). session_occupying s \<and> session_occupying s' \<and> s \<noteq> s' \<longrightarrow>
      s_assignedGpuUuid s \<noteq> None \<and> s_assignedGpuUuid s \<noteq> s_assignedGpuUuid s') \<and>
    (\<forall>j \<in> set (db_jobs d). \<forall>s \<in> set (db_sessions d). job_active j \<and> session_occupying s \<longrightarrow>
      j_assignedGpuUuid j \<noteq> s_assignedGpuUuid s)"
proof -
  from cp_reachable_ok [OF assms] have ex: "\<And>u. count (held d) u \<le> 1"
    and j: "\<And>j. j \<in> set (db_jobs d) \<Longrightarrow> job_ok j" and s: "\<And>s. s \<in> set (db_sessions d) \<Longrightarrow> session_ok s"
    by (auto simp: db_ok_def exclusive_def jobs_ok_def sessions_ok_def)
  have le: "count (held_by job_held (db_jobs d)) u + count (held_by session_held (db_sessions d)) u \<le> 1" for u
    using ex [of u] by (simp add: held_def)
  show ?thesis
  proof (intro conjI ballI impI)
    fix a b assume ab: "a \<in> set (db_jobs d)" "b \<in> set (db_jobs d)" "job_active a \<and> job_active b \<and> a \<noteq> b"
    with active_held(1) [OF j [OF ab(1)]] active_held(1) [OF j [OF ab(2)]] obtain u v
      where u: "j_assignedGpuUuid a = Some u" "job_held a = {#u#}" "j_assignedGpuUuid b = Some v" "job_held b = {#v#}" by blast
    then show "j_assignedGpuUuid a \<noteq> None" by simp
    show "j_assignedGpuUuid a \<noteq> j_assignedGpuUuid b"
      using u held_by_two [OF ab(1,2), of job_held u] ab(3) le [of u] by auto
  next
    fix a b assume ab: "a \<in> set (db_sessions d)" "b \<in> set (db_sessions d)" "session_occupying a \<and> session_occupying b \<and> a \<noteq> b"
    with active_held(2) [OF s [OF ab(1)]] active_held(2) [OF s [OF ab(2)]] obtain u v
      where u: "s_assignedGpuUuid a = Some u" "session_held a = {#u#}" "s_assignedGpuUuid b = Some v" "session_held b = {#v#}" by blast
    then show "s_assignedGpuUuid a \<noteq> None" by simp
    show "s_assignedGpuUuid a \<noteq> s_assignedGpuUuid b"
      using u held_by_two [OF ab(1,2), of session_held u] ab(3) le [of u] by auto
  next
    fix a b assume ab: "a \<in> set (db_jobs d)" "b \<in> set (db_sessions d)" "job_active a \<and> session_occupying b"
    with active_held(1) [OF j [OF ab(1)]] active_held(2) [OF s [OF ab(2)]] obtain u v
      where u: "j_assignedGpuUuid a = Some u" "job_held a = {#u#}" "s_assignedGpuUuid b = Some v" "session_held b = {#v#}" by blast
    show "j_assignedGpuUuid a \<noteq> s_assignedGpuUuid b"
    proof
      assume "j_assignedGpuUuid a = s_assignedGpuUuid b"
      with u have "count (job_held a) u = 1" "count (session_held b) u = 1" by simp_all
      with held_by_mem [OF ab(1), of job_held u] held_by_mem [OF ab(2), of session_held u] le [of u]
      show False by linarith
    qed
  qed
qed

theorem gpu_exclusive_witness:
  "job_active sample_leased_job \<and> session_occupying sample_second_session \<and>
   j_assignedGpuUuid sample_leased_job \<noteq> s_assignedGpuUuid sample_second_session"
proof -
  have "job_active sample_leased_job \<and> session_occupying sample_second_session" by code_simp
  with gpu_exclusive [OF run7_reachable code_units.comparator_axioms] show ?thesis
    unfolding run7_eq by simp
qed

text \<open>
  C2. In every reachable state the columns of each job fit its status: a queued job has no
  assignment and attempts left; a leased or running job has a worker that exists, a GPU, a
  lease, an expiry and between one and its maximum of attempts; a finished job has no expiry.
  Job ids are unique and a project's idempotency key names at most one job.
\<close>

theorem job_columns:
  assumes "cp_reachable lc num cfg d" and "comparator lc"
  shows "distinct (map j_id (db_jobs d)) \<and>
    distinct (map job_key (filter (\<lambda>j. j_idempotencyKey j \<noteq> None) (db_jobs d))) \<and>
    (\<forall>j \<in> set (db_jobs d). 0 \<le> j_attempt j \<and> j_attempt j \<le> j_maxAttempts j \<and>
      (j_status j = Queued \<longrightarrow> j_assignedWorkerId j = None \<and> j_assignedGpuUuid j = None \<and> j_leaseId j = None \<and>
         j_leaseExpiresAt j = None \<and> j_attempt j < j_maxAttempts j) \<and>
      (j_status j \<in> {Leased, Running} \<longrightarrow> (\<exists>w \<in> set (db_workers d). j_assignedWorkerId j = Some (w_id w)) \<and>
         j_assignedGpuUuid j \<noteq> None \<and> j_leaseId j \<noteq> None \<and> j_leaseExpiresAt j \<noteq> None \<and> 1 \<le> j_attempt j) \<and>
      (j_status j \<in> {Succeeded, Failed, Cancelled} \<longrightarrow> j_leaseExpiresAt j = None))"
proof -
  from cp_reachable_ok [OF assms] have ok: "jobs_ok d" by (simp add: db_ok_def)
  then have j: "\<And>j. j \<in> set (db_jobs d) \<Longrightarrow> job_ok j \<and> assigned_in (w_id ` set (db_workers d)) (j_assignedWorkerId j)"
    and u: "distinct (map j_id (db_jobs d))" "distinct (map job_key (filter (\<lambda>j. j_idempotencyKey j \<noteq> None) (db_jobs d)))"
    by (simp_all add: jobs_ok_def unique_idempotency_def job_key_def)
  show ?thesis
  proof (intro conjI u ballI)
    fix x assume x: "x \<in> set (db_jobs d)"
    show "0 \<le> j_attempt x" "j_attempt x \<le> j_maxAttempts x"
      using j [OF x] by (auto simp: job_ok_def split: if_splits)
    show "j_status x = Queued \<longrightarrow> j_assignedWorkerId x = None \<and> j_assignedGpuUuid x = None \<and> j_leaseId x = None \<and>
         j_leaseExpiresAt x = None \<and> j_attempt x < j_maxAttempts x"
      using j [OF x] by (simp add: job_ok_def)
    show "j_status x \<in> {Leased, Running} \<longrightarrow> (\<exists>w \<in> set (db_workers d). j_assignedWorkerId x = Some (w_id w)) \<and>
         j_assignedGpuUuid x \<noteq> None \<and> j_leaseId x \<noteq> None \<and> j_leaseExpiresAt x \<noteq> None \<and> 1 \<le> j_attempt x"
      using j [OF x] by (cases "j_status x") (auto simp: job_ok_def job_active_def assigned_in_def)
    show "j_status x \<in> {Succeeded, Failed, Cancelled} \<longrightarrow> j_leaseExpiresAt x = None"
      using j [OF x] by (cases "j_status x") (auto simp: job_ok_def job_active_def)
  qed
qed

theorem job_columns_witness: "j_assignedGpuUuid sample_leased_job \<noteq> None \<and> 1 \<le> j_attempt sample_leased_job"
  using job_columns [OF run3_reachable code_units.comparator_axioms]
  by (simp add: run3_eq) (simp add: sample_leased_job_def)

text \<open>
  C3. In every reachable state a session's columns fit its status, it holds a worker, a GPU and
  a lease exactly while it occupies one, and it was interrupted at most once more often than its
  budget of at most three allows: exactly then it is in the terminal state interrupted.
\<close>

theorem session_columns:
  assumes "cp_reachable lc num cfg d" and "comparator lc"
  shows "distinct (map s_id (db_sessions d)) \<and>
    (\<forall>s \<in> set (db_sessions d). 0 \<le> s_interruptionCount s \<and> s_interruptionCount s \<le> s_maxInterruptions s + 1 \<and>
      s_interruptionCount s \<le> 4 \<and>
      (s_status s = Interrupted \<longleftrightarrow> s_interruptionCount s = s_maxInterruptions s + 1) \<and>
      (session_occupying s \<longleftrightarrow> s_leaseId s \<noteq> None) \<and> (session_occupying s \<longleftrightarrow> s_assignedGpuUuid s \<noteq> None) \<and>
      (session_occupying s \<longleftrightarrow> s_leaseExpiresAt s \<noteq> None) \<and>
      (session_occupying s \<longleftrightarrow> (\<exists>w \<in> set (db_workers d). s_assignedWorkerId s = Some (w_id w))))"
proof -
  from cp_reachable_ok [OF assms] have ok: "sessions_ok d" by (simp add: db_ok_def)
  then have d: "distinct (map s_id (db_sessions d))"
    and s: "\<And>s. s \<in> set (db_sessions d) \<Longrightarrow> session_ok s \<and> assigned_in (w_id ` set (db_workers d)) (s_assignedWorkerId s)"
    by (auto simp: sessions_ok_def)
  show ?thesis
  proof (intro conjI ballI d)
    fix x assume x: "x \<in> set (db_sessions d)"
    show "session_occupying x \<longleftrightarrow> (\<exists>w \<in> set (db_workers d). s_assignedWorkerId x = Some (w_id w))"
      using s [OF x] by (auto simp: session_ok_def session_unassigned_def assigned_in_def split: option.splits if_splits)
  qed (use s in \<open>fastforce simp: session_ok_def session_unassigned_def split: if_splits\<close>)+
qed

theorem session_columns_witness:
  "s_interruptionCount sample_allocated_session \<le> s_maxInterruptions sample_allocated_session + 1 \<and>
   s_leaseId sample_allocated_session \<noteq> None"
  using session_columns [OF run5_reachable code_units.comparator_axioms]
  by (simp add: run5_eq) (simp add: sample_allocated_session_def session_occupying_def)

text \<open>
  C4. From any reachable state on, whatever steps follow, no job or session disappears or changes
  its identity; a finished job, and an interrupted or closed session, never changes again; the
  number of attempts and of interruptions only grows; and while a job is in the same attempt, or
  a session in the same interruption period and not ended, its worker, GPU and lease stay the same.
\<close>

theorem rows_evolve:
  assumes "cp_reachable lc num cfg d" and "cp_steps lc num cfg d d'" and "comparator lc"
  shows "(\<forall>i < length (db_jobs d). i < length (db_jobs d') \<and>
      (let j = db_jobs d ! i; j' = db_jobs d' ! i in
        job_identity j' = job_identity j \<and> (job_terminal j \<longrightarrow> j' = j) \<and> j_attempt j \<le> j_attempt j' \<and>
        (j_leaseId j' \<noteq> None \<and> j_attempt j' = j_attempt j \<longrightarrow> job_allocation j' = job_allocation j))) \<and>
    (\<forall>i < length (db_sessions d). i < length (db_sessions d') \<and>
      (let s = db_sessions d ! i; s' = db_sessions d' ! i in
        session_identity s' = session_identity s \<and> (session_terminal s \<longrightarrow> s' = s) \<and>
        s_interruptionCount s \<le> s_interruptionCount s' \<and>
        (s_leaseId s \<noteq> None \<and> s_interruptionCount s' = s_interruptionCount s \<and> \<not> session_terminal s' \<longrightarrow>
           session_allocation s' = session_allocation s)))"
proof -
  from cp_steps_evolves [OF assms] have "grows job_evolves (db_jobs d) (db_jobs d')"
    and "grows session_evolves (db_sessions d) (db_sessions d')" by (simp_all add: evolves_def)
  then show ?thesis
    unfolding grows_def job_evolves_def session_evolves_def Let_def by (auto simp: less_le_trans)
qed

theorem rows_evolve_witness: "job_identity (db_jobs run3 ! 0) = job_identity (db_jobs run2 ! 0)"
proof -
  have "length (db_jobs run2) = 1" by code_simp
  with rows_evolve [OF run2_reachable run3_step code_units.comparator_axioms] show ?thesis
    by (simp add: Let_def)
qed

lemma sql_limit_all: "limit < 0 \<Longrightarrow> sql_limit limit xs = xs"
  by (simp add: sql_limit_def)

lemma events_sorted:
  assumes "events_ok d"
  shows "js_sort (\<lambda>a b. ev_sequence a - ev_sequence b) (filter (\<lambda>e. ev_sequence e > n) (db_events d)) =
    filter (\<lambda>e. ev_sequence e > n) (db_events d)"
proof (rule js_sort_id)
  show "comparator (\<lambda>a b. ev_sequence a - ev_sequence b)" by (rule comparator_diff)
  have "sorted_wrt (\<le>) (map ev_sequence (db_events d))"
    using assms by (simp add: events_ok_def)
  then have "sorted_wrt (\<lambda>a b. ev_sequence a - ev_sequence b \<le> 0) (db_events d)"
    by (simp add: sorted_wrt_map)
  then show "sorted_wrt (\<lambda>a b. ev_sequence a - ev_sequence b \<le> 0) (filter (\<lambda>e. ev_sequence e > n) (db_events d))"
    by (rule sorted_wrt_filter)
qed

lemma filter_upto_above: "filter (\<lambda>k. k > n) [a..b] = [max a (n + 1)..b]"
  using filter_upto_gt [of n a b] by (simp add: not_le)

text \<open>A page read in ascending order is a prefix of what lies above the cursor, and the cursor of its last row loses nothing.\<close>

lemma page_then_rest:
  fixes k :: "'a \<Rightarrow> int" and n :: int and m :: nat
  assumes "sorted_wrt (<) (map k xs)" and "0 < m"
  defines "later \<equiv> filter (\<lambda>e. n < k e) xs"
  defines "page \<equiv> take m later"
  shows "later = page @ filter (\<lambda>e. (if page = [] then n else k (last page)) < k e) xs"
proof (cases "page = []")
  case True
  then show ?thesis using assms by (cases m) (auto simp: page_def later_def)
next
  case False
  then obtain ys y where p: "page = ys @ [y]" using rev_exhaust by blast
  define rest where "rest = drop m later"
  have "later = page @ rest" by (simp add: page_def rest_def)
  then have ab: "later = ys @ y # rest" by (simp add: p)
  have "sorted_wrt (<) (map k later)"
    using sorted_wrt_filter [of "\<lambda>a b. k a < k b" xs] assms(1) by (simp add: later_def sorted_wrt_map)
  with ab have lo: "\<forall>e \<in> set ys. k e < k y" and hi: "\<forall>e \<in> set rest. k y < k e"
    by (auto simp: sorted_wrt_append sorted_wrt_map)
  have "y \<in> set later" by (simp add: ab)
  then have "n < k y" by (simp add: later_def)
  then have "filter (\<lambda>e. k y < k e) xs = filter (\<lambda>e. k y < k e) later"
    by (auto simp: later_def intro: filter_cong)
  also have "\<dots> = rest"
    using lo hi by (auto simp: ab filter_empty_conv filter_id_conv)
  finally show ?thesis using p ab by simp
qed

lemma read_page:
  fixes n :: int
  assumes "events_ok d"
  defines "later \<equiv> filter (\<lambda>e. n < ev_sequence e) (db_events d)"
  shows "listEventsAfter n 500 d = take 500 later"
    and "map ev_sequence (listEventsAfter n 500 d) =
      take 500 [max (max 1 (db_lastSequence d - 9999)) (n + 1) .. db_lastSequence d]"
    and "later = listEventsAfter n 500 d @ filter (\<lambda>e. (if listEventsAfter n 500 d = [] then n
      else ev_sequence (last (listEventsAfter n 500 d))) < ev_sequence e) (db_events d)"
proof -
  show page: "listEventsAfter n 500 d = take 500 later"
    using events_sorted [OF assms(1), of n] by (simp add: listEventsAfter_def sql_limit_def later_def)
  have m: "map ev_sequence (db_events d) = [max 1 (db_lastSequence d - 9999) .. db_lastSequence d]"
    using assms(1) by (simp add: events_ok_def event_retention_def)
  have "map ev_sequence later = filter (\<lambda>k. k > n) (map ev_sequence (db_events d))"
    by (simp add: filter_map comp_def later_def)
  then show "map ev_sequence (listEventsAfter n 500 d) =
      take 500 [max (max 1 (db_lastSequence d - 9999)) (n + 1) .. db_lastSequence d]"
    by (simp add: page take_map [symmetric] m filter_upto_above)
  have "sorted_wrt (<) (map ev_sequence (db_events d))"
    by (simp add: m sorted_wrt_upto)
  from page_then_rest [OF this, of 500 n, unfolded page [unfolded later_def, symmetric]]
  show "later = listEventsAfter n 500 d @ filter (\<lambda>e. (if listEventsAfter n 500 d = [] then n
      else ev_sequence (last (listEventsAfter n 500 d))) < ev_sequence e) (db_events d)"
    unfolding later_def by simp
qed

text \<open>
  C5. The event log is gapless: in every reachable state the stored sequence numbers are exactly
  the last ten thousand (or all) numbers up to the counter. Along any run the counter only grows,
  and an event is dropped only once ten thousand newer ones exist. The read of the event stream,
  with the limit of 500 it always has, answers the first 500 stored events above the last number
  the reader has seen, ascending and without repetition; and a reader who goes on from the last
  event of the page is owed exactly the stored events the page left, so pages read one after
  another skip and repeat nothing.
\<close>

theorem event_log:
  assumes "cp_reachable lc num cfg d" and "cp_steps lc num cfg d d'" and "comparator lc"
  shows "map ev_sequence (db_events d) = [max 1 (db_lastSequence d - 9999) .. db_lastSequence d] \<and>
    db_lastSequence d \<le> db_lastSequence d' \<and>
    (\<forall>e \<in> set (db_events d). e \<in> set (db_events d') \<or> ev_sequence e \<le> db_lastSequence d' - 10000) \<and>
    listEventsAfter n 500 d' = take 500 (filter (\<lambda>e. n < ev_sequence e) (db_events d')) \<and>
    map ev_sequence (listEventsAfter n 500 d') =
      take 500 [max (max 1 (db_lastSequence d' - 9999)) (n + 1) .. db_lastSequence d'] \<and>
    filter (\<lambda>e. n < ev_sequence e) (db_events d') = listEventsAfter n 500 d' @
      filter (\<lambda>e. (if listEventsAfter n 500 d' = [] then n else ev_sequence (last (listEventsAfter n 500 d'))) < ev_sequence e)
        (db_events d')"
proof -
  have ok: "events_ok d" using cp_reachable_ok [OF assms(1,3)] by (simp add: db_ok_def)
  have ok': "events_ok d'" and ev: "events_evolve d d'"
    using cp_steps_evolves [OF assms] by (simp_all add: db_ok_def evolves_def)
  from ok ev show ?thesis
    by (intro conjI read_page [OF ok']) (simp_all add: events_ok_def events_evolve_def event_retention_def)
qed

theorem event_log_witness: "map ev_sequence (listEventsAfter 1 500 run3) = [2..3]"
proof -
  have "db_lastSequence run3 = 3" by code_simp
  moreover have "map ev_sequence (listEventsAfter 1 500 run3) =
      take 500 [max (max 1 (db_lastSequence run3 - 9999)) (1 + 1) .. db_lastSequence run3]"
    using event_log [OF run2_reachable run3_step code_units.comparator_axioms, of 1] by blast
  ultimately show ?thesis by (simp add: upto.simps)
qed

end
