(* ===== verification/Guarantees.thy ===== *)
theory Guarantees
  imports ControlPlane
begin

text \<open>
  What a client, a worker or a broker can rely on when it calls an operation in a reachable
  state: lease fencing, idempotent submission, and the authority a reservation or a data-plane
  grant stands for.
\<close>

section \<open>Lease fencing\<close>

text \<open>What a worker must present: the stored worker and lease of an unexpired row in one of the states.\<close>

definition holds_job_lease :: "job_status set \<Rightarrow> string \<Rightarrow> lease_action \<Rightarrow> int \<Rightarrow> job \<Rightarrow> bool" where
  "holds_job_lease states jobId lease now j =
     (j_id j = jobId \<and> j_status j \<in> states \<and> j_assignedWorkerId j = Some (la_workerId lease) \<and>
      j_leaseId j = Some (la_leaseId lease) \<and> (\<exists>e. j_leaseExpiresAt j = Some e \<and> now < e))"

definition holds_session_lease :: "session_status set \<Rightarrow> string \<Rightarrow> lease_action \<Rightarrow> int \<Rightarrow> session \<Rightarrow> bool" where
  "holds_session_lease states sessionId lease now s =
     (s_id s = sessionId \<and> s_status s \<in> states \<and> s_assignedWorkerId s = Some (la_workerId lease) \<and>
      s_leaseId s = Some (la_leaseId lease) \<and> (\<exists>e. s_leaseExpiresAt s = Some e \<and> now < e))"

text \<open>
  The outcome of a fenced operation on a table: either the conflict, with nothing changed and
  no row under the presented lease, or exactly the row under that lease is replaced.
\<close>

definition fenced_outcome ::
  "(db \<Rightarrow> 'r list) \<Rightarrow> ('r \<Rightarrow> string) \<Rightarrow> ('r \<Rightarrow> bool) \<Rightarrow> ('r \<Rightarrow> 'r) \<Rightarrow> string \<Rightarrow> string \<Rightarrow> db \<Rightarrow> 'r result \<times> db \<Rightarrow> bool" where
  "fenced_outcome table key holds f k message d outcome =
     (case outcome of
        (Inl e, d') \<Rightarrow> e = ConflictError message \<and> d' = d \<and> (\<forall>r \<in> set (table d). \<not> holds r)
      | (Inr r', d') \<Rightarrow> (\<exists>r \<in> set (table d). holds r \<and> r' = f r) \<and>
          table d' = map (\<lambda>x. if key x = k then r' else x) (table d))"

lemma fenced_outcome_update:
  assumes "distinct (map key (table d))" and "\<And>r. holds r \<Longrightarrow> key r = k"
    and "statement d = (sql_get (snd (sql_update holds f (table d))), put (fst (sql_update holds f (table d))) d)"
    and "\<And>rows. table (put rows d) = rows" and "\<And>r d. table (record_event r d) = table d"
  shows "fenced_outcome table key holds f k message d (fenced statement message record_event d)"
proof (rule sql_update_key [OF assms(1,2)])
  assume "filter holds (table d) = []" "sql_update holds f (table d) = (table d, [])"
  with assms(3) show ?thesis
    by (auto simp: fenced_outcome_def fenced_def transaction_def filter_empty_conv)
next
  fix r assume "r \<in> set (table d)" "holds r"
    "sql_update holds f (table d) = (map (\<lambda>x. if key x = k then f r else x) (table d), [f r])"
  with assms(3-5) show ?thesis
    by (auto simp: fenced_outcome_def fenced_def transaction_def)
qed

lemma holds_job_lease_iff:
  "holds_job_lease S jobId lease now =
     (\<lambda>j. j_id j = jobId \<and> j_status j \<in> S \<and> j_assignedWorkerId j = Some (la_workerId lease) \<and>
        j_leaseId j = Some (la_leaseId lease) \<and> lease_valid (j_leaseExpiresAt j) now)"
  by (intro ext) (auto simp: holds_job_lease_def lease_valid_def split: option.split)

lemma holds_session_lease_iff:
  "holds_session_lease S sessionId lease now = session_lease_matches S sessionId (la_workerId lease) (la_leaseId lease) now"
  by (intro ext) (auto simp: holds_session_lease_def session_lease_matches_def lease_valid_def split: option.split)

text \<open>
  C9. Starting, renewing and finishing a job are fenced by its lease. In every reachable state
  each of them either replaces exactly the one row that is in the right status under the
  presented worker and unexpired lease, with the documented columns, or fails with a conflict
  and leaves the database as it was; and it fails exactly when there is no such row.
\<close>

theorem job_lease_fencing:
  assumes "cp_reachable lc num cfg d" and "comparator lc"
    and "validateLeaseAction input = Inr lease" and "validateFinish finput = Inr i"
  shows
    "fenced_outcome db_jobs j_id (holds_job_lease {Leased} jobId lease now)
       (\<lambda>j. j\<lparr>j_status := Running, j_leaseExpiresAt := Some (now + cf_leaseDurationMs cfg), j_updatedAt := now\<rparr>)
       jobId ''job lease is not valid for this worker'' d (startJob cfg jobId input now d) \<and>
     fenced_outcome db_jobs j_id (holds_job_lease {Running} jobId lease now)
       (\<lambda>j. j\<lparr>j_leaseExpiresAt := Some (now + cf_leaseDurationMs cfg), j_updatedAt := now\<rparr>)
       jobId ''running job lease is not valid for this worker'' d (renewJob cfg jobId input now d) \<and>
     fenced_outcome db_jobs j_id (holds_job_lease {Leased, Running} jobId (fi_lease i) now)
       (\<lambda>j. j\<lparr>j_status := outcome_status (fi_outcome i),
              j_result := (if fi_result i = JNull then None else Some (fi_result i)),
              j_error := (if fi_error i = JNull then None else Some (fi_error i)),
              j_leaseExpiresAt := None, j_updatedAt := now\<rparr>)
       jobId ''job lease is not valid for this worker'' d (finishJob_tx jobId i now d)"
proof (intro conjI)
  from cp_reachable_ok [OF assms(1,2)] have d: "distinct (map j_id (db_jobs d))"
    by (simp add: db_ok_def jobs_ok_def)
  note upd = fenced_outcome_update [where table = db_jobs and put = "\<lambda>rows d. d\<lparr>db_jobs := rows\<rparr>", OF d]
  show "fenced_outcome db_jobs j_id (holds_job_lease {Leased} jobId lease now)
       (\<lambda>j. j\<lparr>j_status := Running, j_leaseExpiresAt := Some (now + cf_leaseDurationMs cfg), j_updatedAt := now\<rparr>)
       jobId ''job lease is not valid for this worker'' d (startJob cfg jobId input now d)"
    unfolding startJob_def validated_def assms(3) sum.case
    by (rule upd) (auto simp: holds_job_lease_iff startJob_row_def Let_def case_prod_unfold)
  show "fenced_outcome db_jobs j_id (holds_job_lease {Running} jobId lease now)
       (\<lambda>j. j\<lparr>j_leaseExpiresAt := Some (now + cf_leaseDurationMs cfg), j_updatedAt := now\<rparr>)
       jobId ''running job lease is not valid for this worker'' d (renewJob cfg jobId input now d)"
    unfolding renewJob_def validated_def assms(3) sum.case
    by (rule upd) (auto simp: holds_job_lease_iff renewJob_row_def Let_def case_prod_unfold)
  show "fenced_outcome db_jobs j_id (holds_job_lease {Leased, Running} jobId (fi_lease i) now)
       (\<lambda>j. j\<lparr>j_status := outcome_status (fi_outcome i),
              j_result := (if fi_result i = JNull then None else Some (fi_result i)),
              j_error := (if fi_error i = JNull then None else Some (fi_error i)),
              j_leaseExpiresAt := None, j_updatedAt := now\<rparr>)
       jobId ''job lease is not valid for this worker'' d (finishJob_tx jobId i now d)"
    unfolding finishJob_tx_def
    by (rule upd) (auto simp: holds_job_lease_iff finishJob_row_def Let_def case_prod_unfold)
qed

definition sample_lease_request :: jsval where
  "sample_lease_request = JObj [(''workerId'', JStr ''w1''), (''leaseId'', JStr ''lease_u''), (''outcome'', JStr ''succeeded'')]"

definition sample_lease :: lease_action where
  "sample_lease = \<lparr>la_workerId = ''w1'', la_leaseId = ''lease_u''\<rparr>"

lemma sample_lease_valid:
  "validateLeaseAction sample_lease_request = Inr sample_lease"
  "validateFinish sample_lease_request = Inr \<lparr>fi_lease = sample_lease, fi_outcome = ''succeeded'', fi_result = JNull, fi_error = JNull\<rparr>"
  by code_simp+

theorem job_lease_fencing_witness:
  "snd (startJob sample_service ''job_j'' sample_lease_request 63000 run3) = run3 \<and>
   list_all (\<lambda>j. j_status j = Running) (db_jobs (snd (startJob sample_service ''job_j'' sample_lease_request 62999 run3)))"
proof -
  note f = job_lease_fencing [OF run3_reachable code_units.comparator_axioms sample_lease_valid, of "''job_j''"]
  have late: "\<not> holds_job_lease {Leased} ''job_j'' sample_lease 63000 sample_leased_job"
    and held: "holds_job_lease {Leased} ''job_j'' sample_lease 62999 sample_leased_job"
    and id: "j_id sample_leased_job = ''job_j''"
    by (simp_all add: holds_job_lease_def sample_leased_job_def sample_lease_def)
  show ?thesis
    using conjunct1 [OF f, of 63000] conjunct1 [OF f, of 62999] late held id
    by (cases "startJob sample_service ''job_j'' sample_lease_request 63000 run3";
        cases "startJob sample_service ''job_j'' sample_lease_request 62999 run3")
      (auto simp: fenced_outcome_def run3_eq split: sum.splits)
qed

text \<open>
  C10. Starting, activating and renewing a session are fenced by its lease in the same way: in
  every reachable state each replaces exactly the row under the presented worker and unexpired
  lease, or fails with a conflict and changes nothing, exactly when there is no such row.
\<close>

theorem session_lease_fencing:
  assumes "cp_reachable lc num cfg d" and "comparator lc" and "validateLeaseAction input = Inr lease"
  shows
    "fenced_outcome db_sessions s_id (holds_session_lease {Allocated} sessionId lease now)
       (\<lambda>s. s\<lparr>s_status := Connecting, s_leaseExpiresAt := Some (now + cf_leaseDurationMs cfg), s_updatedAt := now\<rparr>)
       sessionId ''session lease is not valid for this worker'' d (startSession cfg sessionId input now d) \<and>
     fenced_outcome db_sessions s_id (holds_session_lease {Connecting} sessionId lease now)
       (\<lambda>s. s\<lparr>s_status := Active, s_leaseExpiresAt := Some (now + cf_leaseDurationMs cfg), s_updatedAt := now\<rparr>)
       sessionId ''connecting session lease is not valid for this worker'' d (activateSession cfg sessionId input now d) \<and>
     fenced_outcome db_sessions s_id (holds_session_lease {Allocated, Connecting, Active} sessionId lease now)
       (\<lambda>s. s\<lparr>s_leaseExpiresAt := Some (now + cf_leaseDurationMs cfg), s_updatedAt := now\<rparr>)
       sessionId ''session lease is not valid for this worker'' d (renewSession cfg sessionId input now d)"
proof (intro conjI)
  from cp_reachable_ok [OF assms(1,2)] have d: "distinct (map s_id (db_sessions d))"
    by (simp add: db_ok_def sessions_ok_def)
  note upd = fenced_outcome_update [where table = db_sessions and put = "\<lambda>rows d. d\<lparr>db_sessions := rows\<rparr>", OF d]
  show "fenced_outcome db_sessions s_id (holds_session_lease {Allocated} sessionId lease now)
       (\<lambda>s. s\<lparr>s_status := Connecting, s_leaseExpiresAt := Some (now + cf_leaseDurationMs cfg), s_updatedAt := now\<rparr>)
       sessionId ''session lease is not valid for this worker'' d (startSession cfg sessionId input now d)"
    unfolding startSession_def validated_def assms(3) sum.case
    by (rule upd) (auto simp: holds_session_lease_iff startSession_row_def Let_def case_prod_unfold session_lease_matches_def)
  show "fenced_outcome db_sessions s_id (holds_session_lease {Connecting} sessionId lease now)
       (\<lambda>s. s\<lparr>s_status := Active, s_leaseExpiresAt := Some (now + cf_leaseDurationMs cfg), s_updatedAt := now\<rparr>)
       sessionId ''connecting session lease is not valid for this worker'' d (activateSession cfg sessionId input now d)"
    unfolding activateSession_def validated_def assms(3) sum.case
    by (rule upd) (auto simp: holds_session_lease_iff activateSession_row_def Let_def case_prod_unfold session_lease_matches_def)
  let ?renew = "renewSession_row sessionId (la_workerId lease) (la_leaseId lease) (now + cf_leaseDurationMs cfg) now"
  have "renewSession cfg sessionId input now d =
      fenced ?renew ''session lease is not valid for this worker'' (\<lambda>s d. d) d"
    unfolding renewSession_def validated_def assms(3) sum.case fenced_def transaction_def
    by (auto simp: renewSession_row_def Let_def case_prod_unfold sql_update_none sql_update_snd split: option.split)
  then show "fenced_outcome db_sessions s_id (holds_session_lease {Allocated, Connecting, Active} sessionId lease now)
       (\<lambda>s. s\<lparr>s_leaseExpiresAt := Some (now + cf_leaseDurationMs cfg), s_updatedAt := now\<rparr>)
       sessionId ''session lease is not valid for this worker'' d (renewSession cfg sessionId input now d)"
    by (simp only:) (rule upd, auto simp: holds_session_lease_iff renewSession_row_def Let_def case_prod_unfold session_lease_matches_def)
qed

theorem session_lease_fencing_witness:
  "snd (renewSession sample_service ''session_s'' sample_lease_request 63000 run5) = run5 \<and>
   list_all (\<lambda>s. s_status s = Connecting) (db_sessions (snd (startSession sample_service ''session_s'' sample_lease_request 4000 run5)))"
proof -
  note f = session_lease_fencing [OF run5_reachable code_units.comparator_axioms sample_lease_valid(1), of "''session_s''"]
  have late: "\<not> holds_session_lease {Allocated, Connecting, Active} ''session_s'' sample_lease 63000 sample_allocated_session"
    and held: "holds_session_lease {Allocated} ''session_s'' sample_lease 4000 sample_allocated_session"
    and id: "s_id sample_allocated_session = ''session_s''"
    by (simp_all add: holds_session_lease_def sample_allocated_session_def sample_lease_def)
  show ?thesis
    using conjunct2 [OF conjunct2 [OF f], of 63000] conjunct1 [OF f, of 4000] late held id
    by (cases "renewSession sample_service ''session_s'' sample_lease_request 63000 run5";
        cases "startSession sample_service ''session_s'' sample_lease_request 4000 run5")
      (auto simp: fenced_outcome_def run5_eq split: sum.splits)
qed

section \<open>Idempotent submission\<close>

lemma validateJob_key:
  "validateJob uuid input header now = Inr i \<Longrightarrow> ji_idempotencyKey i \<noteq> Some []"
  by (drule validateJob_ok) (auto simp: valid_name_def)


lemma key_unique_snd:
  assumes "unique_idempotency key rows" and "r \<in> set rows" and "r' \<in> set rows"
    and "key r = key r'" and "snd (key r) \<noteq> None"
  shows "r = r'"
proof -
  from assms(1) have "distinct (map key (filter (\<lambda>r. snd (key r) \<noteq> None) rows))"
    by (simp add: unique_idempotency_def)
  from key_unique [OF this, of r r'] assms show ?thesis by simp
qed

lemma insertJob_duplicate:
  assumes "ji_idempotencyKey i = Some k" and "k \<noteq> []" and "j \<in> set (db_jobs d)"
    and "job_key j = (ji_projectId i, Some k)" and "unique_idempotency job_key (db_jobs d)"
  shows "insertJob i d = Inr ((j, True), d)"
proof -
  let ?P = "\<lambda>r. j_projectId r = ji_projectId i \<and> j_idempotencyKey r = Some k"
  have j: "?P j" using assms(4) by (simp add: job_key_def)
  have only: "r = j" if "r \<in> set (db_jobs d)" "?P r" for r
    using that assms(3,4) by (intro key_unique_snd [OF assms(5)]) (auto simp: job_key_def)
  have "j \<in> set (filter ?P (db_jobs d))" using assms(3) j by simp
  then obtain r where r: "sql_get (filter ?P (db_jobs d)) = Some r"
    by (cases "filter ?P (db_jobs d)") auto
  from sql_get_filter_Some [OF r] only have "r = j" by blast
  moreover have "list_ex ?P (db_jobs d)" using assms(3) j unfolding list_ex_iff by blast
  moreover obtain c cs where "k = c # cs" using assms(2) by (cases k) auto
  ultimately show ?thesis
    using r unfolding insertJob_def assms(1) by (simp only: option.case list.case option.inject simp_thms if_True option.distinct)
qed

text \<open>
  C15. Submitting a job is idempotent for its project and key: once a submission under a key was
  answered, every later submission under the same project and key, at whatever time and after
  whatever other operations, finds the same job, reports it as a duplicate and changes nothing.
\<close>

theorem submitJob_idempotent:
  assumes "cp_reachable lc num cfg d" and "comparator lc"
    and "validateJob uuid input header now = Inr i" and "submitJob_tx i d = (Inr (j, duplicate), d1)"
    and "cp_steps lc num cfg d1 d2"
    and "validateJob uuid' input' header' now' = Inr i'"
    and "ji_idempotencyKey i = Some key" and "ji_idempotencyKey i' = Some key"
    and "ji_projectId i' = ji_projectId i"
  shows "\<exists>j'. submitJob_tx i' d2 = (Inr (j', True), d2) \<and> j' \<in> set (db_jobs d2) \<and>
    job_identity j' = job_identity j"
proof -
  have ok: "db_ok d" using assms(1,2) by (rule cp_reachable_ok)
  have pos: "0 < ji_maxAttempts i" using validateJob_ok [OF assms(3)] by simp
  have reach1: "cp_reachable lc num cfg d1"
    using cp_steps.more [OF assms(1) cp_step.submit_job [OF assms(3)]] assms(4) by simp
  from assms(4) obtain d0 where ins: "insertJob i d = Inr ((j, duplicate), d0)" and jobs: "db_jobs d1 = db_jobs d0"
    by (auto simp: submitJob_tx_def transaction_def and_then_Inr split: sum.splits if_splits)
  from insertJob_effect [OF ins ok pos] jobs
  have j: "j \<in> set (db_jobs d1)" and key: "job_key j = (ji_projectId i, Some key)" using assms(7) by auto
  from cp_steps_evolves [OF reach1 assms(5,2)] have ok2: "db_ok d2" and "grows job_evolves (db_jobs d1) (db_jobs d2)"
    by (simp_all add: evolves_def)
  with grows_mem [OF _ j] obtain j' where j': "j' \<in> set (db_jobs d2)" "job_identity j' = job_identity j"
    unfolding job_evolves_def by blast
  have "insertJob i' d2 = Inr ((j', True), d2)"
    using j' key assms(8,9) ok2 validateJob_key [OF assms(6)]
    by (intro insertJob_duplicate [where k = key]) (auto simp: job_key_def job_identity_def db_ok_def jobs_ok_def)
  with j' show ?thesis by (auto simp: submitJob_tx_def transaction_def)
qed

theorem submitJob_idempotent_witness:
  "\<exists>j'. submitJob_tx sample_job_input run3 = (Inr (j', True), run3) \<and> j_id j' = ''job_j''"
proof -
  have "cp_reachable str_cmp (\<lambda>_. []) sample_service run1"
    unfolding run1_def by (rule cp_steps.more [OF cp_steps.none cp_step.register]) (rule sample_worker_valid)
  moreover obtain j where s: "submitJob_tx sample_job_input run1 = (Inr (j, False), run2)"
    and id: "j_id j = ''job_j''"
    unfolding run2_def by (simp add: submitJob_tx_def transaction_def insertJob_def run1_def registerWorker_tx_def
        upsertWorker_def sample_worker_input_def empty_db_def sample_job_input_def Let_def sql_update_def appendEvent_def)
  ultimately have "\<exists>j'. submitJob_tx sample_job_input run3 = (Inr (j', True), run3) \<and> j' \<in> set (db_jobs run3) \<and>
      job_identity j' = job_identity j"
    using submitJob_idempotent [OF _ code_units.comparator_axioms sample_job_valid s run3_step sample_job_valid, where key = "''k''"]
    by (simp add: sample_job_input_def)
  with id show ?thesis by (auto simp: job_identity_def)
qed

section \<open>What a broker's reservation stands for\<close>

lemma set_listBlocked:
  "set (listBlockedGpuResources d) = fence_key ` {f \<in> set (db_fences d). f_safetyState f \<noteq> FenceClear}"
  by (auto simp: listBlockedGpuResources_def fence_key_def)

lemma mem_listBlocked:
  "k \<in> set (listBlockedGpuResources d) \<longleftrightarrow> (\<exists>f \<in> set (db_fences d). f_safetyState f \<noteq> FenceClear \<and> fence_key f = k)"
  by (auto simp: set_listBlocked)

lemma validateExecutionClaim_js:
  "validateExecutionClaim (claim_js c) = Inr c' \<Longrightarrow> c' = c"
  by (cases c; cases "ec_subjectKind c")
    (auto simp: validateExecutionClaim_def claim_js_def and_then_Inr invalid_claim_def parse_kind_def kind_js_def
      id_field_def digest_field_def positive_field_def REQUIRED_def js_get_def split: if_splits option.splits subject_kind.splits)

lemma broker_catch_Inr: "broker_catch r = (Inr x, d) \<longleftrightarrow> r = (Inr x, d)"
  by (cases r) (auto simp: broker_catch_def split: sum.split error.split)

text \<open>A successful reservation, taken apart down to the row it creates.\<close>

lemma broker_reservation_cases:
  assumes "reserveBrokerBoundAttempt profiles authorization request now maxAge d = (Inr r, d')"
  obtains profile input stored u fences epoch where
    "authenticateBroker profiles authorization = Some profile" and "validateBrokerClaimRequest request = Inr input"
    and "lookup_owner (br_subjectKind input) (br_subjectId input) d = Some stored"
    and "ow_projectId stored = bp_projectId profile" and "ow_live stored"
    and "ow_workerId stored = Some (bp_workerId profile)" and "ow_leaseId stored = Some (br_leaseId input)"
    and "ow_gpuUuid stored = Some u" and "\<exists>e. ow_leaseExpiresAt stored = Some e \<and> now < e"
    and "\<exists>w. getWorker (bp_workerId profile) d = Some w \<and> w_status w = Online \<and> \<not> w_drainMode w \<and>
      now - w_lastSeenAt w < maxAge \<and> u \<in> g_uuid ` set (w_gpus w)"
    and "r = \<lparr>bv_attemptId = br_attemptId input, bv_fenceEpoch = epoch, bv_status = ''reserved-not-launchable'', bv_canLaunch = False\<rparr>"
    and "upsert_fence \<lparr>ec_subjectKind = br_subjectKind input, ec_subjectId = br_subjectId input, ec_leaseId = br_leaseId input,
           ec_workerId = bp_workerId profile, ec_gpuUuid = u, ec_attemptId = br_attemptId input,
           ec_artifactDigest = bp_artifactDigest profile, ec_adapterIdentity = bp_adapterIdentity profile,
           ec_runtimePolicyRevision = bp_runtimePolicyRevision profile, ec_approvalRef = bp_approvalRef profile,
           ec_now = now, ec_maxHeartbeatAgeMs = maxAge\<rparr> (db_fences d) = (Some epoch, fences)"
    and "d' = d\<lparr>db_fences := fences, db_attempts := db_attempts d @
       [\<lparr>a_attemptId = br_attemptId input, a_subjectKind = br_subjectKind input, a_subjectId = br_subjectId input,
         a_projectId = bp_projectId profile, a_leaseId = br_leaseId input, a_workerId = bp_workerId profile, a_gpuUuid = u,
         a_fenceEpoch = epoch, a_artifactDigest = bp_artifactDigest profile, a_adapterIdentity = bp_adapterIdentity profile,
         a_runtimePolicyRevision = bp_runtimePolicyRevision profile, a_approvalRef = bp_approvalRef profile,
         a_status = AttemptReserved, a_createdAt = now, a_updatedAt = now\<rparr>]\<rparr>"
proof -
  from assms obtain profile input where p: "authenticateBroker profiles authorization = Some profile"
    and i: "validateBrokerClaimRequest request = Inr input"
    and t: "broker_reserve_tx profile input now maxAge d = Inr (r, d')"
    by (auto simp: reserveBrokerBoundAttempt_def broker_catch_Inr transaction_def split: if_splits option.splits sum.splits)
  define claim where "claim = (\<lambda>u. \<lparr>ec_subjectKind = br_subjectKind input, ec_subjectId = br_subjectId input, ec_leaseId = br_leaseId input,
           ec_workerId = bp_workerId profile, ec_gpuUuid = u, ec_attemptId = br_attemptId input,
           ec_artifactDigest = bp_artifactDigest profile, ec_adapterIdentity = bp_adapterIdentity profile,
           ec_runtimePolicyRevision = bp_runtimePolicyRevision profile, ec_approvalRef = bp_approvalRef profile,
           ec_now = now, ec_maxHeartbeatAgeMs = maxAge\<rparr>)"
  from t obtain stored u rv where s: "lookup_owner (br_subjectKind input) (br_subjectId input) d = Some stored"
      "ow_projectId stored = bp_projectId profile" "ow_workerId stored = Some (bp_workerId profile)"
      "ow_leaseId stored = Some (br_leaseId input)" "ow_gpuUuid stored = Some u"
    and res: "reserveExecutionAttempt (claim_js (claim u)) d = Inr (rv, d')"
    and r: "r = \<lparr>bv_attemptId = br_attemptId input, bv_fenceEpoch = rv_fenceEpoch rv,
                bv_status = ''reserved-not-launchable'', bv_canLaunch = False\<rparr>"
    by (auto simp: broker_reserve_tx_def and_then_Inr reservation_check_def claim_def split: option.splits if_splits)
  from res show ?thesis
  proof (rule reserveExecutionAttempt_cases)
    fix c s' epoch fences
    assume c: "validateExecutionClaim (claim_js (claim u)) = Inr c"
      and o: "validateCurrentExecutionOwner c (getWorker (ec_workerId c) d) (lookup_owner (ec_subjectKind c) (ec_subjectId c) d) = Inr s'"
      and f: "upsert_fence c (db_fences d) = (Some epoch, fences)"
      and d': "d' = d\<lparr>db_fences := fences, db_attempts := db_attempts d @ [attempt_row c (ow_projectId s') epoch]\<rparr>"
      and rv: "rv = \<lparr>rv_attemptId = ec_attemptId c, rv_fenceEpoch = epoch, rv_canLaunch = False\<rparr>"
    have c': "c = claim u" using validateExecutionClaim_js [OF c] .
    note w = validateCurrentExecutionOwner_Inr [OF o]
    show ?thesis
      by (rule that [OF p i s(1,2) _ s(3,4,5)])
        (use w s d' f r rv in \<open>auto simp: c' claim_def attempt_row_def\<close>)
  qed
qed


text \<open>
  C13. A reservation is authorized by the current lease: it is granted only to an authenticated
  broker whose project and worker own the named job or session, under the named lease, unexpired
  and live, on a GPU its online, undrained, fresh worker advertises and that no earlier
  reservation fences; it never carries launch permission, and it records exactly one new attempt
  and one new fence of epoch 1 for that worker and GPU.
\<close>

theorem reservation_authority:
  assumes "cp_reachable lc num cfg d" and "comparator lc"
    and "reserveBrokerBoundAttempt profiles authorization request now maxAge d = (Inr r, d')"
  shows "\<not> bv_canLaunch r \<and> bv_fenceEpoch r = 1 \<and>
    (\<exists>profile input stored w u e.
      authenticateBroker profiles authorization = Some profile \<and> validateBrokerClaimRequest request = Inr input \<and>
      bv_attemptId r = br_attemptId input \<and>
      lookup_owner (br_subjectKind input) (br_subjectId input) d = Some stored \<and> ow_live stored \<and>
      ow_projectId stored = bp_projectId profile \<and> ow_workerId stored = Some (bp_workerId profile) \<and>
      ow_leaseId stored = Some (br_leaseId input) \<and> ow_gpuUuid stored = Some u \<and>
      ow_leaseExpiresAt stored = Some e \<and> now < e \<and>
      getWorker (bp_workerId profile) d = Some w \<and> w_status w = Online \<and> \<not> w_drainMode w \<and>
      now - w_lastSeenAt w < maxAge \<and> u \<in> g_uuid ` set (w_gpus w) \<and>
      (bp_workerId profile, u) \<notin> set (listBlockedGpuResources d) \<and>
      set (listBlockedGpuResources d') = insert (bp_workerId profile, u) (set (listBlockedGpuResources d)) \<and>
      db_jobs d' = db_jobs d \<and> db_sessions d' = db_sessions d \<and> db_workers d' = db_workers d \<and>
      (\<exists>a. db_attempts d' = db_attempts d @ [a] \<and> a_attemptId a = br_attemptId input \<and>
         attempt_key a = (bp_workerId profile, u) \<and> a_fenceEpoch a = 1))"
proof -
  have "claims_ok d" using cp_reachable_ok [OF assms(1,2)] by (simp add: db_ok_def)
  then have res: "\<forall>f \<in> set (db_fences d). f_safetyState f = FenceReserved" by (simp add: claims_ok_def)
  from assms(3) show ?thesis
  proof (rule broker_reservation_cases)
    fix profile input stored u fences epoch
    assume row: "authenticateBroker profiles authorization = Some profile" "validateBrokerClaimRequest request = Inr input"
      "lookup_owner (br_subjectKind input) (br_subjectId input) d = Some stored"
      "ow_projectId stored = bp_projectId profile" "ow_live stored"
      "ow_workerId stored = Some (bp_workerId profile)" "ow_leaseId stored = Some (br_leaseId input)"
      "ow_gpuUuid stored = Some u" "\<exists>e. ow_leaseExpiresAt stored = Some e \<and> now < e"
      "\<exists>w. getWorker (bp_workerId profile) d = Some w \<and> w_status w = Online \<and> \<not> w_drainMode w \<and>
        now - w_lastSeenAt w < maxAge \<and> u \<in> g_uuid ` set (w_gpus w)"
      and r: "r = \<lparr>bv_attemptId = br_attemptId input, bv_fenceEpoch = epoch, bv_status = ''reserved-not-launchable'', bv_canLaunch = False\<rparr>"
      and up: "upsert_fence \<lparr>ec_subjectKind = br_subjectKind input, ec_subjectId = br_subjectId input, ec_leaseId = br_leaseId input,
           ec_workerId = bp_workerId profile, ec_gpuUuid = u, ec_attemptId = br_attemptId input,
           ec_artifactDigest = bp_artifactDigest profile, ec_adapterIdentity = bp_adapterIdentity profile,
           ec_runtimePolicyRevision = bp_runtimePolicyRevision profile, ec_approvalRef = bp_approvalRef profile,
           ec_now = now, ec_maxHeartbeatAgeMs = maxAge\<rparr> (db_fences d) = (Some epoch, fences)"
      and d': "d' = d\<lparr>db_fences := fences, db_attempts := db_attempts d @
       [\<lparr>a_attemptId = br_attemptId input, a_subjectKind = br_subjectKind input, a_subjectId = br_subjectId input,
         a_projectId = bp_projectId profile, a_leaseId = br_leaseId input, a_workerId = bp_workerId profile, a_gpuUuid = u,
         a_fenceEpoch = epoch, a_artifactDigest = bp_artifactDigest profile, a_adapterIdentity = bp_adapterIdentity profile,
         a_runtimePolicyRevision = bp_runtimePolicyRevision profile, a_approvalRef = bp_approvalRef profile,
         a_status = AttemptReserved, a_createdAt = now, a_updatedAt = now\<rparr>]\<rparr>"
    from upsert_fence_effect [OF res up] have e: "epoch = 1"
      and new: "(bp_workerId profile, u) \<notin> set (listBlockedGpuResources d)"
      and f: "fences = db_fences d @ [reserved_fence \<lparr>ec_subjectKind = br_subjectKind input, ec_subjectId = br_subjectId input,
           ec_leaseId = br_leaseId input, ec_workerId = bp_workerId profile, ec_gpuUuid = u, ec_attemptId = br_attemptId input,
           ec_artifactDigest = bp_artifactDigest profile, ec_adapterIdentity = bp_adapterIdentity profile,
           ec_runtimePolicyRevision = bp_runtimePolicyRevision profile, ec_approvalRef = bp_approvalRef profile,
           ec_now = now, ec_maxHeartbeatAgeMs = maxAge\<rparr> 1]"
      by (auto simp: set_listBlocked)
    have blocked: "set (listBlockedGpuResources d') = insert (bp_workerId profile, u) (set (listBlockedGpuResources d))"
      by (rule set_eqI) (auto simp: mem_listBlocked d' f reserved_fence_def fence_key_def)
    from row(9,10) obtain exp w where x: "ow_leaseExpiresAt stored = Some exp" "now < exp"
      and w: "getWorker (bp_workerId profile) d = Some w" "w_status w = Online" "\<not> w_drainMode w"
        "now - w_lastSeenAt w < maxAge" "u \<in> g_uuid ` set (w_gpus w)" by blast
    have "\<exists>a. db_attempts d' = db_attempts d @ [a] \<and> a_attemptId a = br_attemptId input \<and>
         attempt_key a = (bp_workerId profile, u) \<and> a_fenceEpoch a = 1"
      by (simp add: d' e attempt_key_def)
    moreover have "db_jobs d' = db_jobs d" "db_sessions d' = db_sessions d" "db_workers d' = db_workers d"
      by (simp_all add: d')
    ultimately show ?thesis using row(1-8) x w new blocked r e by auto
  qed
qed

text \<open>
  C14. A reservation holds its GPU for good: in every later state the fence of that worker and GPU
  blocks placement, and the same broker asking about the attempt reads that it is held.
\<close>

theorem reservation_held_forever:
  assumes "cp_reachable lc num cfg d" and "comparator lc"
    and "reserveBrokerBoundAttempt profiles authorization request now maxAge d = (Inr r, d1)"
    and "cp_steps lc num cfg d1 d2"
  shows "(\<exists>profile u. authenticateBroker profiles authorization = Some profile \<and>
      (bp_workerId profile, u) \<in> set (listBlockedGpuResources d2) \<and>
      (bp_workerId profile, u) \<notin> set (listBlockedGpuResources d)) \<and>
    observeBrokerBoundAttempt profiles authorization request d2 =
      Inr \<lparr>bo_attemptId = bv_attemptId r, bo_disposition = ''held'', bo_fenceEpoch = Some (bv_fenceEpoch r),
           bo_canLaunch = False, bo_canRelease = False, bo_evidenceVerified = False\<rparr>"
proof -
  have "claims_ok d" using cp_reachable_ok [OF assms(1,2)] by (simp add: db_ok_def)
  then have res: "\<forall>f \<in> set (db_fences d). f_safetyState f = FenceReserved" by (simp add: claims_ok_def)
  have reach1: "cp_reachable lc num cfg d1"
    using cp_steps.more [OF assms(1) cp_step.reserve] assms(3) by (metis snd_conv)
  from cp_steps_evolves [OF reach1 assms(4,2)] have ok2: "claims_ok d2" "fences_ok d2"
    and grow: "grows (=) (db_attempts d1) (db_attempts d2)" by (simp_all add: db_ok_def evolves_def)
  from assms(3) show ?thesis
  proof (rule broker_reservation_cases)
    fix profile input stored u fences epoch
    assume p: "authenticateBroker profiles authorization = Some profile" and i: "validateBrokerClaimRequest request = Inr input"
      and r: "r = \<lparr>bv_attemptId = br_attemptId input, bv_fenceEpoch = epoch, bv_status = ''reserved-not-launchable'', bv_canLaunch = False\<rparr>"
      and up: "upsert_fence \<lparr>ec_subjectKind = br_subjectKind input, ec_subjectId = br_subjectId input, ec_leaseId = br_leaseId input,
           ec_workerId = bp_workerId profile, ec_gpuUuid = u, ec_attemptId = br_attemptId input,
           ec_artifactDigest = bp_artifactDigest profile, ec_adapterIdentity = bp_adapterIdentity profile,
           ec_runtimePolicyRevision = bp_runtimePolicyRevision profile, ec_approvalRef = bp_approvalRef profile,
           ec_now = now, ec_maxHeartbeatAgeMs = maxAge\<rparr> (db_fences d) = (Some epoch, fences)"
      and d1: "d1 = d\<lparr>db_fences := fences, db_attempts := db_attempts d @
       [\<lparr>a_attemptId = br_attemptId input, a_subjectKind = br_subjectKind input, a_subjectId = br_subjectId input,
         a_projectId = bp_projectId profile, a_leaseId = br_leaseId input, a_workerId = bp_workerId profile, a_gpuUuid = u,
         a_fenceEpoch = epoch, a_artifactDigest = bp_artifactDigest profile, a_adapterIdentity = bp_adapterIdentity profile,
         a_runtimePolicyRevision = bp_runtimePolicyRevision profile, a_approvalRef = bp_approvalRef profile,
         a_status = AttemptReserved, a_createdAt = now, a_updatedAt = now\<rparr>]\<rparr>"
    from upsert_fence_effect [OF res up] have e: "epoch = 1" and new: "(bp_workerId profile, u) \<notin> set (listBlockedGpuResources d)"
      by (auto simp: set_listBlocked)
    have "last (db_attempts d1) \<in> set (db_attempts d1)" by (simp add: d1)
    from grows_mem [OF grow this] have mem: "last (db_attempts d1) \<in> set (db_attempts d2)" by simp
    then obtain a where a: "a \<in> set (db_attempts d2)" and cols: "a_attemptId a = br_attemptId input"
      "a_subjectKind a = br_subjectKind input" "a_subjectId a = br_subjectId input" "a_projectId a = bp_projectId profile"
      "a_leaseId a = br_leaseId input" "a_workerId a = bp_workerId profile" "a_gpuUuid a = u" "a_fenceEpoch a = 1"
      by (simp add: d1 e)
    from ok2(1) a obtain f where f: "f \<in> set (db_fences d2)" "fence_holds f a" by (auto simp: claims_ok_def)
    have "sql_get (filter (\<lambda>a. a_attemptId a = br_attemptId input \<and> a_workerId a = bp_workerId profile \<and>
        a_projectId a = bp_projectId profile \<and> a_subjectKind a = br_subjectKind input \<and>
        a_subjectId a = br_subjectId input \<and> a_leaseId a = br_leaseId input) (db_attempts d2)) = Some a"
      using ok2(1) a cols by (intro sql_get_key [where key = a_attemptId]) (auto simp: claims_ok_def)
    moreover have "sql_get (filter (\<lambda>f. f_workerId f = a_workerId a \<and> f_gpuUuid f = a_gpuUuid a) (db_fences d2)) = Some f"
      using ok2(2) f by (intro sql_get_key [where key = fence_key])
        (auto simp: fences_ok_def fence_holds_def fence_key_def attempt_key_def)
    ultimately have "observeExecutionAttempt input (bp_workerId profile) (bp_projectId profile) d2 = Some (a, Some f)"
      by (simp add: observeExecutionAttempt_def)
    moreover have "attempt_held (a, Some f)" using f(2) by (simp add: fence_holds_iff)
    moreover have "profiles \<noteq> []" using p by (auto simp: authenticateBroker_def split: jsval.splits if_splits)
    ultimately have "observeBrokerBoundAttempt profiles authorization request d2 =
      Inr \<lparr>bo_attemptId = bv_attemptId r, bo_disposition = ''held'', bo_fenceEpoch = Some (bv_fenceEpoch r),
           bo_canLaunch = False, bo_canRelease = False, bo_evidenceVerified = False\<rparr>"
      using p i cols(8) by (simp add: observeBrokerBoundAttempt_def r e max_safe_integer_def)
    moreover have "(bp_workerId profile, u) \<in> set (listBlockedGpuResources d2)"
      using f cols(6,7) by (auto simp: mem_listBlocked fence_holds_def fence_key_def attempt_key_def)
    ultimately show ?thesis using p new by blast
  qed
qed


subsection \<open>A concrete reservation\<close>

definition sample_profile :: broker_profile where
  "sample_profile = \<lparr>bp_brokerId = ''b'', bp_workerId = ''w1'', bp_projectId = ''p'', bp_token = ''t0123456789012345678901234567890x'',
     bp_artifactDigest = ''sha256:'' @ replicate 64 CHR ''a'', bp_adapterIdentity = ''ad'',
     bp_runtimePolicyRevision = ''r1'', bp_approvalRef = ''ok''\<rparr>"

definition sample_bearer :: jsval where
  "sample_bearer = JStr (''Bearer t0123456789012345678901234567890x'')"

definition sample_broker_request :: jsval where
  "sample_broker_request = JObj [(''schemaVersion'', JInt 1), (''subjectKind'', JStr ''job''), (''subjectId'', JStr ''job_j''),
     (''leaseId'', JStr ''lease_u''), (''attemptId'', JStr ''at1'')]"

definition run8 :: db where
  "run8 = snd (reserveBrokerBoundAttempt [sample_profile] sample_bearer sample_broker_request 4000 30000 run3)"

definition run9 :: db where
  "run9 = snd (cancelJob_tx ''job_j'' 5000 run8)"

lemma sample_reservation:
  "reserveBrokerBoundAttempt [sample_profile] sample_bearer sample_broker_request 4000 30000 run3 =
   (Inr \<lparr>bv_attemptId = ''at1'', bv_fenceEpoch = 1, bv_status = ''reserved-not-launchable'', bv_canLaunch = False\<rparr>, run8)"
proof -
  have "fst (reserveBrokerBoundAttempt [sample_profile] sample_bearer sample_broker_request 4000 30000 run3) =
    Inr \<lparr>bv_attemptId = ''at1'', bv_fenceEpoch = 1, bv_status = ''reserved-not-launchable'', bv_canLaunch = False\<rparr>"
    by code_simp
  then show ?thesis by (simp add: run8_def prod_eq_iff)
qed

lemma sample_broker: "authenticateBroker [sample_profile] sample_bearer = Some sample_profile"
  by code_simp

theorem reservation_authority_witness:
  "\<exists>u. (''w1'', u) \<in> set (listBlockedGpuResources run8) \<and> (''w1'', u) \<notin> set (listBlockedGpuResources run3)"
proof -
  have "bp_workerId sample_profile = ''w1''" by (simp add: sample_profile_def)
  with reservation_authority [OF run3_reachable code_units.comparator_axioms sample_reservation] sample_broker
  show ?thesis by auto
qed

theorem reservation_held_forever_witness:
  "(\<exists>o'. observeBrokerBoundAttempt [sample_profile] sample_bearer sample_broker_request run9 = Inr o' \<and>
     bo_disposition o' = ''held'')"
proof -
  have "cp_steps str_cmp num sample_service run8 run9"
    unfolding run9_def by (rule cp_steps.more [OF cp_steps.none cp_step.cancel_job])
  from reservation_held_forever [OF run3_reachable code_units.comparator_axioms sample_reservation this]
  show ?thesis by simp
qed


section \<open>What a data-plane grant stands for\<close>

text \<open>The claims of a grant issued for a session, as a function of the session and the clock.\<close>

definition issued_claims :: "string \<Rightarrow> session \<Rightarrow> int \<Rightarrow> int \<Rightarrow> string \<Rightarrow> grant_claims" where
  "issued_claims role s now expiresAt uuid =
     \<lparr>gc_role = role, gc_sessionId = s_id s, gc_workerId = the (s_assignedWorkerId s), gc_leaseId = the (s_leaseId s),
      gc_issuedAt = now, gc_expiresAt = expiresAt, gc_nonce = createId ''grant'' uuid\<rparr>"

lemma issueDataPlaneGrant_cases:
  assumes "issueDataPlaneGrant num hmac cfg uuid sessionId role input now d = Inr (token, expiresAt)"
  obtains s leaseExpiresAt where "role \<in> {''client'', ''worker''}" and "getSession sessionId d = Some s"
    and "session_allocated s" and "s_assignedWorkerId s \<noteq> None" and "s_leaseId s \<noteq> None"
    and "s_leaseExpiresAt s = Some leaseExpiresAt" and "now < expiresAt" and "expiresAt \<le> leaseExpiresAt"
    and "signDataPlaneGrant num hmac (claims_js (issued_claims role s now expiresAt uuid)) (cf_dataPlaneSigningKey cfg) = Inr token"
proof -
  from assms obtain s where role: "role = ''client'' \<or> role = ''worker''" and s: "getSession sessionId d = Some s" "session_allocated s"
    by (auto simp: issueDataPlaneGrant_def split: if_splits option.splits)
  obtain w ws l ls e where c: "s_assignedWorkerId s = Some (w # ws)" "s_leaseId s = Some (l # ls)"
      "safe_lease_expiry now (s_leaseExpiresAt s) = Some e"
    using assms role s by (auto simp: issueDataPlaneGrant_def split: if_splits option.splits list.splits)
  from assms role s c obtain ttl where x: "expiresAt = min (now + ttl) e" "\<not> expiresAt \<le> now"
    and sign: "signDataPlaneGrant num hmac (claims_js (issued_claims role s now expiresAt uuid)) (cf_dataPlaneSigningKey cfg) = Inr token"
    by (auto simp: issueDataPlaneGrant_def and_then_Inr Let_def issued_claims_def split: if_splits)
  from c(3) have "s_leaseExpiresAt s = Some e"
    by (auto simp: safe_lease_expiry_def split: option.splits if_splits)
  then show ?thesis
    by (intro that [of s e]) (use role s c(1,2) x sign in auto)
qed

lemma signed_claims_valid:
  assumes "signDataPlaneGrant num hmac (claims_js c) key = Inr token"
  shows "valid_claims c" and "validateDataPlaneGrantClaims (claims_js c) = Inr c" and "\<exists>k. key = JStr k"
proof -
  from assms obtain c' where c': "validateDataPlaneGrantClaims (claims_js c) = Inr c'" and k: "\<exists>k. key = JStr k"
    by (auto simp: signDataPlaneGrant_def result_simps)
  from c' have "c' = c"
    by (auto simp: validateDataPlaneGrantClaims_def claims_js_def result_simps split: list.splits if_splits)
  with c' validateDataPlaneGrantClaims_valid [OF c'] k show "valid_claims c"
    "validateDataPlaneGrantClaims (claims_js c) = Inr c" "\<exists>k. key = JStr k" by simp_all
qed

text \<open>
  C12. A grant that the service issues for a session is accepted by the relay for the same role
  until it expires, for as long as the session keeps the worker and lease it was issued for,
  and it never outlives that lease or 60 seconds.
\<close>

theorem issued_grant_authorizes:
  assumes "issueDataPlaneGrant num hmac cfg uuid sessionId role input now d = Inr (token, expiresAt)"
    and "getSession sessionId d = Some s"
    and digest: "\<And>k m. hmac k m \<noteq> []"
    and json: "decode (utf8_bytes (stringifyJson num (claims_js (issued_claims role s now expiresAt uuid)))) =
      Some (claims_js (issued_claims role s now expiresAt uuid))"
    and "now \<le> t" and "t < expiresAt"
    and "getSession sessionId d' = Some s'" and "session_occupying s'"
    and "session_allocation s' = session_allocation s"
    and "s_leaseExpiresAt s' = Some e" and "t' < e" and "\<bar>e\<bar> \<le> max_safe_integer"
  shows "authorizeDataPlaneGrant decode hmac cfg (JStr token) role t t' d' =
      Inr (Some (issued_claims role s now expiresAt uuid, s')) \<and>
    expiresAt \<le> now + 60000 \<and> (\<exists>l. s_leaseExpiresAt s = Some l \<and> expiresAt \<le> l)"
proof -
  let ?c = "issued_claims role s now expiresAt uuid"
  from assms(1) obtain l where role: "role \<in> {''client'', ''worker''}" and alloc: "s_assignedWorkerId s \<noteq> None" "s_leaseId s \<noteq> None"
    and l: "s_leaseExpiresAt s = Some l" "expiresAt \<le> l"
    and sign: "signDataPlaneGrant num hmac (claims_js ?c) (cf_dataPlaneSigningKey cfg) = Inr token"
    using assms(2) by (auto elim: issueDataPlaneGrant_cases)
  from signed_claims_valid [OF sign] obtain key where v: "valid_claims ?c"
    and id: "validateDataPlaneGrantClaims (claims_js ?c) = Inr ?c" and key: "cf_dataPlaneSigningKey cfg = JStr key" by blast
  have time: "0 \<le> t" "t \<le> max_safe_integer" using v assms(5,6) by (auto simp: valid_claims_def issued_claims_def)
  have "verifyDataPlaneGrant decode hmac (JStr token) (JStr key) t =
      Inr (if gc_issuedAt ?c \<le> t \<and> t < gc_expiresAt ?c then Some ?c else None)"
    using sign key by (intro signed_grant_verifies [where num = num] digest json time) simp
  then have "verifyDataPlaneGrant decode hmac (JStr token) (JStr key) t = Inr (Some ?c)"
    using assms(5,6) by (simp add: issued_claims_def)
  moreover have "s_id s = sessionId" using assms(2) by (auto simp: getSession_def dest: sql_get_filter_Some)
  ultimately have "authorizeDataPlaneGrant decode hmac cfg (JStr token) role t t' d' = Inr (Some (?c, s'))"
    using role key id assms(7-12) alloc
    by (auto simp: authorizeDataPlaneGrant_def authorizeDataPlaneAllocation_def validateDataPlaneRole_def
        issued_claims_def session_allocation_def session_occupying_def session_allocated_def safe_lease_expiry_def)
  with v l show ?thesis by (simp add: valid_claims_def issued_claims_def DATA_PLANE_GRANT_MAX_TTL_MS_def)
qed


definition sample_grant_claims :: grant_claims where
  "sample_grant_claims = \<lparr>gc_role = ''worker'', gc_sessionId = ''session_s'', gc_workerId = ''w1'', gc_leaseId = ''lease_u'',
     gc_issuedAt = 4000, gc_expiresAt = 19000, gc_nonce = ''grant_n''\<rparr>"

lemma sample_issue:
  "\<exists>token. issueDataPlaneGrant (\<lambda>_. []) sample_digest sample_service ''n'' ''session_s'' ''worker'' sample_lease_request 4000 run5 =
     Inr (token, 19000)"
proof -
  have valid: "valid_claims sample_grant_claims"
    by (simp add: valid_claims_def sample_grant_claims_def DATA_PLANE_GRANT_MAX_TTL_MS_def max_safe_integer_def)
  have "length (stringifyJson (\<lambda>_. []) (claims_js sample_grant_claims)) \<le> 300"
    by (simp add: sample_grant_claims_def claims_js_def json_string_def json_char_def json_number_def Let_def
        DATA_PLANE_GRANT_AUDIENCE_def string_of_int_def string_of_nat.simps)
  then obtain token where sign: "signDataPlaneGrant (\<lambda>_. []) sample_digest (claims_js sample_grant_claims) (JStr sample_key) = Inr token"
    using sign_short [OF valid _ sample_signature_length] by (simp add: sample_key_length)
  have "getSession ''session_s'' run5 = Some sample_allocated_session"
    by (simp add: getSession_def run5_eq sample_allocated_session_def)
  then show ?thesis
    using sign sample_lease_valid(1)
    by (simp add: issueDataPlaneGrant_def session_allocated_def sample_allocated_session_def safe_lease_expiry_def
        max_safe_integer_def worker_lease_check_def sample_lease_def grant_ttl_def sample_service_def
        sample_grant_claims_def createId_def)
qed

theorem issued_grant_authorizes_witness:
  "\<exists>token decode. authorizeDataPlaneGrant decode sample_digest sample_service (JStr token) ''worker'' 18999 18999 run5 =
     Inr (Some (sample_grant_claims, sample_allocated_session))"
proof -
  obtain token where i: "issueDataPlaneGrant (\<lambda>_. []) sample_digest sample_service ''n'' ''session_s'' ''worker'' sample_lease_request 4000 run5 =
     Inr (token, 19000)" using sample_issue by blast
  have s: "getSession ''session_s'' run5 = Some sample_allocated_session"
    by (simp add: getSession_def run5_eq sample_allocated_session_def)
  have c: "issued_claims ''worker'' sample_allocated_session 4000 19000 ''n'' = sample_grant_claims"
    by (simp add: issued_claims_def sample_allocated_session_def sample_grant_claims_def createId_def)
  have d: "sample_digest k m \<noteq> []" for k m by (simp add: sample_digest_def)
  have "session_occupying sample_allocated_session" and "s_leaseExpiresAt sample_allocated_session = Some 63000"
    by (simp_all add: session_occupying_def sample_allocated_session_def)
  with issued_grant_authorizes [OF i s d _ _ _ s, where decode = "\<lambda>_. Some (claims_js sample_grant_claims)" and t = 18999 and t' = 18999] c
  show ?thesis by (auto simp: max_safe_integer_def)
qed

text \<open>
  C11. The relay is shown an allocation only for a token signed under the configured key, inside
  its window, for the expected role, whose session currently occupies the worker and lease the
  token names, with the lease unexpired; for a session that has ended no token is ever accepted
  again, whatever steps follow.
\<close>

theorem grant_authority:
  assumes "cp_reachable lc num cfg d" and "comparator lc" and "cp_steps lc num cfg d d'"
    and "authorizeDataPlaneGrant decode hmac cfg token role t t' d' = Inr (Some (c, s))"
  shows "gc_role c = role \<and> gc_issuedAt c \<le> t \<and> t < gc_expiresAt c \<and> gc_expiresAt c \<le> gc_issuedAt c + 60000 \<and>
    (\<exists>key payload. cf_dataPlaneSigningKey cfg = JStr key \<and>
       token = JStr (TOKEN_PREFIX @ ''.'' @ payload @ ''.'' @ grant_signature hmac key payload)) \<and>
    s \<in> set (db_sessions d') \<and> s_id s = gc_sessionId c \<and> session_occupying s \<and>
    s_assignedWorkerId s = Some (gc_workerId c) \<and> s_leaseId s = Some (gc_leaseId c) \<and>
    (\<exists>e. s_leaseExpiresAt s = Some e \<and> t' < e) \<and>
    \<not> (\<exists>ended \<in> set (db_sessions d). s_id ended = gc_sessionId c \<and> session_terminal ended)"
proof -
  from assms(4) obtain v where verified: "verifyDataPlaneGrant decode hmac token (cf_dataPlaneSigningKey cfg) t = Inr (Some v)"
    and alloc: "authorizeDataPlaneAllocation (claims_js v) role t' d' = Inr (Some (c, s))"
    by (auto simp: authorizeDataPlaneGrant_def and_then_Inr split: option.splits)
  from verified obtain key payload where g: "cf_dataPlaneSigningKey cfg = JStr key"
      "token = JStr (TOKEN_PREFIX @ ''.'' @ payload @ ''.'' @ grant_signature hmac key payload)"
    and v: "valid_claims v" "gc_issuedAt v \<le> t" "t < gc_expiresAt v"
    by (rule verifyDataPlaneGrant_Some) auto
  from alloc have "validateDataPlaneGrantClaims (claims_js v) = Inr c"
    and a: "gc_role c = role" "getSession (gc_sessionId c) d' = Some s" "session_allocated s"
      "s_assignedWorkerId s = Some (gc_workerId c)" "s_leaseId s = Some (gc_leaseId c)"
      "\<exists>e. s_leaseExpiresAt s = Some e \<and> t' < e"
    by (auto simp: authorizeDataPlaneAllocation_def and_then_Inr safe_lease_expiry_def split: sum.splits option.splits if_splits)
  with validateDataPlaneGrantClaims_id [OF v(1)] have c: "c = v" by simp
  from a(2) have s: "s \<in> set (db_sessions d')" "s_id s = gc_sessionId c"
    by (auto simp: getSession_def dest: sql_get_filter_Some)
  have "\<not> session_terminal ended" if e: "ended \<in> set (db_sessions d)" "s_id ended = gc_sessionId c" for ended
  proof
    assume "session_terminal ended"
    moreover from cp_steps_evolves [OF assms(1,3,2)] have grow: "grows session_evolves (db_sessions d) (db_sessions d')"
      and u: "distinct (map s_id (db_sessions d'))" by (simp_all add: evolves_def db_ok_def sessions_ok_def)
    ultimately have "ended \<in> set (db_sessions d')"
      using grows_mem [OF grow e(1)] by (auto simp: session_evolves_def)
    then have "ended = s" using key_unique [OF u _ s(1)] e(2) s(2) by simp
    with \<open>session_terminal ended\<close> a(3) show False by (auto simp: session_terminal_def session_allocated_def)
  qed
  then show ?thesis
    using a g v s c by (auto simp: valid_claims_def session_allocated_def session_occupying_def DATA_PLANE_GRANT_MAX_TTL_MS_def)
qed


theorem grant_authority_witness: "s_id sample_allocated_session = gc_sessionId sample_grant_claims \<and> \<not> session_terminal sample_allocated_session"
proof -
  have v: "valid_claims sample_grant_claims"
    by (simp add: valid_claims_def sample_grant_claims_def DATA_PLANE_GRANT_MAX_TTL_MS_def max_safe_integer_def)
  have "verifyDataPlaneGrant (\<lambda>_. Some (claims_js sample_grant_claims)) sample_digest sample_token (JStr sample_key) 5000 =
      Inr (Some sample_grant_claims)"
    by (rule sample_verified [OF v]) (simp_all add: sample_grant_claims_def)
  moreover have "getSession ''session_s'' run5 = Some sample_allocated_session"
    by (simp add: getSession_def run5_eq sample_allocated_session_def)
  ultimately have "authorizeDataPlaneGrant (\<lambda>_. Some (claims_js sample_grant_claims)) sample_digest sample_service sample_token
      ''worker'' 5000 5000 run5 = Inr (Some (sample_grant_claims, sample_allocated_session))"
    using validateDataPlaneGrantClaims_id [OF v]
    by (simp add: authorizeDataPlaneGrant_def authorizeDataPlaneAllocation_def validateDataPlaneRole_def sample_service_def
        sample_grant_claims_def sample_allocated_session_def session_allocated_def safe_lease_expiry_def max_safe_integer_def)
  from grant_authority [OF run5_reachable code_units.comparator_axioms cp_steps.none this]
  show ?thesis by (auto simp: session_terminal_def session_occupying_def)
qed

section \<open>Who is let in\<close>

lemma utf8_bytes_Cons: "utf8_bytes (c # s) =
    (if (of_char c :: nat) < 128 then [c] else [char_of (192 + (of_char c :: nat) div 64), char_of (128 + (of_char c :: nat) mod 64)]) @ utf8_bytes s"
  by (simp add: utf8_bytes_def Let_def)

lemma utf8_bytes_Nil [simp]: "utf8_bytes s = [] \<longleftrightarrow> s = []"
  by (cases s) (simp add: utf8_bytes_def, simp add: utf8_bytes_Cons)

lemma utf8_bytes_inj: "utf8_bytes s = utf8_bytes t \<Longrightarrow> s = t"
proof (induction s arbitrary: t)
  case Nil
  then have "utf8_bytes t = []" by (simp add: utf8_bytes_def)
  then show ?case by simp
next
  case (Cons c s)
  then obtain c' s' where t: "t = c' # s'"
    by (cases t) (auto simp: utf8_bytes_Cons utf8_bytes_def [of "[]"] split: if_splits)
  let ?n = "of_char c :: nat" and ?m = "of_char c' :: nat"
  have byte: "char_of a = (char_of b :: char) \<longleftrightarrow> a = b" if "a < 256" "b < 256" for a b :: nat
    using that by (metis of_char_char_of)
  have quarter: "192 + k div 64 < 256 \<and> 128 + k mod 64 < 256" if "k < 256" for k :: nat
  proof -
    have "k div 64 < 4" by (rule less_mult_imp_div_less) (use that in simp)
    moreover have "k mod 64 < 64" by simp
    ultimately show ?thesis by linarith
  qed
  have n: "?n < 256" "192 + ?n div 64 < 256" "128 + ?n mod 64 < 256"
    and m: "?m < 256" "192 + ?m div 64 < 256" "128 + ?m mod 64 < 256"
    using quarter of_char_less [of c] of_char_less [of c'] by (fastforce intro: add_strict_left_mono)+
  have c: "c = char_of ?n" "c' = char_of ?m" by simp_all
  have "?n = ?m \<and> utf8_bytes s = utf8_bytes s'"
  proof (cases "?n < 128")
    case True
    with Cons.prems have "\<not> ?m < 128 \<Longrightarrow> c = char_of (192 + ?m div 64)" by (simp add: t utf8_bytes_Cons)
    then have "\<not> ?m < 128 \<Longrightarrow> ?n = 192 + ?m div 64" using c(1) byte [OF n(1) m(2)] by metis
    with True have "?m < 128" by linarith
    with True Cons.prems show ?thesis by (simp add: t utf8_bytes_Cons)
  next
    case False
    with Cons.prems have "?m < 128 \<Longrightarrow> c' = char_of (192 + ?n div 64)" by (simp add: t utf8_bytes_Cons)
    then have "?m < 128 \<Longrightarrow> ?m = 192 + ?n div 64" using c(2) byte [OF m(1) n(2)] by metis
    then have "\<not> ?m < 128" by linarith
    with False Cons.prems have "char_of (192 + ?n div 64) = (char_of (192 + ?m div 64) :: char)"
      "char_of (128 + ?n mod 64) = (char_of (128 + ?m mod 64) :: char)" "utf8_bytes s = utf8_bytes s'"
      by (simp_all add: t utf8_bytes_Cons)
    then have "?n div 64 = ?m div 64" "?n mod 64 = ?m mod 64" "utf8_bytes s = utf8_bytes s'"
      using byte [OF n(2) m(2)] byte [OF n(3) m(3)] by simp_all
    then show ?thesis by (metis div_mult_mod_eq)
  qed
  then show ?case using Cons.IH c t by metis
qed

text \<open>
  A request is let in exactly when it carries, as a bearer token, the configured token of
  one of the allowed scopes or of the administrator: no other header value passes, and an
  unset or empty token never does.
\<close>

theorem authenticate_iff:
  "authenticate cfg authorization allowedScopes \<longleftrightarrow>
     (\<exists>scope \<in> set (allowedScopes @ [''admin'']). \<exists>token. map_of (cf_tokens cfg) scope = Some token \<and> token \<noteq> [] \<and>
        authorization = JStr (''Bearer '' @ token))"
proof (cases authorization)
  case (JStr a)
  have b: "starts_with a ''Bearer '' \<longleftrightarrow> take 7 a = ''Bearer ''"
    by (simp add: starts_with_def eval_nat_numeral)
  have "take 7 a = ''Bearer '' \<and> drop 7 a = token \<longleftrightarrow> a = ''Bearer '' @ token" for token
    using append_take_drop_id [of 7 a] append_eq_conv_conj [of "''Bearer ''" token a] by (auto simp: eval_nat_numeral)
  then have "starts_with a ''Bearer '' \<and> drop 7 a = token \<longleftrightarrow> a = ''Bearer '' @ token" for token
    unfolding b .
  moreover have u: "utf8_bytes x = utf8_bytes y \<longleftrightarrow> x = y" for x y using utf8_bytes_inj by blast
  have "authenticate cfg authorization allowedScopes \<longleftrightarrow>
     (\<exists>scope \<in> set (allowedScopes @ [''admin'']). \<exists>token. map_of (cf_tokens cfg) scope = Some token \<and> token \<noteq> [] \<and>
        starts_with a ''Bearer '' \<and> drop 7 a = token)"
    unfolding authenticate_def JStr jsval.case Let_def list_ex_iff set_js_set u
    by (auto split: option.splits if_splits)
  ultimately show ?thesis unfolding JStr jsval.inject by (simp only:)
qed (simp_all add: authenticate_def)

end
