(* ===== verification/Passes.thy ===== *)
theory Passes
  imports ControlPlane
begin

text \<open>
  What one scheduler pass achieves. The placement loop is shown to refine a greedy allocation
  over the queue that never looks at the database; from it follow work conservation and the
  absence of priority inversion. The recovery phase is shown to leave no expired lease behind.
\<close>

section \<open>The greedy allocation\<close>

text \<open>The queue is served in order; each entry takes the best GPU not yet occupied.\<close>

fun greedy ::
  "(string \<Rightarrow> string \<Rightarrow> int) \<Rightarrow> scheduler_config \<Rightarrow> int \<Rightarrow> worker list \<Rightarrow> (string \<times> string) list \<Rightarrow> string list \<Rightarrow> pending list \<Rightarrow> (pending \<times> candidate option) list result" where
  "greedy lc cfg now workers blocked occupied [] = Inr []"
| "greedy lc cfg now workers blocked occupied (entry # rest) =
     and_then (choosePlacement lc cfg now (pending_workload entry) workers occupied blocked) (\<lambda>choice.
     and_then (greedy lc cfg now workers blocked
         (case choice of None \<Rightarrow> occupied | Some c \<Rightarrow> occupied @ [p_gpuUuid c]) rest) (\<lambda>placements.
     Inr ((entry, choice) # placements)))"

text \<open>The GPUs an allocation takes.\<close>

fun taken :: "(pending \<times> candidate option) list \<Rightarrow> string list" where
  "taken [] = []"
| "taken ((entry, None) # rest) = taken rest"
| "taken ((entry, Some c) # rest) = p_gpuUuid c # taken rest"

lemma taken_mem: "(e, Some c) \<in> set ps \<Longrightarrow> p_gpuUuid c \<in> set (taken ps)"
  by (induction ps rule: taken.induct) auto

lemma admissible_mono:
  "admissible cfg now wl r workers occupied blocked w g \<Longrightarrow> set occupied' \<subseteq> set occupied \<Longrightarrow>
   admissible cfg now wl r workers occupied' blocked w g"
  by (auto simp: admissible_def gpu_admissible_def)

lemma greedy_fresh:
  "greedy lc cfg now workers blocked occupied es = Inr ps \<Longrightarrow> (q, Some c) \<in> set ps \<Longrightarrow>
   p_gpuUuid c \<notin> set occupied \<and>
   (\<exists>r w g. wl_requirements (pending_workload q) = Some r \<and> c = make_candidate cfg r w g \<and>
      admissible cfg now (pending_workload q) r workers occupied blocked w g)"
proof (induction es arbitrary: occupied ps)
  case (Cons e es)
  from Cons.prems(1) obtain choice rest where
    ch: "choosePlacement lc cfg now (pending_workload e) workers occupied blocked = Inr choice"
    and g: "greedy lc cfg now workers blocked (case choice of None \<Rightarrow> occupied | Some c \<Rightarrow> occupied @ [p_gpuUuid c]) es = Inr rest"
    and ps: "ps = (e, choice) # rest" by (auto simp: result_simps)
  show ?case
  proof (cases "(q, Some c) \<in> set rest")
    case True
    have sub: "set occupied \<subseteq> set (case choice of None \<Rightarrow> occupied | Some c \<Rightarrow> occupied @ [p_gpuUuid c])"
      by (auto split: option.split)
    from Cons.IH [OF g True] obtain r w g where "p_gpuUuid c \<notin> set occupied" "wl_requirements (pending_workload q) = Some r"
      "c = make_candidate cfg r w g" and a: "admissible cfg now (pending_workload q) r workers
        (case choice of None \<Rightarrow> occupied | Some c \<Rightarrow> occupied @ [p_gpuUuid c]) blocked w g"
      using sub by blast
    with admissible_mono [OF a sub] show ?thesis by blast
  next
    case False
    with Cons.prems(2) ps have "q = e" "choice = Some c" by auto
    with ch obtain r w g where r: "wl_requirements (pending_workload q) = Some r" and c: "c = make_candidate cfg r w g"
      and a: "admissible cfg now (pending_workload q) r workers occupied blocked w g"
      by (auto elim: choosePlacement_Some)
    then have "p_gpuUuid c \<notin> set occupied"
      by (simp add: admissible_def gpu_admissible_def make_candidate_def)
    with r c a show ?thesis by blast
  qed
qed simp

text \<open>Nobody is left waiting while a GPU it could use stays free.\<close>

lemma greedy_conserving:
  "greedy lc cfg now workers blocked occupied es = Inr ps \<Longrightarrow> (e, None) \<in> set ps \<Longrightarrow>
   wl_requirements (pending_workload e) = Some r \<Longrightarrow>
   \<not> admissible cfg now (pending_workload e) r workers (occupied @ taken ps) blocked w g"
proof (induction es arbitrary: occupied ps)
  case (Cons x es)
  from Cons.prems(1) obtain choice rest where
    ch: "choosePlacement lc cfg now (pending_workload x) workers occupied blocked = Inr choice"
    and g: "greedy lc cfg now workers blocked (case choice of None \<Rightarrow> occupied | Some c \<Rightarrow> occupied @ [p_gpuUuid c]) es = Inr rest"
    and ps: "ps = (x, choice) # rest" by (auto simp: result_simps)
  show ?case
  proof (cases "(e, None) \<in> set rest")
    case True
    from Cons.IH [OF g True Cons.prems(3)] ps show ?thesis by (cases choice) simp_all
  next
    case False
    with Cons.prems(2) ps have "x = e" "choice = None" by auto
    with choosePlacement_None [OF _ Cons.prems(3)] ch have "\<not> admissible cfg now (pending_workload e) r workers occupied blocked w g" by blast
    then show ?thesis by (auto intro: admissible_mono)
  qed
qed simp

text \<open>A GPU given to a later entry was of no use to an earlier one that got none.\<close>

lemma greedy_order:
  "greedy lc cfg now workers blocked occupied es = Inr (xs @ (p, None) # ys) \<Longrightarrow> (q, Some c) \<in> set ys \<Longrightarrow>
   wl_requirements (pending_workload p) = Some r \<Longrightarrow> g_uuid g = p_gpuUuid c \<Longrightarrow>
   \<not> admissible cfg now (pending_workload p) r workers occupied blocked w g"
proof (induction xs arbitrary: occupied es)
  case Nil
  then obtain rest where ch: "choosePlacement lc cfg now (pending_workload p) workers occupied blocked = Inr None"
    by (cases es) (auto simp: result_simps)
  from choosePlacement_None [OF ch Nil.prems(3)] show ?case .
next
  case (Cons x xs)
  obtain e es' where es: "es = e # es'" using Cons.prems(1) by (cases es) auto
  with Cons.prems(1) have g: "greedy lc cfg now workers blocked
      (case snd x of None \<Rightarrow> occupied | Some c \<Rightarrow> occupied @ [p_gpuUuid c]) es' = Inr (xs @ (p, None) # ys)"
    by (auto simp: result_simps)
  have "p_gpuUuid c \<notin> set (case snd x of None \<Rightarrow> occupied | Some c \<Rightarrow> occupied @ [p_gpuUuid c])"
    using greedy_fresh [OF g, of q c] Cons.prems(2) by auto
  with Cons.IH [OF g Cons.prems(2-4)] Cons.prems(4) show ?case
    by (auto simp: admissible_def gpu_admissible_def split: option.splits)
qed

section \<open>The placement loop refines it\<close>

definition pending_in :: "pending \<Rightarrow> db \<Rightarrow> bool" where
  "pending_in p d = (case p of
     PendingJob j \<Rightarrow> j \<in> set (db_jobs d) \<and> j_status j = Queued
   | PendingSession s \<Rightarrow> s \<in> set (db_sessions d) \<and> s_status s = Requested)"

text \<open>The row of \<open>p\<close> now leases the placement \<open>c\<close> until the lease duration is over.\<close>

definition placed_in :: "scheduler_config \<Rightarrow> int \<Rightarrow> pending \<Rightarrow> candidate \<Rightarrow> db \<Rightarrow> bool" where
  "placed_in cfg now p c d = (case p of
     PendingJob j \<Rightarrow> (\<exists>uuid. j\<lparr>j_status := Leased, j_assignedWorkerId := Some (p_workerId c),
         j_assignedGpuUuid := Some (p_gpuUuid c), j_leaseId := Some (createId ''lease'' uuid),
         j_leaseExpiresAt := Some (now + sc_leaseDurationMs cfg), j_attempt := j_attempt j + 1,
         j_updatedAt := now\<rparr> \<in> set (db_jobs d))
   | PendingSession s \<Rightarrow> (\<exists>uuid. s\<lparr>s_status := Allocated, s_assignedWorkerId := Some (p_workerId c),
         s_assignedGpuUuid := Some (p_gpuUuid c), s_leaseId := Some (createId ''lease'' uuid),
         s_leaseExpiresAt := Some (now + sc_leaseDurationMs cfg), s_updatedAt := now\<rparr> \<in> set (db_sessions d)))"

text \<open>Rows that are not waiting stay.\<close>

definition settled_stay :: "db \<Rightarrow> db \<Rightarrow> bool" where
  "settled_stay d d' =
     ((\<forall>j \<in> set (db_jobs d). j_status j \<noteq> Queued \<longrightarrow> j \<in> set (db_jobs d')) \<and>
      (\<forall>s \<in> set (db_sessions d). s_status s \<noteq> Requested \<longrightarrow> s \<in> set (db_sessions d')))"

text \<open>A row is as before, or was leased just now on an online worker.\<close>

definition fresh_lease :: "scheduler_config \<Rightarrow> int \<Rightarrow> worker list \<Rightarrow> string option \<Rightarrow> int option \<Rightarrow> bool" where
  "fresh_lease cfg now workers workerId expires =
     (expires = Some (now + sc_leaseDurationMs cfg) \<and> (\<exists>w \<in> set workers. w_status w = Online \<and> workerId = Some (w_id w)))"

definition only_leases :: "scheduler_config \<Rightarrow> int \<Rightarrow> worker list \<Rightarrow> db \<Rightarrow> db \<Rightarrow> bool" where
  "only_leases cfg now workers d d' =
     ((\<forall>j \<in> set (db_jobs d'). j \<in> set (db_jobs d) \<or> fresh_lease cfg now workers (j_assignedWorkerId j) (j_leaseExpiresAt j)) \<and>
      (\<forall>s \<in> set (db_sessions d'). s \<in> set (db_sessions d) \<or> fresh_lease cfg now workers (s_assignedWorkerId s) (s_leaseExpiresAt s)))"

lemma only_leases_trans: "only_leases cfg now ws a b \<Longrightarrow> only_leases cfg now ws b c \<Longrightarrow> only_leases cfg now ws a c"
  unfolding only_leases_def by blast

lemma placed_stays: "placed_in cfg now p c d \<Longrightarrow> settled_stay d d' \<Longrightarrow> placed_in cfg now p c d'"
  by (cases p) (fastforce simp: placed_in_def settled_stay_def)+

lemma assignJob_row:
  assumes "db_ok d" and "pending_in (PendingJob j) d" and "assignJob (j_id j) p l e now d = Inr (leased, d1)"
  shows "leased = Some (j\<lparr>j_status := Leased, j_assignedWorkerId := Some (p_workerId p),
         j_assignedGpuUuid := Some (p_gpuUuid p), j_leaseId := Some l, j_leaseExpiresAt := Some e,
         j_attempt := j_attempt j + 1, j_updatedAt := now\<rparr>)"
    and "d1 = d\<lparr>db_jobs := map (\<lambda>x. if j_id x = j_id j then the leased else x) (db_jobs d)\<rparr>"
proof -
  have u: "distinct (map j_id (db_jobs d))" using assms(1) by (simp add: db_ok_def jobs_ok_def)
  have j: "j \<in> set (db_jobs d)" "j_status j = Queued" using assms(2) by (simp_all add: pending_in_def)
  let ?P = "\<lambda>x. j_id x = j_id j \<and> j_status x = Queued"
  let ?f = "\<lambda>x. x\<lparr>j_status := Leased, j_assignedWorkerId := Some (p_workerId p),
         j_assignedGpuUuid := Some (p_gpuUuid p), j_leaseId := Some l, j_leaseExpiresAt := Some e,
         j_attempt := j_attempt x + 1, j_updatedAt := now\<rparr>"
  have "sql_update ?P ?f (db_jobs d) = (map (\<lambda>x. if j_id x = j_id j then ?f j else x) (db_jobs d), [?f j])"
  proof (rule sql_update_key [OF u])
    fix r assume r: "r \<in> set (db_jobs d)" "?P r" "j_id r = j_id j"
      "sql_update ?P ?f (db_jobs d) = (map (\<lambda>x. if j_id x = j_id j then ?f r else x) (db_jobs d), [?f r])"
    from key_unique [OF u r(1) j(1)] r(2) have "r = j" by blast
    with r(4) show ?thesis by simp
  qed (use j in \<open>auto simp: filter_empty_conv\<close>)
  with assms(3) show "leased = Some (?f j)" and "d1 = d\<lparr>db_jobs := map (\<lambda>x. if j_id x = j_id j then the leased else x) (db_jobs d)\<rparr>"
    by (auto simp: assignJob_def split: if_splits)
qed

lemma assignSession_row:
  assumes "db_ok d" and "pending_in (PendingSession s) d" and "assignSession (s_id s) p l e now d = Inr (leased, d1)"
  shows "leased = Some (s\<lparr>s_status := Allocated, s_assignedWorkerId := Some (p_workerId p),
         s_assignedGpuUuid := Some (p_gpuUuid p), s_leaseId := Some l, s_leaseExpiresAt := Some e, s_updatedAt := now\<rparr>)"
    and "d1 = d\<lparr>db_sessions := map (\<lambda>x. if s_id x = s_id s then the leased else x) (db_sessions d)\<rparr>"
proof -
  have u: "distinct (map s_id (db_sessions d))" using assms(1) by (simp add: db_ok_def sessions_ok_def)
  have s: "s \<in> set (db_sessions d)" "s_status s = Requested" using assms(2) by (simp_all add: pending_in_def)
  let ?P = "\<lambda>x. s_id x = s_id s \<and> s_status x = Requested"
  let ?f = "\<lambda>x. x\<lparr>s_status := Allocated, s_assignedWorkerId := Some (p_workerId p),
         s_assignedGpuUuid := Some (p_gpuUuid p), s_leaseId := Some l, s_leaseExpiresAt := Some e, s_updatedAt := now\<rparr>"
  have "sql_update ?P ?f (db_sessions d) = (map (\<lambda>x. if s_id x = s_id s then ?f s else x) (db_sessions d), [?f s])"
  proof (rule sql_update_key [OF u])
    fix r assume r: "r \<in> set (db_sessions d)" "?P r" "s_id r = s_id s"
      "sql_update ?P ?f (db_sessions d) = (map (\<lambda>x. if s_id x = s_id s then ?f r else x) (db_sessions d), [?f r])"
    from key_unique [OF u r(1) s(1)] r(2) have "r = s" by blast
    with r(4) show ?thesis by simp
  qed (use s in \<open>auto simp: filter_empty_conv\<close>)
  with assms(3) show "leased = Some (?f s)" and "d1 = d\<lparr>db_sessions := map (\<lambda>x. if s_id x = s_id s then the leased else x) (db_sessions d)\<rparr>"
    by (auto simp: assignSession_def split: if_splits)
qed

lemma replaced_row:
  assumes "distinct (map key rows)" and "r \<in> set rows" and "key r' = key r"
  shows "x \<in> set (map (\<lambda>x. if key x = key r then r' else x) rows) \<longleftrightarrow> x = r' \<or> x \<in> set rows \<and> x \<noteq> r"
proof -
  have "x \<in> set rows \<Longrightarrow> key x = key r \<Longrightarrow> x = r" using key_unique [OF assms(1) _ assms(2)] by blast
  with assms(2,3) show ?thesis by auto
qed

lemma assign_entry_refines:
  assumes "assign_entry lc cfg now workers blocked uuid occupied e d = Inr ((gpu, leased), drew, d1)"
    and ok: "db_ok d" and occ: "set (occupied_gpus d) \<subseteq> set occupied" and pend: "pending_in e d"
  obtains choice where "choosePlacement lc cfg now (pending_workload e) workers occupied blocked = Inr choice"
    and "gpu = map_option p_gpuUuid choice"
    and "\<And>x. pending_in x d1 \<longleftrightarrow> pending_in x d \<and> (choice = None \<or> x \<noteq> e)"
    and "\<And>c. choice = Some c \<Longrightarrow> placed_in cfg now e c d1"
    and "settled_stay d d1" and "db_fences d1 = db_fences d" and "db_workers d1 = db_workers d"
    and "held d1 = mset (case gpu of None \<Rightarrow> [] | Some u \<Rightarrow> [u]) + held d"
    and "db_ok d1" and "only_leases cfg now workers d d1"
proof -
  have ok1: "db_ok d1" and w1: "db_workers d1 = db_workers d"
    using assign_entry_effect [OF assms(1) ok occ] by simp_all
  from assms(1) obtain choice where
    ch: "choosePlacement lc cfg now (pending_workload e) workers occupied blocked = Inr choice"
    by (auto simp: assign_entry_def result_simps)
  show ?thesis
  proof (cases choice)
    case None
    with assms(1) ch that [OF ch] ok show ?thesis by (simp add: assign_entry_def settled_stay_def only_leases_def)
  next
    case (Some p)
    with ch obtain r w g where "admissible cfg now (pending_workload e) r workers occupied blocked w g"
      and "p = make_candidate cfg r w g" "g_uuid g \<noteq> []"
      by (auto elim: choosePlacement_Some)
    then have u: "p_gpuUuid p \<noteq> []" "p_gpuUuid p \<notin> set (occupied_gpus d)"
      and on: "\<exists>w \<in> set workers. w_status w = Online \<and> p_workerId p = w_id w"
      using occ by (auto simp: admissible_def gpu_admissible_def make_candidate_def worker_eligible_def worker_live_def)
    show ?thesis
    proof (cases e)
      case (PendingJob j)
      from assms(1) ch Some obtain l d0 where
        a: "assignJob (j_id j) p (createId ''lease'' uuid) (now + sc_leaseDurationMs cfg) now d = Inr (l, d0)"
        and l: "gpu = map_option (\<lambda>_. p_gpuUuid p) l"
        and t: "db_jobs d1 = db_jobs d0" "db_sessions d1 = db_sessions d0" "db_fences d1 = db_fences d0" "held d1 = held d0"
        by (auto simp: assign_entry_def result_simps Let_def PendingJob split: option.splits)
      note row = assignJob_row [OF ok pend [unfolded PendingJob] a]
      have j: "j \<in> set (db_jobs d)" "j_status j = Queued" using pend by (simp_all add: pending_in_def PendingJob)
      have "db_jobs d1 = map (\<lambda>x. if j_id x = j_id j then the l else x) (db_jobs d)"
        unfolding t row(2) by simp
      then have mem: "x \<in> set (db_jobs d1) \<longleftrightarrow> x = the l \<or> x \<in> set (db_jobs d) \<and> x \<noteq> j" for x
        using ok j(1) row(1) by (simp only:) (rule replaced_row, simp_all add: db_ok_def jobs_ok_def)
      have s: "db_sessions d1 = db_sessions d" "db_fences d1 = db_fences d" unfolding t row(2) by simp_all
      have h: "held d1 = add_mset (p_gpuUuid p) (held d)"
        using assignJob_effect [OF ok a u] row(1) t(4) by simp
      have "j_status (the l) = Leased" by (simp add: row(1))
      then have "the l \<noteq> j" using j(2) by auto
      then show ?thesis
        by (intro that [OF ch])
          (use l row(1) mem s h ok1 w1 j Some on in \<open>auto simp: only_leases_def fresh_lease_def PendingJob pending_in_def placed_in_def settled_stay_def split: pending.splits\<close>)
    next
      case (PendingSession s)
      from assms(1) ch Some obtain l d0 where
        a: "assignSession (s_id s) p (createId ''lease'' uuid) (now + sc_leaseDurationMs cfg) now d = Inr (l, d0)"
        and l: "gpu = map_option (\<lambda>_. p_gpuUuid p) l"
        and t: "db_jobs d1 = db_jobs d0" "db_sessions d1 = db_sessions d0" "db_fences d1 = db_fences d0" "held d1 = held d0"
        by (auto simp: assign_entry_def result_simps Let_def PendingSession split: option.splits)
      note row = assignSession_row [OF ok pend [unfolded PendingSession] a]
      have s: "s \<in> set (db_sessions d)" "s_status s = Requested" using pend by (simp_all add: pending_in_def PendingSession)
      have "db_sessions d1 = map (\<lambda>x. if s_id x = s_id s then the l else x) (db_sessions d)"
        unfolding t row(2) by simp
      then have mem: "x \<in> set (db_sessions d1) \<longleftrightarrow> x = the l \<or> x \<in> set (db_sessions d) \<and> x \<noteq> s" for x
        using ok s(1) row(1) by (simp only:) (rule replaced_row, simp_all add: db_ok_def sessions_ok_def)
      have j: "db_jobs d1 = db_jobs d" "db_fences d1 = db_fences d" unfolding t row(2) by simp_all
      have h: "held d1 = add_mset (p_gpuUuid p) (held d)"
        using assignSession_effect [OF ok a u] row(1) t(4) by simp
      have "s_status (the l) = Allocated" by (simp add: row(1))
      then have "the l \<noteq> s" using s(2) by auto
      then show ?thesis
        by (intro that [OF ch])
          (use l row(1) mem j h ok1 w1 s Some on in \<open>auto simp: only_leases_def fresh_lease_def PendingSession pending_in_def placed_in_def settled_stay_def split: pending.splits\<close>)
    qed
  qed
qed

text \<open>The loop over the queue: exactly the greedy allocation is written to the tables.\<close>

lemma assign_pending_refines:
  "assign_pending lc cfg now workers blocked uuids k occupied es d = Inr (assigned, d') \<Longrightarrow>
   db_ok d \<Longrightarrow> set (occupied_gpus d) \<subseteq> set occupied \<Longrightarrow> distinct es \<Longrightarrow> \<forall>e \<in> set es. pending_in e d \<Longrightarrow>
   \<exists>ps. greedy lc cfg now workers blocked occupied es = Inr ps \<and>
     (\<forall>x. pending_in x d' \<longleftrightarrow> pending_in x d \<and> (\<forall>c. (x, Some c) \<notin> set ps)) \<and>
     (\<forall>q c. (q, Some c) \<in> set ps \<longrightarrow> placed_in cfg now q c d') \<and>
     settled_stay d d' \<and> db_fences d' = db_fences d \<and> db_workers d' = db_workers d \<and>
     held d' = mset (taken ps) + held d \<and> only_leases cfg now workers d d'"
proof (induction es arbitrary: k occupied d assigned)
  case Nil
  then show ?case by (simp add: settled_stay_def only_leases_def)
next
  case (Cons e es)
  from Cons.prems(1) obtain gpu leased drew d1 assigned' where
    a: "assign_entry lc cfg now workers blocked (uuids k) occupied e d = Inr ((gpu, leased), drew, d1)" and
    r: "assign_pending lc cfg now workers blocked uuids (if drew then Suc k else k)
         (case gpu of None \<Rightarrow> occupied | Some u \<Rightarrow> occupied @ [u]) es d1 = Inr (assigned', d')"
    by (auto simp: result_simps)
  have "pending_in e d" using Cons.prems(5) by simp
  from a Cons.prems(2,3) this show ?case
  proof (rule assign_entry_refines)
    fix choice
    assume ch: "choosePlacement lc cfg now (pending_workload e) workers occupied blocked = Inr choice"
      and gpu: "gpu = map_option p_gpuUuid choice"
      and pend: "\<And>x. pending_in x d1 \<longleftrightarrow> pending_in x d \<and> (choice = None \<or> x \<noteq> e)"
      and placed: "\<And>c. choice = Some c \<Longrightarrow> placed_in cfg now e c d1"
      and stay: "settled_stay d d1" and f: "db_fences d1 = db_fences d" and w: "db_workers d1 = db_workers d"
      and h: "held d1 = mset (case gpu of None \<Rightarrow> [] | Some u \<Rightarrow> [u]) + held d" and ok: "db_ok d1"
      and new: "only_leases cfg now workers d d1"
    let ?occ = "case choice of None \<Rightarrow> occupied | Some c \<Rightarrow> occupied @ [p_gpuUuid c]"
    have occ: "(case gpu of None \<Rightarrow> occupied | Some u \<Rightarrow> occupied @ [u]) = ?occ" by (simp add: gpu split: option.split)
    have "set (occupied_gpus d1) \<subseteq> set ?occ"
      using Cons.prems(3) h by (auto simp: set_occupied gpu split: option.splits)
    moreover have "\<forall>x \<in> set es. pending_in x d1" using Cons.prems(4,5) pend by auto
    ultimately obtain ps where ps: "greedy lc cfg now workers blocked ?occ es = Inr ps"
        "\<And>x. pending_in x d' \<longleftrightarrow> pending_in x d1 \<and> (\<forall>c. (x, Some c) \<notin> set ps)"
        "\<And>q c. (q, Some c) \<in> set ps \<Longrightarrow> placed_in cfg now q c d'"
        "settled_stay d1 d'" "db_fences d' = db_fences d1" "db_workers d' = db_workers d1"
        "held d' = mset (taken ps) + held d1" "only_leases cfg now workers d1 d'"
      using Cons.IH [OF r [unfolded occ] ok] Cons.prems(4) by auto
    have "greedy lc cfg now workers blocked occupied (e # es) = Inr ((e, choice) # ps)"
      using ch ps(1) by simp
    moreover have "settled_stay d d'" using stay ps(4) by (auto simp: settled_stay_def)
    moreover have "placed_in cfg now q c d'" if "(q, Some c) \<in> set ((e, choice) # ps)" for q c
      using that ps(3) placed_stays [OF placed ps(4)] by auto
    moreover have "held d' = mset (taken ((e, choice) # ps)) + held d"
      using ps(7) h by (cases choice) (simp_all add: gpu)
    ultimately show ?thesis using ps(2,5,6) pend f w only_leases_trans [OF new ps(8)] by (intro exI [of _ "(e, choice) # ps"]) auto
  qed
qed

section \<open>What a pass achieves\<close>

lemma set_pending_work: "x \<in> set (pending_work lc d) \<longleftrightarrow> pending_in x d"
  by (cases x) (auto simp: pending_work_def listQueuedJobs_def listRequestedSessions_def pending_in_def)

lemma distinct_pending_work: "db_ok d \<Longrightarrow> distinct (pending_work lc d)"
  by (auto simp: pending_work_def listQueuedJobs_def listRequestedSessions_def distinct_map inj_on_def
      db_ok_def jobs_ok_def sessions_ok_def)

lemma blocked_keys:
  assumes "db_ok d"
  shows "traverse (\<lambda>_ (w, g). resourceKey w g) 0 (listBlockedGpuResources d) = Inr (listBlockedGpuResources d)"
proof -
  have "traverse (\<lambda>_ (w, g). resourceKey w g) 0 (listBlockedGpuResources d) = Inr (map id (listBlockedGpuResources d))"
    using assms
    by (intro traverse_id) (auto simp: listBlockedGpuResources_def db_ok_def fences_ok_def claims_ok_def resourceKey_def)
  then show ?thesis by simp
qed

lemma greedy_queue: "greedy lc cfg now workers blocked occupied es = Inr ps \<Longrightarrow> map fst ps = es"
  by (induction es arbitrary: occupied ps) (auto simp: result_simps)

lemma pass_refines:
  assumes "db_ok d" and rec: "recovery_phase cfg now d = (stale, recoveries, d1)"
    and run: "runOnce lc cfg True uuids now d = (outcome, d')"
  obtains ps r where "outcome = Inr r" and "pr_staleWorkerIds r = stale"
    and "greedy lc cfg now (listWorkers d1) (listBlockedGpuResources d1) (occupied_gpus d1) (pending_work lc d1) = Inr ps"
    and "\<And>x. pending_in x d' \<longleftrightarrow> pending_in x d1 \<and> (\<forall>c. (x, Some c) \<notin> set ps)"
    and "\<And>q c. (q, Some c) \<in> set ps \<Longrightarrow> placed_in cfg now q c d'"
    and "settled_stay d1 d'" and "listBlockedGpuResources d' = listBlockedGpuResources d1"
    and "listWorkers d' = listWorkers d1" and "held d' = mset (taken ps) + held d1"
    and "db_ok d1" and "db_ok d'" and "only_leases cfg now (listWorkers d1) d1 d'" and "db_workers d' = db_workers d1"
proof -
  have ok1: "db_ok d1" using keeps_recovery_phase [OF rec] assms(1) by (simp add: keeps_def)
  from scheduler_pass_total [OF assms(1), of lc cfg True uuids now] obtain r d2 where
    p: "scheduler_pass lc cfg True uuids now d = Inr (r, d2)" by (auto simp: ok_iff)
  with run have o': "outcome = Inr r" "d2 = d'" by (simp_all add: runOnce_def transaction_def)
  with p rec obtain assigned where
    pl: "placement_phase lc cfg now uuids d1 = Inr (assigned, d')" and stale: "pr_staleWorkerIds r = stale"
    by (auto simp: scheduler_pass_def result_simps)
  then have a: "assign_pending lc cfg now (listWorkers d1) (listBlockedGpuResources d1) uuids 0 (occupied_gpus d1) (pending_work lc d1) d1
      = Inr (assigned, d')"
    by (simp add: placement_phase_def blocked_keys [OF ok1])
  from assign_pending_refines [OF a ok1 subset_refl distinct_pending_work [OF ok1]]
  obtain ps where ps: "greedy lc cfg now (listWorkers d1) (listBlockedGpuResources d1) (occupied_gpus d1) (pending_work lc d1) = Inr ps"
    "\<And>x. pending_in x d' \<longleftrightarrow> pending_in x d1 \<and> (\<forall>c. (x, Some c) \<notin> set ps)"
    "\<And>q c. (q, Some c) \<in> set ps \<Longrightarrow> placed_in cfg now q c d'"
    "settled_stay d1 d'" "db_fences d' = db_fences d1" "db_workers d' = db_workers d1" "held d' = mset (taken ps) + held d1"
    "only_leases cfg now (listWorkers d1) d1 d'"
    by (auto simp: set_pending_work)
  moreover have "listBlockedGpuResources d' = listBlockedGpuResources d1" "listWorkers d' = listWorkers d1"
    using ps(5,6) by (simp_all add: listBlockedGpuResources_def listWorkers_def)
  moreover have "db_ok d'" using assign_pending_effect [OF a ok1 subset_refl] by simp
  ultimately show ?thesis using that o'(1) stale ok1 by blast
qed

text \<open>
  C6. A pass on a reachable state never throws, and its placement phase is exactly the greedy
  allocation of the queue over the workers, fences and occupied GPUs read after recovery: an
  entry stays queued just when the allocation gives it nothing, every entry it places is leased
  with that worker and GPU for the lease duration, rows that were not queued stay as they are,
  and the GPUs occupied afterwards are those occupied before and those taken.
\<close>

theorem pass_refines_greedy:
  assumes "cp_reachable lc num cfg d" and "comparator lc"
    and "recovery_phase (cf_scheduler cfg) now d = (stale, recoveries, d1)"
    and "runOnce lc (cf_scheduler cfg) True uuids now d = (outcome, d')"
  shows "\<exists>r ps. outcome = Inr r \<and>
    greedy lc (cf_scheduler cfg) now (listWorkers d1) (listBlockedGpuResources d1) (occupied_gpus d1) (pending_work lc d1) = Inr ps \<and>
    map fst ps = pending_work lc d1 \<and>
    (\<forall>x. pending_in x d' \<longleftrightarrow> pending_in x d1 \<and> (\<forall>c. (x, Some c) \<notin> set ps)) \<and>
    (\<forall>q c. (q, Some c) \<in> set ps \<longrightarrow> placed_in (cf_scheduler cfg) now q c d') \<and>
    settled_stay d1 d' \<and> mset (occupied_gpus d') = mset (taken ps) + mset (occupied_gpus d1)"
  using cp_reachable_ok [OF assms(1,2)] assms(3,4)
proof (rule pass_refines)
  fix ps r
  assume "outcome = Inr r"
    and "greedy lc (cf_scheduler cfg) now (listWorkers d1) (listBlockedGpuResources d1) (occupied_gpus d1) (pending_work lc d1) = Inr ps"
    and "\<And>x. pending_in x d' \<longleftrightarrow> pending_in x d1 \<and> (\<forall>c. (x, Some c) \<notin> set ps)"
    and "\<And>q c. (q, Some c) \<in> set ps \<Longrightarrow> placed_in (cf_scheduler cfg) now q c d'"
    and "settled_stay d1 d'" and "held d' = mset (taken ps) + held d1"
  then show ?thesis using greedy_queue by (fastforce simp: occupied_held)
qed

text \<open>
  C8. A pass is work conserving: after it, no job or session is left waiting for which a worker
  could serve it now, that is, has a GPU that is not occupied, not fenced, with enough memory,
  on a live worker with the capabilities and the ready adapter it asks for.
\<close>

theorem pass_work_conserving:
  assumes "cp_reachable lc num cfg d" and "comparator lc"
    and "runOnce lc (cf_scheduler cfg) True uuids now d = (outcome, d')"
    and "pending_in x d'" and "wl_requirements (pending_workload x) = Some r"
  shows "\<not> admissible (cf_scheduler cfg) now (pending_workload x) r (listWorkers d') (occupied_gpus d')
    (listBlockedGpuResources d') w g"
proof -
  obtain stale recoveries d1 where rec: "recovery_phase (cf_scheduler cfg) now d = (stale, recoveries, d1)"
    by (cases "recovery_phase (cf_scheduler cfg) now d")
  from cp_reachable_ok [OF assms(1,2)] rec assms(3) show ?thesis
  proof (rule pass_refines)
    fix ps
    assume g: "greedy lc (cf_scheduler cfg) now (listWorkers d1) (listBlockedGpuResources d1) (occupied_gpus d1) (pending_work lc d1) = Inr ps"
      and iff: "\<And>x. pending_in x d' \<longleftrightarrow> pending_in x d1 \<and> (\<forall>c. (x, Some c) \<notin> set ps)"
      and eqs: "listBlockedGpuResources d' = listBlockedGpuResources d1" "listWorkers d' = listWorkers d1"
      and h: "held d' = mset (taken ps) + held d1"
    from iff assms(4) have "x \<in> set (map fst ps)" and none: "\<forall>c. (x, Some c) \<notin> set ps"
      using greedy_queue [OF g] by (auto simp: set_pending_work)
    then obtain choice where "(x, choice) \<in> set ps" by auto
    with none have "(x, None) \<in> set ps" by (cases choice) auto
    moreover have "set (occupied_gpus d1 @ taken ps) \<subseteq> set (occupied_gpus d')"
      using h by (auto simp: set_occupied)
    ultimately show ?thesis
      unfolding eqs using greedy_conserving [OF g _ assms(5)] admissible_mono by blast
  qed
qed


lemma before_in_queue:
  assumes "comparator cmp" and "sorted_wrt (\<lambda>a b. cmp a b \<le> 0) (map fst ps)" and "(p, a) \<in> set ps" and "(q, b) \<in> set ps"
    and "cmp p q < 0"
  obtains xs ys where "ps = xs @ (p, a) # ys" and "(q, b) \<in> set ys"
proof -
  from assms(3) obtain xs ys where ps: "ps = xs @ (p, a) # ys" by (auto simp: in_set_conv_decomp)
  have "\<not> cmp q p \<le> 0" using assms(5) comparator.antisym [OF assms(1), of q p] by linarith
  moreover have "cmp q' p \<le> 0" if "(q', b') \<in> set xs" for q' b'
    using assms(2) that unfolding ps by (fastforce simp: sorted_wrt_append)
  moreover have "cmp p p = 0" by (rule comparator.refl [OF assms(1)])
  ultimately have "(q, b) \<in> set ys" using assms(4,5) ps by auto
  with that ps show ?thesis by blast
qed

lemma placed_pending: "db_ok d \<Longrightarrow> placed_in cfg now q c d \<Longrightarrow> \<not> pending_in q d"
proof (cases q)
  case (PendingJob j)
  assume ok: "db_ok d" and "placed_in cfg now q c d"
  then obtain j' where j': "j' \<in> set (db_jobs d)" "j_id j' = j_id j" "j_status j' = Leased"
    by (force simp: placed_in_def PendingJob)
  show ?thesis
  proof
    assume "pending_in q d"
    then have j: "j \<in> set (db_jobs d)" "j_status j = Queued" by (simp_all add: pending_in_def PendingJob)
    have "j' = j" using ok j'(1,2) j(1) by (intro key_unique [of j_id "db_jobs d"]) (simp_all add: db_ok_def jobs_ok_def)
    with j'(3) j(2) show False by simp
  qed
next
  case (PendingSession s)
  assume ok: "db_ok d" and "placed_in cfg now q c d"
  then obtain s' where s': "s' \<in> set (db_sessions d)" "s_id s' = s_id s" "s_status s' = Allocated"
    by (force simp: placed_in_def PendingSession)
  show ?thesis
  proof
    assume "pending_in q d"
    then have s: "s \<in> set (db_sessions d)" "s_status s = Requested" by (simp_all add: pending_in_def PendingSession)
    have "s' = s" using ok s'(1,2) s(1) by (intro key_unique [of s_id "db_sessions d"]) (simp_all add: db_ok_def sessions_ok_def)
    with s'(3) s(2) show False by simp
  qed
qed

lemma placed_unique:
  assumes "db_ok d" and "placed_in cfg now q c d" and "placed_in cfg now q c' d"
  shows "p_gpuUuid c = p_gpuUuid c'"
proof (cases q)
  case (PendingJob j)
  with assms(2,3) obtain a b where "a \<in> set (db_jobs d)" "b \<in> set (db_jobs d)" "j_id a = j_id b"
    "j_assignedGpuUuid a = Some (p_gpuUuid c)" "j_assignedGpuUuid b = Some (p_gpuUuid c')"
    by (force simp: placed_in_def)
  moreover from this have "a = b" using assms(1) by (intro key_unique [of j_id "db_jobs d"]) (simp_all add: db_ok_def jobs_ok_def)
  ultimately show ?thesis by simp
next
  case (PendingSession s)
  with assms(2,3) obtain a b where "a \<in> set (db_sessions d)" "b \<in> set (db_sessions d)" "s_id a = s_id b"
    "s_assignedGpuUuid a = Some (p_gpuUuid c)" "s_assignedGpuUuid b = Some (p_gpuUuid c')"
    by (force simp: placed_in_def)
  moreover from this have "a = b" using assms(1) by (intro key_unique [of s_id "db_sessions d"]) (simp_all add: db_ok_def sessions_ok_def)
  ultimately show ?thesis by simp
qed

lemma comparePendingWork_comparator:
  assumes "comparator lc"
  shows "comparator (comparePendingWork lc)"
  unfolding comparePendingWork_def
  by (intro comparator_or_else comparator_diff comparator_diff_desc
      comparator_on [OF assms, of pending_id] comparator_on [OF assms, of pending_kind])

text \<open>
  A pass never inverts priorities: if an entry strictly before another in the queue's order
  (priority, age, id) is left waiting while the later one is given a GPU, then that GPU was not
  admissible for the earlier entry in the first place.
\<close>

theorem no_priority_inversion:
  assumes "cp_reachable lc num cfg d" and "comparator lc"
    and "recovery_phase (cf_scheduler cfg) now d = (stale, recoveries, d1)"
    and "runOnce lc (cf_scheduler cfg) True uuids now d = (outcome, d')"
    and "pending_in p d'" and "pending_in q d1" and "placed_in (cf_scheduler cfg) now q c d'"
    and "comparePendingWork lc p q < 0"
    and "wl_requirements (pending_workload p) = Some r" and "g_uuid g = p_gpuUuid c"
  shows "\<not> admissible (cf_scheduler cfg) now (pending_workload p) r (listWorkers d1) (occupied_gpus d1)
    (listBlockedGpuResources d1) w g"
  using cp_reachable_ok [OF assms(1,2)] assms(3,4)
proof (rule pass_refines)
  fix ps
  assume g: "greedy lc (cf_scheduler cfg) now (listWorkers d1) (listBlockedGpuResources d1) (occupied_gpus d1) (pending_work lc d1) = Inr ps"
    and iff: "\<And>x. pending_in x d' \<longleftrightarrow> pending_in x d1 \<and> (\<forall>c. (x, Some c) \<notin> set ps)"
    and placed: "\<And>q c. (q, Some c) \<in> set ps \<Longrightarrow> placed_in (cf_scheduler cfg) now q c d'"
    and ok: "db_ok d'"
  have queue: "map fst ps = pending_work lc d1" by (rule greedy_queue [OF g])
  then have mem: "\<exists>a. (x, a) \<in> set ps" if "pending_in x d1" for x
    using that set_pending_work [of x lc d1] by (metis (no_types) in_set_zipE list.set_map imageE prod.collapse)
  from mem iff assms(5) have p: "(p, None) \<in> set ps" by (metis not_None_eq)
  from mem [OF assms(6)] obtain b where b: "(q, b) \<in> set ps" by blast
  have "b \<noteq> None"
  proof
    assume "b = None"
    have "distinct (map fst ps)" unfolding queue
      by (rule distinct_pending_work) (use keeps_recovery_phase [OF assms(3)] cp_reachable_ok [OF assms(1,2)] in \<open>simp add: keeps_def\<close>)
    with b \<open>b = None\<close> have "\<forall>c. (q, Some c) \<notin> set ps" by (metis eq_key_imp_eq_value option.distinct(1))
    with iff assms(6) have "pending_in q d'" by blast
    with placed_pending [OF ok assms(7)] show False by blast
  qed
  then obtain c' where c': "(q, Some c') \<in> set ps" using b by auto
  have same: "g_uuid g = p_gpuUuid c'"
    using placed_unique [OF ok assms(7) placed [OF c']] assms(10) by simp
  have "sorted_wrt (\<lambda>a b. comparePendingWork lc a b \<le> 0) (map fst ps)"
    unfolding queue pending_work_def by (rule comparator.sorted_js_sort [OF comparePendingWork_comparator [OF assms(2)]])
  from comparePendingWork_comparator [OF assms(2)] this p c' assms(8)
  obtain xs ys where "ps = xs @ (p, None) # ys" "(q, Some c') \<in> set ys" by (rule before_in_queue)
  with greedy_order [of lc _ now _ _ _ _ xs p ys q c' r g w] g assms(9) same show ?thesis by blast
qed


section \<open>What recovery does\<close>

definition recovered_job :: "int \<Rightarrow> job \<Rightarrow> job" where
  "recovered_job now j =
     j\<lparr>j_status := (if j_maxAttempts j \<le> j_attempt j then Failed else Queued), j_assignedWorkerId := None,
       j_assignedGpuUuid := None, j_leaseId := None, j_leaseExpiresAt := None,
       j_error := (if j_maxAttempts j \<le> j_attempt j
         then Some (JObj [(''code'', JStr ''lease_exhausted''), (''message'', JStr ''Job exhausted its execution attempts'')])
         else None),
       j_updatedAt := now\<rparr>"

definition recovered_session :: "int \<Rightarrow> session \<Rightarrow> session" where
  "recovered_session now s =
     s\<lparr>s_status := (if s_interruptionCount s + 1 \<le> s_maxInterruptions s then Requested else Interrupted),
       s_interruptionCount := s_interruptionCount s + 1, s_assignedWorkerId := None,
       s_assignedGpuUuid := None, s_leaseId := None, s_leaseExpiresAt := None, s_updatedAt := now\<rparr>"

lemma recoverJobs_map:
  "distinct (map j_id (db_jobs d)) \<Longrightarrow> distinct (map j_id js) \<Longrightarrow> set js \<subseteq> {j \<in> set (db_jobs d). job_active j} \<Longrightarrow>
   snd (recoverJobs now offline js d) = d\<lparr>db_jobs := map (\<lambda>j. if j \<in> set js then recovered_job now j else j) (db_jobs d)\<rparr>"
proof (induction js arbitrary: d)
  case (Cons job rest)
  let ?P = "\<lambda>j. j_id j = j_id job \<and> j_status j \<in> {Leased, Running}"
  let ?f = "\<lambda>j. j\<lparr>j_status := (if j_maxAttempts job \<le> j_attempt job then Failed else Queued), j_assignedWorkerId := None,
       j_assignedGpuUuid := None, j_leaseId := None, j_leaseExpiresAt := None,
       j_error := (if j_maxAttempts job \<le> j_attempt job then Some (JObj [(''code'', JStr ''lease_exhausted''),
                                  (''message'', JStr ''Job exhausted its execution attempts'')])
                 else None), j_updatedAt := now\<rparr>"
  have job: "job \<in> set (db_jobs d)" "?P job" using Cons.prems(3) by (auto simp: job_active_def)
  have only: "j = job" if "j \<in> set (db_jobs d)" "j_id j = j_id job" for j
    using key_unique [OF Cons.prems(1) that(1) job(1) that(2)] .
  have rows: "fst (sql_update ?P ?f (db_jobs d)) = map (\<lambda>j. if j = job then recovered_job now j else j) (db_jobs d)"
    unfolding sql_update_fst by (rule map_cong [OF refl]) (use only job in \<open>auto simp: recovered_job_def\<close>)
  let ?d = "d\<lparr>db_jobs := fst (sql_update ?P ?f (db_jobs d))\<rparr>"
  have other: "j_id x \<noteq> j_id job" if "x \<in> set rest" for x
    using that Cons.prems(2) by (metis distinct.simps(2) image_eqI list.simps(9) list.set_map)
  have ids: "distinct (map j_id (db_jobs ?d))"
    using Cons.prems(1) by (simp add: sql_update_keys)
  have sub: "set rest \<subseteq> {j \<in> set (db_jobs ?d). job_active j}"
    using Cons.prems(3) other rows by fastforce
  have nr: "recovered_job now job \<notin> set rest" using other [of "recovered_job now job"] by (auto simp: recovered_job_def)
  have "snd (recoverJobs now offline (job # rest) d) = snd (recoverJobs now offline rest ?d)"
    unfolding recoverJobs.simps Let_def case_prod_unfold by (simp only: snd_conv split: option.split) simp
  also have "\<dots> = ?d\<lparr>db_jobs := map (\<lambda>j. if j \<in> set rest then recovered_job now j else j) (db_jobs ?d)\<rparr>"
    using Cons.IH [OF ids _ sub] Cons.prems(2) by simp
  also have "\<dots> = d\<lparr>db_jobs := map (\<lambda>j. if j \<in> set (job # rest) then recovered_job now j else j) (db_jobs d)\<rparr>"
    using rows nr by (auto simp: recovered_job_def)
  finally show ?case .
qed simp

lemma recoverSessions_map:
  "distinct (map s_id (db_sessions d)) \<Longrightarrow> distinct (map s_id ss) \<Longrightarrow> set ss \<subseteq> {s \<in> set (db_sessions d). session_occupying s} \<Longrightarrow>
   snd (recoverSessions now offline ss d) =
     d\<lparr>db_sessions := map (\<lambda>s. if s \<in> set ss then recovered_session now s else s) (db_sessions d)\<rparr>"
proof (induction ss arbitrary: d)
  case (Cons session rest)
  let ?P = "\<lambda>s. s_id s = s_id session \<and> s_status s \<in> {Allocated, Connecting, Active}"
  let ?f = "\<lambda>s. s\<lparr>s_status := (if s_interruptionCount session + 1 \<le> s_maxInterruptions session then Requested else Interrupted),
       s_interruptionCount := s_interruptionCount session + 1, s_assignedWorkerId := None,
       s_assignedGpuUuid := None, s_leaseId := None, s_leaseExpiresAt := None, s_updatedAt := now\<rparr>"
  have session: "session \<in> set (db_sessions d)" "?P session" using Cons.prems(3) by (auto simp: session_occupying_def)
  have only: "s = session" if "s \<in> set (db_sessions d)" "s_id s = s_id session" for s
    using key_unique [OF Cons.prems(1) that(1) session(1) that(2)] .
  have rows: "fst (sql_update ?P ?f (db_sessions d)) = map (\<lambda>s. if s = session then recovered_session now s else s) (db_sessions d)"
    unfolding sql_update_fst by (rule map_cong [OF refl]) (use only session in \<open>auto simp: recovered_session_def\<close>)
  let ?d = "d\<lparr>db_sessions := fst (sql_update ?P ?f (db_sessions d))\<rparr>"
  have other: "s_id x \<noteq> s_id session" if "x \<in> set rest" for x
    using that Cons.prems(2) by (metis distinct.simps(2) image_eqI list.simps(9) list.set_map)
  have ids: "distinct (map s_id (db_sessions ?d))"
    using Cons.prems(1) by (simp add: sql_update_keys)
  have sub: "set rest \<subseteq> {s \<in> set (db_sessions ?d). session_occupying s}"
    using Cons.prems(3) other rows by fastforce
  have nr: "recovered_session now session \<notin> set rest" using other [of "recovered_session now session"] by (auto simp: recovered_session_def)
  have "snd (recoverSessions now offline (session # rest) d) = snd (recoverSessions now offline rest ?d)"
    unfolding recoverSessions.simps Let_def case_prod_unfold by (simp only: snd_conv split: option.split) simp
  also have "\<dots> = ?d\<lparr>db_sessions := map (\<lambda>s. if s \<in> set rest then recovered_session now s else s) (db_sessions ?d)\<rparr>"
    using Cons.IH [OF ids _ sub] Cons.prems(2) by simp
  also have "\<dots> = d\<lparr>db_sessions := map (\<lambda>s. if s \<in> set (session # rest) then recovered_session now s else s) (db_sessions d)\<rparr>"
    using rows nr by (auto simp: recovered_session_def)
  finally show ?case .
qed simp


lemma offline_events_frame [simp]:
  "db_workers (offline_events now ws d) = db_workers d" "db_jobs (offline_events now ws d) = db_jobs d"
  "db_sessions (offline_events now ws d) = db_sessions d"
  by (induction ws arbitrary: d) simp_all

lemma job_recovery_events_frame [simp]:
  "db_workers (job_recovery_events now rs d) = db_workers d" "db_jobs (job_recovery_events now rs d) = db_jobs d"
  "db_sessions (job_recovery_events now rs d) = db_sessions d"
  by (induction now rs d rule: job_recovery_events.induct) simp_all

lemma session_recovery_events_frame [simp]:
  "db_workers (session_recovery_events now rs d) = db_workers d" "db_jobs (session_recovery_events now rs d) = db_jobs d"
  "db_sessions (session_recovery_events now rs d) = db_sessions d"
  by (induction now rs d rule: session_recovery_events.induct) (simp_all add: Let_def)

definition stale_worker :: "scheduler_config \<Rightarrow> int \<Rightarrow> worker \<Rightarrow> bool" where
  "stale_worker cfg now w = (w_status w = Online \<and> sc_heartbeatTimeoutMs cfg < now - w_lastSeenAt w)"

section \<open>What recovery writes to the event log\<close>

text \<open>
  An event before it has a sequence number: type, subject, payload. \<open>append_all\<close> appends them one
  after another; \<open>numbered\<close> are the rows that makes.
\<close>

type_synonym announcement = "string \<times> string \<times> jsval"

fun append_all :: "int \<Rightarrow> announcement list \<Rightarrow> db \<Rightarrow> db" where
  "append_all now [] d = d"
| "append_all now ((t, s, p) # rest) d = append_all now rest (snd (appendEvent t s p now d))"

fun numbered :: "int \<Rightarrow> int \<Rightarrow> announcement list \<Rightarrow> event list" where
  "numbered now n [] = []"
| "numbered now n ((t, s, p) # rest) =
     \<lparr>ev_sequence = n + 1, ev_type = t, ev_subjectId = s, ev_payload = nullish p JNull, ev_createdAt = now\<rparr>
       # numbered now (n + 1) rest"

lemma append_all_append: "append_all now (xs @ ys) d = append_all now ys (append_all now xs d)"
  by (induction xs arbitrary: d) auto

lemma append_all_frame [simp]:
  "db_workers (append_all now xs d) = db_workers d" "db_jobs (append_all now xs d) = db_jobs d"
  "db_sessions (append_all now xs d) = db_sessions d" "db_fences (append_all now xs d) = db_fences d"
  "db_attempts (append_all now xs d) = db_attempts d"
  by (induction xs arbitrary: d) auto

lemma append_all_last: "db_lastSequence (append_all now xs d) = db_lastSequence d + int (length xs)"
  by (induction now xs d rule: append_all.induct) (simp_all add: appendEvent_def Let_def)

lemma append_all_ok: "events_ok d \<Longrightarrow> events_ok (append_all now xs d)"
proof (induction now xs d rule: append_all.induct)
  case (2 now t s p rest d)
  then show ?case using appendEvent_effect [OF HOL.refl 2(2), of t s p now] by simp
qed simp

lemma appendEvent_rows:
  assumes "events_ok d"
  shows "db_events (snd (appendEvent t s p now d)) =
    filter (\<lambda>e. db_lastSequence d + 1 - event_retention < ev_sequence e) (db_events d @ numbered now (db_lastSequence d) [(t, s, p)])"
proof -
  let ?row = "\<lparr>ev_sequence = db_lastSequence d + 1, ev_type = t, ev_subjectId = s,
                 ev_payload = nullish p JNull, ev_createdAt = now\<rparr>"
  let ?lo = "max 1 (db_lastSequence d - event_retention + 1)"
  from assms have ge: "0 \<le> db_lastSequence d" and seq: "map ev_sequence (db_events d) = [?lo .. db_lastSequence d]"
    by (simp_all add: events_ok_def)
  have lo: "?lo \<le> db_lastSequence d + 1" using ge by (simp add: event_retention_def)
  then have "map ev_sequence (db_events d @ [?row]) = [?lo .. db_lastSequence d + 1]"
    using seq by (simp add: upto_rec2)
  then have mx: "sql_max (map ev_sequence (db_events d @ [?row])) = Some (db_lastSequence d + 1)"
    using sql_max_upto [OF lo] by simp
  show ?thesis
    unfolding appendEvent_def Let_def snd_conv mx option.case numbered.simps not_le by simp
qed

lemma numbered_above: "e \<in> set (numbered now n xs) \<Longrightarrow> n < ev_sequence e"
  by (induction now n xs rule: numbered.induct) auto

lemma append_all_rows:
  "events_ok d \<Longrightarrow> db_events (append_all now xs d) =
     filter (\<lambda>e. db_lastSequence d + int (length xs) - event_retention < ev_sequence e)
       (db_events d @ numbered now (db_lastSequence d) xs)"
proof (induction now xs d rule: append_all.induct)
  case (1 now d)
  have "\<forall>k \<in> set (map ev_sequence (db_events d)). db_lastSequence d - event_retention < k"
    using 1 by (simp only: events_ok_def) auto
  then show ?case by (simp add: filter_id_conv)
next
  case (2 now t s p rest d)
  let ?d = "snd (appendEvent t s p now d)"
  have ok: "events_ok ?d" and l: "db_lastSequence ?d = db_lastSequence d + 1"
    using appendEvent_effect [OF HOL.refl 2(2), of t s p now] by simp_all
  let ?c = "db_lastSequence d + int (length ((t, s, p) # rest)) - event_retention"
  have weaker: "filter (\<lambda>e. ?c < ev_sequence e) (filter (\<lambda>e. db_lastSequence d + 1 - event_retention < ev_sequence e) es) =
      filter (\<lambda>e. ?c < ev_sequence e) es" for es
    unfolding filter_filter by (rule filter_cong) auto
  have "db_events (append_all now ((t, s, p) # rest) d) =
      filter (\<lambda>e. ?c < ev_sequence e) (db_events ?d @ numbered now (db_lastSequence d + 1) rest)"
    using 2(1) [OF ok] by (simp add: l algebra_simps)
  also have "\<dots> = filter (\<lambda>e. ?c < ev_sequence e)
      (db_events d @ numbered now (db_lastSequence d) [(t, s, p)] @ numbered now (db_lastSequence d + 1) rest)"
    unfolding appendEvent_rows [OF 2(2)] filter_append weaker by simp
  finally show ?case by simp
qed

text \<open>The event of a worker gone offline, of a recovered job, and the one or two of a recovered session.\<close>

definition offline_note :: "string \<Rightarrow> announcement" where
  "offline_note w = (''worker.offline'', w, JObj [(''reason'', JStr ''heartbeat_timeout'')])"

definition job_note :: "string list \<Rightarrow> job \<Rightarrow> announcement" where
  "job_note offline j =
     (if j_maxAttempts j \<le> j_attempt j then ''job.failed'' else ''job.requeued'', j_id j,
      JObj [(''reason'', JStr (job_recovery_reason offline j)), (''attempt'', JInt (j_attempt j))])"

definition session_notes :: "string list \<Rightarrow> session \<Rightarrow> announcement list" where
  "session_notes offline s =
     (''session.interrupted'', s_id s,
      JObj [(''reason'', JStr (session_recovery_reason offline s)),
            (''previousStatus'', JStr (session_status_name (s_status s))),
            (''interruptionCount'', JInt (s_interruptionCount s + 1))]) #
     (if s_interruptionCount s + 1 \<le> s_maxInterruptions s
      then [(''session.requeued'', s_id s,
             JObj [(''reason'', JStr (session_recovery_reason offline s)),
                   (''interruptionCount'', JInt (s_interruptionCount s + 1))])]
      else [])"

lemma offline_events_notes: "offline_events now ws d = append_all now (map offline_note ws) d"
  by (induction ws arbitrary: d) (simp_all add: offline_note_def)

lemma job_recovery_events_notes:
  "job_recovery_events now (map (\<lambda>j. (recovered_job now j, job_recovery_reason offline j)) js) d =
     append_all now (map (job_note offline) js) d"
  by (induction js arbitrary: d) (simp_all add: job_note_def recovered_job_def)

lemma session_recovery_events_notes:
  "session_recovery_events now (map (\<lambda>s. (recovered_session now s, session_recovery_reason offline s, s_status s)) ss) d =
     append_all now (concat (map (session_notes offline) ss)) d"
  by (induction ss arbitrary: d) (simp_all add: session_notes_def recovered_session_def append_all_append Let_def)

text \<open>The rows the recovery statements return, in the order of the rows that were selected.\<close>

lemma recoverJobs_rows:
  "distinct (map j_id (db_jobs d)) \<Longrightarrow> distinct (map j_id js) \<Longrightarrow> set js \<subseteq> {j \<in> set (db_jobs d). job_active j} \<Longrightarrow>
   fst (recoverJobs now offline js d) = map (\<lambda>j. (recovered_job now j, job_recovery_reason offline j)) js"
proof (induction js arbitrary: d)
  case (Cons job rest)
  let ?P = "\<lambda>j. j_id j = j_id job \<and> j_status j \<in> {Leased, Running}"
  let ?f = "\<lambda>j. j\<lparr>j_status := (if j_maxAttempts job \<le> j_attempt job then Failed else Queued), j_assignedWorkerId := None,
       j_assignedGpuUuid := None, j_leaseId := None, j_leaseExpiresAt := None,
       j_error := (if j_maxAttempts job \<le> j_attempt job then Some (JObj [(''code'', JStr ''lease_exhausted''),
                                  (''message'', JStr ''Job exhausted its execution attempts'')])
                 else None), j_updatedAt := now\<rparr>"
  have job: "job \<in> set (db_jobs d)" "?P job" using Cons.prems(3) by (auto simp: job_active_def)
  let ?d = "d\<lparr>db_jobs := fst (sql_update ?P ?f (db_jobs d))\<rparr>"
  have row: "snd (sql_update ?P ?f (db_jobs d)) = [recovered_job now job]"
    using key_filter_unique [OF Cons.prems(1) job(1), of "\<lambda>j. j_status j \<in> {Leased, Running}"] job(2)
    by (simp add: sql_update_snd recovered_job_def)
  have other: "j_id x \<noteq> j_id job" if "x \<in> set rest" for x
    using that Cons.prems(2) by (metis distinct.simps(2) image_eqI list.simps(9) list.set_map)
  have ids: "distinct (map j_id (db_jobs ?d))"
    using Cons.prems(1) by (simp add: sql_update_keys)
  have sub: "set rest \<subseteq> {j \<in> set (db_jobs ?d). job_active j}"
    using Cons.prems(3) other by (fastforce simp: sql_update_fst)
  have "fst (recoverJobs now offline (job # rest) d) =
      (recovered_job now job, job_recovery_reason offline job) # fst (recoverJobs now offline rest ?d)"
    unfolding recoverJobs.simps Let_def case_prod_unfold row by simp
  with Cons.IH [OF ids _ sub] Cons.prems(2) show ?case by simp
qed simp

lemma recoverSessions_rows:
  "distinct (map s_id (db_sessions d)) \<Longrightarrow> distinct (map s_id ss) \<Longrightarrow> set ss \<subseteq> {s \<in> set (db_sessions d). session_occupying s} \<Longrightarrow>
   fst (recoverSessions now offline ss d) =
     map (\<lambda>s. (recovered_session now s, session_recovery_reason offline s, s_status s)) ss"
proof (induction ss arbitrary: d)
  case (Cons session rest)
  let ?P = "\<lambda>s. s_id s = s_id session \<and> s_status s \<in> {Allocated, Connecting, Active}"
  let ?f = "\<lambda>s. s\<lparr>s_status := (if s_interruptionCount session + 1 \<le> s_maxInterruptions session then Requested else Interrupted),
       s_interruptionCount := s_interruptionCount session + 1, s_assignedWorkerId := None,
       s_assignedGpuUuid := None, s_leaseId := None, s_leaseExpiresAt := None, s_updatedAt := now\<rparr>"
  have session: "session \<in> set (db_sessions d)" "?P session" using Cons.prems(3) by (auto simp: session_occupying_def)
  let ?d = "d\<lparr>db_sessions := fst (sql_update ?P ?f (db_sessions d))\<rparr>"
  have row: "snd (sql_update ?P ?f (db_sessions d)) = [recovered_session now session]"
    using key_filter_unique [OF Cons.prems(1) session(1), of "\<lambda>s. s_status s \<in> {Allocated, Connecting, Active}"] session(2)
    by (simp add: sql_update_snd recovered_session_def)
  have other: "s_id x \<noteq> s_id session" if "x \<in> set rest" for x
    using that Cons.prems(2) by (metis distinct.simps(2) image_eqI list.simps(9) list.set_map)
  have ids: "distinct (map s_id (db_sessions ?d))"
    using Cons.prems(1) by (simp add: sql_update_keys)
  have sub: "set rest \<subseteq> {s \<in> set (db_sessions ?d). session_occupying s}"
    using Cons.prems(3) other by (fastforce simp: sql_update_fst)
  have "fst (recoverSessions now offline (session # rest) d) =
      (recovered_session now session, session_recovery_reason offline session, s_status session) # fst (recoverSessions now offline rest ?d)"
    unfolding recoverSessions.simps Let_def case_prod_unfold row by simp
  with Cons.IH [OF ids _ sub] Cons.prems(2) show ?case by simp
qed simp

text \<open>Everything a pass writes about what it recovers, in the order of the code.\<close>

definition recovery_notes :: "int \<Rightarrow> string list \<Rightarrow> db \<Rightarrow> announcement list" where
  "recovery_notes now stale d =
     map offline_note stale @
     map (job_note stale) (filter (job_expired now stale) (listActiveJobs d)) @
     concat (map (session_notes stale) (filter (session_expired now stale) (listOccupyingSessions d)))"

lemma appendEvent_update:
  "snd (appendEvent t s p now (d\<lparr>db_sessions := ss\<rparr>)) = (snd (appendEvent t s p now d))\<lparr>db_sessions := ss\<rparr>"
  "snd (appendEvent t s p now (d\<lparr>db_jobs := js\<rparr>)) = (snd (appendEvent t s p now d))\<lparr>db_jobs := js\<rparr>"
  "snd (appendEvent t s p now (d\<lparr>db_workers := ws\<rparr>)) = (snd (appendEvent t s p now d))\<lparr>db_workers := ws\<rparr>"
  by (simp_all add: appendEvent_def Let_def)

lemma append_all_update:
  "append_all now ns (d\<lparr>db_sessions := ss\<rparr>) = (append_all now ns d)\<lparr>db_sessions := ss\<rparr>"
  "append_all now ns (d\<lparr>db_jobs := js\<rparr>) = (append_all now ns d)\<lparr>db_jobs := js\<rparr>"
  "append_all now ns (d\<lparr>db_workers := ws\<rparr>) = (append_all now ns d)\<lparr>db_workers := ws\<rparr>"
  by (induction ns arbitrary: d) (auto simp: appendEvent_update)

lemma recovery_chain:
  assumes "m = d\<lparr>db_workers := ws\<rparr>"
    and "snd r = (offline_events now stale m)\<lparr>db_jobs := js\<rparr>"
    and "fst r = map (\<lambda>j. (recovered_job now j, job_recovery_reason stale j)) expired"
    and "snd s = (job_recovery_events now (fst r) (snd r))\<lparr>db_sessions := ss\<rparr>"
    and "fst s = map (\<lambda>s. (recovered_session now s, session_recovery_reason stale s, s_status s)) interrupted"
  shows "session_recovery_events now (fst s) (snd s) =
    (append_all now (map offline_note stale @ map (job_note stale) expired @ concat (map (session_notes stale) interrupted)) d)
      \<lparr>db_workers := ws, db_jobs := js, db_sessions := ss\<rparr>"
  unfolding assms(5) session_recovery_events_notes assms(4) assms(3) job_recovery_events_notes assms(2) offline_events_notes assms(1)
  by (simp add: append_all_update append_all_append)

lemma recovery_tables:
  assumes "db_ok d" and "recovery_phase cfg now d = (stale, recoveries, d1)"
  shows "stale = map w_id (filter (stale_worker cfg now) (db_workers d))"
    and "db_workers d1 = map (\<lambda>w. if stale_worker cfg now w then w\<lparr>w_status := Offline, w_updatedAt := now\<rparr> else w) (db_workers d)"
    and "db_jobs d1 = map (\<lambda>j. if job_active j \<and> job_expired now stale j then recovered_job now j else j) (db_jobs d)"
    and "db_sessions d1 = map (\<lambda>s. if session_occupying s \<and> session_expired now stale s then recovered_session now s else s) (db_sessions d)"
    and "db_fences d1 = db_fences d" and "db_attempts d1 = db_attempts d"
    and "recoveries = map (\<lambda>j. (recovered_job now j, job_recovery_reason stale j)) (filter (job_expired now stale) (listActiveJobs d))"
    and "db_lastSequence d1 = db_lastSequence d + int (length (recovery_notes now stale d))"
    and "db_events d1 = filter (\<lambda>e. db_lastSequence d1 - event_retention < ev_sequence e)
      (db_events d @ numbered now (db_lastSequence d) (recovery_notes now stale d))"
proof -
  let ?m = "markStaleWorkersOffline (now - sc_heartbeatTimeoutMs cfg) now d"
  let ?d2 = "offline_events now (fst ?m) (snd ?m)"
  let ?r = "recoverExpiredJobs now (fst ?m) ?d2"
  let ?d4 = "job_recovery_events now (fst ?r) (snd ?r)"
  let ?s = "recoverInterruptedSessions now (fst ?m) ?d4"
  have eq: "stale = fst ?m" "recoveries = fst ?r" "d1 = session_recovery_events now (fst ?s) (snd ?s)"
    using assms(2) by (auto simp only: recovery_phase_def Let_def case_prod_unfold prod.inject)
  have st: "(\<lambda>w. w_status w = Online \<and> w_lastSeenAt w < now - sc_heartbeatTimeoutMs cfg) = stale_worker cfg now"
    by (auto simp: stale_worker_def)
  have m: "fst ?m = map w_id (filter (stale_worker cfg now) (db_workers d))"
    "snd ?m = d\<lparr>db_workers := map (\<lambda>w. if stale_worker cfg now w then w\<lparr>w_status := Offline, w_updatedAt := now\<rparr> else w) (db_workers d)\<rparr>"
    by (simp_all add: markStaleWorkersOffline_def sql_update_def st comp_def)
  from assms(1) have ids: "distinct (map j_id (db_jobs ?d2))" "distinct (map s_id (db_sessions d))"
    by (simp_all add: m db_ok_def jobs_ok_def sessions_ok_def)
  have jobs: "snd ?r = ?d2\<lparr>db_jobs := map (\<lambda>j. if j \<in> set (filter (job_expired now (fst ?m)) (listActiveJobs ?d2)) then recovered_job now j else j) (db_jobs ?d2)\<rparr>"
    unfolding recoverExpiredJobs_def
    by (rule recoverJobs_map [OF ids(1)]) (use ids(1) in \<open>auto simp: listActiveJobs_def distinct_map_filter\<close>)
  then have s4: "db_sessions ?d4 = db_sessions d" by (simp add: m)
  have "mset (map s_id (listOccupyingSessions ?d4)) = mset (map s_id (filter session_occupying (db_sessions d)))"
    unfolding listOccupyingSessions_def s4 by simp
  then have occ: "distinct (map s_id (listOccupyingSessions ?d4))"
    using distinct_map_filter [OF ids(2)] mset_eq_imp_distinct_iff by blast
  have sess: "snd ?s = ?d4\<lparr>db_sessions := map (\<lambda>s. if s \<in> set (filter (session_expired now (fst ?m)) (listOccupyingSessions ?d4)) then recovered_session now s else s) (db_sessions ?d4)\<rparr>"
    unfolding recoverInterruptedSessions_def
    by (rule recoverSessions_map) (use ids(2) occ s4 in \<open>auto simp: listOccupyingSessions_def distinct_map_filter\<close>)
  show "stale = map w_id (filter (stale_worker cfg now) (db_workers d))" by (simp add: eq(1) m)
  show "db_workers d1 = map (\<lambda>w. if stale_worker cfg now w then w\<lparr>w_status := Offline, w_updatedAt := now\<rparr> else w) (db_workers d)"
    unfolding eq(3) session_recovery_events_frame sess by (simp add: jobs) (simp add: m)
  show "db_jobs d1 = map (\<lambda>j. if job_active j \<and> job_expired now stale j then recovered_job now j else j) (db_jobs d)"
    unfolding eq(3) session_recovery_events_frame sess db.select_convs
    by (simp add: jobs listActiveJobs_def eq(1)) (simp add: m)
  show "db_sessions d1 = map (\<lambda>s. if session_occupying s \<and> session_expired now stale s then recovered_session now s else s) (db_sessions d)"
    unfolding eq(3) session_recovery_events_frame sess listOccupyingSessions_def s4
    by (simp add: s4 eq(1))
  have same: "listActiveJobs ?d2 = listActiveJobs d" "listOccupyingSessions ?d4 = listOccupyingSessions d"
    unfolding listActiveJobs_def listOccupyingSessions_def s4 by (simp_all add: m)
  have r: "fst ?r = map (\<lambda>j. (recovered_job now j, job_recovery_reason (fst ?m) j)) (filter (job_expired now (fst ?m)) (listActiveJobs d))"
    unfolding recoverExpiredJobs_def same(1) [symmetric]
    by (rule recoverJobs_rows [OF ids(1)]) (use ids(1) in \<open>auto simp: listActiveJobs_def distinct_map_filter\<close>)
  have s: "fst ?s = map (\<lambda>s. (recovered_session now s, session_recovery_reason (fst ?m) s, s_status s))
      (filter (session_expired now (fst ?m)) (listOccupyingSessions d))"
    unfolding recoverInterruptedSessions_def same(2) [symmetric]
    by (rule recoverSessions_rows) (use ids(2) occ s4 in \<open>auto simp: listOccupyingSessions_def distinct_map_filter\<close>)
  show "recoveries = map (\<lambda>j. (recovered_job now j, job_recovery_reason stale j)) (filter (job_expired now stale) (listActiveJobs d))"
    by (simp only: eq(1,2) r)
  have d1: "d1 = (append_all now (recovery_notes now stale d) d)\<lparr>db_workers := db_workers d1, db_jobs := db_jobs d1, db_sessions := db_sessions d1\<rparr>"
    using recovery_chain [OF m(2) jobs r sess s] by (simp add: eq(1,3) recovery_notes_def)
  have ok: "events_ok d" using assms(1) by (simp add: db_ok_def)
  have rest: "db_fences d1 = db_fences d" "db_attempts d1 = db_attempts d"
    "db_lastSequence d1 = db_lastSequence (append_all now (recovery_notes now stale d) d)"
    "db_events d1 = db_events (append_all now (recovery_notes now stale d) d)"
    by (subst d1, simp)+
  then show "db_fences d1 = db_fences d" "db_attempts d1 = db_attempts d"
    "db_lastSequence d1 = db_lastSequence d + int (length (recovery_notes now stale d))"
    "db_events d1 = filter (\<lambda>e. db_lastSequence d1 - event_retention < ev_sequence e)
      (db_events d @ numbered now (db_lastSequence d) (recovery_notes now stale d))"
    by (simp_all add: append_all_last append_all_rows [OF ok])
qed

section \<open>Recovery and the passes\<close>


text \<open>
  After a pass no lease is overdue and no worker is overdue: every active job and every
  occupying session has a lease that is still valid, none of them is on a worker that this pass
  found gone, and every online worker was seen within the heartbeat timeout.
\<close>

theorem pass_recovers:
  assumes "cp_reachable lc num cfg d" and "comparator lc" and "0 < sc_leaseDurationMs (cf_scheduler cfg)"
    and "runOnce lc (cf_scheduler cfg) True uuids now d = (Inr r, d')"
  shows "(\<forall>w \<in> set (db_workers d'). w_status w = Online \<longrightarrow> now - w_lastSeenAt w \<le> sc_heartbeatTimeoutMs (cf_scheduler cfg)) \<and>
    (\<forall>j \<in> set (db_jobs d'). job_active j \<longrightarrow> lease_valid (j_leaseExpiresAt j) now \<and>
       j_assignedWorkerId j \<notin> Some ` set (pr_staleWorkerIds r)) \<and>
    (\<forall>s \<in> set (db_sessions d'). session_occupying s \<longrightarrow> lease_valid (s_leaseExpiresAt s) now \<and>
       s_assignedWorkerId s \<notin> Some ` set (pr_staleWorkerIds r))"
proof -
  let ?cfg = "cf_scheduler cfg"
  obtain stale recoveries d1 where rec: "recovery_phase ?cfg now d = (stale, recoveries, d1)"
    by (cases "recovery_phase ?cfg now d")
  have ok: "db_ok d" using assms(1,2) by (rule cp_reachable_ok)
  note tables = recovery_tables [OF ok rec]
  from ok rec assms(4) show ?thesis
  proof (rule pass_refines)
    fix r'
    assume r': "Inr r = (Inr r' :: pass_result result)" and stale: "pr_staleWorkerIds r' = stale"
      and new: "only_leases ?cfg now (listWorkers d1) d1 d'" and w: "db_workers d' = db_workers d1" and ok1: "db_ok d1"
    have off: "w_id w \<notin> set stale" if "w \<in> set (db_workers d1)" "w_status w = Online" for w
    proof
      assume "w_id w \<in> set stale"
      then obtain v where v: "v \<in> set (db_workers d)" "stale_worker ?cfg now v" "w_id v = w_id w"
        by (auto simp: tables(1))
      then have v1: "v\<lparr>w_status := Offline, w_updatedAt := now\<rparr> \<in> set (db_workers d1)" by (force simp: tables(2))
      have "w = v\<lparr>w_status := Offline, w_updatedAt := now\<rparr>"
        using ok1 that(1) v1 v(3) by (intro key_unique [of w_id "db_workers d1"]) (simp_all add: db_ok_def workers_ok_def)
      with that(2) show False by simp
    qed
    have fresh: "lease_valid e now \<and> a \<notin> Some ` set stale" if "fresh_lease ?cfg now (listWorkers d1) a e" for a e
      using that off assms(3) by (auto simp: fresh_lease_def lease_valid_def listWorkers_def)
    have "lease_valid (j_leaseExpiresAt j) now \<and> j_assignedWorkerId j \<notin> Some ` set stale"
      if "j \<in> set (db_jobs d1)" "job_active j" for j
    proof -
      have "job_ok j" using ok1 that(1) by (simp add: db_ok_def jobs_ok_def)
      moreover have "\<not> job_expired now stale j"
        using that by (auto simp: tables(3) recovered_job_def job_active_def split: if_splits)
      ultimately show ?thesis
        using that(2) by (auto simp: job_expired_def lease_valid_def job_ok_def job_active_def split: option.splits)
    qed
    moreover have "lease_valid (s_leaseExpiresAt s) now \<and> s_assignedWorkerId s \<notin> Some ` set stale"
      if "s \<in> set (db_sessions d1)" "session_occupying s" for s
    proof -
      have "session_ok s" using ok1 that(1) by (simp add: db_ok_def sessions_ok_def)
      moreover have "\<not> session_expired now stale s"
        using that by (auto simp: tables(4) recovered_session_def session_occupying_def split: if_splits)
      ultimately show ?thesis
        using that(2) by (auto simp: session_expired_def lease_valid_def session_ok_def split: option.splits)
    qed
    moreover have "\<forall>w \<in> set (db_workers d1). w_status w = Online \<longrightarrow> now - w_lastSeenAt w \<le> sc_heartbeatTimeoutMs ?cfg"
      by (auto simp: tables(2) stale_worker_def)
    moreover have "pr_staleWorkerIds r = stale" using r' stale by simp
    ultimately show ?thesis
      using new fresh unfolding only_leases_def w by (metis (no_types))
  qed
qed


section \<open>Concrete passes\<close>

text \<open>
  Two jobs wait: one of higher priority for a capability no worker has, and one that a GPU can
  serve. A pass leases the GPU to the second.
\<close>

definition sample_other_request :: jsval where
  "sample_other_request = JObj [(''projectId'', JStr ''p''), (''type'', JStr ''tts''), (''priority'', JInt 5)]"

definition sample_other_input :: job_input where
  "sample_other_input = \<lparr>ji_id = ''job_o'', ji_projectId = ''p'', ji_type = ''tts'', ji_priority = 5,
     ji_gpuCount = 1, ji_minVramMiB = 1, ji_requiredCapabilities = [''tts''], ji_requestedModel = None,
     ji_payload = JObj [], ji_maxAttempts = 3, ji_idempotencyKey = None, ji_now = 2500\<rparr>"

lemma sample_other_valid: "validateJob ''o'' sample_other_request JNull 2500 = Inr sample_other_input"
  by (simp add: sample_other_request_def sample_other_input_def validateJob_def requireObject_def optionalObject_def
      requireString_def trim_def is_js_space_def boundedInteger_def stringArray_def nullish_def item_name_def string_of_nat.simps
      optionalString_def validateWorkloadPayload_def BENCHMARK_TYPE_def TRANSCRIPTION_TYPE_def createId_def
      max_safe_integer_def)

definition run10 :: db where
  "run10 = snd (submitJob_tx sample_other_input run2)"

definition run11 :: db where
  "run11 = snd (runOnce str_cmp sample_config True sample_uuids 3000 run10)"

definition sample_waiting_job :: job where
  "sample_waiting_job = \<lparr>j_id = ''job_o'', j_projectId = ''p'', j_type = ''tts'', j_priority = 5, j_status = Queued,
     j_constraints = \<lparr>rq_gpuCount = 1, rq_minVramMiB = 1, rq_capabilities = [''tts''], rq_model = None, rq_adapter = None\<rparr>,
     j_payload = JObj [], j_result = None, j_error = None, j_assignedWorkerId = None, j_assignedGpuUuid = None,
     j_leaseId = None, j_leaseExpiresAt = None, j_attempt = 0, j_maxAttempts = 3, j_idempotencyKey = None,
     j_createdAt = 2500, j_updatedAt = 2500\<rparr>"

definition sample_queued_job :: job where
  "sample_queued_job = sample_leased_job\<lparr>j_status := Queued, j_assignedWorkerId := None, j_assignedGpuUuid := None,
     j_leaseId := None, j_leaseExpiresAt := None, j_attempt := 0, j_updatedAt := 2000\<rparr>"

lemma run10_recovery: "db_jobs (snd (snd (recovery_phase sample_config 3000 run10))) = [sample_queued_job, sample_waiting_job]"
  by code_simp

lemma run11_eq: "db_jobs run11 = [sample_leased_job, sample_waiting_job]"
  by code_simp

lemma run10_reachable: "cp_reachable str_cmp num sample_service run10"
  unfolding run10_def by (rule cp_steps.more [OF run2_reachable cp_step.submit_job]) (rule sample_other_valid)

lemma sample_pass:
  "recovery_phase (cf_scheduler sample_service) 3000 run10 = (fst (recovery_phase sample_config 3000 run10),
     fst (snd (recovery_phase sample_config 3000 run10)), snd (snd (recovery_phase sample_config 3000 run10)))"
  "runOnce str_cmp (cf_scheduler sample_service) True sample_uuids 3000 run10 =
     (fst (runOnce str_cmp sample_config True sample_uuids 3000 run10), run11)"
  by (simp_all add: sample_service_def run11_def)

theorem pass_refines_greedy_witness: "\<exists>r. fst (runOnce str_cmp sample_config True sample_uuids 3000 run10) = Inr r"
  using pass_refines_greedy [OF run10_reachable code_units.comparator_axioms sample_pass] by blast

lemma sample_waiting:
  "pending_in (PendingJob sample_waiting_job) run11"
  "wl_requirements (pending_workload (PendingJob sample_waiting_job)) = Some (j_constraints sample_waiting_job)"
  by (simp_all add: pending_in_def run11_eq pending_workload_def job_workload_def) (simp add: sample_waiting_job_def)

theorem pass_work_conserving_witness:
  "\<not> admissible sample_config 3000 (job_workload sample_waiting_job) (j_constraints sample_waiting_job) (listWorkers run11)
     (occupied_gpus run11) (listBlockedGpuResources run11) sample_run_worker (w_gpus sample_run_worker ! 1)"
  using pass_work_conserving [OF run10_reachable code_units.comparator_axioms sample_pass(2) sample_waiting,
      of sample_run_worker "w_gpus sample_run_worker ! 1"]
  by (simp add: pending_workload_def sample_service_def)

definition sample_candidate :: candidate where
  "sample_candidate = \<lparr>p_workerId = ''w1'', p_gpuUuid = ''g1'', c_warmModel = False, c_cachedModel = False,
     c_utilizationPercent = 1, c_headroomMiB = 0\<rparr>"

theorem no_priority_inversion_witness:
  "let d1 = snd (snd (recovery_phase sample_config 3000 run10)) in
   \<not> admissible sample_config 3000 (job_workload sample_waiting_job) (j_constraints sample_waiting_job) (listWorkers d1)
     (occupied_gpus d1) (listBlockedGpuResources d1) sample_run_worker (w_gpus sample_run_worker ! 0)"
proof -
  have q: "pending_in (PendingJob sample_queued_job) (snd (snd (recovery_phase sample_config 3000 run10)))"
    by (simp add: pending_in_def run10_recovery sample_queued_job_def)
  have pl: "placed_in (cf_scheduler sample_service) 3000 (PendingJob sample_queued_job) sample_candidate run11"
    by (simp add: placed_in_def run11_eq sample_queued_job_def sample_leased_job_def sample_candidate_def sample_service_def
        sample_config_def createId_def) (rule exI [of _ "''u''"], simp)
  have lt: "comparePendingWork str_cmp (PendingJob sample_waiting_job) (PendingJob sample_queued_job) < 0"
    by (simp add: comparePendingWork_def or_else_def pending_priority_def sample_waiting_job_def sample_queued_job_def sample_leased_job_def)
  have g: "g_uuid (w_gpus sample_run_worker ! 0) = p_gpuUuid sample_candidate"
    by (simp add: sample_run_worker_def sample_worker_input_def sample_candidate_def)
  from no_priority_inversion [OF run10_reachable code_units.comparator_axioms sample_pass sample_waiting(1) q pl lt sample_waiting(2) g,
      of sample_run_worker]
  show ?thesis by (simp add: pending_workload_def sample_service_def Let_def)
qed



theorem pass_recovers_witness:
  "list_all (\<lambda>w. w_status w = Online \<longrightarrow> 70000 - w_lastSeenAt w \<le> 30000)
     (db_workers (snd (runOnce str_cmp sample_config True sample_uuids 70000 run3)))"
proof -
  have c: "cf_scheduler sample_service = sample_config" by (simp add: sample_service_def)
  have "db_ok run3" using run3_reachable code_units.comparator_axioms by (rule cp_reachable_ok)
  then obtain r d' where run: "runOnce str_cmp (cf_scheduler sample_service) True sample_uuids 70000 run3 = (Inr r, d')"
    using scheduler_pass_total [of run3 str_cmp sample_config True sample_uuids 70000]
    by (auto simp: ok_iff runOnce_def transaction_def c)
  moreover have "0 < sc_leaseDurationMs (cf_scheduler sample_service)" by (simp add: c sample_config_def)
  ultimately show ?thesis
    using pass_recovers [OF run3_reachable code_units.comparator_axioms _ run]
    by (simp add: list_all_iff c) (simp add: sample_config_def)
qed

end
