(* ===== verification/Relay.thy ===== *)
theory Relay
  imports ControlPlane
begin

text \<open>
  The data-plane relay, \<^verbatim>\<open>src/control-plane/data-plane-relay.mjs\<close>: two WebSockets of one session,
  the client's and the worker's, are paired and their frames copied from one to the other.

  JavaScript shares the entry and connection objects between handlers, so the model keeps them in
  explicit stores: \<open>rl_socket\<close>, \<open>rl_conn\<close> and \<open>rl_entry\<close> map addresses to objects, and the counters
  beside them say which addresses are allocated. A function that waits is split at its \<^verbatim>\<open>await\<close>s
  into the parts that run without interruption; what is left to do is a task in \<open>rl_tasks\<close>, so any
  other handler may run between two parts. Timers are armed flags whose callback may run whenever
  the flag is set; time itself is not modelled. The third-party WebSocket library is the source of
  the events (frame, close, error, failed send), which may come in any order.
\<close>

section \<open>Constants of the contract\<close>

definition DATA_PLANE_PATH :: string where
  "DATA_PLANE_PATH = ''/v1/data-plane''"

datatype close_code = PROTOCOL_ERROR | MESSAGE_TOO_BIG | INTERNAL_ERROR | TRY_AGAIN_LATER |
  PEER_TIMEOUT | DUPLICATE_ROLE | LEASE_INVALIDATED

fun DATA_PLANE_CLOSE_CODES :: "close_code \<Rightarrow> int" where
  "DATA_PLANE_CLOSE_CODES PROTOCOL_ERROR = 1002"
| "DATA_PLANE_CLOSE_CODES MESSAGE_TOO_BIG = 1009"
| "DATA_PLANE_CLOSE_CODES INTERNAL_ERROR = 1011"
| "DATA_PLANE_CLOSE_CODES TRY_AGAIN_LATER = 1013"
| "DATA_PLANE_CLOSE_CODES PEER_TIMEOUT = 4408"
| "DATA_PLANE_CLOSE_CODES DUPLICATE_ROLE = 4409"
| "DATA_PLANE_CLOSE_CODES LEASE_INVALIDATED = 4410"

section \<open>The objects\<close>

text \<open>
  A socket of the WebSocket library: its ready state, the frames handed to it with \<^verbatim>\<open>send\<close> (data and
  whether it is binary), and the code and reason of the \<^verbatim>\<open>close\<close> call that took effect. The server
  never sees the state \<^verbatim>\<open>CONNECTING\<close>.
\<close>

datatype ready_state = WsOpen | WsClosing | WsClosed

type_synonym frame = "string \<times> bool"

record socket =
  ws_ready :: ready_state
  ws_sent :: "frame list"
  ws_close :: "(int \<times> string) option"

record conn =
  cn_socket :: nat
  cn_grant :: string
  cn_protocol :: string
  cn_claims :: grant_claims
  cn_role :: string
  cn_entry :: nat
  cn_peer :: "nat option"
  cn_peerTimer :: bool
  cn_idleTimer :: bool

record pair_entry =
  en_key :: string
  en_sessionId :: string
  en_workerId :: string
  en_leaseId :: string
  en_client :: "nat option"
  en_worker :: "nat option"
  en_activating :: bool
  en_active :: bool
  en_closed :: bool

type_synonym authorization = "grant_claims \<times> session"
type_synonym answer = "authorization option result"

text \<open>
  What a waiting function still has to do. \<open>UpgradeClient\<close> and \<open>UpgradeWorker\<close> wait for the service's
  answer for the offered grant in that role, \<open>UpgradeAccept\<close> has it. \<open>PairAuthorize\<close> waits for the
  two answers of \<^verbatim>\<open>Promise.all\<close>, \<open>PairActivate\<close> for the activation, \<open>PairActivated\<close> has its outcome.
  \<open>StopDrain\<close> waits for a running revalidation, \<open>StopTerminate\<close> for the next turn of the event loop.
\<close>

datatype task =
  UpgradeClient string string
| UpgradeWorker string string
| UpgradeAccept string string authorization
| PairAuthorize nat string string "answer option" "answer option"
| PairActivate nat
| PairActivated nat "session result"
| StopDrain
| StopTerminate

text \<open>
  The revalidation promise: none, about to check the pair whose two sets of claims were read, with
  the answers so far and the pairs that follow, or finished with its \<^verbatim>\<open>finally\<close> part still to run.
\<close>

datatype revalidation =
  NoRound
| CheckPair nat grant_claims grant_claims "answer option" "answer option" "nat list"
| RoundOver

record relay =
  rl_socket :: "nat \<Rightarrow> socket"
  rl_sockets :: nat
  rl_conn :: "nat \<Rightarrow> conn"
  rl_conns :: nat
  rl_entry :: "nat \<Rightarrow> pair_entry"
  rl_entries :: nat
  rl_pairs :: "(string \<times> nat) list"
  rl_closed :: bool
  rl_subscribed :: bool
  rl_revalidation :: revalidation
  rl_revalidationPending :: bool
  rl_revalidationFailures :: nat
  rl_tasks :: "task list"
  rl_rejections :: "string list"

definition upd_socket :: "nat \<Rightarrow> (socket \<Rightarrow> socket) \<Rightarrow> relay \<Rightarrow> relay" where
  "upd_socket k f r = r\<lparr>rl_socket := (rl_socket r)(k := f (rl_socket r k))\<rparr>"

definition upd_conn :: "nat \<Rightarrow> (conn \<Rightarrow> conn) \<Rightarrow> relay \<Rightarrow> relay" where
  "upd_conn c f r = r\<lparr>rl_conn := (rl_conn r)(c := f (rl_conn r c))\<rparr>"

definition upd_entry :: "nat \<Rightarrow> (pair_entry \<Rightarrow> pair_entry) \<Rightarrow> relay \<Rightarrow> relay" where
  "upd_entry e f r = r\<lparr>rl_entry := (rl_entry r)(e := f (rl_entry r e))\<rparr>"

definition add_task :: "task \<Rightarrow> relay \<Rightarrow> relay" where
  "add_task t r = r\<lparr>rl_tasks := rl_tasks r @ [t]\<rparr>"

text \<open>\<^verbatim>\<open>entry[role]\<close>, the key of the pair map, and the socket of a connection.\<close>

definition slot :: "string \<Rightarrow> pair_entry \<Rightarrow> nat option" where
  "slot role en = (if role = ''client'' then en_client en else en_worker en)"

definition set_slot :: "string \<Rightarrow> nat option \<Rightarrow> pair_entry \<Rightarrow> pair_entry" where
  "set_slot role v en = (if role = ''client'' then en\<lparr>en_client := v\<rparr> else en\<lparr>en_worker := v\<rparr>)"

definition other_role :: "string \<Rightarrow> string" where
  "other_role role = (if role = ''client'' then ''worker'' else ''client'')"

definition pairingKey :: "grant_claims \<Rightarrow> string" where
  "pairingKey c = gc_sessionId c @ [CHR 0x00] @ gc_workerId c @ [CHR 0x00] @ gc_leaseId c"

definition sameAllocation :: "authorization option \<Rightarrow> pair_entry \<Rightarrow> bool" where
  "sameAllocation a en =
     (case a of
        None \<Rightarrow> False
      | Some (c, _) \<Rightarrow> gc_sessionId c = en_sessionId en \<and> gc_workerId c = en_workerId en \<and> gc_leaseId c = en_leaseId en)"

abbreviation conn_socket :: "relay \<Rightarrow> nat \<Rightarrow> socket" where
  "conn_socket r c \<equiv> rl_socket r (cn_socket (rl_conn r c))"

section \<open>Closing\<close>

definition clearPeerTimer :: "nat \<Rightarrow> relay \<Rightarrow> relay" where
  "clearPeerTimer c = upd_conn c (\<lambda>x. x\<lparr>cn_peerTimer := False\<rparr>)"

definition clearStateTimers :: "nat \<Rightarrow> relay \<Rightarrow> relay" where
  "clearStateTimers c r = upd_conn c (\<lambda>x. x\<lparr>cn_idleTimer := False\<rparr>) (clearPeerTimer c r)"

definition closeSocket :: "nat \<Rightarrow> close_code \<Rightarrow> string \<Rightarrow> relay \<Rightarrow> relay" where
  "closeSocket k code reason r =
     (if ws_ready (rl_socket r k) = WsClosed \<or> ws_ready (rl_socket r k) = WsClosing then r
      else upd_socket k (\<lambda>s. s\<lparr>ws_ready := WsClosing, ws_close := Some (DATA_PLANE_CLOSE_CODES code, reason)\<rparr>) r)"

definition close_slot :: "close_code \<Rightarrow> string \<Rightarrow> nat option \<Rightarrow> relay \<Rightarrow> relay" where
  "close_slot code reason s r =
     (case s of
        None \<Rightarrow> r
      | Some c \<Rightarrow> closeSocket (cn_socket (rl_conn r c)) code reason (clearStateTimers c r))"

definition closeEntry :: "nat \<Rightarrow> close_code \<Rightarrow> string \<Rightarrow> relay \<Rightarrow> relay" where
  "closeEntry e code reason r =
     (if en_closed (rl_entry r e) then r
      else
        (let en = rl_entry r e;
             r1 = upd_entry e (\<lambda>x. x\<lparr>en_closed := True\<rparr>) r;
             r2 = r1\<lparr>rl_pairs := filter (\<lambda>p. fst p \<noteq> en_key en) (rl_pairs r1)\<rparr> in
         close_slot code reason (en_worker en) (close_slot code reason (en_client en) r2)))"

definition resetIdleTimer :: "nat \<Rightarrow> relay \<Rightarrow> relay" where
  "resetIdleTimer c = upd_conn c (\<lambda>x. x\<lparr>cn_idleTimer := True\<rparr>)"

definition resetIdleTimers :: "nat \<Rightarrow> relay \<Rightarrow> relay" where
  "resetIdleTimers e r =
     (let r1 = (case en_client (rl_entry r e) of None \<Rightarrow> r | Some c \<Rightarrow> resetIdleTimer c r) in
      case en_worker (rl_entry r1 e) of None \<Rightarrow> r1 | Some c \<Rightarrow> resetIdleTimer c r1)"

section \<open>Upgrade requests\<close>

definition status_text :: "int \<Rightarrow> string" where
  "status_text statusCode =
     (if statusCode = 400 then ''Bad Request'' else if statusCode = 401 then ''Unauthorized''
      else if statusCode = 404 then ''Not Found'' else ''Service Unavailable'')"

definition crlf :: string where
  "crlf = [CHR 0x0D, CHR 0x0A]"

definition rejection :: "int \<Rightarrow> string \<Rightarrow> string" where
  "rejection statusCode message =
     (let body = message @ [CHR 0x0A] in
      ''HTTP/1.1 '' @ string_of_int statusCode @ '' '' @ status_text statusCode @ crlf @
      ''Connection: close'' @ crlf @
      ''Content-Type: text/plain; charset=utf-8'' @ crlf @
      ''Content-Length: '' @ string_of_nat (utf8_length body) @ crlf @ crlf @ body)"

text \<open>Nothing is written to a socket that is already destroyed; the socket is destroyed either way.\<close>

definition rejectUpgrade :: "bool \<Rightarrow> int \<Rightarrow> string \<Rightarrow> relay \<Rightarrow> relay" where
  "rejectUpgrade destroyed statusCode message r =
     (if destroyed then r else r\<lparr>rl_rejections := rl_rejections r @ [rejection statusCode message]\<rparr>)"

text \<open>
  \<^verbatim>\<open>handleUpgrade\<close> up to its first \<^verbatim>\<open>await\<close>. \<open>parse_url\<close> is the URL parser applied to the request's
  target, giving path and query, or nothing when it throws.
\<close>

definition handleUpgrade ::
  "(string \<Rightarrow> (string \<times> string) option) \<Rightarrow> bool \<Rightarrow> string \<Rightarrow> string option \<Rightarrow> relay \<Rightarrow> relay" where
  "handleUpgrade parse_url destroyed url protocolHeader r =
     (if rl_closed r then rejectUpgrade destroyed 503 ''relay unavailable'' r
      else
        (case parse_url url of
           None \<Rightarrow> rejectUpgrade destroyed 400 ''invalid request URL'' r
         | Some (pathname, search) \<Rightarrow>
             if pathname \<noteq> DATA_PLANE_PATH \<or> search \<noteq> []
             then rejectUpgrade destroyed 404 ''data-plane route not found'' r
             else
               (case parseDataPlaneProtocols protocolHeader of
                  None \<Rightarrow> rejectUpgrade destroyed 401 ''valid data-plane grant required'' r
                | Some (protocol, grant) \<Rightarrow> add_task (UpgradeClient protocol grant) r)))"

text \<open>
  \<^verbatim>\<open>authorizeGrant\<close>: the service is asked for the client role first and, when it knows no
  allocation, for the worker role. A thrown error counts as no authorization.
\<close>

definition upgrade_client_answered :: "bool \<Rightarrow> string \<Rightarrow> string \<Rightarrow> answer \<Rightarrow> relay \<Rightarrow> relay" where
  "upgrade_client_answered destroyed protocol grant a r =
     (case a of
        Inl _ \<Rightarrow> rejectUpgrade destroyed 401 ''valid data-plane grant required'' r
      | Inr None \<Rightarrow> add_task (UpgradeWorker protocol grant) r
      | Inr (Some auth) \<Rightarrow> add_task (UpgradeAccept protocol grant auth) r)"

definition upgrade_worker_answered :: "bool \<Rightarrow> string \<Rightarrow> string \<Rightarrow> answer \<Rightarrow> relay \<Rightarrow> relay" where
  "upgrade_worker_answered destroyed protocol grant a r =
     (case a of
        Inr (Some auth) \<Rightarrow> add_task (UpgradeAccept protocol grant auth) r
      | _ \<Rightarrow> rejectUpgrade destroyed 401 ''valid data-plane grant required'' r)"

section \<open>Connections and pairing\<close>

text \<open>\<^verbatim>\<open>tryPair\<close> up to its first \<^verbatim>\<open>await\<close>: the two grants are read now.\<close>

definition tryPair :: "nat \<Rightarrow> relay \<Rightarrow> relay" where
  "tryPair e r =
     (let en = rl_entry r e in
      if en_closed en \<or> en_active en \<or> en_activating en then r
      else
        (case (en_client en, en_worker en) of
           (Some c, Some w) \<Rightarrow>
             add_task (PairAuthorize e (cn_grant (rl_conn r c)) (cn_grant (rl_conn r w)) None None)
               (upd_entry e (\<lambda>x. x\<lparr>en_activating := True\<rparr>) r)
         | _ \<Rightarrow> r))"

definition new_entry :: "grant_claims \<Rightarrow> pair_entry" where
  "new_entry claims = \<lparr>en_key = pairingKey claims, en_sessionId = gc_sessionId claims, en_workerId = gc_workerId claims,
     en_leaseId = gc_leaseId claims, en_client = None, en_worker = None, en_activating = False, en_active = False,
     en_closed = False\<rparr>"

definition lookup_entry :: "grant_claims \<Rightarrow> relay \<Rightarrow> nat \<times> relay" where
  "lookup_entry claims r =
     (case map_of (rl_pairs r) (pairingKey claims) of
        Some e \<Rightarrow> (e, r)
      | None \<Rightarrow>
          (rl_entries r,
           r\<lparr>rl_entry := (rl_entry r)(rl_entries r := new_entry claims), rl_entries := Suc (rl_entries r),
             rl_pairs := rl_pairs r @ [(pairingKey claims, rl_entries r)]\<rparr>))"

text \<open>The library's socket is fresh and open when it calls back with it.\<close>

definition open_socket :: "relay \<Rightarrow> relay" where
  "open_socket r = r\<lparr>rl_socket := (rl_socket r)(rl_sockets r := \<lparr>ws_ready = WsOpen, ws_sent = [], ws_close = None\<rparr>),
     rl_sockets := Suc (rl_sockets r)\<rparr>"

definition new_conn :: "nat \<Rightarrow> string \<Rightarrow> string \<Rightarrow> grant_claims \<Rightarrow> nat \<Rightarrow> conn" where
  "new_conn k grant protocol claims e = \<lparr>cn_socket = k, cn_grant = grant, cn_protocol = protocol, cn_claims = claims,
     cn_role = gc_role claims, cn_entry = e, cn_peer = None, cn_peerTimer = True, cn_idleTimer = False\<rparr>"

definition join_entry :: "nat \<Rightarrow> string \<Rightarrow> string \<Rightarrow> grant_claims \<Rightarrow> nat \<Rightarrow> relay \<Rightarrow> relay" where
  "join_entry k grant protocol claims e r =
     tryPair e
       (upd_entry e (set_slot (gc_role claims) (Some (rl_conns r)))
         (r\<lparr>rl_conn := (rl_conn r)(rl_conns r := new_conn k grant protocol claims e), rl_conns := Suc (rl_conns r)\<rparr>))"

definition acceptConnection :: "nat \<Rightarrow> string \<Rightarrow> grant_claims \<Rightarrow> string \<Rightarrow> relay \<Rightarrow> relay" where
  "acceptConnection k grant claims protocol r =
     (case lookup_entry claims r of (e, r1) \<Rightarrow>
        if (case slot (gc_role claims) (rl_entry r1 e) of
              None \<Rightarrow> False | Some c \<Rightarrow> ws_ready (conn_socket r1 c) \<noteq> WsClosed)
        then closeSocket k DUPLICATE_ROLE ''duplicate relay role'' r1
        else join_entry k grant protocol claims e r1)"

definition upgrade_accepted :: "bool \<Rightarrow> string \<Rightarrow> string \<Rightarrow> authorization \<Rightarrow> relay \<Rightarrow> relay" where
  "upgrade_accepted destroyed protocol grant auth r =
     (if rl_closed r \<or> destroyed then r
      else acceptConnection (rl_sockets r) grant (fst auth) protocol (open_socket r))"

text \<open>The \<^verbatim>\<open>finally\<close> part of \<^verbatim>\<open>tryPair\<close>, and its \<^verbatim>\<open>catch\<close> part.\<close>

definition pair_settled :: "nat \<Rightarrow> relay \<Rightarrow> relay" where
  "pair_settled e = upd_entry e (\<lambda>x. x\<lparr>en_activating := False\<rparr>)"

definition pair_failed :: "nat \<Rightarrow> relay \<Rightarrow> relay" where
  "pair_failed e r = pair_settled e (closeEntry e LEASE_INVALIDATED ''session lease invalidated'' r)"

text \<open>The readiness frames, client first; the loop ends at the first peer that is not open.\<close>

definition ready_frame :: frame where
  "ready_frame = (DATA_PLANE_RELAY_READY_V2, False)"

definition push_frame :: "nat \<Rightarrow> frame \<Rightarrow> relay \<Rightarrow> relay" where
  "push_frame k f = upd_socket k (\<lambda>s. s\<lparr>ws_sent := ws_sent s @ [f]\<rparr>)"

fun send_ready :: "nat \<Rightarrow> nat list \<Rightarrow> relay \<Rightarrow> relay" where
  "send_ready e [] r = r"
| "send_ready e (c # cs) r =
     (if cn_protocol (rl_conn r c) \<noteq> DATA_PLANE_SUBPROTOCOL_V2 then send_ready e cs r
      else if ws_ready (conn_socket r c) \<noteq> WsOpen
      then closeEntry e TRY_AGAIN_LATER ''relay peer unavailable'' r
      else send_ready e cs (push_frame (cn_socket (rl_conn r c)) ready_frame r))"

definition link_peers :: "nat \<Rightarrow> nat \<Rightarrow> relay \<Rightarrow> relay" where
  "link_peers c w r = upd_conn w (\<lambda>x. x\<lparr>cn_peer := Some c\<rparr>) (upd_conn c (\<lambda>x. x\<lparr>cn_peer := Some w\<rparr>) r)"

text \<open>The rest of \<^verbatim>\<open>tryPair\<close> once the session is active; a slot that is \<^verbatim>\<open>null\<close> throws.\<close>

definition pair_activated :: "nat \<Rightarrow> relay \<Rightarrow> relay" where
  "pair_activated e r =
     (if en_closed (rl_entry r e) then pair_settled e r
      else
        (let r1 = upd_entry e (\<lambda>x. x\<lparr>en_active := True\<rparr>) r in
         case (en_client (rl_entry r1 e), en_worker (rl_entry r1 e)) of
           (Some c, Some w) \<Rightarrow>
             pair_settled e (send_ready e [c, w]
               (resetIdleTimers e (clearPeerTimer w (clearPeerTimer c (link_peers c w r1)))))
         | _ \<Rightarrow> pair_failed e r1))"

text \<open>
  The part of \<^verbatim>\<open>tryPair\<close> after \<^verbatim>\<open>Promise.all\<close>: it rejects as soon as one of the two does, and goes on
  when both have resolved. The status is the one in the client's answer.
\<close>

definition pair_answered :: "nat \<Rightarrow> string \<Rightarrow> string \<Rightarrow> answer option \<Rightarrow> answer option \<Rightarrow> relay \<Rightarrow> relay" where
  "pair_answered e clientGrant workerGrant ca wa r =
     (case (ca, wa) of
        (Some (Inr ca'), Some (Inr wa')) \<Rightarrow>
          if \<not> sameAllocation ca' (rl_entry r e) \<or> \<not> sameAllocation wa' (rl_entry r e) then pair_failed e r
          else
            (case ca' of
               None \<Rightarrow> pair_failed e r
             | Some (_, session) \<Rightarrow>
                 if s_status session = Connecting then add_task (PairActivate e) r
                 else if s_status session = Active then pair_activated e r
                 else pair_settled e (closeEntry e TRY_AGAIN_LATER ''session is not ready for relay activation'' r))
      | (Some (Inl _), _) \<Rightarrow> pair_failed e r
      | (_, Some (Inl _)) \<Rightarrow> pair_failed e r
      | _ \<Rightarrow> add_task (PairAuthorize e clientGrant workerGrant ca wa) r)"

definition pair_activation_answered :: "nat \<Rightarrow> session result \<Rightarrow> relay \<Rightarrow> relay" where
  "pair_activation_answered e outcome r =
     (case outcome of Inl _ \<Rightarrow> pair_failed e r | Inr _ \<Rightarrow> pair_activated e r)"

section \<open>Socket events and timers\<close>

text \<open>\<open>buffered\<close> is what the library reports as \<^verbatim>\<open>bufferedAmount\<close> of the peer's socket.\<close>

definition onMessage :: "nat \<Rightarrow> frame \<Rightarrow> int \<Rightarrow> relay \<Rightarrow> relay" where
  "onMessage c f buffered r =
     (let e = cn_entry (rl_conn r c) in
      case cn_peer (rl_conn r c) of
        None \<Rightarrow> closeEntry e TRY_AGAIN_LATER ''relay peer not ready'' r
      | Some p \<Rightarrow>
          if \<not> en_active (rl_entry r e) then closeEntry e TRY_AGAIN_LATER ''relay peer not ready'' r
          else if \<not> snd f \<and> cn_protocol (rl_conn r p) = DATA_PLANE_SUBPROTOCOL_V2 \<and> fst f = DATA_PLANE_RELAY_READY_V2
          then closeEntry e PROTOCOL_ERROR ''reserved relay control frame'' r
          else if validateDataPlaneFrameSize (int (length (fst f))) \<noteq> Inr True
          then closeEntry e MESSAGE_TOO_BIG ''data-plane frame too large'' r
          else if ws_ready (conn_socket r p) \<noteq> WsOpen
          then closeEntry e TRY_AGAIN_LATER ''relay peer unavailable'' r
          else
            (case isDataPlaneBackpressured buffered of
               Inl _ \<Rightarrow> r
             | Inr True \<Rightarrow> closeEntry e TRY_AGAIN_LATER ''relay backpressure limit exceeded'' r
             | Inr False \<Rightarrow> push_frame (cn_socket (rl_conn r p)) f (resetIdleTimers e r)))"

definition onSendFailed :: "nat \<Rightarrow> string \<Rightarrow> relay \<Rightarrow> relay" where
  "onSendFailed c reason r = closeEntry (cn_entry (rl_conn r c)) INTERNAL_ERROR reason r"

definition onSocketError :: "nat \<Rightarrow> relay \<Rightarrow> relay" where
  "onSocketError c r = closeEntry (cn_entry (rl_conn r c)) INTERNAL_ERROR ''relay socket error'' r"

text \<open>The library sets the ready state and emits \<^verbatim>\<open>close\<close> in one go.\<close>

definition handleSocketClose :: "nat \<Rightarrow> relay \<Rightarrow> relay" where
  "handleSocketClose c r0 =
     (let r = clearStateTimers c r0; e = cn_entry (rl_conn r c); role = cn_role (rl_conn r c) in
      if en_closed (rl_entry r e) then r
      else
        (let r1 = (if slot role (rl_entry r e) = Some c then upd_entry e (set_slot role None) r else r) in
         case slot (other_role role) (rl_entry r1 e) of
           Some _ \<Rightarrow> closeEntry e TRY_AGAIN_LATER ''relay peer disconnected'' r1
         | None \<Rightarrow>
             (let r2 = upd_entry e (\<lambda>x. x\<lparr>en_closed := True\<rparr>) r1 in
              r2\<lparr>rl_pairs := filter (\<lambda>p. fst p \<noteq> en_key (rl_entry r2 e)) (rl_pairs r2)\<rparr>)))"

definition set_closed :: "nat \<Rightarrow> relay \<Rightarrow> relay" where
  "set_closed k = upd_socket k (\<lambda>s. s\<lparr>ws_ready := WsClosed\<rparr>)"

definition peerTimerFired :: "nat \<Rightarrow> relay \<Rightarrow> relay" where
  "peerTimerFired c r =
     (let e = cn_entry (rl_conn r c); r1 = clearPeerTimer c r in
      if en_closed (rl_entry r1 e) \<or> en_active (rl_entry r1 e) then r1
      else closeEntry e PEER_TIMEOUT ''relay peer timeout'' r1)"

definition idleTimerFired :: "nat \<Rightarrow> relay \<Rightarrow> relay" where
  "idleTimerFired c r =
     (let r1 = upd_conn c (\<lambda>x. x\<lparr>cn_idleTimer := False\<rparr>) r in
      closeEntry (cn_entry (rl_conn r1 c)) PEER_TIMEOUT ''relay idle timeout'' r1)"

section \<open>Revalidation\<close>

text \<open>
  Reading the claims of a slot that is \<^verbatim>\<open>null\<close> throws; the round then rejects, the error is logged
  and the pairs that were still to come are not looked at.
\<close>

definition revalidation_failed :: "relay \<Rightarrow> relay" where
  "revalidation_failed r = r\<lparr>rl_revalidation := RoundOver, rl_revalidationFailures := Suc (rl_revalidationFailures r)\<rparr>"

definition next_pair :: "nat list \<Rightarrow> relay \<Rightarrow> relay" where
  "next_pair es r =
     (case es of
        [] \<Rightarrow> r\<lparr>rl_revalidation := RoundOver\<rparr>
      | e # rest \<Rightarrow>
          (case (en_client (rl_entry r e), en_worker (rl_entry r e)) of
             (Some c, Some w) \<Rightarrow>
               r\<lparr>rl_revalidation := CheckPair e (cn_claims (rl_conn r c)) (cn_claims (rl_conn r w)) None None rest\<rparr>
           | _ \<Rightarrow> revalidation_failed r))"

definition live_entries :: "relay \<Rightarrow> nat list" where
  "live_entries r = filter (\<lambda>e. en_active (rl_entry r e) \<and> \<not> en_closed (rl_entry r e)) (map snd (rl_pairs r))"

definition revalidatePairs :: "relay \<Rightarrow> relay" where
  "revalidatePairs r = next_pair (live_entries r) r"

definition pair_checked :: "nat \<Rightarrow> authorization option \<Rightarrow> authorization option \<Rightarrow> relay \<Rightarrow> relay" where
  "pair_checked e ca wa r =
     (if \<not> sameAllocation ca (rl_entry r e) \<or> \<not> sameAllocation wa (rl_entry r e)
      then closeEntry e LEASE_INVALIDATED ''session lease invalidated'' r else r)"

definition check_answered ::
  "nat \<Rightarrow> grant_claims \<Rightarrow> grant_claims \<Rightarrow> answer option \<Rightarrow> answer option \<Rightarrow> nat list \<Rightarrow> relay \<Rightarrow> relay" where
  "check_answered e cc wc ca wa rest r =
     (case (ca, wa) of
        (Some (Inr ca'), Some (Inr wa')) \<Rightarrow> next_pair rest (pair_checked e ca' wa' r)
      | (Some (Inl _), _) \<Rightarrow> revalidation_failed r
      | (_, Some (Inl _)) \<Rightarrow> revalidation_failed r
      | _ \<Rightarrow> r\<lparr>rl_revalidation := CheckPair e cc wc ca wa rest\<rparr>)"

definition scheduleRevalidation :: "relay \<Rightarrow> relay" where
  "scheduleRevalidation r =
     (if rl_closed r then r
      else if rl_revalidation r \<noteq> NoRound then r\<lparr>rl_revalidationPending := True\<rparr>
      else revalidatePairs r)"

definition revalidation_finally :: "relay \<Rightarrow> relay" where
  "revalidation_finally r0 =
     (let r = r0\<lparr>rl_revalidation := NoRound\<rparr> in
      if rl_revalidationPending r \<and> \<not> rl_closed r
      then scheduleRevalidation (r\<lparr>rl_revalidationPending := False\<rparr>) else r)"

section \<open>Starting and stopping\<close>

definition relay_init :: relay where
  "relay_init = \<lparr>rl_socket = \<lambda>_. \<lparr>ws_ready = WsClosed, ws_sent = [], ws_close = None\<rparr>, rl_sockets = 0,
     rl_conn = \<lambda>_. new_conn 0 [] [] \<lparr>gc_role = [], gc_sessionId = [], gc_workerId = [], gc_leaseId = [],
       gc_issuedAt = 0, gc_expiresAt = 0, gc_nonce = []\<rparr> 0, rl_conns = 0,
     rl_entry = \<lambda>_. (new_entry \<lparr>gc_role = [], gc_sessionId = [], gc_workerId = [], gc_leaseId = [],
       gc_issuedAt = 0, gc_expiresAt = 0, gc_nonce = []\<rparr>)\<lparr>en_closed := True\<rparr>, rl_entries = 0,
     rl_pairs = [], rl_closed = False, rl_subscribed = False, rl_revalidation = NoRound, rl_revalidationPending = False,
     rl_revalidationFailures = 0, rl_tasks = [], rl_rejections = []\<rparr>"

definition relay_start :: "relay \<Rightarrow> relay result" where
  "relay_start r =
     (if rl_closed r then Inl (PlainError ''data-plane relay is closed'')
      else Inr (r\<lparr>rl_subscribed := True\<rparr>))"

definition relay_stop :: "relay \<Rightarrow> relay" where
  "relay_stop r =
     (if rl_closed r then r else add_task StopDrain (r\<lparr>rl_closed := True, rl_subscribed := False\<rparr>))"

definition close_entries :: "nat list \<Rightarrow> relay \<Rightarrow> relay" where
  "close_entries es r = fold (\<lambda>e. closeEntry e TRY_AGAIN_LATER ''relay shutting down'') es r"

definition stop_drained :: "relay \<Rightarrow> relay" where
  "stop_drained r = add_task StopTerminate (close_entries (map snd (rl_pairs r)) r)"

definition terminate :: "socket \<Rightarrow> socket" where
  "terminate s = (if ws_ready s = WsClosed then s else s\<lparr>ws_ready := WsClosing\<rparr>)"

definition stop_terminated :: "relay \<Rightarrow> relay" where
  "stop_terminated r = r\<lparr>rl_socket := terminate \<circ> rl_socket r, rl_pairs := []\<rparr>"

section \<open>The relay beside the control plane\<close>

text \<open>
  The service's answers, as functions of the database at the moment it is asked: \<open>t\<close> and \<open>t'\<close> are
  the readings of its clock.
\<close>

record relay_env =
  ev_url :: "string \<Rightarrow> (string \<times> string) option"
  ev_decode :: "string \<Rightarrow> jsval option"
  ev_hmac :: "string \<Rightarrow> string \<Rightarrow> string"
  ev_service :: service_config

definition ask_grant :: "relay_env \<Rightarrow> string \<Rightarrow> string \<Rightarrow> int \<Rightarrow> int \<Rightarrow> db \<Rightarrow> answer" where
  "ask_grant env grant role t t' d =
     authorizeDataPlaneGrant (ev_decode env) (ev_hmac env) (ev_service env) (JStr grant) role t t' d"

definition ask_allocation :: "grant_claims \<Rightarrow> string \<Rightarrow> int \<Rightarrow> db \<Rightarrow> answer" where
  "ask_allocation claims role t d = authorizeDataPlaneAllocation (claims_js claims) role t d"

definition activation_request :: "pair_entry \<Rightarrow> jsval" where
  "activation_request en = JObj [(''workerId'', JStr (en_workerId en)), (''leaseId'', JStr (en_leaseId en))]"

text \<open>A waiting function goes on: its task is taken out, wherever it stands among the others.\<close>

definition take_task :: "nat \<Rightarrow> relay \<Rightarrow> relay" where
  "take_task i r = r\<lparr>rl_tasks := take i (rl_tasks r) @ drop (Suc i) (rl_tasks r)\<rparr>"

definition task_at :: "nat \<Rightarrow> task \<Rightarrow> relay \<Rightarrow> bool" where
  "task_at i t r \<longleftrightarrow> i < length (rl_tasks r) \<and> rl_tasks r ! i = t"

definition open_conn :: "nat \<Rightarrow> relay \<Rightarrow> bool" where
  "open_conn c r \<longleftrightarrow> c < rl_conns r \<and> ws_ready (conn_socket r c) \<noteq> WsClosed"

text \<open>
  One step of the whole: a change of the database by the control plane, or one uninterrupted piece
  of the relay. The label tells the frames that arrive from everything else.
\<close>

datatype relay_event = Received nat frame | Internal

inductive relay_step ::
  "(string \<Rightarrow> string \<Rightarrow> int) \<Rightarrow> (rat \<Rightarrow> string) \<Rightarrow> relay_env \<Rightarrow> relay_event \<Rightarrow> db \<times> relay \<Rightarrow> db \<times> relay \<Rightarrow> bool"
  for lc num env where
  control_plane: "cp_step lc num (ev_service env) d d' \<Longrightarrow> relay_step lc num env Internal (d, r) (d', r)"
| started: "relay_start r = Inr r' \<Longrightarrow> relay_step lc num env Internal (d, r) (d, r')"
| event: "rl_subscribed r \<Longrightarrow> relay_step lc num env Internal (d, r) (d, scheduleRevalidation r)"
| upgrade: "relay_step lc num env Internal (d, r) (d, handleUpgrade (ev_url env) destroyed url header r)"
| upgrade_client: "task_at i (UpgradeClient protocol grant) r \<Longrightarrow>
    relay_step lc num env Internal (d, r)
      (d, upgrade_client_answered destroyed protocol grant (ask_grant env grant ''client'' t t' d) (take_task i r))"
| upgrade_worker: "task_at i (UpgradeWorker protocol grant) r \<Longrightarrow>
    relay_step lc num env Internal (d, r)
      (d, upgrade_worker_answered destroyed protocol grant (ask_grant env grant ''worker'' t t' d) (take_task i r))"
| upgrade_accept: "task_at i (UpgradeAccept protocol grant auth) r \<Longrightarrow>
    relay_step lc num env Internal (d, r) (d, upgrade_accepted destroyed protocol grant auth (take_task i r))"
| pair_client: "task_at i (PairAuthorize e cg wg None wa) r \<Longrightarrow>
    relay_step lc num env Internal (d, r)
      (d, pair_answered e cg wg (Some (ask_grant env cg ''client'' t t' d)) wa (take_task i r))"
| pair_worker: "task_at i (PairAuthorize e cg wg ca None) r \<Longrightarrow>
    relay_step lc num env Internal (d, r)
      (d, pair_answered e cg wg ca (Some (ask_grant env wg ''worker'' t t' d)) (take_task i r))"
| activate: "task_at i (PairActivate e) r \<Longrightarrow>
    activateSession (ev_service env) (en_sessionId (rl_entry r e)) (activation_request (rl_entry r e)) now d = (outcome, d') \<Longrightarrow>
    relay_step lc num env Internal (d, r) (d', add_task (PairActivated e outcome) (take_task i r))"
| activated: "task_at i (PairActivated e outcome) r \<Longrightarrow>
    relay_step lc num env Internal (d, r) (d, pair_activation_answered e outcome (take_task i r))"
| message: "open_conn c r \<Longrightarrow> 0 \<le> buffered \<Longrightarrow> buffered \<le> max_safe_integer \<Longrightarrow>
    relay_step lc num env (Received c f) (d, r) (d, onMessage c f buffered r)"
| ping: "open_conn c r \<Longrightarrow> relay_step lc num env Internal (d, r) (d, resetIdleTimer c r)"
| send_failed: "c < rl_conns r \<Longrightarrow> ws_sent (conn_socket r c) \<noteq> [] \<Longrightarrow>
    reason \<in> {''relay send failed'', ''relay readiness send failed''} \<Longrightarrow>
    relay_step lc num env Internal (d, r) (d, onSendFailed c reason r)"
| socket_error: "open_conn c r \<Longrightarrow> relay_step lc num env Internal (d, r) (d, onSocketError c r)"
| socket_close: "open_conn c r \<Longrightarrow>
    relay_step lc num env Internal (d, r) (d, handleSocketClose c (set_closed (cn_socket (rl_conn r c)) r))"
| stray_close: "k < rl_sockets r \<Longrightarrow> \<forall>c < rl_conns r. cn_socket (rl_conn r c) \<noteq> k \<Longrightarrow>
    relay_step lc num env Internal (d, r) (d, set_closed k r)"
| peer_timer: "c < rl_conns r \<Longrightarrow> cn_peerTimer (rl_conn r c) \<Longrightarrow>
    relay_step lc num env Internal (d, r) (d, peerTimerFired c r)"
| idle_timer: "c < rl_conns r \<Longrightarrow> cn_idleTimer (rl_conn r c) \<Longrightarrow>
    relay_step lc num env Internal (d, r) (d, idleTimerFired c r)"
| check_client: "rl_revalidation r = CheckPair e cc wc None wa rest \<Longrightarrow>
    relay_step lc num env Internal (d, r)
      (d, check_answered e cc wc (Some (ask_allocation cc ''client'' t d)) wa rest r)"
| check_worker: "rl_revalidation r = CheckPair e cc wc ca None rest \<Longrightarrow>
    relay_step lc num env Internal (d, r)
      (d, check_answered e cc wc ca (Some (ask_allocation wc ''worker'' t d)) rest r)"
| round_over: "rl_revalidation r = RoundOver \<Longrightarrow>
    relay_step lc num env Internal (d, r) (d, revalidation_finally r)"
| stop: "relay_step lc num env Internal (d, r) (d, relay_stop r)"
| stop_drain: "task_at i StopDrain r \<Longrightarrow> rl_revalidation r = NoRound \<Longrightarrow>
    relay_step lc num env Internal (d, r) (d, stop_drained (take_task i r))"
| stop_terminate: "task_at i StopTerminate r \<Longrightarrow>
    relay_step lc num env Internal (d, r) (d, stop_terminated (take_task i r))"

text \<open>A run, with the frames that arrived on it in order.\<close>

inductive relay_run ::
  "(string \<Rightarrow> string \<Rightarrow> int) \<Rightarrow> (rat \<Rightarrow> string) \<Rightarrow> relay_env \<Rightarrow> relay_event list \<Rightarrow> db \<times> relay \<Rightarrow> db \<times> relay \<Rightarrow> bool"
  for lc num env where
  none: "relay_run lc num env [] s s"
| more: "relay_run lc num env tr s s' \<Longrightarrow> relay_step lc num env a s' s'' \<Longrightarrow> relay_run lc num env (tr @ [a]) s s''"

abbreviation relay_reachable ::
  "(string \<Rightarrow> string \<Rightarrow> int) \<Rightarrow> (rat \<Rightarrow> string) \<Rightarrow> relay_env \<Rightarrow> relay_event list \<Rightarrow> db \<Rightarrow> relay \<Rightarrow> bool" where
  "relay_reachable lc num env tr d r \<equiv> relay_run lc num env tr (empty_db, relay_init) (d, r)"

end
