(* ===== verification/RelayInvariant.thy ===== *)
theory RelayInvariant
  imports Relay
begin

text \<open>
  The invariant of the relay's stores: how the primitive operations change each field (first
  section, all simplification rules), what is kept (\<open>relay_ok\<close>), and one preservation lemma for each
  uninterrupted piece of the code.
\<close>

section \<open>The effect of the primitive operations\<close>

named_theorems relay_ops

lemmas [relay_ops] = upd_socket_def upd_conn_def upd_entry_def add_task_def

lemma upd_socket_simps [simp]:
  "rl_socket (upd_socket k f r) = (rl_socket r)(k := f (rl_socket r k))"
  "rl_sockets (upd_socket k f r) = rl_sockets r" "rl_conn (upd_socket k f r) = rl_conn r"
  "rl_conns (upd_socket k f r) = rl_conns r" "rl_entry (upd_socket k f r) = rl_entry r"
  "rl_entries (upd_socket k f r) = rl_entries r" "rl_pairs (upd_socket k f r) = rl_pairs r"
  "rl_closed (upd_socket k f r) = rl_closed r" "rl_subscribed (upd_socket k f r) = rl_subscribed r"
  "rl_revalidation (upd_socket k f r) = rl_revalidation r" "rl_tasks (upd_socket k f r) = rl_tasks r"
  "rl_revalidationPending (upd_socket k f r) = rl_revalidationPending r" "rl_revalidationFailures (upd_socket k f r) = rl_revalidationFailures r"
  by (simp_all add: relay_ops)

lemma upd_conn_simps [simp]:
  "rl_conn (upd_conn c f r) = (rl_conn r)(c := f (rl_conn r c))"
  "rl_socket (upd_conn c f r) = rl_socket r" "rl_sockets (upd_conn c f r) = rl_sockets r"
  "rl_conns (upd_conn c f r) = rl_conns r" "rl_entry (upd_conn c f r) = rl_entry r"
  "rl_entries (upd_conn c f r) = rl_entries r" "rl_pairs (upd_conn c f r) = rl_pairs r"
  "rl_closed (upd_conn c f r) = rl_closed r" "rl_subscribed (upd_conn c f r) = rl_subscribed r"
  "rl_revalidation (upd_conn c f r) = rl_revalidation r" "rl_tasks (upd_conn c f r) = rl_tasks r"
  "rl_revalidationPending (upd_conn c f r) = rl_revalidationPending r" "rl_revalidationFailures (upd_conn c f r) = rl_revalidationFailures r"
  by (simp_all add: relay_ops)

lemma upd_entry_simps [simp]:
  "rl_entry (upd_entry e f r) = (rl_entry r)(e := f (rl_entry r e))"
  "rl_socket (upd_entry e f r) = rl_socket r" "rl_sockets (upd_entry e f r) = rl_sockets r"
  "rl_conn (upd_entry e f r) = rl_conn r" "rl_conns (upd_entry e f r) = rl_conns r"
  "rl_entries (upd_entry e f r) = rl_entries r" "rl_pairs (upd_entry e f r) = rl_pairs r"
  "rl_closed (upd_entry e f r) = rl_closed r" "rl_subscribed (upd_entry e f r) = rl_subscribed r"
  "rl_revalidation (upd_entry e f r) = rl_revalidation r" "rl_tasks (upd_entry e f r) = rl_tasks r"
  "rl_revalidationPending (upd_entry e f r) = rl_revalidationPending r" "rl_revalidationFailures (upd_entry e f r) = rl_revalidationFailures r"
  by (simp_all add: relay_ops)

lemma add_task_simps [simp]:
  "rl_tasks (add_task t r) = rl_tasks r @ [t]"
  "rl_socket (add_task t r) = rl_socket r" "rl_sockets (add_task t r) = rl_sockets r"
  "rl_conn (add_task t r) = rl_conn r" "rl_conns (add_task t r) = rl_conns r"
  "rl_entry (add_task t r) = rl_entry r" "rl_entries (add_task t r) = rl_entries r"
  "rl_pairs (add_task t r) = rl_pairs r" "rl_closed (add_task t r) = rl_closed r"
  "rl_subscribed (add_task t r) = rl_subscribed r" "rl_revalidation (add_task t r) = rl_revalidation r"
  "rl_revalidationPending (add_task t r) = rl_revalidationPending r" "rl_revalidationFailures (add_task t r) = rl_revalidationFailures r"
  by (simp_all add: relay_ops)

text \<open>Only timers change: every other field of every connection is the same.\<close>

definition same_conn :: "conn \<Rightarrow> conn \<Rightarrow> bool" where
  "same_conn x y \<longleftrightarrow> x\<lparr>cn_peerTimer := False, cn_idleTimer := False\<rparr> = y\<lparr>cn_peerTimer := False, cn_idleTimer := False\<rparr>"

lemma same_conn_fields:
  "same_conn x y \<Longrightarrow> cn_socket x = cn_socket y \<and> cn_grant x = cn_grant y \<and> cn_protocol x = cn_protocol y \<and>
     cn_claims x = cn_claims y \<and> cn_role x = cn_role y \<and> cn_entry x = cn_entry y \<and> cn_peer x = cn_peer y"
  by (cases x; cases y) (simp add: same_conn_def)

lemma same_conn_refl [simp]: "same_conn x x"
  by (simp add: same_conn_def)

lemma same_conn_trans [trans]: "same_conn x y \<Longrightarrow> same_conn y z \<Longrightarrow> same_conn x z"
  by (simp add: same_conn_def)

text \<open>The rest of a state: all but connections, sockets, entries and the pair map.\<close>

definition same_rest :: "relay \<Rightarrow> relay \<Rightarrow> bool" where
  "same_rest r' r \<longleftrightarrow> rl_sockets r' = rl_sockets r \<and> rl_conns r' = rl_conns r \<and> rl_entries r' = rl_entries r \<and>
     rl_closed r' = rl_closed r \<and> rl_subscribed r' = rl_subscribed r \<and> rl_revalidation r' = rl_revalidation r \<and>
     rl_revalidationPending r' = rl_revalidationPending r \<and> rl_revalidationFailures r' = rl_revalidationFailures r \<and>
     rl_tasks r' = rl_tasks r"

lemma timers_effect:
  "same_conn (rl_conn (clearPeerTimer c r) x) (rl_conn r x)"
  "same_conn (rl_conn (clearStateTimers c r) x) (rl_conn r x)"
  "same_conn (rl_conn (resetIdleTimer c r) x) (rl_conn r x)"
  by (simp_all add: same_conn_def clearPeerTimer_def clearStateTimers_def resetIdleTimer_def)

lemma timers_fields [simp]:
  "rl_socket (clearPeerTimer c r) = rl_socket r" "rl_entry (clearPeerTimer c r) = rl_entry r"
  "rl_pairs (clearPeerTimer c r) = rl_pairs r" "same_rest (clearPeerTimer c r) r"
  "rl_socket (clearStateTimers c r) = rl_socket r" "rl_entry (clearStateTimers c r) = rl_entry r"
  "rl_pairs (clearStateTimers c r) = rl_pairs r" "same_rest (clearStateTimers c r) r"
  "rl_socket (resetIdleTimer c r) = rl_socket r" "rl_entry (resetIdleTimer c r) = rl_entry r"
  "rl_pairs (resetIdleTimer c r) = rl_pairs r" "same_rest (resetIdleTimer c r) r"
  by (simp_all add: clearPeerTimer_def clearStateTimers_def resetIdleTimer_def same_rest_def)

lemma same_rest_refl [simp]: "same_rest r r"
  by (simp add: same_rest_def)

lemma same_rest_trans: "same_rest r'' r' \<Longrightarrow> same_rest r' r \<Longrightarrow> same_rest r'' r"
  by (simp add: same_rest_def)

text \<open>
  A state that differs from another only in what the invariant does not speak of: timers, frames
  sent, close codes, and the progress of a revalidation.
\<close>

definition same_relay :: "relay \<Rightarrow> relay \<Rightarrow> bool" where
  "same_relay r' r \<longleftrightarrow> (\<forall>k. ws_ready (rl_socket r' k) = ws_ready (rl_socket r k)) \<and> rl_sockets r' = rl_sockets r \<and>
     (\<forall>c. same_conn (rl_conn r' c) (rl_conn r c)) \<and> rl_conns r' = rl_conns r \<and>
     rl_entry r' = rl_entry r \<and> rl_entries r' = rl_entries r \<and> rl_pairs r' = rl_pairs r \<and>
     rl_closed r' = rl_closed r \<and> rl_tasks r' = rl_tasks r"

lemma same_relay_trans: "same_relay r'' r' \<Longrightarrow> same_relay r' r \<Longrightarrow> same_relay r'' r"
  unfolding same_relay_def using same_conn_trans by (metis (full_types))

lemma same_relay_simps [simp]:
  "same_relay r r" "same_relay (clearPeerTimer c r) r" "same_relay (clearStateTimers c r) r"
  "same_relay (resetIdleTimer c r) r" "same_relay (upd_conn c (\<lambda>x. x\<lparr>cn_idleTimer := b\<rparr>) r) r"
  "same_relay (push_frame k f r) r"
  "same_relay (r\<lparr>rl_subscribed := b\<rparr>) r" "same_relay (r\<lparr>rl_revalidation := v\<rparr>) r"
  "same_relay (r\<lparr>rl_revalidationPending := b\<rparr>) r" "same_relay (r\<lparr>rl_rejections := l\<rparr>) r"
  "same_relay (r\<lparr>rl_revalidation := v, rl_revalidationFailures := n\<rparr>) r"
  by (simp_all add: same_relay_def same_conn_def clearPeerTimer_def clearStateTimers_def resetIdleTimer_def push_frame_def)

lemma same_relay_resetIdleTimers [simp]: "same_relay (resetIdleTimers e r) r"
  unfolding resetIdleTimers_def
  by (auto simp: Let_def split: option.splits intro: same_relay_trans [OF same_relay_simps(4)])

section \<open>The effect of closing an entry\<close>

text \<open>
  The sockets of an entry's two slots; closing the entry closes the open ones among them.
\<close>

definition entry_sockets :: "relay \<Rightarrow> nat \<Rightarrow> nat set" where
  "entry_sockets r e = (\<lambda>c. cn_socket (rl_conn r c)) ` (set_option (en_client (rl_entry r e)) \<union> set_option (en_worker (rl_entry r e)))"

definition shut :: "int \<Rightarrow> string \<Rightarrow> socket \<Rightarrow> socket" where
  "shut code reason s = (if ws_ready s = WsOpen then s\<lparr>ws_ready := WsClosing, ws_close := Some (code, reason)\<rparr> else s)"

lemma shut_simps [simp]:
  "ws_sent (shut code reason s) = ws_sent s" "ws_ready (shut code reason s) \<noteq> WsOpen"
  "ws_ready (shut code reason s) = WsClosed \<longleftrightarrow> ws_ready s = WsClosed" "shut c' r' (shut code reason s) = shut code reason s"
  by (auto simp: shut_def)

lemma closeSocket_shut:
  "closeSocket k code reason r = upd_socket k (shut (DATA_PLANE_CLOSE_CODES code) reason) r"
  by (cases "ws_ready (rl_socket r k)") (auto simp: closeSocket_def shut_def relay_ops)

definition closed_effect :: "nat \<Rightarrow> close_code \<Rightarrow> string \<Rightarrow> relay \<Rightarrow> relay \<Rightarrow> bool" where
  "closed_effect e code reason r' r \<longleftrightarrow>
     rl_entry r' = (rl_entry r)(e := (rl_entry r e)\<lparr>en_closed := True\<rparr>) \<and>
     rl_pairs r' = filter (\<lambda>p. fst p \<noteq> en_key (rl_entry r e)) (rl_pairs r) \<and>
     rl_socket r' = (\<lambda>k. if k \<in> entry_sockets r e then shut (DATA_PLANE_CLOSE_CODES code) reason (rl_socket r k) else rl_socket r k) \<and>
     same_rest r' r \<and> (\<forall>c. same_conn (rl_conn r' c) (rl_conn r c))"

lemma close_slot_effect:
  "rl_entry (close_slot code reason s r) = rl_entry r \<and> rl_pairs (close_slot code reason s r) = rl_pairs r \<and>
   same_rest (close_slot code reason s r) r \<and> same_conn (rl_conn (close_slot code reason s r) x) (rl_conn r x) \<and>
   rl_socket (close_slot code reason s r) = (\<lambda>k. if k \<in> (\<lambda>c. cn_socket (rl_conn r c)) ` set_option s
     then shut (DATA_PLANE_CLOSE_CODES code) reason (rl_socket r k) else rl_socket r k)"
  by (cases s) (auto simp: close_slot_def closeSocket_shut timers_effect same_rest_def fun_eq_iff
      clearStateTimers_def clearPeerTimer_def same_conn_def)

lemma closeEntry_effect:
  assumes "\<not> en_closed (rl_entry r e)"
  shows "closed_effect e code reason (closeEntry e code reason r) r"
proof -
  let ?en = "rl_entry r e"
  let ?r2 = "(upd_entry e (\<lambda>x. x\<lparr>en_closed := True\<rparr>) r)\<lparr>rl_pairs := filter (\<lambda>p. fst p \<noteq> en_key ?en) (rl_pairs r)\<rparr>"
  let ?r3 = "close_slot code reason (en_client ?en) ?r2"
  have eq: "closeEntry e code reason r = close_slot code reason (en_worker ?en) ?r3"
    using assms by (simp add: closeEntry_def Let_def)
  have base: "rl_conn ?r2 = rl_conn r" "rl_socket ?r2 = rl_socket r" "same_rest ?r2 r"
    by (simp_all add: same_rest_def relay_ops)
  note s3 = close_slot_effect [of code reason "en_client ?en" ?r2]
  note s4 = close_slot_effect [of code reason "en_worker ?en" ?r3]
  have c3: "same_conn (rl_conn ?r3 x) (rl_conn r x)" for x
    using close_slot_effect [of code reason "en_client ?en" ?r2 x] base by simp
  then have sock: "cn_socket (rl_conn ?r3 x) = cn_socket (rl_conn r x)" for x
    using same_conn_fields by blast
  have "same_conn (rl_conn (closeEntry e code reason r) x) (rl_conn r x)" for x
    unfolding eq using close_slot_effect [of code reason "en_worker ?en" ?r3 x] c3 same_conn_trans by blast
  moreover have "same_rest (closeEntry e code reason r) r"
    unfolding eq using s3 s4 base(3) same_rest_trans by blast
  moreover have "rl_socket (closeEntry e code reason r) = (\<lambda>k. if k \<in> entry_sockets r e
      then shut (DATA_PLANE_CLOSE_CODES code) reason (rl_socket r k) else rl_socket r k)"
    unfolding eq using s3 s4 base sock by (auto simp: entry_sockets_def fun_eq_iff)
  ultimately show ?thesis
    unfolding closed_effect_def using s3 s4 base by (simp add: eq relay_ops)
qed

lemma closeEntry_closed [simp]: "en_closed (rl_entry r e) \<Longrightarrow> closeEntry e code reason r = r"
  by (simp add: closeEntry_def)

section \<open>The invariant\<close>

definition pairs_ok :: "relay \<Rightarrow> bool" where
  "pairs_ok r \<longleftrightarrow> distinct (map fst (rl_pairs r)) \<and>
     (\<forall>p \<in> set (rl_pairs r). snd p < rl_entries r \<and> en_key (rl_entry r (snd p)) = fst p \<and> \<not> en_closed (rl_entry r (snd p))) \<and>
     (\<forall>e < rl_entries r. \<not> en_closed (rl_entry r e) \<longrightarrow> (en_key (rl_entry r e), e) \<in> set (rl_pairs r))"

definition conns_ok :: "relay \<Rightarrow> bool" where
  "conns_ok r \<longleftrightarrow> (\<forall>c < rl_conns r. cn_socket (rl_conn r c) < rl_sockets r \<and> cn_entry (rl_conn r c) < rl_entries r \<and>
       cn_role (rl_conn r c) \<in> {''client'', ''worker''} \<and>
       valid_claims (cn_claims (rl_conn r c)) \<and> gc_role (cn_claims (rl_conn r c)) = cn_role (rl_conn r c) \<and>
       cn_protocol (rl_conn r c) \<in> {DATA_PLANE_SUBPROTOCOL, DATA_PLANE_SUBPROTOCOL_V2}) \<and>
     (\<forall>c < rl_conns r. \<forall>c' < rl_conns r. cn_socket (rl_conn r c) = cn_socket (rl_conn r c') \<longrightarrow> c = c')"

text \<open>
  A slot holds a connection of that entry and role; the slots of an open entry hold sockets that are
  not closed; a connection that is not in its slot has a closed socket; and no connection of a
  closed entry is open.
\<close>

definition slots_ok :: "relay \<Rightarrow> bool" where
  "slots_ok r \<longleftrightarrow>
     (\<forall>e < rl_entries r. \<forall>role \<in> {''client'', ''worker''}. \<forall>c. slot role (rl_entry r e) = Some c \<longrightarrow>
        c < rl_conns r \<and> cn_entry (rl_conn r c) = e \<and> cn_role (rl_conn r c) = role \<and>
        (\<not> en_closed (rl_entry r e) \<longrightarrow> ws_ready (conn_socket r c) \<noteq> WsClosed)) \<and>
     (\<forall>c < rl_conns r. slot (cn_role (rl_conn r c)) (rl_entry r (cn_entry (rl_conn r c))) = Some c \<or>
        ws_ready (conn_socket r c) = WsClosed) \<and>
     (\<forall>c < rl_conns r. en_closed (rl_entry r (cn_entry (rl_conn r c))) \<longrightarrow> ws_ready (conn_socket r c) \<noteq> WsOpen)"

text \<open>Peers belong together, and the two slots of an open active entry are each other's peers.\<close>

definition links_ok :: "relay \<Rightarrow> bool" where
  "links_ok r \<longleftrightarrow>
     (\<forall>c < rl_conns r. \<forall>p. cn_peer (rl_conn r c) = Some p \<longrightarrow>
        p < rl_conns r \<and> cn_entry (rl_conn r p) = cn_entry (rl_conn r c) \<and>
        cn_role (rl_conn r p) = other_role (cn_role (rl_conn r c)) \<and>
        cn_peer (rl_conn r p) = Some c \<and> en_active (rl_entry r (cn_entry (rl_conn r c)))) \<and>
     (\<forall>e < rl_entries r. en_active (rl_entry r e) \<and> \<not> en_closed (rl_entry r e) \<longrightarrow>
        (\<exists>c w. en_client (rl_entry r e) = Some c \<and> en_worker (rl_entry r e) = Some w \<and>
           cn_peer (rl_conn r c) = Some w \<and> cn_peer (rl_conn r w) = Some c))"

text \<open>
  Exactly the entries that are being activated have one pairing task; meanwhile both slots of an open
  entry are filled, with the connections whose grants the task names.
\<close>

fun pair_task :: "nat \<Rightarrow> task \<Rightarrow> bool" where
  "pair_task e (PairAuthorize x _ _ _ _) \<longleftrightarrow> x = e"
| "pair_task e (PairActivate x) \<longleftrightarrow> x = e"
| "pair_task e (PairActivated x _) \<longleftrightarrow> x = e"
| "pair_task e _ \<longleftrightarrow> False"

definition filled :: "relay \<Rightarrow> nat \<Rightarrow> bool" where
  "filled r e \<longleftrightarrow> en_closed (rl_entry r e) \<or> en_client (rl_entry r e) \<noteq> None \<and> en_worker (rl_entry r e) \<noteq> None"

fun task_ok :: "relay \<Rightarrow> task \<Rightarrow> bool" where
  "task_ok r (UpgradeClient protocol grant) \<longleftrightarrow> protocol \<in> {DATA_PLANE_SUBPROTOCOL, DATA_PLANE_SUBPROTOCOL_V2}"
| "task_ok r (UpgradeWorker protocol grant) \<longleftrightarrow> protocol \<in> {DATA_PLANE_SUBPROTOCOL, DATA_PLANE_SUBPROTOCOL_V2}"
| "task_ok r (UpgradeAccept protocol grant auth) \<longleftrightarrow> protocol \<in> {DATA_PLANE_SUBPROTOCOL, DATA_PLANE_SUBPROTOCOL_V2} \<and>
     valid_claims (fst auth)"
| "task_ok r (PairAuthorize e clientGrant workerGrant _ _) \<longleftrightarrow> e < rl_entries r \<and> filled r e \<and>
     (\<not> en_closed (rl_entry r e) \<longrightarrow>
        cn_grant (rl_conn r (the (en_client (rl_entry r e)))) = clientGrant \<and>
        cn_grant (rl_conn r (the (en_worker (rl_entry r e)))) = workerGrant)"
| "task_ok r (PairActivate e) \<longleftrightarrow> e < rl_entries r \<and> filled r e"
| "task_ok r (PairActivated e _) \<longleftrightarrow> e < rl_entries r \<and> filled r e"
| "task_ok r StopDrain \<longleftrightarrow> rl_closed r"
| "task_ok r StopTerminate \<longleftrightarrow> rl_closed r \<and> (\<forall>e < rl_entries r. en_closed (rl_entry r e))"

definition tasks_ok :: "relay \<Rightarrow> bool" where
  "tasks_ok r \<longleftrightarrow> list_all (task_ok r) (rl_tasks r) \<and>
     (\<forall>e. length (filter (pair_task e) (rl_tasks r)) = (if e < rl_entries r \<and> en_activating (rl_entry r e) then 1 else 0)) \<and>
     (\<forall>e < rl_entries r. en_active (rl_entry r e) \<longrightarrow> \<not> en_activating (rl_entry r e))"

definition relay_ok :: "relay \<Rightarrow> bool" where
  "relay_ok r \<longleftrightarrow> pairs_ok r \<and> conns_ok r \<and> slots_ok r \<and> links_ok r \<and> tasks_ok r"

lemma relay_init_ok: "relay_ok relay_init"
  by (simp add: relay_ok_def pairs_ok_def conns_ok_def slots_ok_def links_ok_def tasks_ok_def relay_init_def)

lemma same_relay_ok:
  assumes "same_relay r' r"
  shows "relay_ok r' = relay_ok r"
proof -
  have f: "ws_ready (rl_socket r' k) = ws_ready (rl_socket r k)" "rl_entry r' = rl_entry r" "rl_pairs r' = rl_pairs r"
    "rl_sockets r' = rl_sockets r" "rl_conns r' = rl_conns r" "rl_entries r' = rl_entries r"
    "rl_tasks r' = rl_tasks r" "rl_closed r' = rl_closed r"
    and c: "\<And>c. cn_socket (rl_conn r' c) = cn_socket (rl_conn r c)" "\<And>c. cn_grant (rl_conn r' c) = cn_grant (rl_conn r c)"
      "\<And>c. cn_protocol (rl_conn r' c) = cn_protocol (rl_conn r c)" "\<And>c. cn_claims (rl_conn r' c) = cn_claims (rl_conn r c)" "\<And>c. cn_role (rl_conn r' c) = cn_role (rl_conn r c)"
      "\<And>c. cn_entry (rl_conn r' c) = cn_entry (rl_conn r c)" "\<And>c. cn_peer (rl_conn r' c) = cn_peer (rl_conn r c)" for k
    using assms same_conn_fields unfolding same_relay_def by blast+
  have "task_ok r' t = task_ok r t" for t
    by (cases t) (simp_all add: f c filled_def)
  then have "list_all (task_ok r') ts = list_all (task_ok r) ts" for ts
    by (simp add: list_all_iff)
  then show ?thesis
    unfolding relay_ok_def pairs_ok_def conns_ok_def slots_ok_def links_ok_def tasks_ok_def f c by simp
qed

lemma same_relayI: "relay_ok r \<Longrightarrow> same_relay r' r \<Longrightarrow> relay_ok r'"
  by (simp add: same_relay_ok)

subsection \<open>Closing an entry\<close>

text \<open>The invariant's facts in the form the proofs use them.\<close>

lemma slotD:
  assumes "relay_ok r" and "e < rl_entries r" and "slot role (rl_entry r e) = Some c" and "role \<in> {''client'', ''worker''}"
  shows "c < rl_conns r" and "cn_entry (rl_conn r c) = e" and "cn_role (rl_conn r c) = role"
    and "\<not> en_closed (rl_entry r e) \<Longrightarrow> ws_ready (conn_socket r c) \<noteq> WsClosed"
  using assms unfolding relay_ok_def slots_ok_def by blast+

lemma slot_client: "en_client en = Some c \<longleftrightarrow> slot ''client'' en = Some c"
  and slot_worker: "en_worker en = Some c \<longleftrightarrow> slot ''worker'' en = Some c"
  by (simp_all add: slot_def)

lemma clientD:
  assumes "relay_ok r" and "e < rl_entries r" and "en_client (rl_entry r e) = Some c"
  shows "c < rl_conns r" and "cn_entry (rl_conn r c) = e" and "cn_role (rl_conn r c) = ''client''"
    and "\<not> en_closed (rl_entry r e) \<Longrightarrow> ws_ready (conn_socket r c) \<noteq> WsClosed"
  using slotD [OF assms(1,2), of "''client''" c] assms(3) by (simp_all add: slot_client)

lemma workerD:
  assumes "relay_ok r" and "e < rl_entries r" and "en_worker (rl_entry r e) = Some c"
  shows "c < rl_conns r" and "cn_entry (rl_conn r c) = e" and "cn_role (rl_conn r c) = ''worker''"
    and "\<not> en_closed (rl_entry r e) \<Longrightarrow> ws_ready (conn_socket r c) \<noteq> WsClosed"
  using slotD [OF assms(1,2), of "''worker''" c] assms(3) by (simp_all add: slot_worker)

lemma connD:
  assumes "relay_ok r" and "c < rl_conns r"
  shows "cn_socket (rl_conn r c) < rl_sockets r" and "cn_entry (rl_conn r c) < rl_entries r"
    and "cn_role (rl_conn r c) \<in> {''client'', ''worker''}"
    and "cn_protocol (rl_conn r c) \<in> {DATA_PLANE_SUBPROTOCOL, DATA_PLANE_SUBPROTOCOL_V2}"
    and "slot (cn_role (rl_conn r c)) (rl_entry r (cn_entry (rl_conn r c))) = Some c \<or> ws_ready (conn_socket r c) = WsClosed"
    and "en_closed (rl_entry r (cn_entry (rl_conn r c))) \<Longrightarrow> ws_ready (conn_socket r c) \<noteq> WsOpen"
    and "valid_claims (cn_claims (rl_conn r c))" and "gc_role (cn_claims (rl_conn r c)) = cn_role (rl_conn r c)"
  using assms unfolding relay_ok_def conns_ok_def slots_ok_def by blast+

lemma socket_inj:
  "relay_ok r \<Longrightarrow> c < rl_conns r \<Longrightarrow> c' < rl_conns r \<Longrightarrow> cn_socket (rl_conn r c) = cn_socket (rl_conn r c') \<longleftrightarrow> c = c'"
  unfolding relay_ok_def conns_ok_def by blast

lemma peerD:
  assumes "relay_ok r" and "c < rl_conns r" and "cn_peer (rl_conn r c) = Some p"
  shows "p < rl_conns r" and "cn_entry (rl_conn r p) = cn_entry (rl_conn r c)"
    and "cn_role (rl_conn r p) = other_role (cn_role (rl_conn r c))" and "cn_peer (rl_conn r p) = Some c"
    and "en_active (rl_entry r (cn_entry (rl_conn r c)))"
  using assms unfolding relay_ok_def links_ok_def by blast+

text \<open>Only connections of the entry own a socket of its slots.\<close>

lemma entry_sockets_owner:
  assumes "relay_ok r" and "e < rl_entries r" and "c < rl_conns r" and "cn_socket (rl_conn r c) \<in> entry_sockets r e"
  shows "cn_entry (rl_conn r c) = e"
proof -
  from assms(4) obtain c' where "en_client (rl_entry r e) = Some c' \<or> en_worker (rl_entry r e) = Some c'"
    and k: "cn_socket (rl_conn r c) = cn_socket (rl_conn r c')" by (auto simp: entry_sockets_def)
  then have "c' < rl_conns r \<and> cn_entry (rl_conn r c') = e"
    using clientD [OF assms(1,2)] workerD [OF assms(1,2)] by blast
  with k assms(1,3) socket_inj show ?thesis by auto
qed

lemma slot_in_sockets: "slot role (rl_entry r e) = Some c \<Longrightarrow> cn_socket (rl_conn r c) \<in> entry_sockets r e"
  by (auto simp: slot_def entry_sockets_def split: if_splits)

lemma slot_closed [simp]: "slot role (en\<lparr>en_closed := b\<rparr>) = slot role en" "slot role (en\<lparr>en_active := b\<rparr>) = slot role en"
  "slot role (en\<lparr>en_activating := b\<rparr>) = slot role en"
  by (simp_all add: slot_def)

text \<open>
  An entry stops being open and its sockets stop being open, everything else but the timers staying
  as it is: what closing an entry does.
\<close>

lemma closed_effect_ok:
  assumes ok: "relay_ok r" and e: "e < rl_entries r" and nc: "\<not> en_closed (rl_entry r e)"
    and eff: "closed_effect e code reason r' r"
  shows "relay_ok r'"
proof -
  have E: "rl_entry r' = (rl_entry r)(e := (rl_entry r e)\<lparr>en_closed := True\<rparr>)"
    and P: "rl_pairs r' = filter (\<lambda>p. fst p \<noteq> en_key (rl_entry r e)) (rl_pairs r)"
    and S: "rl_socket r' k = (if k \<in> entry_sockets r e then shut (DATA_PLANE_CLOSE_CODES code) reason (rl_socket r k) else rl_socket r k)" for k
    using eff by (simp_all add: closed_effect_def)
  have f: "rl_sockets r' = rl_sockets r" "rl_conns r' = rl_conns r" "rl_entries r' = rl_entries r"
    "rl_tasks r' = rl_tasks r" "rl_closed r' = rl_closed r"
    and c: "\<And>c. cn_socket (rl_conn r' c) = cn_socket (rl_conn r c)" "\<And>c. cn_grant (rl_conn r' c) = cn_grant (rl_conn r c)"
      "\<And>c. cn_protocol (rl_conn r' c) = cn_protocol (rl_conn r c)" "\<And>c. cn_role (rl_conn r' c) = cn_role (rl_conn r c)"
      "\<And>c. cn_claims (rl_conn r' c) = cn_claims (rl_conn r c)"
      "\<And>c. cn_entry (rl_conn r' c) = cn_entry (rl_conn r c)" "\<And>c. cn_peer (rl_conn r' c) = cn_peer (rl_conn r c)"
    using eff same_conn_fields unfolding closed_effect_def same_rest_def by blast+
  have slot: "slot role (rl_entry r' x) = slot role (rl_entry r x)" for role x by (simp add: E)
  have closed: "en_closed (rl_entry r' x) \<longleftrightarrow> x = e \<or> en_closed (rl_entry r x)" for x by (simp add: E)
  have other: "en_key (rl_entry r' x) = en_key (rl_entry r x)" "en_active (rl_entry r' x) = en_active (rl_entry r x)"
    "en_activating (rl_entry r' x) = en_activating (rl_entry r x)" "en_client (rl_entry r' x) = en_client (rl_entry r x)"
    "en_worker (rl_entry r' x) = en_worker (rl_entry r x)" for x by (simp_all add: E)
  have open': "ws_ready (rl_socket r' k) = WsOpen \<longleftrightarrow> ws_ready (rl_socket r k) = WsOpen \<and> k \<notin> entry_sockets r e" for k
    by (simp add: S)
  have closed': "ws_ready (rl_socket r' k) = WsClosed \<longleftrightarrow> ws_ready (rl_socket r k) = WsClosed" for k
    by (simp add: S)
  have "distinct (map fst (rl_pairs r'))"
    using ok by (simp add: P relay_ok_def pairs_ok_def distinct_map_filter)
  moreover have "\<forall>p \<in> set (rl_pairs r'). snd p < rl_entries r' \<and> en_key (rl_entry r' (snd p)) = fst p \<and> \<not> en_closed (rl_entry r' (snd p))"
    using ok by (auto simp: P relay_ok_def pairs_ok_def f other closed)
  moreover have "\<forall>x < rl_entries r'. \<not> en_closed (rl_entry r' x) \<longrightarrow> (en_key (rl_entry r' x), x) \<in> set (rl_pairs r')"
  proof (intro allI impI)
    fix x assume x: "x < rl_entries r'" "\<not> en_closed (rl_entry r' x)"
    with ok nc e have m: "(en_key (rl_entry r x), x) \<in> set (rl_pairs r)" "(en_key (rl_entry r e), e) \<in> set (rl_pairs r)"
      by (auto simp: relay_ok_def pairs_ok_def f closed)
    moreover have "x \<noteq> e" using x(2) by (auto simp: closed)
    moreover have "distinct (map fst (rl_pairs r))" using ok by (simp add: relay_ok_def pairs_ok_def)
    ultimately have "en_key (rl_entry r x) \<noteq> en_key (rl_entry r e)"
      by (metis eq_key_imp_eq_value)
    with m show "(en_key (rl_entry r' x), x) \<in> set (rl_pairs r')" by (simp add: P other)
  qed
  ultimately have "pairs_ok r'" by (simp add: pairs_ok_def)
  moreover have "conns_ok r'" using ok unfolding relay_ok_def conns_ok_def by (simp add: f c)
  moreover have "slots_ok r'"
    unfolding slots_ok_def
  proof (intro conjI)
    show "\<forall>c < rl_conns r'. en_closed (rl_entry r' (cn_entry (rl_conn r' c))) \<longrightarrow> ws_ready (conn_socket r' c) \<noteq> WsOpen"
    proof (intro allI impI)
      fix x assume "x < rl_conns r'" and "en_closed (rl_entry r' (cn_entry (rl_conn r' x)))"
      then have x: "x < rl_conns r" and "cn_entry (rl_conn r x) = e \<or> en_closed (rl_entry r (cn_entry (rl_conn r x)))"
        by (simp_all add: f c closed)
      with connD(5,6) [OF ok x] slot_in_sockets [of _ r e x] show "ws_ready (conn_socket r' x) \<noteq> WsOpen"
        by (auto simp: c open')
    qed
  qed (use ok in \<open>unfold relay_ok_def slots_ok_def f c slot closed closed', blast+\<close>)
  moreover have "links_ok r'" using ok unfolding relay_ok_def links_ok_def f c other closed by blast
  moreover have "tasks_ok r'"
  proof -
    have "filled r x \<Longrightarrow> filled r' x" for x by (auto simp: filled_def other closed)
    then have "task_ok r t \<Longrightarrow> task_ok r' t" for t by (cases t) (auto simp: f c closed other)
    then show ?thesis using ok by (auto simp: relay_ok_def tasks_ok_def f other list_all_iff)
  qed
  ultimately show ?thesis by (simp add: relay_ok_def)
qed

lemma closeEntry_ok: "relay_ok r \<Longrightarrow> e < rl_entries r \<Longrightarrow> relay_ok (closeEntry e code reason r)"
  using closed_effect_ok [OF _ _ _ closeEntry_effect] by (cases "en_closed (rl_entry r e)") auto

text \<open>What holds whether or not the entry was open.\<close>

lemma closeEntry_weak:
  "rl_entry (closeEntry e code reason r) = (rl_entry r)(e := (rl_entry r e)\<lparr>en_closed := True\<rparr>) \<and>
   same_rest (closeEntry e code reason r) r \<and> same_conn (rl_conn (closeEntry e code reason r) c) (rl_conn r c) \<and>
   ws_sent (rl_socket (closeEntry e code reason r) k) = ws_sent (rl_socket r k) \<and>
   (ws_ready (rl_socket (closeEntry e code reason r) k) = WsClosed \<longleftrightarrow> ws_ready (rl_socket r k) = WsClosed)"
proof (cases "en_closed (rl_entry r e)")
  case True
  then have "(rl_entry r)(e := (rl_entry r e)\<lparr>en_closed := True\<rparr>) = rl_entry r" by (auto simp: fun_eq_iff)
  with True show ?thesis by simp
next
  case False
  from closeEntry_effect [OF this, of code reason] show ?thesis by (simp add: closed_effect_def)
qed

lemma closeEntry_fields [simp]:
  "rl_sockets (closeEntry e code reason r) = rl_sockets r" "rl_conns (closeEntry e code reason r) = rl_conns r"
  "rl_entries (closeEntry e code reason r) = rl_entries r" "rl_closed (closeEntry e code reason r) = rl_closed r"
  "rl_subscribed (closeEntry e code reason r) = rl_subscribed r" "rl_tasks (closeEntry e code reason r) = rl_tasks r"
  "rl_revalidation (closeEntry e code reason r) = rl_revalidation r"
  "rl_revalidationPending (closeEntry e code reason r) = rl_revalidationPending r"
  "rl_entry (closeEntry e code reason r) = (rl_entry r)(e := (rl_entry r e)\<lparr>en_closed := True\<rparr>)"
  "ws_sent (rl_socket (closeEntry e code reason r) k) = ws_sent (rl_socket r k)"
  "ws_ready (rl_socket (closeEntry e code reason r) k) = WsClosed \<longleftrightarrow> ws_ready (rl_socket r k) = WsClosed"
  using closeEntry_weak [of e code reason r] by (auto simp: same_rest_def)

lemma closeEntry_failures [simp]: "rl_revalidationFailures (closeEntry e code reason r) = rl_revalidationFailures r"
  using closeEntry_weak [of e code reason r] by (simp add: same_rest_def)

lemma closeEntry_conn [simp]:
  "cn_socket (rl_conn (closeEntry e code reason r) c) = cn_socket (rl_conn r c)"
  "cn_grant (rl_conn (closeEntry e code reason r) c) = cn_grant (rl_conn r c)"
  "cn_protocol (rl_conn (closeEntry e code reason r) c) = cn_protocol (rl_conn r c)"
  "cn_claims (rl_conn (closeEntry e code reason r) c) = cn_claims (rl_conn r c)"
  "cn_role (rl_conn (closeEntry e code reason r) c) = cn_role (rl_conn r c)"
  "cn_entry (rl_conn (closeEntry e code reason r) c) = cn_entry (rl_conn r c)"
  "cn_peer (rl_conn (closeEntry e code reason r) c) = cn_peer (rl_conn r c)"
  using closeEntry_weak [of e code reason r c] same_conn_fields by blast+

subsection \<open>Sockets that close\<close>

lemma set_closed_ok:
  assumes ok: "relay_ok r" and k: "\<And>c. c < rl_conns r \<Longrightarrow> cn_socket (rl_conn r c) = k \<Longrightarrow> en_closed (rl_entry r (cn_entry (rl_conn r c)))"
  shows "relay_ok (set_closed k r)"
proof -
  have f: "rl_conns (set_closed k r) = rl_conns r" "rl_entry (set_closed k r) = rl_entry r" "rl_conn (set_closed k r) = rl_conn r"
    "rl_entries (set_closed k r) = rl_entries r" "rl_sockets (set_closed k r) = rl_sockets r" "rl_pairs (set_closed k r) = rl_pairs r"
    "rl_tasks (set_closed k r) = rl_tasks r" "rl_closed (set_closed k r) = rl_closed r"
    by (simp_all add: set_closed_def)
  have w: "ws_ready (rl_socket (set_closed k r) x) = (if x = k then WsClosed else ws_ready (rl_socket r x))" for x
    by (simp add: set_closed_def)
  have "pairs_ok (set_closed k r)" "conns_ok (set_closed k r)" "links_ok (set_closed k r)"
    using ok unfolding relay_ok_def pairs_ok_def conns_ok_def links_ok_def f by blast+
  moreover have "tasks_ok (set_closed k r)"
  proof -
    have "task_ok (set_closed k r) t = task_ok r t" for t by (cases t) (simp_all add: f filled_def)
    then show ?thesis using ok by (simp add: relay_ok_def tasks_ok_def f list_all_iff)
  qed
  moreover have "slots_ok (set_closed k r)"
    unfolding slots_ok_def f w
  proof (intro conjI allI ballI impI)
    fix e role c
    assume "e < rl_entries r" "role \<in> {''client'', ''worker''}" "slot role (rl_entry r e) = Some c"
    from slotD [OF ok this(1,3,2)] k [of c] show "c < rl_conns r" "cn_entry (rl_conn r c) = e" "cn_role (rl_conn r c) = role"
      "\<not> en_closed (rl_entry r e) \<Longrightarrow> (if cn_socket (rl_conn r c) = k then WsClosed else ws_ready (conn_socket r c)) \<noteq> WsClosed"
      by auto
  next
    fix c assume "c < rl_conns r"
    from connD(5,6) [OF ok this] show "slot (cn_role (rl_conn r c)) (rl_entry r (cn_entry (rl_conn r c))) = Some c \<or>
        (if cn_socket (rl_conn r c) = k then WsClosed else ws_ready (conn_socket r c)) = WsClosed"
      "en_closed (rl_entry r (cn_entry (rl_conn r c))) \<Longrightarrow>
        (if cn_socket (rl_conn r c) = k then WsClosed else ws_ready (conn_socket r c)) \<noteq> WsOpen" by auto
  qed
  ultimately show ?thesis by (simp add: relay_ok_def)
qed

text \<open>Emptying the slot of a closed entry whose socket is closed.\<close>

lemma empty_slot_ok:
  assumes ok: "relay_ok r" and c: "c < rl_conns r" and cl: "en_closed (rl_entry r (cn_entry (rl_conn r c)))"
    and sock: "ws_ready (conn_socket r c) = WsClosed"
    and own: "slot (cn_role (rl_conn r c)) (rl_entry r (cn_entry (rl_conn r c))) = Some c"
  shows "relay_ok (upd_entry (cn_entry (rl_conn r c)) (set_slot (cn_role (rl_conn r c)) None) r)"
proof -
  let ?e = "cn_entry (rl_conn r c)" and ?role = "cn_role (rl_conn r c)"
  let ?r = "upd_entry ?e (set_slot ?role None) r"
  have f: "rl_conns ?r = rl_conns r" "rl_socket ?r = rl_socket r" "rl_conn ?r = rl_conn r"
    "rl_entries ?r = rl_entries r" "rl_sockets ?r = rl_sockets r" "rl_pairs ?r = rl_pairs r"
    "rl_tasks ?r = rl_tasks r" "rl_closed ?r = rl_closed r" by simp_all
  have o: "en_closed (rl_entry ?r x) = en_closed (rl_entry r x)" "en_active (rl_entry ?r x) = en_active (rl_entry r x)"
    "en_activating (rl_entry ?r x) = en_activating (rl_entry r x)" "en_key (rl_entry ?r x) = en_key (rl_entry r x)" for x
    by (simp_all add: set_slot_def)
  have n: "x \<noteq> ?e \<Longrightarrow> rl_entry ?r x = rl_entry r x" for x by simp
  have s: "slot role (rl_entry ?r x) = (if x = ?e \<and> (role = ''client'' \<longleftrightarrow> ?role = ''client'') then None else slot role (rl_entry r x))" for role x
    by (auto simp: slot_def set_slot_def)
  have "pairs_ok ?r" "conns_ok ?r" using ok unfolding relay_ok_def pairs_ok_def conns_ok_def f o by blast+
  moreover have "links_ok ?r"
    unfolding links_ok_def
  proof (intro conjI allI impI)
    fix x assume "x < rl_entries ?r" and x: "en_active (rl_entry ?r x) \<and> \<not> en_closed (rl_entry ?r x)"
    then have "x < rl_entries r" "x \<noteq> ?e" using cl by (auto simp: o simp del: upd_entry_simps(1))
    with ok x show "\<exists>c w. en_client (rl_entry ?r x) = Some c \<and> en_worker (rl_entry ?r x) = Some w \<and>
        cn_peer (rl_conn ?r c) = Some w \<and> cn_peer (rl_conn ?r w) = Some c"
      by (auto simp: f relay_ok_def links_ok_def)
  qed (use ok in \<open>unfold relay_ok_def links_ok_def f o, blast+\<close>)
  moreover have "tasks_ok ?r"
  proof -
    have "task_ok r t \<Longrightarrow> task_ok ?r t" for t
      using cl by (cases t) (auto simp: filled_def set_slot_def)
    then show ?thesis using ok unfolding relay_ok_def tasks_ok_def f o by (auto simp: list_all_iff)
  qed
  moreover have "slots_ok ?r"
    unfolding slots_ok_def f o
  proof (intro conjI allI ballI impI)
    fix e role x assume "e < rl_entries r" "role \<in> {''client'', ''worker''}" "slot role (rl_entry ?r e) = Some x"
    with slotD [OF ok, of e role x] show "x < rl_conns r" "cn_entry (rl_conn r x) = e" "cn_role (rl_conn r x) = role"
      "\<not> en_closed (rl_entry r e) \<Longrightarrow> ws_ready (conn_socket r x) \<noteq> WsClosed"
      by (auto simp: s simp del: upd_entry_simps(1) split: if_splits)
  next
    fix x assume x: "x < rl_conns r"
    show "slot (cn_role (rl_conn r x)) (rl_entry ?r (cn_entry (rl_conn r x))) = Some x \<or> ws_ready (conn_socket r x) = WsClosed"
    proof (cases "slot (cn_role (rl_conn r x)) (rl_entry r (cn_entry (rl_conn r x))) = Some x")
      case True
      show ?thesis
      proof (cases "cn_entry (rl_conn r x) = ?e \<and> cn_role (rl_conn r x) = ?role")
        case True
        have "Some x = Some c" unfolding own [symmetric] True [THEN conjunct1, symmetric] True [THEN conjunct2, symmetric]
          by (rule \<open>slot _ _ = Some x\<close> [symmetric])
        with sock show ?thesis by simp
      next
        case False
        then have "\<not> (cn_entry (rl_conn r x) = ?e \<and> (cn_role (rl_conn r x) = ''client'' \<longleftrightarrow> ?role = ''client''))"
          using connD(3) [OF ok c] connD(3) [OF ok x] by auto
        with True show ?thesis unfolding s by (simp only: if_False simp_thms)
      qed
    qed (use connD(5) [OF ok x] in simp)
    show "en_closed (rl_entry r (cn_entry (rl_conn r x))) \<Longrightarrow> ws_ready (conn_socket r x) \<noteq> WsOpen"
      using connD(6) [OF ok x] .
  qed
  ultimately show ?thesis by (simp add: relay_ok_def)
qed


lemma slot_set_slot [simp]: "slot role (set_slot role v en) = v"
  by (simp add: slot_def set_slot_def)

lemma slot_other [simp]: "slot (other_role role) (set_slot role v en) = slot (other_role role) en"
  by (simp add: slot_def set_slot_def other_role_def)

lemma set_slot_closing: "set_slot role v (en\<lparr>en_closed := b\<rparr>) = (set_slot role v en)\<lparr>en_closed := b\<rparr>"
  by (simp add: set_slot_def)

lemma set_slot_fields [simp]:
  "en_closed (set_slot role v en) = en_closed en" "en_active (set_slot role v en) = en_active en"
  "en_activating (set_slot role v en) = en_activating en" "en_key (set_slot role v en) = en_key en"
  "en_sessionId (set_slot role v en) = en_sessionId en" "en_workerId (set_slot role v en) = en_workerId en"
  "en_leaseId (set_slot role v en) = en_leaseId en"
  by (simp_all add: set_slot_def)

text \<open>
  The close handler on an open entry: up to timers and close codes it closes the entry, closes the
  socket and empties the slot.
\<close>

lemma same_relay_via:
  assumes "\<And>k. ws_ready (rl_socket h k) = ws_ready (rl_socket g k)" and "\<And>c. same_conn (rl_conn h c) (rl_conn r c)"
    and "\<And>c. same_conn (rl_conn g c) (rl_conn r c)" and "rl_entry h = rl_entry g" and "rl_pairs h = rl_pairs g"
    and "rl_sockets h = rl_sockets g" and "rl_conns h = rl_conns g" and "rl_entries h = rl_entries g"
    and "rl_closed h = rl_closed g" and "rl_tasks h = rl_tasks g"
  shows "same_relay h g"
  using assms by (simp add: same_relay_def same_conn_def)

lemma handleSocketClose_open:
  assumes ok: "relay_ok r" and c: "open_conn c r" and nc: "\<not> en_closed (rl_entry r (cn_entry (rl_conn r c)))"
  shows "same_relay (handleSocketClose c (set_closed (cn_socket (rl_conn r c)) r))
    (upd_entry (cn_entry (rl_conn r c)) (set_slot (cn_role (rl_conn r c)) None)
      (set_closed (cn_socket (rl_conn r c)) (closeEntry (cn_entry (rl_conn r c)) code reason r)))"
    (is "same_relay ?h ?g")
proof -
  define e role k where "e = cn_entry (rl_conn r c)" and "role = cn_role (rl_conn r c)" and "k = cn_socket (rl_conn r c)"
  have cl: "c < rl_conns r" and own: "slot role (rl_entry r e) = Some c"
    using c connD(5) [OF ok, of c] by (auto simp: open_conn_def e_def role_def)
  have e: "e < rl_entries r" and nc': "\<not> en_closed (rl_entry r e)"
    using connD(2) [OF ok cl] nc by (simp_all add: e_def)
  have role: "role \<in> {''client'', ''worker''}" using connD(3) [OF ok cl] by (simp add: role_def)
  from closeEntry_effect [OF nc', of code reason] have eff: "closed_effect e code reason (closeEntry e code reason r) r" .
  have es: "entry_sockets r e = insert k ((\<lambda>x. cn_socket (rl_conn r x)) ` set_option (slot (other_role role) (rl_entry r e)))"
    using own role by (auto simp: entry_sockets_def slot_def other_role_def k_def)
  define r1 where "r1 = clearStateTimers c (set_closed k r)"
  define r0 where "r0 = upd_entry e (set_slot role None) r1"
  define g where "g = ?g"
  have r0: "rl_entry r0 = (rl_entry r)(e := set_slot role None (rl_entry r e))" "rl_pairs r0 = rl_pairs r"
    "\<And>x. ws_ready (rl_socket r0 x) = (if x = k then WsClosed else ws_ready (rl_socket r x))"
    "rl_sockets r0 = rl_sockets r" "rl_conns r0 = rl_conns r" "rl_entries r0 = rl_entries r" "rl_closed r0 = rl_closed r"
    "rl_tasks r0 = rl_tasks r"
    by (simp_all add: r0_def r1_def set_closed_def clearStateTimers_def clearPeerTimer_def)
  have r0c: "same_conn (rl_conn r0 x) (rl_conn r x)" for x
    by (simp add: r0_def r1_def set_closed_def clearStateTimers_def clearPeerTimer_def same_conn_def)
  have sock: "cn_socket (rl_conn r0 x) = cn_socket (rl_conn r x)" for x using r0c same_conn_fields by blast
  have r1: "cn_entry (rl_conn r1 c) = e" "cn_role (rl_conn r1 c) = role" "rl_entry r1 = rl_entry r"
    by (simp_all add: r1_def set_closed_def clearStateTimers_def clearPeerTimer_def e_def role_def)
  have gc: "same_conn (rl_conn g x) (rl_conn r x)" for x
    using closeEntry_weak [of e code reason r x] by (simp add: g_def set_closed_def e_def)
  have g: "rl_entry g = (rl_entry r)(e := (set_slot role None (rl_entry r e))\<lparr>en_closed := True\<rparr>)"
    "rl_pairs g = filter (\<lambda>p. fst p \<noteq> en_key (rl_entry r e)) (rl_pairs r)"
    "rl_sockets g = rl_sockets r" "rl_conns g = rl_conns r" "rl_entries g = rl_entries r" "rl_closed g = rl_closed r"
    "rl_tasks g = rl_tasks r"
    using eff by (simp_all add: g_def set_closed_def closed_effect_def set_slot_closing e_def role_def k_def)
  have gw: "ws_ready (rl_socket g x) = (if x = k then WsClosed else if x \<in> entry_sockets r e
      then ws_ready (shut (DATA_PLANE_CLOSE_CODES code) reason (rl_socket r x)) else ws_ready (rl_socket r x))" for x
    using eff by (simp add: g_def set_closed_def closed_effect_def k_def e_def)
  have h: "?h = (case slot (other_role role) (rl_entry r0 e) of
      Some _ \<Rightarrow> closeEntry e TRY_AGAIN_LATER ''relay peer disconnected'' r0
    | None \<Rightarrow> (let r2 = upd_entry e (\<lambda>x. x\<lparr>en_closed := True\<rparr>) r0 in
        r2\<lparr>rl_pairs := filter (\<lambda>p. fst p \<noteq> en_key (rl_entry r2 e)) (rl_pairs r2)\<rparr>))"
    unfolding handleSocketClose_def Let_def k_def [symmetric] r1_def [symmetric] r1 r0_def using nc' own by simp
  have "same_relay ?h g"
  proof (cases "slot (other_role role) (rl_entry r e)")
    case None
    then have h2: "?h = (let r2 = upd_entry e (\<lambda>x. x\<lparr>en_closed := True\<rparr>) r0 in
        r2\<lparr>rl_pairs := filter (\<lambda>p. fst p \<noteq> en_key (rl_entry r2 e)) (rl_pairs r2)\<rparr>)"
      unfolding h by (simp add: r0)
    have "entry_sockets r e = {k}" using es None by simp
    then show ?thesis
      by (intro same_relay_via [OF _ _ gc]) (simp_all add: h2 Let_def r0 r0c g gw)
  next
    case (Some p)
    then have hp: "?h = closeEntry e TRY_AGAIN_LATER ''relay peer disconnected'' r0"
      unfolding h by (simp add: r0)
    have "\<not> en_closed (rl_entry r0 e)" using nc' by (simp add: r0)
    from closeEntry_effect [OF this, of TRY_AGAIN_LATER "''relay peer disconnected''"]
    have heff: "closed_effect e TRY_AGAIN_LATER ''relay peer disconnected'' ?h r0" unfolding hp .
    have es0: "entry_sockets r0 e = {cn_socket (rl_conn r p)}"
      using Some role by (auto simp: entry_sockets_def sock r0 slot_def set_slot_def other_role_def)
    have p: "cn_socket (rl_conn r p) \<noteq> k"
    proof
      assume k: "cn_socket (rl_conn r p) = k"
      have "other_role role \<in> {''client'', ''worker''}" by (simp add: other_role_def)
      from slotD [OF ok e Some this] k cl socket_inj [OF ok] have "p = c" and "cn_role (rl_conn r p) = other_role role"
        by (auto simp: k_def)
      then show False by (simp add: other_role_def role_def split: if_splits)
    qed
    have w: "ws_ready (rl_socket ?h x) = ws_ready (rl_socket g x)" for x
      using heff p Some unfolding gw es es0 closed_effect_def by (simp add: r0 shut_def)
    have "same_conn (rl_conn ?h x) (rl_conn r x)" for x
      using heff r0c same_conn_trans unfolding closed_effect_def by blast
    then show ?thesis
      using heff by (intro same_relay_via [OF w _ gc]) (simp_all add: closed_effect_def same_rest_def r0 g set_slot_closing)
  qed
  then show ?thesis unfolding g_def .
qed

lemma handleSocketClose_ok:
  assumes ok: "relay_ok r" and c: "open_conn c r"
  shows "relay_ok (handleSocketClose c (set_closed (cn_socket (rl_conn r c)) r))"
proof (cases "en_closed (rl_entry r (cn_entry (rl_conn r c)))")
  case True
  have cl: "c < rl_conns r" using c by (simp add: open_conn_def)
  have "relay_ok (set_closed (cn_socket (rl_conn r c)) r)"
    by (rule set_closed_ok [OF ok]) (metis True socket_inj [OF ok cl])
  moreover have "handleSocketClose c (set_closed (cn_socket (rl_conn r c)) r) =
      clearStateTimers c (set_closed (cn_socket (rl_conn r c)) r)"
    using True by (simp add: handleSocketClose_def Let_def set_closed_def clearStateTimers_def clearPeerTimer_def)
  ultimately show ?thesis using same_relayI by simp
next
  case False
  let ?e = "cn_entry (rl_conn r c)" and ?role = "cn_role (rl_conn r c)" and ?k = "cn_socket (rl_conn r c)"
  let ?g = "set_closed ?k (closeEntry ?e TRY_AGAIN_LATER [] r)"
  have cl: "c < rl_conns r" and own: "slot ?role (rl_entry r ?e) = Some c"
    using c connD(5) [OF ok, of c] by (auto simp: open_conn_def)
  have g: "rl_conns ?g = rl_conns r" "cn_entry (rl_conn ?g x) = cn_entry (rl_conn r x)" "cn_role (rl_conn ?g x) = cn_role (rl_conn r x)"
    "cn_socket (rl_conn ?g x) = cn_socket (rl_conn r x)" "en_closed (rl_entry ?g ?e)" "slot role (rl_entry ?g ?e) = slot role (rl_entry r ?e)"
    "ws_ready (rl_socket ?g ?k) = WsClosed" for x role
    by (simp_all add: set_closed_def)
  have "relay_ok ?g"
    by (rule set_closed_ok [OF closeEntry_ok [OF ok connD(2) [OF ok cl]]])
      (use socket_inj [OF ok cl] in \<open>force simp del: upd_entry_simps\<close>)
  then have "relay_ok (upd_entry (cn_entry (rl_conn ?g c)) (set_slot (cn_role (rl_conn ?g c)) None) ?g)"
    by (rule empty_slot_ok) (simp_all only: g cl own)
  then show ?thesis
    using same_relayI [OF _ handleSocketClose_open [OF ok c False, of TRY_AGAIN_LATER "[]"]] by (simp only: g)
qed

subsection \<open>Tasks come and go\<close>

lemma stores_tasks [simp]:
  "pairs_ok (r\<lparr>rl_tasks := ts\<rparr>) = pairs_ok r" "conns_ok (r\<lparr>rl_tasks := ts\<rparr>) = conns_ok r"
  "slots_ok (r\<lparr>rl_tasks := ts\<rparr>) = slots_ok r" "links_ok (r\<lparr>rl_tasks := ts\<rparr>) = links_ok r"
  by (simp_all add: pairs_ok_def conns_ok_def slots_ok_def links_ok_def)

lemma task_ok_tasks [simp]: "task_ok (r\<lparr>rl_tasks := ts\<rparr>) = task_ok r"
proof
  fix t show "task_ok (r\<lparr>rl_tasks := ts\<rparr>) t = task_ok r t" by (cases t) (simp_all add: filled_def)
qed

lemma pair_settled_fields [simp]:
  "rl_sockets (pair_settled e r) = rl_sockets r" "rl_conns (pair_settled e r) = rl_conns r"
  "rl_entries (pair_settled e r) = rl_entries r" "rl_closed (pair_settled e r) = rl_closed r"
  "rl_pairs (pair_settled e r) = rl_pairs r" "rl_tasks (pair_settled e r) = rl_tasks r"
  "rl_conn (pair_settled e r) = rl_conn r" "rl_socket (pair_settled e r) = rl_socket r"
  "rl_subscribed (pair_settled e r) = rl_subscribed r" "rl_revalidation (pair_settled e r) = rl_revalidation r"
  "rl_revalidationPending (pair_settled e r) = rl_revalidationPending r"
  by (simp_all add: pair_settled_def)

lemma pair_settled_failures [simp]: "rl_revalidationFailures (pair_settled e r) = rl_revalidationFailures r"
  by (simp add: pair_settled_def)

lemma pair_settled_entry [simp]:
  "en_closed (rl_entry (pair_settled e r) x) = en_closed (rl_entry r x)" "en_active (rl_entry (pair_settled e r) x) = en_active (rl_entry r x)"
  "en_key (rl_entry (pair_settled e r) x) = en_key (rl_entry r x)" "en_client (rl_entry (pair_settled e r) x) = en_client (rl_entry r x)"
  "en_worker (rl_entry (pair_settled e r) x) = en_worker (rl_entry r x)" "slot role (rl_entry (pair_settled e r) x) = slot role (rl_entry r x)"
  "en_activating (rl_entry (pair_settled e r) x) \<longleftrightarrow> x \<noteq> e \<and> en_activating (rl_entry r x)"
  "en_sessionId (rl_entry (pair_settled e r) x) = en_sessionId (rl_entry r x)"
  "en_workerId (rl_entry (pair_settled e r) x) = en_workerId (rl_entry r x)"
  "en_leaseId (rl_entry (pair_settled e r) x) = en_leaseId (rl_entry r x)"
  by (simp_all add: pair_settled_def)

lemma stores_settled [simp]:
  "pairs_ok (pair_settled e r) = pairs_ok r" "conns_ok (pair_settled e r) = conns_ok r"
  "slots_ok (pair_settled e r) = slots_ok r" "links_ok (pair_settled e r) = links_ok r"
  by (simp_all add: pairs_ok_def conns_ok_def slots_ok_def links_ok_def)

lemma task_ok_settled [simp]: "task_ok (pair_settled e r) = task_ok r"
proof
  fix t show "task_ok (pair_settled e r) t = task_ok r t" by (cases t) (simp_all add: filled_def)
qed

lemma relay_ok_tasks:
  "relay_ok r \<Longrightarrow> tasks_ok (r\<lparr>rl_tasks := ts\<rparr>) \<Longrightarrow> relay_ok (r\<lparr>rl_tasks := ts\<rparr>)"
  by (simp add: relay_ok_def)

lemma split_task: "task_at i t r \<Longrightarrow> rl_tasks r = take i (rl_tasks r) @ t # drop (Suc i) (rl_tasks r)"
  using id_take_nth_drop [of i "rl_tasks r"] by (auto simp: task_at_def)

lemma task_atD: "relay_ok r \<Longrightarrow> task_at i t r \<Longrightarrow> task_ok r t"
  by (auto simp: relay_ok_def tasks_ok_def task_at_def list_all_iff)

text \<open>Taking a task that is not a pairing task.\<close>

lemma take_other_task_ok:
  assumes "relay_ok r" and "task_at i t r" and "\<And>e. \<not> pair_task e t"
  shows "relay_ok (take_task i r)"
proof -
  have "filter (pair_task e) (rl_tasks r) = filter (pair_task e) (take i (rl_tasks r) @ drop (Suc i) (rl_tasks r))" for e
    by (subst split_task [OF assms(2)]) (simp add: assms(3))
  then show ?thesis
    using assms(1) unfolding take_task_def
    by (intro relay_ok_tasks) (auto simp: relay_ok_def tasks_ok_def list_all_iff dest: in_set_takeD in_set_dropD)
qed

text \<open>A pairing goes on: but for the flag of its entry, which its \<^verbatim>\<open>finally\<close> part clears, all is well.\<close>

definition pairing :: "nat \<Rightarrow> relay \<Rightarrow> bool" where
  "pairing e r \<longleftrightarrow> relay_ok (pair_settled e r) \<and> e < rl_entries r \<and> en_activating (rl_entry r e) \<and>
     \<not> en_active (rl_entry r e) \<and> filled r e"

lemma take_pair_task:
  assumes ok: "relay_ok r" and t: "task_at i t r" and p: "pair_task e t"
  shows "pairing e (take_task i r)"
proof -
  have n: "length (filter (pair_task e) (rl_tasks r)) = (if e < rl_entries r \<and> en_activating (rl_entry r e) then 1 else 0)" for e
    using ok by (simp add: relay_ok_def tasks_ok_def)
  have s: "length (filter (pair_task x) (rl_tasks r)) =
      length (filter (pair_task x) (take i (rl_tasks r) @ drop (Suc i) (rl_tasks r))) + (if x = e then 1 else 0)" for x
    using p by (subst split_task [OF t]) (cases t, auto)
  from s [of e] n [of e] have e: "e < rl_entries r" "en_activating (rl_entry r e)" by (auto split: if_splits)
  have "task_ok r t" using task_atD [OF ok t] .
  with p have "filled r e" by (cases t) auto
  moreover have "length (filter (pair_task x) (take i (rl_tasks r) @ drop (Suc i) (rl_tasks r))) =
      (if x < rl_entries r \<and> x \<noteq> e \<and> en_activating (rl_entry r x) then 1 else 0)" for x
    using s [of x] n [of x] e by (simp split: if_splits)
  ultimately show ?thesis
    using ok e unfolding pairing_def relay_ok_def tasks_ok_def take_task_def
    by (auto simp: filled_def list_all_iff dest: in_set_takeD in_set_dropD)
qed

lemma add_pair_task:
  assumes p: "pairing e r" and t: "pair_task e t" and ok: "task_ok r t"
  shows "relay_ok (add_task t r)"
proof -
  from p have n: "length (filter (pair_task x) (rl_tasks r)) = (if x < rl_entries r \<and> x \<noteq> e \<and> en_activating (rl_entry r x) then 1 else 0)" for x
    by (simp add: pairing_def relay_ok_def tasks_ok_def)
  have "pair_task x t \<longleftrightarrow> x = e" for x using t by (cases t) auto
  then have "length (filter (pair_task x) (rl_tasks r @ [t])) = (if x < rl_entries r \<and> en_activating (rl_entry r x) then 1 else 0)" for x
    using n [of x] p by (simp add: pairing_def)
  then show ?thesis
    using p ok unfolding pairing_def relay_ok_def tasks_ok_def add_task_def by auto
qed

lemma add_other_task:
  assumes "relay_ok r" and "\<And>e. \<not> pair_task e t" and "task_ok r t"
  shows "relay_ok (add_task t r)"
  using assms unfolding relay_ok_def tasks_ok_def add_task_def by simp

lemma entry_updates:
  "x\<lparr>en_closed := a, en_activating := b\<rparr> = x\<lparr>en_activating := b, en_closed := a\<rparr>"
  "x\<lparr>en_active := a, en_activating := b\<rparr> = x\<lparr>en_activating := b, en_active := a\<rparr>"
  by (cases x, simp)+

lemma settled_cong: "relay_ok (pair_settled e r) \<Longrightarrow> same_relay r' r \<Longrightarrow> relay_ok (pair_settled e r')"
  by (erule same_relayI) (simp add: same_relay_def pair_settled_def)

lemma settled_close:
  assumes ok: "relay_ok (pair_settled e r)" and e: "e < rl_entries r"
  shows "relay_ok (pair_settled e (closeEntry e code reason r))"
proof (cases "en_closed (rl_entry r e)")
  case False
  from closeEntry_effect [OF this, of code reason]
  have "closed_effect e code reason (pair_settled e (closeEntry e code reason r)) (pair_settled e r)"
    by (simp add: closed_effect_def same_rest_def entry_sockets_def pair_settled_def entry_updates cong: if_cong)
  then show ?thesis using closed_effect_ok [OF ok] e False by simp
qed (use ok in simp)

lemma pairing_failed: "pairing e r \<Longrightarrow> relay_ok (pair_failed e r)"
  by (simp add: pairing_def pair_failed_def settled_close)


lemma link_ok:
  assumes ok: "relay_ok r" and e: "e < rl_entries r" and nc: "\<not> en_closed (rl_entry r e)"
    and na: "\<not> en_active (rl_entry r e)" and ni: "\<not> en_activating (rl_entry r e)"
    and c: "en_client (rl_entry r e) = Some c" and w: "en_worker (rl_entry r e) = Some w"
  shows "relay_ok (link_peers c w (upd_entry e (\<lambda>x. x\<lparr>en_active := True\<rparr>) r))"
proof -
  let ?r = "link_peers c w (upd_entry e (\<lambda>x. x\<lparr>en_active := True\<rparr>) r)"
  note cD = clientD [OF ok e c] and wD = workerD [OF ok e w]
  have cw: "c \<noteq> w" using cD(3) wD(3) by auto
  have f: "rl_conns ?r = rl_conns r" "rl_socket ?r = rl_socket r" "rl_entries ?r = rl_entries r" "rl_sockets ?r = rl_sockets r"
    "rl_pairs ?r = rl_pairs r" "rl_tasks ?r = rl_tasks r" "rl_closed ?r = rl_closed r"
    by (simp_all add: link_peers_def)
  have k: "cn_socket (rl_conn ?r x) = cn_socket (rl_conn r x)" "cn_grant (rl_conn ?r x) = cn_grant (rl_conn r x)"
    "cn_protocol (rl_conn ?r x) = cn_protocol (rl_conn r x)" "cn_role (rl_conn ?r x) = cn_role (rl_conn r x)"
    "cn_entry (rl_conn ?r x) = cn_entry (rl_conn r x)" "cn_claims (rl_conn ?r x) = cn_claims (rl_conn r x)"
    "cn_peer (rl_conn ?r x) = (if x = c then Some w else if x = w then Some c else cn_peer (rl_conn r x))" for x
    using cw by (simp_all add: link_peers_def)
  have o: "slot role (rl_entry ?r x) = slot role (rl_entry r x)" "en_closed (rl_entry ?r x) = en_closed (rl_entry r x)"
    "en_activating (rl_entry ?r x) = en_activating (rl_entry r x)" "en_key (rl_entry ?r x) = en_key (rl_entry r x)"
    "en_client (rl_entry ?r x) = en_client (rl_entry r x)" "en_worker (rl_entry ?r x) = en_worker (rl_entry r x)"
    "en_active (rl_entry ?r x) \<longleftrightarrow> x = e \<or> en_active (rl_entry r x)" for x role
    by (simp_all add: link_peers_def)
  have "pairs_ok ?r" using ok unfolding relay_ok_def pairs_ok_def f o by blast
  moreover have "conns_ok ?r" using ok unfolding relay_ok_def conns_ok_def f k by blast
  moreover have "slots_ok ?r" using ok unfolding relay_ok_def slots_ok_def f k o by blast
  moreover have "tasks_ok ?r"
  proof -
    have "task_ok ?r t = task_ok r t" for t by (cases t) (simp_all only: task_ok.simps filled_def f o k)
    then show ?thesis using ok ni unfolding relay_ok_def tasks_ok_def f o by (auto simp: list_all_iff)
  qed
  moreover have "links_ok ?r"
    unfolding links_ok_def f o k
  proof (intro conjI allI impI)
    fix x p assume x: "x < rl_conns r" and p: "(if x = c then Some w else if x = w then Some c else cn_peer (rl_conn r x)) = Some p"
    have "p < rl_conns r \<and> cn_entry (rl_conn r p) = cn_entry (rl_conn r x) \<and> cn_role (rl_conn r p) = other_role (cn_role (rl_conn r x)) \<and>
      (if p = c then Some w else if p = w then Some c else cn_peer (rl_conn r p)) = Some x \<and>
      (cn_entry (rl_conn r x) = e \<or> en_active (rl_entry r (cn_entry (rl_conn r x))))"
    proof (cases "x = c \<or> x = w")
      case True
      then show ?thesis using p cD(1-3) wD(1-3) cw by (auto simp: other_role_def split: if_splits)
    next
      case False
      with p have px: "cn_peer (rl_conn r x) = Some p" by simp
      note pD = peerD [OF ok x px]
      have "p \<noteq> c" using pD(2,5) cD(2) na by auto
      moreover have "p \<noteq> w" using pD(2,5) wD(2) na by auto
      ultimately show ?thesis using pD by simp
    qed
    then show "p < rl_conns r" "cn_entry (rl_conn r p) = cn_entry (rl_conn r x)"
      "cn_role (rl_conn r p) = other_role (cn_role (rl_conn r x))"
      "(if p = c then Some w else if p = w then Some c else cn_peer (rl_conn r p)) = Some x"
      "cn_entry (rl_conn r x) = e \<or> en_active (rl_entry r (cn_entry (rl_conn r x)))" by simp_all
  next
    fix x assume x: "x < rl_entries r" and a: "(x = e \<or> en_active (rl_entry r x)) \<and> \<not> en_closed (rl_entry r x)"
    show "\<exists>a b. en_client (rl_entry r x) = Some a \<and> en_worker (rl_entry r x) = Some b \<and>
        (if a = c then Some w else if a = w then Some c else cn_peer (rl_conn r a)) = Some b \<and>
        (if b = c then Some w else if b = w then Some c else cn_peer (rl_conn r b)) = Some a"
    proof (cases "x = e")
      case True
      then show ?thesis using c w cw by auto
    next
      case False
      with a x ok obtain a b where ab: "en_client (rl_entry r x) = Some a" "en_worker (rl_entry r x) = Some b"
          "cn_peer (rl_conn r a) = Some b" "cn_peer (rl_conn r b) = Some a"
        by (auto simp: relay_ok_def links_ok_def)
      with clientD(2) [OF ok x] workerD(2) [OF ok x] cD(2) wD(2) False
      have "a \<noteq> c" "a \<noteq> w" "b \<noteq> c" "b \<noteq> w" by auto
      with ab show ?thesis by simp
    qed
  qed
  ultimately show ?thesis by (simp add: relay_ok_def)
qed

lemma send_ready_settled:
  "relay_ok (pair_settled e r) \<Longrightarrow> e < rl_entries r \<Longrightarrow> relay_ok (pair_settled e (send_ready e cs r))"
proof (induction e cs r rule: send_ready.induct)
  case (2 e c cs r)
  have "relay_ok (pair_settled e (push_frame k f r))" for k f
    using settled_cong [OF 2(3)] by simp
  then show ?case using 2 settled_close [OF 2(3,4)] by (simp add: push_frame_def)
qed simp

lemma pairing_activated:
  assumes p: "pairing e r"
  shows "relay_ok (pair_activated e r)"
proof (cases "en_closed (rl_entry r e)")
  case True
  with p show ?thesis by (simp add: pair_activated_def pairing_def)
next
  case False
  with p obtain c w where cw: "en_client (rl_entry r e) = Some c" "en_worker (rl_entry r e) = Some w"
    by (auto simp: pairing_def filled_def)
  let ?l = "link_peers c w (upd_entry e (\<lambda>x. x\<lparr>en_active := True\<rparr>) r)"
  have "relay_ok (link_peers c w (upd_entry e (\<lambda>x. x\<lparr>en_active := True\<rparr>) (pair_settled e r)))"
    using p False cw by (intro link_ok) (simp_all add: pairing_def)
  moreover have "link_peers c w (upd_entry e (\<lambda>x. x\<lparr>en_active := True\<rparr>) (pair_settled e r)) = pair_settled e ?l"
    by (simp add: link_peers_def pair_settled_def relay_ops entry_updates)
  ultimately have "relay_ok (pair_settled e ?l)" by simp
  moreover have "same_relay (resetIdleTimers e (clearPeerTimer w (clearPeerTimer c ?l))) ?l"
    using same_relay_trans same_relay_simps(2) same_relay_resetIdleTimers by blast
  ultimately have "relay_ok (pair_settled e (resetIdleTimers e (clearPeerTimer w (clearPeerTimer c ?l))))"
    by (rule settled_cong)
  moreover have "e < rl_entries (resetIdleTimers e (clearPeerTimer w (clearPeerTimer c ?l)))"
    using p \<open>same_relay _ ?l\<close> by (simp add: same_relay_def pairing_def link_peers_def)
  ultimately show ?thesis
    using False cw by (simp add: pair_activated_def Let_def send_ready_settled del: send_ready.simps)
qed

lemma pairing_answered:
  assumes p: "pairing e r" and g: "\<not> en_closed (rl_entry r e) \<Longrightarrow>
        cn_grant (rl_conn r (the (en_client (rl_entry r e)))) = cg \<and> cn_grant (rl_conn r (the (en_worker (rl_entry r e)))) = wg"
  shows "relay_ok (pair_answered e cg wg ca wa r)"
proof -
  have "relay_ok (add_task (PairAuthorize e cg wg ca wa) r)" for ca wa
    using p g by (intro add_pair_task [OF p]) (auto simp: pairing_def)
  moreover have "relay_ok (add_task (PairActivate e) r)"
    using p by (intro add_pair_task [OF p]) (auto simp: pairing_def)
  moreover have "relay_ok (pair_settled e (closeEntry e code reason r))" for code reason
    using p by (simp add: pairing_def settled_close)
  ultimately show ?thesis
    using pairing_failed [OF p] pairing_activated [OF p]
    by (auto simp: pair_answered_def split: option.splits sum.splits)
qed

subsection \<open>Accepting a connection\<close>

lemma unowned_socket_ok:
  assumes ok: "relay_ok r" and k: "\<And>c. c < rl_conns r \<Longrightarrow> cn_socket (rl_conn r c) \<noteq> k"
  shows "relay_ok (upd_socket k f r)"
proof -
  have w: "c < rl_conns r \<Longrightarrow> rl_socket (upd_socket k f r) (cn_socket (rl_conn r c)) = rl_socket r (cn_socket (rl_conn r c))" for c
    using k by simp
  have "task_ok (upd_socket k f r) t = task_ok r t" for t by (cases t) (simp_all add: filled_def)
  moreover have "slots_ok (upd_socket k f r)"
    unfolding slots_ok_def
  proof (intro conjI allI ballI impI)
    fix e role c
    assume "e < rl_entries (upd_socket k f r)" "role \<in> {''client'', ''worker''}" "slot role (rl_entry (upd_socket k f r) e) = Some c"
    with slotD [OF ok, of e role c] k [of c] show "c < rl_conns (upd_socket k f r)" "cn_entry (rl_conn (upd_socket k f r) c) = e"
      "cn_role (rl_conn (upd_socket k f r) c) = role"
      "\<not> en_closed (rl_entry (upd_socket k f r) e) \<Longrightarrow> ws_ready (conn_socket (upd_socket k f r) c) \<noteq> WsClosed" by auto
  qed (use connD(5,6) [OF ok] k in auto)
  moreover have "pairs_ok (upd_socket k f r) = pairs_ok r" "conns_ok (upd_socket k f r) = conns_ok r"
    "links_ok (upd_socket k f r) = links_ok r"
    by (simp_all add: pairs_ok_def conns_ok_def links_ok_def)
  ultimately show ?thesis
    using ok by (simp add: relay_ok_def tasks_ok_def list_all_iff)
qed

lemma open_socket_fields [simp]:
  "rl_conn (open_socket r) = rl_conn r" "rl_conns (open_socket r) = rl_conns r" "rl_entry (open_socket r) = rl_entry r"
  "rl_entries (open_socket r) = rl_entries r" "rl_pairs (open_socket r) = rl_pairs r" "rl_tasks (open_socket r) = rl_tasks r"
  "rl_closed (open_socket r) = rl_closed r" "rl_sockets (open_socket r) = Suc (rl_sockets r)"
  "rl_socket (open_socket r) = (rl_socket r)(rl_sockets r := \<lparr>ws_ready = WsOpen, ws_sent = [], ws_close = None\<rparr>)"
  "rl_subscribed (open_socket r) = rl_subscribed r" "rl_revalidation (open_socket r) = rl_revalidation r"
  "rl_revalidationPending (open_socket r) = rl_revalidationPending r"
  by (simp_all add: open_socket_def)

lemma open_socket_failures [simp]: "rl_revalidationFailures (open_socket r) = rl_revalidationFailures r"
  by (simp add: open_socket_def)

lemma open_socket_ok:
  assumes ok: "relay_ok r"
  shows "relay_ok (open_socket r)"
proof -
  let ?s = "\<lparr>ws_ready = WsOpen, ws_sent = [], ws_close = None\<rparr>"
  have "relay_ok (upd_socket (rl_sockets r) (\<lambda>_. ?s) r)"
    using connD(1) [OF ok] by (intro unowned_socket_ok ok) fastforce
  moreover have "open_socket r = (upd_socket (rl_sockets r) (\<lambda>_. ?s) r)\<lparr>rl_sockets := Suc (rl_sockets r)\<rparr>"
    by (simp add: open_socket_def relay_ops)
  moreover have "relay_ok (x\<lparr>rl_sockets := Suc (rl_sockets x)\<rparr>)" if "relay_ok x" for x
  proof -
    have "task_ok (x\<lparr>rl_sockets := n\<rparr>) t = task_ok x t" for n t by (cases t) (simp_all add: filled_def)
    moreover have "pairs_ok (x\<lparr>rl_sockets := n\<rparr>) = pairs_ok x" "slots_ok (x\<lparr>rl_sockets := n\<rparr>) = slots_ok x"
      "links_ok (x\<lparr>rl_sockets := n\<rparr>) = links_ok x" for n
      by (simp_all add: pairs_ok_def slots_ok_def links_ok_def)
    moreover have "conns_ok (x\<lparr>rl_sockets := Suc (rl_sockets x)\<rparr>)"
      using that by (auto simp: relay_ok_def conns_ok_def less_Suc_eq)
    ultimately show ?thesis using that by (simp add: relay_ok_def tasks_ok_def list_all_iff)
  qed
  ultimately show ?thesis by (metis upd_socket_simps(2))
qed

lemma tryPair_ok:
  assumes ok: "relay_ok r" and e: "e < rl_entries r"
  shows "relay_ok (tryPair e r)"
proof (cases "en_closed (rl_entry r e) \<or> en_active (rl_entry r e) \<or> en_activating (rl_entry r e) \<or>
    en_client (rl_entry r e) = None \<or> en_worker (rl_entry r e) = None")
  case True
  then show ?thesis using ok by (auto simp: tryPair_def Let_def split: option.splits)
next
  case False
  then obtain c w where cw: "en_client (rl_entry r e) = Some c" "en_worker (rl_entry r e) = Some w" by auto
  let ?r = "upd_entry e (\<lambda>x. x\<lparr>en_activating := True\<rparr>) r"
  have "pair_settled e ?r = r"
    using False by (cases "rl_entry r e") (simp add: pair_settled_def relay_ops fun_upd_idem)
  then have "pairing e ?r" using ok e False by (auto simp: pairing_def filled_def)
  then have "relay_ok (add_task (PairAuthorize e (cn_grant (rl_conn r c)) (cn_grant (rl_conn r w)) None None) ?r)"
    using cw e by (intro add_pair_task) (auto simp: filled_def)
  then show ?thesis using False cw by (simp add: tryPair_def Let_def)
qed

lemma new_entry_fields [simp]:
  "en_closed (new_entry c) = False" "en_active (new_entry c) = False" "en_activating (new_entry c) = False"
  "slot role (new_entry c) = None" "en_client (new_entry c) = None" "en_worker (new_entry c) = None"
  "en_key (new_entry c) = pairingKey c"
  by (simp_all add: new_entry_def slot_def)

lemma lookup_entry_ok:
  assumes ok: "relay_ok r" and run: "\<not> rl_closed r" and l: "lookup_entry claims r = (e, r')"
  shows "relay_ok r' \<and> e < rl_entries r' \<and> \<not> en_closed (rl_entry r' e) \<and> en_key (rl_entry r' e) = pairingKey claims \<and>
    rl_socket r' = rl_socket r \<and> rl_sockets r' = rl_sockets r \<and> rl_conn r' = rl_conn r \<and> rl_conns r' = rl_conns r \<and>
    rl_closed r' = rl_closed r \<and> rl_entries r \<le> rl_entries r' \<and> (\<forall>x < rl_entries r. rl_entry r' x = rl_entry r x) \<and>
    rl_tasks r' = rl_tasks r \<and> rl_revalidation r' = rl_revalidation r \<and> rl_subscribed r' = rl_subscribed r \<and>
    rl_revalidationPending r' = rl_revalidationPending r \<and>
    (\<forall>x < rl_entries r'. x < rl_entries r \<or> rl_entry r' x = new_entry claims)"
proof (cases "map_of (rl_pairs r) (pairingKey claims)")
  case (Some x)
  then have "(pairingKey claims, x) \<in> set (rl_pairs r)" by (rule map_of_SomeD)
  with ok have "x < rl_entries r \<and> en_key (rl_entry r x) = pairingKey claims \<and> \<not> en_closed (rl_entry r x)"
    unfolding relay_ok_def pairs_ok_def by (metis fst_conv snd_conv)
  with Some l ok show ?thesis by (auto simp: lookup_entry_def)
next
  case None
  let ?e = "rl_entries r"
  from None l have e: "e = ?e" and r': "r' = r\<lparr>rl_entry := (rl_entry r)(?e := new_entry claims), rl_entries := Suc ?e,
      rl_pairs := rl_pairs r @ [(pairingKey claims, ?e)]\<rparr>" by (auto simp: lookup_entry_def)
  have old: "x < ?e \<Longrightarrow> rl_entry r' x = rl_entry r x" for x by (simp add: r')
  have p: "snd p < ?e" if "p \<in> set (rl_pairs r)" for p using ok that by (auto simp: relay_ok_def pairs_ok_def)
  have "pairs_ok r'"
    unfolding pairs_ok_def
  proof (intro conjI)
    show "distinct (map fst (rl_pairs r'))"
      using ok None by (auto simp: r' relay_ok_def pairs_ok_def map_of_eq_None_iff)
    show "\<forall>p \<in> set (rl_pairs r'). snd p < rl_entries r' \<and> en_key (rl_entry r' (snd p)) = fst p \<and> \<not> en_closed (rl_entry r' (snd p))"
      using ok p by (fastforce simp: r' relay_ok_def pairs_ok_def less_Suc_eq)
    show "\<forall>x < rl_entries r'. \<not> en_closed (rl_entry r' x) \<longrightarrow> (en_key (rl_entry r' x), x) \<in> set (rl_pairs r')"
      using ok by (auto simp: r' relay_ok_def pairs_ok_def less_Suc_eq)
  qed
  moreover have c: "x < rl_conns r \<Longrightarrow> cn_entry (rl_conn r x) < ?e" for x using connD(2) [OF ok] .
  then have "conns_ok r'" using ok by (auto simp: r' relay_ok_def conns_ok_def less_Suc_eq)
  moreover have "slots_ok r'"
    unfolding slots_ok_def
  proof (intro conjI allI ballI impI)
    fix x role y assume "x < rl_entries r'" "role \<in> {''client'', ''worker''}" "slot role (rl_entry r' x) = Some y"
    with slotD [OF ok, of x role y] show "y < rl_conns r'" "cn_entry (rl_conn r' y) = x" "cn_role (rl_conn r' y) = role"
      "\<not> en_closed (rl_entry r' x) \<Longrightarrow> ws_ready (conn_socket r' y) \<noteq> WsClosed"
      by (auto simp: r' less_Suc_eq split: if_splits)
  next
    fix x assume x: "x < rl_conns r'"
    with c have "cn_entry (rl_conn r x) \<noteq> ?e" by (force simp: r')
    with connD(5,6) [OF ok, of x] x show "slot (cn_role (rl_conn r' x)) (rl_entry r' (cn_entry (rl_conn r' x))) = Some x \<or>
        ws_ready (conn_socket r' x) = WsClosed"
      "en_closed (rl_entry r' (cn_entry (rl_conn r' x))) \<Longrightarrow> ws_ready (conn_socket r' x) \<noteq> WsOpen"
      by (auto simp: r')
  qed
  moreover have "links_ok r'"
    unfolding links_ok_def
  proof (intro conjI allI impI)
    fix x p assume x: "x < rl_conns r'" "cn_peer (rl_conn r' x) = Some p"
    then have "x < rl_conns r" "cn_peer (rl_conn r x) = Some p" by (simp_all add: r')
    from peerD [OF ok this] c [OF this(1)] show "p < rl_conns r'" "cn_entry (rl_conn r' p) = cn_entry (rl_conn r' x)"
      "cn_role (rl_conn r' p) = other_role (cn_role (rl_conn r' x))" "cn_peer (rl_conn r' p) = Some x"
      "en_active (rl_entry r' (cn_entry (rl_conn r' x)))" by (auto simp: r')
  next
    fix x assume "x < rl_entries r'" "en_active (rl_entry r' x) \<and> \<not> en_closed (rl_entry r' x)"
    then show "\<exists>c w. en_client (rl_entry r' x) = Some c \<and> en_worker (rl_entry r' x) = Some w \<and>
        cn_peer (rl_conn r' c) = Some w \<and> cn_peer (rl_conn r' w) = Some c"
      using ok by (auto simp: r' relay_ok_def links_ok_def less_Suc_eq split: if_splits)
  qed
  moreover have "tasks_ok r'"
  proof -
    have "task_ok r' t" if "t \<in> set (rl_tasks r)" for t
    proof -
      have "task_ok r t" using ok that by (auto simp: relay_ok_def tasks_ok_def list_all_iff)
      then show ?thesis using run by (cases t) (auto simp: r' filled_def)
    qed
    moreover have "length (filter (pair_task x) (rl_tasks r)) = (if x < rl_entries r' \<and> en_activating (rl_entry r' x) then 1 else 0)" for x
      using ok by (auto simp: r' relay_ok_def tasks_ok_def less_Suc_eq)
    ultimately show ?thesis
      using ok by (auto simp: r' relay_ok_def tasks_ok_def list_all_iff less_Suc_eq)
  qed
  ultimately show ?thesis using e by (auto simp: relay_ok_def r' less_Suc_eq)
qed

lemma seat_ok:
  assumes ok: "relay_ok r" and e: "e < rl_entries r" and nc: "\<not> en_closed (rl_entry r e)"
    and k: "k < rl_sockets r" "\<And>c. c < rl_conns r \<Longrightarrow> cn_socket (rl_conn r c) \<noteq> k" "ws_ready (rl_socket r k) = WsOpen"
    and vc: "valid_claims claims" and pr: "protocol \<in> {DATA_PLANE_SUBPROTOCOL, DATA_PLANE_SUBPROTOCOL_V2}"
    and free: "slot (gc_role claims) (rl_entry r e) = None"
  shows "relay_ok (upd_entry e (set_slot (gc_role claims) (Some (rl_conns r)))
    (r\<lparr>rl_conn := (rl_conn r)(rl_conns r := new_conn k grant protocol claims e), rl_conns := Suc (rl_conns r)\<rparr>))"
    (is "relay_ok ?r")
proof -
  let ?n = "rl_conns r" and ?role = "gc_role claims"
  have role: "gc_role claims \<in> {''client'', ''worker''}" using vc by (simp add: valid_claims_def)
  have f: "rl_conns ?r = Suc ?n" "rl_socket ?r = rl_socket r" "rl_entries ?r = rl_entries r" "rl_sockets ?r = rl_sockets r"
    "rl_pairs ?r = rl_pairs r" "rl_tasks ?r = rl_tasks r" "rl_closed ?r = rl_closed r" by simp_all
  have cn: "rl_conn ?r x = (if x = ?n then new_conn k grant protocol claims e else rl_conn r x)" for x by simp
  have o: "en_closed (rl_entry ?r x) = en_closed (rl_entry r x)" "en_active (rl_entry ?r x) = en_active (rl_entry r x)"
    "en_activating (rl_entry ?r x) = en_activating (rl_entry r x)" "en_key (rl_entry ?r x) = en_key (rl_entry r x)" for x
    by simp_all
  have s: "slot role (rl_entry ?r x) = (if x = e \<and> role = ?role then Some ?n else slot role (rl_entry r x))"
    if "role \<in> {''client'', ''worker''}" for role x
    using that role by (auto simp: slot_def set_slot_def)
  have na: "\<not> en_active (rl_entry r e)" and ni: "\<not> filled r e"
    using ok e nc free role by (auto simp: relay_ok_def links_ok_def filled_def slot_def)
  have nt: "\<not> en_activating (rl_entry r e)"
  proof
    assume "en_activating (rl_entry r e)"
    then have "length (filter (pair_task e) (rl_tasks r)) = 1" using ok e by (simp add: relay_ok_def tasks_ok_def)
    then obtain t where "t \<in> set (rl_tasks r)" "pair_task e t"
      by (metis One_nat_def filter_eq_ConsD length_0_conv length_Suc_conv in_set_conv_decomp)
    with ok have "task_ok r t" "pair_task e t" by (auto simp: relay_ok_def tasks_ok_def list_all_iff)
    with ni show False by (cases t) auto
  qed
  have nf: "rl_conn ?r x = rl_conn r x" if "x < ?n" for x using that by simp
  have "pairs_ok ?r" using ok unfolding relay_ok_def pairs_ok_def f o by blast
  moreover have "conns_ok ?r"
    using ok k(1,2) e role vc pr unfolding relay_ok_def conns_ok_def f cn by (auto simp: less_Suc_eq new_conn_def)
  moreover have "slots_ok ?r"
    unfolding slots_ok_def f o
  proof (intro conjI allI ballI impI)
    fix x rl y assume h: "x < rl_entries r" "rl \<in> {''client'', ''worker''}" "slot rl (rl_entry ?r x) = Some y"
    have "y < Suc ?n \<and> cn_entry (rl_conn ?r y) = x \<and> cn_role (rl_conn ?r y) = rl \<and>
      (\<not> en_closed (rl_entry r x) \<longrightarrow> ws_ready (rl_socket r (cn_socket (rl_conn ?r y))) \<noteq> WsClosed)"
    proof (cases "x = e \<and> rl = ?role")
      case True
      with h(3) have "y = ?n" by (simp only: s [OF h(2)]) simp
      with True k(3) show ?thesis by (simp add: new_conn_def)
    next
      case False
      with h(3) have y: "slot rl (rl_entry r x) = Some y" by (simp only: s [OF h(2)] if_False)
      from slotD [OF ok h(1) y h(2)] show ?thesis by (simp only: nf less_Suc_eq) simp
    qed
    then show "y < Suc ?n" "cn_entry (rl_conn ?r y) = x" "cn_role (rl_conn ?r y) = rl"
      "\<not> en_closed (rl_entry r x) \<Longrightarrow> ws_ready (rl_socket r (cn_socket (rl_conn ?r y))) \<noteq> WsClosed" by blast+
  next
    fix x assume x: "x < Suc ?n"
    have "(slot (cn_role (rl_conn ?r x)) (rl_entry ?r (cn_entry (rl_conn ?r x))) = Some x \<or> ws_ready (rl_socket r (cn_socket (rl_conn ?r x))) = WsClosed) \<and>
      (en_closed (rl_entry r (cn_entry (rl_conn ?r x))) \<longrightarrow> ws_ready (rl_socket r (cn_socket (rl_conn ?r x))) \<noteq> WsOpen)"
    proof (cases "x = ?n")
      case True
      then have xn: "rl_conn ?r x = new_conn k grant protocol claims e" by simp
      have "slot ?role (rl_entry ?r e) = Some ?n" using s [OF role, of e] by simp
      then show ?thesis unfolding xn using True nc by (simp add: new_conn_def)
    next
      case False
      then have xn: "x < ?n" using x by simp
      have "slot (cn_role (rl_conn r x)) (rl_entry r (cn_entry (rl_conn r x))) = Some x \<Longrightarrow>
          slot (cn_role (rl_conn r x)) (rl_entry ?r (cn_entry (rl_conn r x))) = Some x"
        unfolding s [OF connD(3) [OF ok xn]] using free by auto
      with connD(5,6) [OF ok xn] show ?thesis unfolding nf [OF xn] by blast
    qed
    then show "slot (cn_role (rl_conn ?r x)) (rl_entry ?r (cn_entry (rl_conn ?r x))) = Some x \<or> ws_ready (rl_socket r (cn_socket (rl_conn ?r x))) = WsClosed"
      "en_closed (rl_entry r (cn_entry (rl_conn ?r x))) \<Longrightarrow> ws_ready (rl_socket r (cn_socket (rl_conn ?r x))) \<noteq> WsOpen" by blast+
  qed
  moreover have "links_ok ?r"
    unfolding links_ok_def f o
  proof (intro conjI allI impI)
    fix x p assume x: "x < Suc ?n" and p: "cn_peer (rl_conn ?r x) = Some p"
    then have xn: "x < ?n" by (auto simp: less_Suc_eq new_conn_def split: if_splits)
    from p have pn: "cn_peer (rl_conn r x) = Some p" unfolding nf [OF xn] .
    note pD = peerD [OF ok xn pn]
    show "p < Suc ?n" "cn_entry (rl_conn ?r p) = cn_entry (rl_conn ?r x)" "cn_role (rl_conn ?r p) = other_role (cn_role (rl_conn ?r x))"
      "cn_peer (rl_conn ?r p) = Some x" "en_active (rl_entry r (cn_entry (rl_conn ?r x)))"
      unfolding nf [OF xn] nf [OF pD(1)] using pD by simp_all
  next
    fix x assume x: "x < rl_entries r" and a: "en_active (rl_entry r x) \<and> \<not> en_closed (rl_entry r x)"
    with na have "x \<noteq> e" by auto
    from ok x a obtain c w where cw: "en_client (rl_entry r x) = Some c" "en_worker (rl_entry r x) = Some w"
      "cn_peer (rl_conn r c) = Some w" "cn_peer (rl_conn r w) = Some c" by (auto simp: relay_ok_def links_ok_def)
    from clientD(1) [OF ok x cw(1)] workerD(1) [OF ok x cw(2)] have "c < ?n" "w < ?n" .
    with cw \<open>x \<noteq> e\<close> show "\<exists>c w. en_client (rl_entry ?r x) = Some c \<and> en_worker (rl_entry ?r x) = Some w \<and>
        cn_peer (rl_conn ?r c) = Some w \<and> cn_peer (rl_conn ?r w) = Some c" by auto
  qed
  moreover have "tasks_ok ?r"
  proof -
    have "task_ok ?r t" if t: "t \<in> set (rl_tasks r)" for t
    proof -
      have tk: "task_ok r t" using ok t by (auto simp: relay_ok_def tasks_ok_def list_all_iff)
      have same: "filled r x \<Longrightarrow> x \<noteq> e" for x using ni by auto
      show ?thesis
      proof (cases t)
        case (PairAuthorize x cg wg ca wa)
        with tk have x: "x < rl_entries r" "filled r x" and "x \<noteq> e" using same by auto
        then have "rl_entry ?r x = rl_entry r x" by simp
        moreover have "\<not> en_closed (rl_entry r x) \<Longrightarrow> the (en_client (rl_entry r x)) < ?n \<and> the (en_worker (rl_entry r x)) < ?n"
          using x clientD(1) [OF ok x(1)] workerD(1) [OF ok x(1)] by (auto simp: filled_def)
        ultimately show ?thesis using tk PairAuthorize by (auto simp: filled_def)
      qed (use tk same in \<open>auto simp: filled_def\<close>)
    qed
    then show ?thesis using ok unfolding relay_ok_def tasks_ok_def f o by (auto simp: list_all_iff)
  qed
  ultimately show ?thesis by (simp add: relay_ok_def)
qed

lemma acceptConnection_ok:
  assumes ok: "relay_ok r" and run: "\<not> rl_closed r"
    and k: "k < rl_sockets r" "\<And>c. c < rl_conns r \<Longrightarrow> cn_socket (rl_conn r c) \<noteq> k" "ws_ready (rl_socket r k) = WsOpen"
    and vc: "valid_claims claims" and pr: "protocol \<in> {DATA_PLANE_SUBPROTOCOL, DATA_PLANE_SUBPROTOCOL_V2}"
  shows "relay_ok (acceptConnection k grant claims protocol r)"
proof -
  obtain e r1 where l: "lookup_entry claims r = (e, r1)" by fastforce
  note L = lookup_entry_ok [OF ok run l]
  have role: "gc_role claims \<in> {''client'', ''worker''}" using vc by (simp add: valid_claims_def)
  show ?thesis
  proof (cases "slot (gc_role claims) (rl_entry r1 e)")
    case None
    have "relay_ok (join_entry k grant protocol claims e r1)"
      unfolding join_entry_def
      by (rule tryPair_ok [OF seat_ok]) (use L k vc pr None in \<open>auto simp del: fun_upd_apply\<close>)
    with None l show ?thesis by (simp add: acceptConnection_def)
  next
    case (Some c)
    then have "ws_ready (conn_socket r1 c) \<noteq> WsClosed"
      using slotD(4) [of r1 e "gc_role claims" c] L role by blast
    with Some l have "acceptConnection k grant claims protocol r = closeSocket k DUPLICATE_ROLE ''duplicate relay role'' r1"
      by (simp add: acceptConnection_def)
    moreover have "relay_ok (closeSocket k DUPLICATE_ROLE ''duplicate relay role'' r1)"
      unfolding closeSocket_shut using L k(2) by (intro unowned_socket_ok) auto
    ultimately show ?thesis by simp
  qed
qed

lemma upgrade_accepted_ok:
  assumes ok: "relay_ok r" and "valid_claims (fst auth)"
    and "protocol \<in> {DATA_PLANE_SUBPROTOCOL, DATA_PLANE_SUBPROTOCOL_V2}"
  shows "relay_ok (upgrade_accepted destroyed protocol grant auth r)"
proof (cases "rl_closed r \<or> destroyed")
  case False
  have "cn_socket (rl_conn r c) \<noteq> rl_sockets r" if "c < rl_conns r" for c using connD(1) [OF ok that] by simp
  with False assms show ?thesis
    by (simp add: upgrade_accepted_def) (intro acceptConnection_ok open_socket_ok; simp)
qed (use ok in \<open>auto simp: upgrade_accepted_def\<close>)

subsection \<open>Stopping\<close>

lemma close_entries_ok:
  assumes "relay_ok r" and "list_all (\<lambda>e. e < rl_entries r) es"
  shows "relay_ok (close_entries es r) \<and> rl_entries (close_entries es r) = rl_entries r \<and> rl_closed (close_entries es r) = rl_closed r \<and>
    (\<forall>x. en_closed (rl_entry (close_entries es r) x) \<longleftrightarrow> x \<in> set es \<or> en_closed (rl_entry r x))"
  using assms
proof (induction es arbitrary: r)
  case (Cons e es)
  from Cons.IH [of "closeEntry e TRY_AGAIN_LATER ''relay shutting down'' r"] Cons.prems show ?case
    by (auto simp: close_entries_def closeEntry_ok)
qed (simp add: close_entries_def)

lemma stop_drained_ok:
  assumes ok: "relay_ok r" and "rl_closed r"
  shows "relay_ok (stop_drained r) \<and> (\<forall>e < rl_entries r. en_closed (rl_entry (stop_drained r) e))"
proof -
  let ?es = "map snd (rl_pairs r)"
  have "list_all (\<lambda>e. e < rl_entries r) ?es" using ok by (auto simp: relay_ok_def pairs_ok_def list_all_iff)
  note c = close_entries_ok [OF ok this]
  have "e \<in> set ?es \<or> en_closed (rl_entry r e)" if "e < rl_entries r" for e
    using ok that by (force simp: relay_ok_def pairs_ok_def)
  with c have all: "\<forall>e < rl_entries r. en_closed (rl_entry (close_entries ?es r) e)" by blast
  have "relay_ok (stop_drained r)"
    unfolding stop_drained_def using c all assms(2) by (intro add_other_task) auto
  with all show ?thesis by (simp add: stop_drained_def)
qed

lemma stop_terminated_ok:
  assumes ok: "relay_ok r" and all: "\<forall>e < rl_entries r. en_closed (rl_entry r e)"
  shows "relay_ok (stop_terminated r)"
proof -
  have f: "rl_conns (stop_terminated r) = rl_conns r" "rl_conn (stop_terminated r) = rl_conn r" "rl_entries (stop_terminated r) = rl_entries r"
    "rl_sockets (stop_terminated r) = rl_sockets r" "rl_entry (stop_terminated r) = rl_entry r" "rl_tasks (stop_terminated r) = rl_tasks r"
    "rl_closed (stop_terminated r) = rl_closed r" "rl_pairs (stop_terminated r) = []"
    by (simp_all add: stop_terminated_def)
  have w: "ws_ready (rl_socket (stop_terminated r) k) = WsClosed \<longleftrightarrow> ws_ready (rl_socket r k) = WsClosed"
    "ws_ready (rl_socket (stop_terminated r) k) \<noteq> WsOpen" for k
    by (auto simp: stop_terminated_def terminate_def)
  have "pairs_ok (stop_terminated r)" using all by (simp add: pairs_ok_def f)
  moreover have "conns_ok (stop_terminated r)" "links_ok (stop_terminated r)"
    using ok unfolding relay_ok_def conns_ok_def links_ok_def f by blast+
  moreover have "slots_ok (stop_terminated r)"
    using ok w(2) unfolding relay_ok_def slots_ok_def f w by blast
  moreover have "task_ok (stop_terminated r) t = task_ok r t" for t
    by (cases t) (simp_all add: f filled_def)
  then have "tasks_ok (stop_terminated r)"
    using ok by (simp add: relay_ok_def tasks_ok_def f list_all_iff)
  ultimately show ?thesis by (simp add: relay_ok_def)
qed

lemma relay_stop_ok:
  assumes ok: "relay_ok r"
  shows "relay_ok (relay_stop r)"
proof (cases "rl_closed r")
  case False
  let ?r = "r\<lparr>rl_closed := True, rl_subscribed := False\<rparr>"
  have "task_ok r t \<Longrightarrow> task_ok ?r t" for t by (cases t) (auto simp: filled_def)
  moreover have "pairs_ok ?r = pairs_ok r" "conns_ok ?r = conns_ok r" "slots_ok ?r = slots_ok r" "links_ok ?r = links_ok r"
    by (simp_all add: pairs_ok_def conns_ok_def slots_ok_def links_ok_def)
  ultimately have "relay_ok ?r" using ok by (auto simp: relay_ok_def tasks_ok_def list_all_iff)
  then have "relay_ok (add_task StopDrain ?r)" by (rule add_other_task) auto
  with False show ?thesis by (simp add: relay_stop_def)
qed (use ok in \<open>simp add: relay_stop_def\<close>)

subsection \<open>Revalidation and the socket handlers\<close>

lemma next_pair_same [simp]: "same_relay (next_pair es r) r"
  by (auto simp: next_pair_def revalidation_failed_def split: list.splits option.splits)

lemma scheduleRevalidation_same [simp]: "same_relay (scheduleRevalidation r) r"
  by (simp add: scheduleRevalidation_def revalidatePairs_def)

lemma revalidation_finally_same [simp]: "same_relay (revalidation_finally r) r"
  unfolding revalidation_finally_def Let_def
  by (auto intro!: same_relay_trans [OF scheduleRevalidation_same]) (simp_all add: same_relay_def)

lemma check_answered_ok:
  assumes ok: "relay_ok r" and e: "e < rl_entries r"
  shows "relay_ok (check_answered e cc wc ca wa rest r)"
proof -
  have "relay_ok (pair_checked e a b r)" for a b using ok e by (simp add: pair_checked_def closeEntry_ok)
  then have "relay_ok (next_pair rest (pair_checked e a b r))" for a b
    using same_relayI next_pair_same by blast
  then show ?thesis
    using same_relayI [OF ok] by (auto simp: check_answered_def revalidation_failed_def split: option.splits sum.splits)
qed

lemma onMessage_ok:
  assumes ok: "relay_ok r" and c: "c < rl_conns r"
  shows "relay_ok (onMessage c f buffered r)"
proof -
  have "relay_ok (closeEntry (cn_entry (rl_conn r c)) code reason r)" for code reason
    using connD(2) [OF ok c] by (rule closeEntry_ok [OF ok])
  moreover have "same_relay (push_frame k f (resetIdleTimers e r)) r" for k e
    using same_relay_trans same_relay_simps(6) same_relay_resetIdleTimers by blast
  then have "relay_ok (push_frame k f (resetIdleTimers e r))" for k e
    using same_relayI [OF ok] by blast
  ultimately show ?thesis
    using ok by (auto simp: onMessage_def Let_def split: option.splits sum.splits bool.splits)
qed

lemma timer_fields [simp]:
  "cn_entry (rl_conn (clearPeerTimer c r) x) = cn_entry (rl_conn r x)" "rl_entry (clearPeerTimer c r) = rl_entry r"
  "rl_entries (clearPeerTimer c r) = rl_entries r"
  by (simp_all add: clearPeerTimer_def)

lemma timers_ok:
  assumes ok: "relay_ok r" and c: "c < rl_conns r"
  shows "relay_ok (peerTimerFired c r)" "relay_ok (idleTimerFired c r)" "relay_ok (onSendFailed c reason r)" "relay_ok (onSocketError c r)"
proof -
  note e = connD(2) [OF ok c]
  have "relay_ok (clearPeerTimer c r)" "relay_ok (upd_conn c (\<lambda>x. x\<lparr>cn_idleTimer := False\<rparr>) r)"
    using same_relayI [OF ok] by simp_all
  with e closeEntry_ok ok show "relay_ok (peerTimerFired c r)" "relay_ok (idleTimerFired c r)"
    "relay_ok (onSendFailed c reason r)" "relay_ok (onSocketError c r)"
    by (simp_all add: peerTimerFired_def idleTimerFired_def onSendFailed_def onSocketError_def Let_def)
qed

section \<open>Every step keeps the invariant\<close>

text \<open>The pair being checked and the pairs to come are entries.\<close>

definition round_ok :: "relay \<Rightarrow> bool" where
  "round_ok r \<longleftrightarrow> (case rl_revalidation r of
      CheckPair e _ _ _ _ rest \<Rightarrow> list_all (\<lambda>x. x < rl_entries r) (e # rest) | _ \<Rightarrow> True)"

lemma ask_allocation_Some:
  assumes "ask_allocation claims role t d = Inr (Some (c, s))"
  shows "validateDataPlaneGrantClaims (claims_js claims) = Inr c" and "gc_role c = role" and "role \<in> {''client'', ''worker''}"
    and "getSession (gc_sessionId c) d = Some s" and "session_allocated s" and "s_assignedWorkerId s = Some (gc_workerId c)"
    and "s_leaseId s = Some (gc_leaseId c)"
proof -
  from assms have role: "role \<in> {''client'', ''worker''}"
    by (cases "role \<in> {''client'', ''worker''}") (auto simp: ask_allocation_def authorizeDataPlaneAllocation_def validateDataPlaneRole_def)
  with assms obtain c' where c': "validateDataPlaneGrantClaims (claims_js claims) = Inr c'"
    by (cases "validateDataPlaneGrantClaims (claims_js claims)") (auto simp: ask_allocation_def authorizeDataPlaneAllocation_def validateDataPlaneRole_def)
  with assms role obtain s' where s': "gc_role c' = role" "getSession (gc_sessionId c') d = Some s'"
    by (auto simp: ask_allocation_def authorizeDataPlaneAllocation_def validateDataPlaneRole_def split: option.splits if_splits)
  with assms role c' show "validateDataPlaneGrantClaims (claims_js claims) = Inr c" "gc_role c = role" "role \<in> {''client'', ''worker''}"
    "getSession (gc_sessionId c) d = Some s" "session_allocated s" "s_assignedWorkerId s = Some (gc_workerId c)"
    "s_leaseId s = Some (gc_leaseId c)"
    by (auto simp: ask_allocation_def authorizeDataPlaneAllocation_def validateDataPlaneRole_def split: if_splits)
qed

lemma ask_grant_Some:
  assumes "ask_grant env grant role t t' d = Inr (Some (c, s))"
  shows "verifyDataPlaneGrant (ev_decode env) (ev_hmac env) (JStr grant) (cf_dataPlaneSigningKey (ev_service env)) t = Inr (Some c)"
    and "ask_allocation c role t' d = Inr (Some (c, s))"
proof -
  from assms obtain v where v: "verifyDataPlaneGrant (ev_decode env) (ev_hmac env) (JStr grant) (cf_dataPlaneSigningKey (ev_service env)) t = Inr (Some v)"
    and a: "ask_allocation v role t' d = Inr (Some (c, s))"
    by (auto simp: ask_grant_def authorizeDataPlaneGrant_def ask_allocation_def and_then_Inr split: option.splits)
  have "valid_claims v" using v by (rule verifyDataPlaneGrant_Some)
  then have "c = v" using ask_allocation_Some(1) [OF a] validateDataPlaneGrantClaims_id by simp
  with v a show "verifyDataPlaneGrant (ev_decode env) (ev_hmac env) (JStr grant) (cf_dataPlaneSigningKey (ev_service env)) t = Inr (Some c)"
    "ask_allocation c role t' d = Inr (Some (c, s))" by simp_all
qed

lemma take_task_fields [simp]:
  "rl_conn (take_task i r) = rl_conn r" "rl_conns (take_task i r) = rl_conns r" "rl_entry (take_task i r) = rl_entry r"
  "rl_entries (take_task i r) = rl_entries r" "rl_socket (take_task i r) = rl_socket r" "rl_sockets (take_task i r) = rl_sockets r"
  "rl_pairs (take_task i r) = rl_pairs r" "rl_closed (take_task i r) = rl_closed r" "rl_subscribed (take_task i r) = rl_subscribed r"
  "rl_revalidation (take_task i r) = rl_revalidation r" "rl_revalidationPending (take_task i r) = rl_revalidationPending r"
  by (simp_all add: take_task_def)

lemma take_task_failures [simp]: "rl_revalidationFailures (take_task i r) = rl_revalidationFailures r"
  by (simp add: take_task_def)

lemma rejectUpgrade_same [simp]: "same_relay (rejectUpgrade destroyed statusCode message r) r"
  by (simp add: rejectUpgrade_def)

lemma rejectUpgrade_ok [simp]: "relay_ok (rejectUpgrade destroyed statusCode message r) = relay_ok r"
  by (rule same_relay_ok) simp

lemma handleUpgrade_ok: "relay_ok r \<Longrightarrow> relay_ok (handleUpgrade parse_url destroyed url header r)"
  using parseDataPlaneProtocols_Some [of header]
  by (auto simp: handleUpgrade_def intro!: add_other_task split: option.splits)

text \<open>What leaves a running revalidation alone: entries are only added and the round stays as it is.\<close>

definition beside_round :: "relay \<Rightarrow> relay \<Rightarrow> bool" where
  "beside_round r' r \<longleftrightarrow> rl_revalidation r' = rl_revalidation r \<and>
     rl_revalidationPending r' = rl_revalidationPending r \<and> rl_revalidationFailures r' = rl_revalidationFailures r \<and>
     rl_entries r \<le> rl_entries r'"

lemma beside_trans: "beside_round r'' r' \<Longrightarrow> beside_round r' r \<Longrightarrow> beside_round r'' r"
  by (simp add: beside_round_def)

lemma beside_simps [simp]:
  "beside_round r r" "beside_round (take_task i r) r" "beside_round (add_task t r) r" "beside_round (upd_conn c g r) r"
  "beside_round (upd_entry e h r) r" "beside_round (upd_socket k f r) r" "beside_round (closeEntry e code reason r) r"
  "beside_round (pair_settled e r) r" "beside_round (push_frame k fr r) r" "beside_round (clearPeerTimer c r) r"
  "beside_round (clearStateTimers c r) r" "beside_round (resetIdleTimer c r) r" "beside_round (set_closed k r) r"
  "beside_round (rejectUpgrade b n m r) r" "beside_round (r\<lparr>rl_subscribed := b\<rparr>) r" "beside_round (r\<lparr>rl_pairs := ps\<rparr>) r"
  "beside_round (stop_terminated r) r" "beside_round (relay_stop r) r" "beside_round (open_socket r) r"
  by (simp_all add: beside_round_def push_frame_def clearPeerTimer_def clearStateTimers_def resetIdleTimer_def set_closed_def
      rejectUpgrade_def stop_terminated_def relay_stop_def)

lemma beside_resetIdleTimers [simp]: "beside_round (resetIdleTimers e r) r"
  by (simp add: resetIdleTimers_def Let_def resetIdleTimer_def beside_round_def split: option.splits)

lemma beside_send_ready [simp]: "beside_round (send_ready e cs r) r"
proof (induction e cs r rule: send_ready.induct)
  case (2 e c cs r)
  then show ?case by (auto intro: beside_trans [OF _ beside_simps(9)])
qed simp

lemma beside_pairing [simp]:
  "beside_round (pair_failed e r) r" "beside_round (pair_activated e r) r" "beside_round (pair_activation_answered e outcome r) r"
  "beside_round (pair_answered e cg wg ca wa r) r"
proof -
  show f: "beside_round (pair_failed e r) r" for e r
    unfolding pair_failed_def using beside_trans [OF beside_simps(8) beside_simps(7)] .
  have l: "beside_round (link_peers c w r) r" for c w r
    unfolding link_peers_def using beside_trans [OF beside_simps(4) beside_simps(4)] .
  have "beside_round (pair_settled e (send_ready e cs (resetIdleTimers e (clearPeerTimer w (clearPeerTimer c
      (link_peers c w (upd_entry e h r))))))) r" for e c w cs h r
    by (intro beside_trans [OF beside_simps(8)] beside_trans [OF beside_send_ready] beside_trans [OF beside_resetIdleTimers]
        beside_trans [OF beside_simps(10)] beside_trans [OF l] beside_simps(5))
  then show a: "beside_round (pair_activated e r) r" for e r
    using beside_trans [OF f beside_simps(5)]
    by (simp add: pair_activated_def Let_def del: send_ready.simps split: option.splits)
  show "beside_round (pair_activation_answered e outcome r) r"
    using a f by (simp add: pair_activation_answered_def split: sum.splits)
  show "beside_round (pair_answered e cg wg ca wa r) r"
    using a f beside_trans [OF beside_simps(8) beside_simps(7)]
    by (auto simp: pair_answered_def split: option.splits sum.splits)
qed

lemma beside_handlers [simp]:
  "beside_round (handleUpgrade parse_url destroyed url header r) r"
  "beside_round (upgrade_client_answered destroyed protocol grant a r) r"
  "beside_round (upgrade_worker_answered destroyed protocol grant a r) r"
  "beside_round (onMessage c f buffered r) r" "beside_round (onSendFailed c reason r) r" "beside_round (onSocketError c r) r"
  "beside_round (peerTimerFired c r) r" "beside_round (idleTimerFired c r) r" "beside_round (handleSocketClose c r) r"
proof -
  show "beside_round (handleUpgrade parse_url destroyed url header r) r"
    "beside_round (upgrade_client_answered destroyed protocol grant a r) r"
    "beside_round (upgrade_worker_answered destroyed protocol grant a r) r"
    by (auto simp: handleUpgrade_def upgrade_client_answered_def upgrade_worker_answered_def split: option.splits sum.splits)
  show "beside_round (onMessage c f buffered r) r"
    using beside_trans [OF beside_simps(9) beside_resetIdleTimers]
    by (auto simp: onMessage_def Let_def split: option.splits sum.splits bool.splits)
  show "beside_round (onSendFailed c reason r) r" "beside_round (onSocketError c r) r"
    by (simp_all add: onSendFailed_def onSocketError_def)
  show "beside_round (peerTimerFired c r) r" "beside_round (idleTimerFired c r) r"
    using beside_trans [OF beside_simps(7) beside_simps(10)] beside_trans [OF beside_simps(7) beside_simps(4)]
    by (auto simp: peerTimerFired_def idleTimerFired_def Let_def)
  show "beside_round (handleSocketClose c r) r"
    unfolding handleSocketClose_def Let_def
    by (auto split: option.splits intro!: beside_trans [OF beside_simps(7)] beside_trans [OF beside_simps(5)]
        beside_trans [OF beside_simps(16)])
qed

lemma beside_stop_drained [simp]: "beside_round (stop_drained r) r"
proof -
  have "beside_round (close_entries es r) r" for es r
  proof (induction es arbitrary: r)
    case (Cons e es)
    from beside_trans [OF Cons.IH beside_simps(7)] show ?case by (simp add: close_entries_def)
  qed (simp add: close_entries_def)
  then show ?thesis unfolding stop_drained_def using beside_trans [OF beside_simps(3)] by blast
qed

lemma beside_accepted [simp]: "beside_round (upgrade_accepted destroyed protocol grant auth r) r"
proof -
  have l: "beside_round (snd (lookup_entry claims r)) r" for claims r
    by (auto simp: lookup_entry_def beside_round_def split: option.splits)
  have t: "beside_round (tryPair e r) r" for e r
    by (auto simp: tryPair_def Let_def split: option.splits intro: beside_trans [OF beside_simps(3)])
  have n: "beside_round (r\<lparr>rl_conn := x, rl_conns := y\<rparr>) r" for r x y by (simp add: beside_round_def)
  have j: "beside_round (join_entry k grant protocol claims e r) r" for k grant protocol claims e r
    unfolding join_entry_def by (intro beside_trans [OF t] beside_trans [OF beside_simps(5)] n)
  have s: "beside_round (closeSocket k code reason r) r" for k code reason r by (simp add: closeSocket_shut)
  have "beside_round (acceptConnection k grant claims protocol r) r" for k claims r
    using l [of claims r] beside_trans [OF j] beside_trans [OF s]
    by (cases "lookup_entry claims r") (auto simp: acceptConnection_def)
  then show ?thesis
    using beside_trans [OF _ beside_simps(19)] by (simp add: upgrade_accepted_def)
qed

text \<open>The round's part of the invariant.\<close>

lemma round_ok_beside: "round_ok r \<Longrightarrow> beside_round r' r \<Longrightarrow> round_ok r'"
  by (cases "rl_revalidation r") (auto simp: round_ok_def beside_round_def list_all_iff)

lemma next_pair_round:
  assumes "list_all (\<lambda>x. x < rl_entries r) es"
  shows "round_ok (next_pair es r)"
  using assms by (auto simp: next_pair_def round_ok_def revalidation_failed_def split: list.splits option.splits)

lemma live_entries_bound: "relay_ok r \<Longrightarrow> list_all (\<lambda>x. x < rl_entries r) (live_entries r)"
  by (auto simp: live_entries_def relay_ok_def pairs_ok_def list_all_iff)

lemma scheduleRevalidation_round:
  assumes ok: "relay_ok r" and "round_ok r"
  shows "round_ok (scheduleRevalidation r)"
proof -
  have "round_ok (r\<lparr>rl_revalidationPending := True\<rparr>)" using assms(2) by (cases "rl_revalidation r") (simp_all add: round_ok_def)
  then show ?thesis
    using assms next_pair_round [OF live_entries_bound [OF ok]] by (simp add: scheduleRevalidation_def revalidatePairs_def)
qed

lemma revalidation_finally_round:
  assumes "relay_ok r" shows "round_ok (revalidation_finally r)"
proof -
  have "round_ok (r\<lparr>rl_revalidation := NoRound\<rparr>)" by (simp add: round_ok_def)
  moreover have "relay_ok (r\<lparr>rl_revalidation := NoRound, rl_revalidationPending := False\<rparr>)"
    by (rule same_relayI [OF assms]) (simp add: same_relay_def)
  moreover have "round_ok (r\<lparr>rl_revalidation := NoRound, rl_revalidationPending := False\<rparr>)" by (simp add: round_ok_def)
  ultimately show ?thesis
    unfolding revalidation_finally_def Let_def using scheduleRevalidation_round by (simp split: if_splits)
qed

lemma check_answered_round:
  assumes "rl_revalidation r = CheckPair e cc wc ca' wa' rest" and "round_ok r"
  shows "round_ok (check_answered e cc wc ca wa rest r)"
proof -
  have b: "list_all (\<lambda>x. x < rl_entries r) (e # rest)" using assms by (simp add: round_ok_def)
  then have "round_ok (next_pair rest (pair_checked e a b r))" for a b
    by (intro next_pair_round) (simp add: pair_checked_def)
  moreover have "round_ok (r\<lparr>rl_revalidation := CheckPair e cc wc ca wa rest\<rparr>)" using b by (simp add: round_ok_def)
  moreover have "round_ok (revalidation_failed r)" by (simp add: round_ok_def revalidation_failed_def)
  ultimately show ?thesis by (auto simp: check_answered_def split: option.splits sum.splits)
qed

definition relay_inv :: "relay \<Rightarrow> bool" where
  "relay_inv r \<longleftrightarrow> relay_ok r \<and> round_ok r"

lemma beside_take: "beside_round r' (take_task i r) \<Longrightarrow> beside_round r' r"
  by (erule beside_trans) simp

lemma relay_step_ok:
  assumes "relay_step lc num env a (d, r) (d', r')" and inv: "relay_inv r"
  shows "relay_inv r'"
proof -
  have ok: "relay_ok r" and rd: "round_ok r" using inv by (simp_all add: relay_inv_def)
  have B: "relay_inv x" if "relay_ok x" and "beside_round x r" for x
    using that round_ok_beside [OF rd] by (simp add: relay_inv_def)
  have T: "relay_inv x" if "relay_ok x" and "beside_round x (take_task i r)" for x i
    using B [OF that(1) beside_take [OF that(2)]] .
  note other = take_other_task_ok [OF ok] and at = task_atD [OF ok]
  from assms(1) show ?thesis
  proof cases
    case control_plane
    then show ?thesis using inv by simp
  next
    case started
    then show ?thesis using same_relayI [OF ok] by (intro B) (auto simp: relay_start_def split: if_splits)
  next
    case event
    then show ?thesis using ok rd same_relayI [OF ok] scheduleRevalidation_round by (simp add: relay_inv_def)
  next
    case (upgrade destroyed url header)
    then show ?thesis using handleUpgrade_ok [OF ok] by (intro B) auto
  next
    case (upgrade_client i protocol grant destroyed t t')
    have "relay_ok (take_task i r)" using upgrade_client by (intro other) auto
    moreover have "task_ok r (UpgradeClient protocol grant)" using upgrade_client at by blast
    moreover have "valid_claims (fst auth)" if "ask_grant env grant ''client'' t t' d = Inr (Some auth)" for auth
      using that ask_grant_Some(2) [of env grant "''client''" t t' d "fst auth" "snd auth"] ask_allocation_Some(1)
        validateDataPlaneGrantClaims_valid by fastforce
    ultimately have "relay_ok r'"
      using upgrade_client by (auto simp: upgrade_client_answered_def intro!: add_other_task split: sum.splits option.splits)
    then show ?thesis using upgrade_client by (intro T [of _ i]) simp_all
  next
    case (upgrade_worker i protocol grant destroyed t t')
    have "relay_ok (take_task i r)" using upgrade_worker by (intro other) auto
    moreover have "task_ok r (UpgradeWorker protocol grant)" using upgrade_worker at by blast
    moreover have "valid_claims (fst auth)" if "ask_grant env grant ''worker'' t t' d = Inr (Some auth)" for auth
      using that ask_grant_Some(2) [of env grant "''worker''" t t' d "fst auth" "snd auth"] ask_allocation_Some(1)
        validateDataPlaneGrantClaims_valid by fastforce
    ultimately have "relay_ok r'"
      using upgrade_worker by (auto simp: upgrade_worker_answered_def intro!: add_other_task split: sum.splits option.splits)
    then show ?thesis using upgrade_worker by (intro T [of _ i]) simp_all
  next
    case (upgrade_accept i protocol grant auth destroyed)
    have "relay_ok (take_task i r)" using upgrade_accept by (intro other) auto
    moreover have "task_ok r (UpgradeAccept protocol grant auth)" using upgrade_accept at by blast
    ultimately show ?thesis
      using upgrade_accept upgrade_accepted_ok [of "take_task i r" auth protocol destroyed grant] by (intro T [of _ i]) simp_all
  next
    case (pair_client i e cg wg wa t t')
    have "pairing e (take_task i r)" using take_pair_task [OF ok] pair_client by auto
    moreover have "task_ok r (PairAuthorize e cg wg None wa)" using pair_client at by blast
    ultimately show ?thesis
      using pair_client by (intro T [of _ i]) (auto intro: pairing_answered)
  next
    case (pair_worker i e cg wg ca t t')
    have "pairing e (take_task i r)" using take_pair_task [OF ok] pair_worker by auto
    moreover have "task_ok r (PairAuthorize e cg wg ca None)" using pair_worker at by blast
    ultimately show ?thesis
      using pair_worker by (intro T [of _ i]) (auto intro: pairing_answered)
  next
    case (activate i e now outcome)
    have p: "pairing e (take_task i r)" using take_pair_task [OF ok] activate by auto
    have "relay_ok (add_task (PairActivated e outcome) (take_task i r))"
      using p by (intro add_pair_task [OF p]) (auto simp: pairing_def)
    then show ?thesis using activate by (intro T [of _ i]) simp_all
  next
    case (activated i e outcome)
    have "pairing e (take_task i r)" using take_pair_task [OF ok] activated by auto
    then have "relay_ok (pair_activation_answered e outcome (take_task i r))"
      by (simp add: pair_activation_answered_def pairing_failed pairing_activated split: sum.splits)
    then show ?thesis using activated by (intro T [of _ i]) simp_all
  next
    case (message c buffered f)
    then show ?thesis using onMessage_ok [OF ok] by (intro B) (auto simp: open_conn_def)
  next
    case (ping c)
    then show ?thesis using same_relayI [OF ok] by (intro B) auto
  next
    case (send_failed c reason)
    then show ?thesis using timers_ok(3) [OF ok] by (intro B) auto
  next
    case (socket_error c)
    then show ?thesis using timers_ok(4) [OF ok] by (intro B) (auto simp: open_conn_def)
  next
    case (socket_close c)
    then show ?thesis
      using handleSocketClose_ok [OF ok] by (intro B) (auto intro: beside_trans [OF beside_handlers(9)])
  next
    case (stray_close k)
    then show ?thesis by (intro B) (auto intro: set_closed_ok [OF ok])
  next
    case (peer_timer c)
    then show ?thesis using timers_ok(1) [OF ok] by (intro B) auto
  next
    case (idle_timer c)
    then show ?thesis using timers_ok(2) [OF ok] by (intro B) auto
  next
    case (check_client e cc wc wa rest t)
    then show ?thesis
      using check_answered_ok [OF ok] check_answered_round [OF _ rd] rd by (simp add: relay_inv_def round_ok_def)
  next
    case (check_worker e cc wc ca rest t)
    then show ?thesis
      using check_answered_ok [OF ok] check_answered_round [OF _ rd] rd by (simp add: relay_inv_def round_ok_def)
  next
    case round_over
    then show ?thesis
      using same_relayI [OF ok] revalidation_finally_round [OF ok] by (simp add: relay_inv_def)
  next
    case stop
    then show ?thesis using relay_stop_ok [OF ok] by (intro B) auto
  next
    case (stop_drain i)
    have "relay_ok (take_task i r)" using stop_drain by (intro other) auto
    moreover have "task_ok r StopDrain" using stop_drain at by blast
    ultimately have "relay_ok (stop_drained (take_task i r))" using stop_drained_ok by simp
    then show ?thesis using stop_drain by (intro T [of _ i]) simp_all
  next
    case (stop_terminate i)
    have "relay_ok (take_task i r)" using stop_terminate by (intro other) auto
    moreover have "task_ok r StopTerminate" using stop_terminate at by blast
    ultimately have "relay_ok (stop_terminated (take_task i r))" by (intro stop_terminated_ok) auto
    then show ?thesis using stop_terminate by (intro T [of _ i]) simp_all
  qed
qed

lemma relay_run_ok: "relay_run lc num env tr s s' \<Longrightarrow> relay_inv (snd s) \<Longrightarrow> relay_inv (snd s')"
proof (induction rule: relay_run.induct)
  case (more tr s s' a s'')
  then show ?case using relay_step_ok by (metis prod.collapse)
qed simp

lemma relay_init_inv: "relay_inv relay_init"
  by (simp add: relay_inv_def relay_init_ok round_ok_def) (simp add: relay_init_def)

lemma relay_reachable_inv: "relay_reachable lc num env tr d r \<Longrightarrow> relay_inv r"
  using relay_run_ok [of lc num env tr "(empty_db, relay_init)" "(d, r)"] relay_init_inv by simp

lemma relay_reachable_ok: "relay_reachable lc num env tr d r \<Longrightarrow> relay_ok r"
  using relay_reachable_inv by (simp add: relay_inv_def)

text \<open>The database moves only by steps of the control plane.\<close>

lemma relay_step_db:
  assumes "relay_step lc num env a (d, r) (d', r')"
  shows "cp_steps lc num (ev_service env) d d'"
  using assms
proof cases
  case control_plane
  then show ?thesis using cp_steps.more [OF cp_steps.none] by blast
next
  case (activate i e now outcome)
  then show ?thesis
    using cp_steps.more [OF cp_steps.none cp_step.activate_session] by (metis snd_conv)
qed (auto intro: cp_steps.none)

lemma relay_run_db: "relay_run lc num env tr s s' \<Longrightarrow> cp_steps lc num (ev_service env) (fst s) (fst s')"
proof (induction rule: relay_run.induct)
  case (none s)
  show ?case by (rule cp_steps.none)
next
  case (more tr s s' a s'')
  then show ?case using relay_step_db cp_steps_trans by (metis prod.collapse)
qed

end
