(* ===== verification/RelaySafety.thy ===== *)
theory RelaySafety
  imports RelayInvariant "HOL-Library.Sublist"
begin

text \<open>
  What the relay guarantees on every run beside the control plane: which frames a connection is sent
  (\<open>deliver_ok\<close>), on whose authority a pair is active (\<open>authority_ok\<close>), what revalidation closes, and
  that a stopped relay stays silent.
\<close>

section \<open>Delivery\<close>

text \<open>The frames that arrived on a connection, in order.\<close>

fun received :: "nat \<Rightarrow> relay_event list \<Rightarrow> frame list" where
  "received c [] = []"
| "received c (Received x f # tr) = (if x = c then f # received c tr else received c tr)"
| "received c (Internal # tr) = received c tr"

lemma received_append [simp]: "received c (tr @ tr') = received c tr @ received c tr'"
  by (induction c tr rule: received.induct) auto

text \<open>The readiness frame a connection on the second protocol version gets first.\<close>

definition greeting :: "conn \<Rightarrow> frame list" where
  "greeting x = (if cn_protocol x = DATA_PLANE_SUBPROTOCOL_V2 then [ready_frame] else [])"

definition conn_closed :: "relay \<Rightarrow> nat \<Rightarrow> bool" where
  "conn_closed r c \<longleftrightarrow> en_closed (rl_entry r (cn_entry (rl_conn r c)))"

definition served :: "relay_event list \<Rightarrow> relay \<Rightarrow> nat \<Rightarrow> bool" where
  "served tr r p =
     (case cn_peer (rl_conn r p) of
        None \<Rightarrow> ws_sent (conn_socket r p) = [] \<and> (conn_closed r p \<or> received p tr = [])
      | Some c \<Rightarrow>
          (\<exists>rest. ws_sent (conn_socket r p) = greeting (rl_conn r p) @ rest \<and> subseq rest (received c tr) \<and>
             (conn_closed r p \<or> rest = received c tr) \<and>
             (cn_protocol (rl_conn r p) = DATA_PLANE_SUBPROTOCOL_V2 \<longrightarrow> ready_frame \<notin> set rest)) \<or>
          conn_closed r p \<and> ws_sent (conn_socket r p) = [])"

definition deliver_ok :: "relay_event list \<Rightarrow> relay \<Rightarrow> bool" where
  "deliver_ok tr r \<longleftrightarrow> (\<forall>c \<ge> rl_conns r. received c tr = []) \<and> (\<forall>p < rl_conns r. served tr r p)"

text \<open>What sends nothing and links nobody: old connections stay what they are, new ones start empty.\<close>

definition mute :: "relay \<Rightarrow> relay \<Rightarrow> bool" where
  "mute r' r \<longleftrightarrow> rl_conns r \<le> rl_conns r' \<and>
     (\<forall>c < rl_conns r. same_conn (rl_conn r' c) (rl_conn r c) \<and> ws_sent (conn_socket r' c) = ws_sent (conn_socket r c) \<and>
        (conn_closed r c \<longrightarrow> conn_closed r' c)) \<and>
     (\<forall>c < rl_conns r'. rl_conns r \<le> c \<longrightarrow> cn_peer (rl_conn r' c) = None \<and> ws_sent (conn_socket r' c) = [])"

lemma mute_trans:
  assumes "mute r'' r'" and "mute r' r"
  shows "mute r'' r"
proof -
  have n: "rl_conns r \<le> rl_conns r'" "rl_conns r' \<le> rl_conns r''" using assms by (auto simp: mute_def)
  have "cn_peer (rl_conn r'' c) = None \<and> ws_sent (conn_socket r'' c) = []" if "c < rl_conns r''" "rl_conns r \<le> c" for c
  proof (cases "c < rl_conns r'")
    case True
    with assms that have "same_conn (rl_conn r'' c) (rl_conn r' c)" "ws_sent (conn_socket r'' c) = ws_sent (conn_socket r' c)"
      "cn_peer (rl_conn r' c) = None" "ws_sent (conn_socket r' c) = []" by (auto simp: mute_def)
    then show ?thesis using same_conn_fields by metis
  qed (use assms that in \<open>auto simp: mute_def\<close>)
  moreover have "same_conn (rl_conn r'' c) (rl_conn r c) \<and> ws_sent (conn_socket r'' c) = ws_sent (conn_socket r c) \<and>
      (conn_closed r c \<longrightarrow> conn_closed r'' c)" if c: "c < rl_conns r" for c
  proof -
    from assms(2) c have 1: "same_conn (rl_conn r' c) (rl_conn r c)" "ws_sent (conn_socket r' c) = ws_sent (conn_socket r c)"
      "conn_closed r c \<longrightarrow> conn_closed r' c" unfolding mute_def by blast+
    from assms(1) c n(1) have 2: "same_conn (rl_conn r'' c) (rl_conn r' c)" "ws_sent (conn_socket r'' c) = ws_sent (conn_socket r' c)"
      "conn_closed r' c \<longrightarrow> conn_closed r'' c" unfolding mute_def by (meson less_le_trans)+
    show ?thesis using 1 2 same_conn_trans [OF 2(1) 1(1)] by simp
  qed
  ultimately show ?thesis using n by (auto simp: mute_def)
qed

lemma mute_fields:
  assumes "rl_conns r' = rl_conns r" and "\<And>c. same_conn (rl_conn r' c) (rl_conn r c)"
    and "\<And>k. ws_sent (rl_socket r' k) = ws_sent (rl_socket r k)"
    and "\<And>e. en_closed (rl_entry r e) \<Longrightarrow> en_closed (rl_entry r' e)"
  shows "mute r' r"
proof -
  have "cn_socket (rl_conn r' c) = cn_socket (rl_conn r c)" "cn_entry (rl_conn r' c) = cn_entry (rl_conn r c)" for c
    using same_conn_fields [OF assms(2)] by blast+
  then show ?thesis
    unfolding mute_def conn_closed_def assms(1) using assms(2-4) by (metis leD order_refl)
qed

lemma mute_simps [simp]:
  "mute r r" "mute (take_task i r) r" "mute (add_task t r) r" "mute (closeEntry e code reason r) r"
  "mute (pair_settled e r) r" "mute (clearPeerTimer c r) r" "mute (clearStateTimers c r) r" "mute (resetIdleTimer c r) r"
  "mute (set_closed k r) r" "mute (rejectUpgrade b n m r) r" "mute (r\<lparr>rl_subscribed := b\<rparr>) r" "mute (r\<lparr>rl_pairs := ps\<rparr>) r"
  "mute (upd_entry e (set_slot role o1) r) r" "mute (upd_entry e (\<lambda>x. x\<lparr>en_closed := True\<rparr>) r) r"
  "mute (upd_entry e (\<lambda>x. x\<lparr>en_activating := b\<rparr>) r) r" "mute (upd_entry e (\<lambda>x. x\<lparr>en_active := b\<rparr>) r) r"
  "mute (stop_terminated r) r" "mute (relay_stop r) r" "mute (r\<lparr>rl_revalidation := v\<rparr>) r"
  "mute (r\<lparr>rl_revalidationPending := b\<rparr>) r" "mute (revalidation_failed r) r" "mute (upd_conn c (\<lambda>x. x\<lparr>cn_idleTimer := b\<rparr>) r) r"
  "mute (closeSocket k code reason r) r"
  using closeEntry_weak [of e code reason r] same_relay_simps(2-4) [of _ r]
  by (auto intro!: mute_fields simp: rejectUpgrade_def set_closed_def stop_terminated_def terminate_def relay_stop_def
      revalidation_failed_def same_relay_def same_conn_def closeSocket_shut pair_settled_def
      clearPeerTimer_def clearStateTimers_def resetIdleTimer_def)
lemma mute_resetIdleTimers [simp]: "mute (resetIdleTimers e r) r"
  using same_relay_resetIdleTimers [of e r]
  by (intro mute_fields) (auto simp: same_relay_def resetIdleTimers_def Let_def resetIdleTimer_def split: option.splits)

lemma mute_next_pair [simp]: "mute (next_pair es r) r"
  by (auto simp: next_pair_def split: list.splits option.splits)

lemma mute_revalidation [simp]:
  "mute (scheduleRevalidation r) r" "mute (revalidation_finally r) r" "mute (check_answered e cc wc ca wa rest r) r"
proof -
  show s: "mute (scheduleRevalidation r) r" for r by (simp add: scheduleRevalidation_def revalidatePairs_def)
  have "mute (r\<lparr>rl_revalidation := NoRound, rl_revalidationPending := False\<rparr>) r"
    by (intro mute_fields) simp_all
  then show "mute (revalidation_finally r) r"
    unfolding revalidation_finally_def Let_def using mute_trans [OF s] by simp
  show "mute (check_answered e cc wc ca wa rest r) r"
    using mute_trans [OF mute_next_pair mute_simps(4)]
    by (auto simp: check_answered_def pair_checked_def split: option.splits sum.splits)
qed

lemma mute_pair_failed [simp]: "mute (pair_failed e r) r"
  unfolding pair_failed_def using mute_trans [OF mute_simps(5) mute_simps(4)] .

lemma mute_handlers [simp]:
  "mute (handleUpgrade parse_url destroyed url header r) r"
  "mute (upgrade_client_answered destroyed protocol grant a r) r"
  "mute (upgrade_worker_answered destroyed protocol grant a r) r"
  "mute (onSendFailed c reason r) r" "mute (onSocketError c r) r" "mute (peerTimerFired c r) r" "mute (idleTimerFired c r) r"
  "mute (handleSocketClose c r) r" "mute (stop_drained r) r"
proof -
  show "mute (handleUpgrade parse_url destroyed url header r) r"
    "mute (upgrade_client_answered destroyed protocol grant a r) r"
    "mute (upgrade_worker_answered destroyed protocol grant a r) r"
    by (auto simp: handleUpgrade_def upgrade_client_answered_def upgrade_worker_answered_def split: option.splits sum.splits)
  show "mute (onSendFailed c reason r) r" "mute (onSocketError c r) r"
    by (simp_all add: onSendFailed_def onSocketError_def)
  show "mute (peerTimerFired c r) r" "mute (idleTimerFired c r) r"
    using mute_trans [OF mute_simps(4) mute_simps(6)] mute_trans [OF mute_simps(4) mute_simps(22)]
    by (auto simp: peerTimerFired_def idleTimerFired_def Let_def)
  show "mute (handleSocketClose c r) r"
    unfolding handleSocketClose_def Let_def
    by (auto split: option.splits intro!: mute_trans [OF mute_simps(4)] mute_trans [OF mute_simps(12)]
        mute_trans [OF mute_simps(14)] mute_trans [OF mute_simps(13)])
  have "mute (close_entries es r) r" for es r
  proof (induction es arbitrary: r)
    case (Cons e es)
    from mute_trans [OF Cons.IH mute_simps(4)] show ?case by (simp add: close_entries_def)
  qed (simp add: close_entries_def)
  then show "mute (stop_drained r) r" unfolding stop_drained_def using mute_trans [OF mute_simps(3)] by blast
qed

lemma mute_accepted:
  assumes ok: "relay_ok r"
  shows "mute (upgrade_accepted destroyed protocol grant auth r) r"
proof (cases "rl_closed r \<or> destroyed")
  case False
  let ?k = "rl_sockets r"
  have o: "mute (open_socket r) r"
    using connD(1) [OF ok] by (fastforce simp: mute_def conn_closed_def)
  obtain e r1 where l: "lookup_entry (fst auth) (open_socket r) = (e, r1)" by fastforce
  have r1: "mute r1 (open_socket r)" "ws_sent (rl_socket r1 ?k) = []"
  proof -
    from lookup_entry_ok [OF open_socket_ok [OF ok] _ l] False
    have f: "rl_socket r1 = rl_socket (open_socket r)" "rl_conn r1 = rl_conn (open_socket r)" "rl_conns r1 = rl_conns (open_socket r)"
      "\<And>x. x < rl_entries r \<Longrightarrow> rl_entry r1 x = rl_entry r x" by (auto simp del: open_socket_fields(9))
    show "mute r1 (open_socket r)"
      using f(4) connD(2) [OF ok] by (auto simp: mute_def conn_closed_def f(1-3))
    show "ws_sent (rl_socket r1 ?k) = []" by (simp add: f)
  qed
  have t: "mute (tryPair e x) x" for e x
    by (auto simp: tryPair_def Let_def split: option.splits intro: mute_trans [OF mute_simps(3)])
  have n: "mute (r1\<lparr>rl_conn := (rl_conn r1)(rl_conns r1 := new_conn ?k grant protocol claims e), rl_conns := Suc (rl_conns r1)\<rparr>) r1" for claims
    using r1(2) by (auto simp: mute_def conn_closed_def new_conn_def less_Suc_eq)
  have "mute (acceptConnection ?k grant (fst auth) protocol (open_socket r)) r1"
    using l mute_trans [OF t mute_trans [OF mute_simps(13) n]] by (auto simp: acceptConnection_def join_entry_def)
  then show ?thesis
    using False mute_trans [OF _ mute_trans [OF r1(1) o]] by (simp add: upgrade_accepted_def)
qed (auto simp: upgrade_accepted_def)

subsection \<open>One connection served\<close>

lemma served_mute:
  assumes s: "served tr r p" and p: "p < rl_conns r" and m: "mute r' r"
  shows "served tr r' p"
proof -
  from m p have c: "same_conn (rl_conn r' p) (rl_conn r p)" "ws_sent (conn_socket r' p) = ws_sent (conn_socket r p)"
    "conn_closed r p \<longrightarrow> conn_closed r' p" unfolding mute_def by blast+
  have f: "cn_peer (rl_conn r' p) = cn_peer (rl_conn r p)" "cn_protocol (rl_conn r' p) = cn_protocol (rl_conn r p)"
    using same_conn_fields [OF c(1)] by simp_all
  then have "greeting (rl_conn r' p) = greeting (rl_conn r p)" by (simp add: greeting_def)
  then show ?thesis
    using s c(3) unfolding served_def f c(2) by (cases "cn_peer (rl_conn r p)") (simp_all only: option.case, blast+)
qed

lemma deliver_mute:
  assumes d: "deliver_ok tr r" and m: "mute r' r"
  shows "deliver_ok tr r'"
  unfolding deliver_ok_def
proof (intro conjI allI impI)
  have n: "rl_conns r \<le> rl_conns r'" using m by (simp add: mute_def)
  fix c assume "rl_conns r' \<le> c"
  with d n show "received c tr = []" by (simp add: deliver_ok_def)
next
  fix p assume p: "p < rl_conns r'"
  show "served tr r' p"
  proof (cases "p < rl_conns r")
    case True
    then show ?thesis using d m by (intro served_mute [OF _ _ m]) (simp_all add: deliver_ok_def)
  next
    case False
    with m p d have "cn_peer (rl_conn r' p) = None" "ws_sent (conn_socket r' p) = []" "received p tr = []"
      by (auto simp: mute_def deliver_ok_def)
    then show ?thesis by (simp add: served_def)
  qed
qed

text \<open>A frame that is not passed on closes the entry of the connection it came from.\<close>

lemma deliver_closed:
  assumes d: "deliver_ok tr r" and ok: "relay_ok r" and c: "c < rl_conns r" and cl: "conn_closed r c"
  shows "deliver_ok (tr @ [Received c f]) r"
  unfolding deliver_ok_def
proof (intro conjI allI impI)
  fix x assume "rl_conns r \<le> x"
  with d c show "received x (tr @ [Received c f]) = []" by (simp add: deliver_ok_def)
next
  fix p assume p: "p < rl_conns r"
  have s: "served tr r p" using d p by (simp add: deliver_ok_def)
  show "served (tr @ [Received c f]) r p"
  proof (cases "cn_peer (rl_conn r p)")
    case None
    then show ?thesis using s cl by (cases "p = c") (auto simp: served_def)
  next
    case (Some q)
    show ?thesis
    proof (cases "q = c")
      case True
      with peerD(2) [OF ok p Some] cl have "conn_closed r p" by (simp add: conn_closed_def)
      with s Some True show ?thesis by (auto simp: served_def intro: list_emb_append2)
    next
      case False
      with s Some show ?thesis by (simp add: served_def)
    qed
  qed
qed

text \<open>What the readiness loop sends to one connection: the greeting, unless the entry was closed.\<close>

lemma send_ready_pair:
  assumes "cn_socket (rl_conn x c) \<noteq> cn_socket (rl_conn x w)" and "ws_sent (conn_socket x c) = []" and "ws_sent (conn_socket x w) = []"
  shows "(ws_sent (conn_socket (send_ready e [c, w] x) c) = greeting (rl_conn x c) \<or>
      en_closed (rl_entry (send_ready e [c, w] x) e) \<and> ws_sent (conn_socket (send_ready e [c, w] x) c) = [])"
    and "(ws_sent (conn_socket (send_ready e [c, w] x) w) = greeting (rl_conn x w) \<or>
      en_closed (rl_entry (send_ready e [c, w] x) e) \<and> ws_sent (conn_socket (send_ready e [c, w] x) w) = [])"
  using assms by (auto simp: push_frame_def greeting_def)

lemma send_ready_others:
  "rl_conns (send_ready e cs x) = rl_conns x \<and> same_conn (rl_conn (send_ready e cs x) p) (rl_conn x p) \<and>
   (en_closed (rl_entry x a) \<longrightarrow> en_closed (rl_entry (send_ready e cs x) a)) \<and>
   (k \<notin> (\<lambda>c. cn_socket (rl_conn x c)) ` set cs \<longrightarrow> ws_sent (rl_socket (send_ready e cs x) k) = ws_sent (rl_socket x k))"
proof (induction e cs x rule: send_ready.induct)
  case (2 e c cs r)
  have m: "rl_conn (push_frame n f r) = rl_conn r" "rl_conns (push_frame n f r) = rl_conns r" "rl_entry (push_frame n f r) = rl_entry r"
    "ws_sent (rl_socket (push_frame n f r) k) = (if k = n then ws_sent (rl_socket r n) @ [f] else ws_sent (rl_socket r k))" for n f
    by (simp_all add: push_frame_def)
  show ?case
  proof (cases "cn_protocol (rl_conn r c) = DATA_PLANE_SUBPROTOCOL_V2 \<and> ws_ready (conn_socket r c) \<noteq> WsOpen")
    case True
    then show ?thesis using closeEntry_weak [of e TRY_AGAIN_LATER "''relay peer unavailable''" r p] by simp
  next
    case False
    then show ?thesis using 2 m by auto
  qed
qed simp

lemma deliver_activated:
  assumes pr: "pairing e r" and d: "deliver_ok tr r"
  shows "deliver_ok tr (pair_activated e r)"
proof (cases "en_closed (rl_entry r e)")
  case True
  then show ?thesis using deliver_mute [OF d] by (simp add: pair_activated_def)
next
  case False
  with pr obtain c w where cw: "en_client (rl_entry r e) = Some c" "en_worker (rl_entry r e) = Some w"
    by (auto simp: pairing_def filled_def)
  have ok: "relay_ok (pair_settled e r)" and e: "e < rl_entries (pair_settled e r)" and na: "\<not> en_active (rl_entry r e)"
    using pr by (simp_all add: pairing_def)
  have cD: "c < rl_conns r" "cn_entry (rl_conn r c) = e" "cn_role (rl_conn r c) = ''client''"
    using clientD(1-3) [OF ok e, of c] cw by simp_all
  have wD: "w < rl_conns r" "cn_entry (rl_conn r w) = e" "cn_role (rl_conn r w) = ''worker''"
    using workerD(1-3) [OF ok e, of w] cw by simp_all
  have ne: "c \<noteq> w" using cD(3) wD(3) by auto
  have peer: "cn_peer (rl_conn r x) = None" if "x < rl_conns r" "cn_entry (rl_conn r x) = e" for x
    using peerD(5) [OF ok, of x] that na by (cases "cn_peer (rl_conn r x)") auto
  have quiet: "ws_sent (conn_socket r x) = [] \<and> received x tr = []" if "x < rl_conns r" "cn_entry (rl_conn r x) = e" for x
    using d that peer [OF that] False by (auto simp: deliver_ok_def served_def conn_closed_def)
  have inj: "cn_socket (rl_conn r a) = cn_socket (rl_conn r b) \<longleftrightarrow> a = b" if "a < rl_conns r" "b < rl_conns r" for a b
    using socket_inj [OF ok] that by simp
  define x where "x = resetIdleTimers e (clearPeerTimer w (clearPeerTimer c (link_peers c w (upd_entry e (\<lambda>x. x\<lparr>en_active := True\<rparr>) r))))"
  define y where "y = pair_settled e (send_ready e [c, w] x)"
  have eq: "pair_activated e r = y"
    using False cw by (simp add: pair_activated_def Let_def x_def y_def del: send_ready.simps)
  have xs: "same_relay x (link_peers c w (upd_entry e (\<lambda>x. x\<lparr>en_active := True\<rparr>) r))"
    unfolding x_def using same_relay_trans same_relay_simps(2) same_relay_resetIdleTimers by blast
  have xsent: "ws_sent (rl_socket x k) = ws_sent (rl_socket r k)" for k
    by (simp add: x_def resetIdleTimers_def Let_def resetIdleTimer_def clearPeerTimer_def link_peers_def split: option.split)
  have xf: "rl_conns x = rl_conns r" "en_closed (rl_entry x a) = en_closed (rl_entry r a)"
    "cn_socket (rl_conn x b) = cn_socket (rl_conn r b)" "cn_entry (rl_conn x b) = cn_entry (rl_conn r b)"
    "cn_protocol (rl_conn x b) = cn_protocol (rl_conn r b)"
    "cn_peer (rl_conn x b) = (if b = c then Some w else if b = w then Some c else cn_peer (rl_conn r b))" for a b
  proof -
    have "same_conn (rl_conn x b) (rl_conn (link_peers c w (upd_entry e (\<lambda>x. x\<lparr>en_active := True\<rparr>) r)) b)"
      using xs by (simp add: same_relay_def)
    from same_conn_fields [OF this] show "cn_socket (rl_conn x b) = cn_socket (rl_conn r b)"
      "cn_entry (rl_conn x b) = cn_entry (rl_conn r b)" "cn_protocol (rl_conn x b) = cn_protocol (rl_conn r b)"
      "cn_peer (rl_conn x b) = (if b = c then Some w else if b = w then Some c else cn_peer (rl_conn r b))"
      using ne by (auto simp: link_peers_def)
    show "rl_conns x = rl_conns r" "en_closed (rl_entry x a) = en_closed (rl_entry r a)"
      using xs by (auto simp: same_relay_def link_peers_def)
  qed
  note o = send_ready_others [of e "[c, w]" x]
  have yf: "rl_conns y = rl_conns r" "cn_socket (rl_conn y b) = cn_socket (rl_conn r b)" "cn_entry (rl_conn y b) = cn_entry (rl_conn r b)"
    "cn_protocol (rl_conn y b) = cn_protocol (rl_conn r b)" "cn_peer (rl_conn y b) = cn_peer (rl_conn x b)"
    "en_closed (rl_entry r a) \<Longrightarrow> en_closed (rl_entry y a)" for a b
    using o [of b a] same_conn_fields [OF o [THEN conjunct2, THEN conjunct1, of b]] by (simp_all add: y_def xf del: send_ready.simps)
  have g: "greeting (rl_conn y b) = greeting (rl_conn x b)" for b unfolding greeting_def yf(4) xf(5) ..
  have sock: "conn_socket y b = rl_socket (send_ready e [c, w] x) (cn_socket (rl_conn x b))" for b
    unfolding yf(2) xf(3) by (simp add: y_def del: send_ready.simps)
  have sc: "conn_socket (send_ready e [c, w] x) b = conn_socket y b" for b
    by (simp add: y_def del: send_ready.simps)
  have yc: "en_closed (rl_entry (send_ready e [c, w] x) e) = en_closed (rl_entry y e)"
    by (simp add: y_def del: send_ready.simps)
  note pair = send_ready_pair [of x c w e, unfolded sc]
  show ?thesis
    unfolding eq deliver_ok_def yf(1)
  proof (intro conjI allI impI)
    fix p assume "rl_conns r \<le> p"
    then show "received p tr = []" using d by (simp add: deliver_ok_def)
  next
    fix p assume p: "p < rl_conns r"
    have ends: "cn_socket (rl_conn x c) \<noteq> cn_socket (rl_conn x w)" "ws_sent (conn_socket x c) = []" "ws_sent (conn_socket x w) = []"
      using inj [OF cD(1) wD(1)] ne quiet cD wD by (simp_all add: xf xsent)
    show "served tr y p"
    proof (cases "p = c \<or> p = w")
      case True
      with cD wD have pe: "cn_entry (rl_conn y p) = e" by (auto simp: yf(3) simp del: send_ready.simps)
      define q where "q = (if p = c then w else c)"
      have q: "cn_peer (rl_conn y p) = Some q" "received q tr = []"
        using True quiet cD wD ne by (auto simp: yf(5) xf(6) q_def simp del: send_ready.simps)
      have "ws_sent (conn_socket y p) = greeting (rl_conn y p) \<or> en_closed (rl_entry y e) \<and> ws_sent (conn_socket y p) = []"
        using True pair [OF ends] yc unfolding g by (auto simp del: send_ready.simps)
      with q pe show ?thesis by (auto simp: served_def conn_closed_def simp del: send_ready.simps)
    next
      case False
      then have "cn_socket (rl_conn x p) \<notin> (\<lambda>a. cn_socket (rl_conn x a)) ` set [c, w]"
        using inj [OF p cD(1)] inj [OF p wD(1)] by (auto simp: xf)
      then have s: "ws_sent (conn_socket y p) = ws_sent (conn_socket r p)"
        unfolding sock using o [of p e "cn_socket (rl_conn x p)"] by (simp add: xsent xf del: send_ready.simps)
      have pp: "cn_peer (rl_conn y p) = cn_peer (rl_conn r p)" using False by (simp add: yf(5) xf(6) del: send_ready.simps)
      have gr: "greeting (rl_conn y p) = greeting (rl_conn r p)" unfolding g by (simp add: greeting_def xf)
      have cc: "conn_closed r p \<Longrightarrow> conn_closed y p" unfolding conn_closed_def yf(3) by (rule yf(6))
      have "served tr r p" using d p by (simp add: deliver_ok_def)
      then show ?thesis
        using cc unfolding served_def s pp gr yf(4) by (cases "cn_peer (rl_conn r p)") (simp_all only: option.case, blast+)
    qed
  qed
qed

text \<open>A frame that arrives is passed to the peer, or the entry is closed.\<close>

lemma onMessage_cases:
  assumes "0 \<le> buffered" and "buffered \<le> max_safe_integer"
  obtains (closed) code reason where "onMessage c f buffered r = closeEntry (cn_entry (rl_conn r c)) code reason r"
  | (passed) p where "cn_peer (rl_conn r c) = Some p" and "ws_ready (conn_socket r p) = WsOpen"
      and "\<not> (cn_protocol (rl_conn r p) = DATA_PLANE_SUBPROTOCOL_V2 \<and> f = ready_frame)"
      and "int (length (fst f)) \<le> DATA_PLANE_MAX_FRAME_BYTES" and "buffered \<le> DATA_PLANE_MAX_BUFFERED_BYTES"
      and "onMessage c f buffered r = push_frame (cn_socket (rl_conn r p)) f (resetIdleTimers (cn_entry (rl_conn r c)) r)"
proof (cases "\<exists>code reason. onMessage c f buffered r = closeEntry (cn_entry (rl_conn r c)) code reason r")
  case False
  from False obtain p where p: "cn_peer (rl_conn r c) = Some p"
    by (cases "cn_peer (rl_conn r c)") (auto simp: onMessage_def Let_def)
  have "ws_ready (conn_socket r p) = WsOpen" "\<not> (\<not> snd f \<and> cn_protocol (rl_conn r p) = DATA_PLANE_SUBPROTOCOL_V2 \<and> fst f = DATA_PLANE_RELAY_READY_V2)"
    "validateDataPlaneFrameSize (int (length (fst f))) = Inr True" "en_active (rl_entry r (cn_entry (rl_conn r c)))"
    using False p by (auto simp: onMessage_def Let_def split: if_splits)
  note conds = this
  have b: "isDataPlaneBackpressured buffered = Inr (buffered > DATA_PLANE_MAX_BUFFERED_BYTES)"
    using assms by (simp add: isDataPlaneBackpressured_def)
  have nb: "\<not> buffered > DATA_PLANE_MAX_BUFFERED_BYTES"
  proof
    assume "buffered > DATA_PLANE_MAX_BUFFERED_BYTES"
    with p conds b have "onMessage c f buffered r =
        closeEntry (cn_entry (rl_conn r c)) TRY_AGAIN_LATER ''relay backpressure limit exceeded'' r"
      by (auto simp: onMessage_def Let_def)
    with False show False by blast
  qed
  show ?thesis
  proof (rule passed [OF p])
    show "\<not> (cn_protocol (rl_conn r p) = DATA_PLANE_SUBPROTOCOL_V2 \<and> f = ready_frame)"
      using conds(2) by (auto simp: ready_frame_def)
    show "int (length (fst f)) \<le> DATA_PLANE_MAX_FRAME_BYTES"
      using conds(3) by (auto simp: validateDataPlaneFrameSize_def split: if_splits)
    show "onMessage c f buffered r = push_frame (cn_socket (rl_conn r p)) f (resetIdleTimers (cn_entry (rl_conn r c)) r)"
      using p conds b nb by (auto simp: onMessage_def Let_def)
  qed (use conds nb in auto)
qed (use closed in blast)

lemma deliver_passed:
  assumes d: "deliver_ok tr r" and ok: "relay_ok r" and c: "c < rl_conns r" and p: "cn_peer (rl_conn r c) = Some p"
    and w: "ws_ready (conn_socket r p) = WsOpen"
    and f: "\<not> (cn_protocol (rl_conn r p) = DATA_PLANE_SUBPROTOCOL_V2 \<and> f = ready_frame)"
  shows "deliver_ok (tr @ [Received c f]) (push_frame (cn_socket (rl_conn r p)) f r)"
proof -
  note pD = peerD [OF ok c p]
  let ?r = "push_frame (cn_socket (rl_conn r p)) f r"
  have rf: "rl_conns ?r = rl_conns r" "rl_conn ?r = rl_conn r" "rl_entry ?r = rl_entry r" by (simp_all add: push_frame_def)
  have cl: "conn_closed ?r x = conn_closed r x" for x by (simp add: conn_closed_def rf)
  have sent: "ws_sent (rl_socket ?r (cn_socket (rl_conn r x))) = (if x = p then ws_sent (conn_socket r x) @ [f] else ws_sent (conn_socket r x))" if "x < rl_conns r" for x
    using socket_inj [OF ok that pD(1)] by (simp add: push_frame_def)
  have open_p: "\<not> conn_closed r p" using connD(6) [OF ok pD(1)] w by (auto simp: conn_closed_def)
  show ?thesis
    unfolding deliver_ok_def rf
  proof (intro conjI allI impI)
    fix x assume "rl_conns r \<le> x"
    with d c show "received x (tr @ [Received c f]) = []" by (simp add: deliver_ok_def)
  next
    fix x assume x: "x < rl_conns r"
    have s: "served tr r x" using d x by (simp add: deliver_ok_def)
    show "served (tr @ [Received c f]) ?r x"
    proof (cases "x = p")
      case True
      from s True pD(4) open_p have "ws_sent (conn_socket r p) = greeting (rl_conn r p) @ received c tr"
        "cn_protocol (rl_conn r p) = DATA_PLANE_SUBPROTOCOL_V2 \<longrightarrow> ready_frame \<notin> set (received c tr)"
        by (auto simp: served_def)
      then show ?thesis using True pD(1,4) f by (auto simp: served_def rf cl sent)
    next
      case False
      show ?thesis
      proof (cases "cn_peer (rl_conn r x)")
        case None
        with p have "x \<noteq> c" by auto
        with s None False x show ?thesis by (simp add: served_def rf cl sent)
      next
        case (Some q)
        have "q \<noteq> c" using peerD(4) [OF ok x Some] p False by auto
        with s Some False x show ?thesis by (simp add: served_def rf cl sent)
      qed
    qed
  qed
qed

lemma deliver_step:
  assumes st: "relay_step lc num env a (d, r) (d', r')" and ok: "relay_ok r" and dl: "deliver_ok tr r"
  shows "deliver_ok (tr @ [a]) r'"
proof -
  have I: "deliver_ok (tr @ [Internal]) x" if "deliver_ok tr x" for x
    using that by (simp add: deliver_ok_def served_def cong: option.case_cong)
  have M: "deliver_ok (tr @ [Internal]) x" if "mute x r" for x
    using I deliver_mute [OF dl that] by blast
  have T: "deliver_ok (tr @ [Internal]) x" if "mute x (take_task i r)" for x i
    using M mute_trans [OF that] by simp
  have P: "deliver_ok (tr @ [Internal]) (pair_activated e (take_task i r))" if "pairing e (take_task i r)" for e i
    using I deliver_activated [OF that] deliver_mute [OF dl] by simp
  from st show ?thesis
  proof cases
    case (upgrade_accept i protocol grant auth destroyed)
    have "relay_ok (take_task i r)" using upgrade_accept by (intro take_other_task_ok [OF ok]) auto
    then show ?thesis using upgrade_accept T [OF mute_accepted] by simp
  next
    case (pair_client i e cg wg wa t t')
    have p: "pairing e (take_task i r)" using take_pair_task [OF ok] pair_client by auto
    have "pair_answered e cg wg ca wa (take_task i r) = pair_activated e (take_task i r) \<or>
        mute (pair_answered e cg wg ca wa (take_task i r)) (take_task i r)" for ca wa
      using mute_trans [OF mute_simps(5) mute_simps(4)]
      by (auto simp: pair_answered_def split: option.splits sum.splits)
    then show ?thesis using pair_client T P [OF p] by (metis (no_types))
  next
    case (pair_worker i e cg wg ca t t')
    have p: "pairing e (take_task i r)" using take_pair_task [OF ok] pair_worker by auto
    have "pair_answered e cg wg ca wa (take_task i r) = pair_activated e (take_task i r) \<or>
        mute (pair_answered e cg wg ca wa (take_task i r)) (take_task i r)" for ca wa
      using mute_trans [OF mute_simps(5) mute_simps(4)]
      by (auto simp: pair_answered_def split: option.splits sum.splits)
    then show ?thesis using pair_worker T P [OF p] by (metis (no_types))
  next
    case (activate i e now outcome)
    then show ?thesis using T [of "add_task (PairActivated e outcome) (take_task i r)" i] by simp
  next
    case (activated i e outcome)
    have p: "pairing e (take_task i r)" using take_pair_task [OF ok] activated by auto
    then show ?thesis using activated P [OF p] T [OF mute_pair_failed] by (simp add: pair_activation_answered_def split: sum.splits)
  next
    case (message c buffered f)
    then have c: "c < rl_conns r" by (simp add: open_conn_def)
    have e: "cn_entry (rl_conn r c) < rl_entries r" using connD(2) [OF ok c] .
    have b: "0 \<le> buffered" "buffered \<le> max_safe_integer" using message by simp_all
    show ?thesis
    proof (rule onMessage_cases [OF b, of c f r])
      fix code reason assume x: "onMessage c f buffered r = closeEntry (cn_entry (rl_conn r c)) code reason r"
      have "deliver_ok (tr @ [Received c f]) (closeEntry (cn_entry (rl_conn r c)) code reason r)"
        using c by (intro deliver_closed deliver_mute [OF dl] closeEntry_ok [OF ok e]) (simp_all add: conn_closed_def)
      with x message show ?thesis by simp
    next
      fix p assume x: "cn_peer (rl_conn r c) = Some p" "ws_ready (conn_socket r p) = WsOpen"
        "\<not> (cn_protocol (rl_conn r p) = DATA_PLANE_SUBPROTOCOL_V2 \<and> f = ready_frame)"
        "onMessage c f buffered r = push_frame (cn_socket (rl_conn r p)) f (resetIdleTimers (cn_entry (rl_conn r c)) r)"
      let ?x = "resetIdleTimers (cn_entry (rl_conn r c)) r"
      have same: "same_relay ?x r" by simp
      have sf: "cn_socket (rl_conn ?x b) = cn_socket (rl_conn r b)" "cn_protocol (rl_conn ?x b) = cn_protocol (rl_conn r b)"
        "cn_peer (rl_conn ?x b) = cn_peer (rl_conn r b)" "ws_ready (rl_socket ?x k) = ws_ready (rl_socket r k)"
        "rl_conns ?x = rl_conns r" for b k
        using same same_conn_fields unfolding same_relay_def by blast+
      have "deliver_ok (tr @ [Received c f]) (push_frame (cn_socket (rl_conn ?x p)) f ?x)"
        using x c by (intro deliver_passed [where p = p] deliver_mute [OF dl] same_relayI [OF ok same]) (simp_all add: sf)
      with x message show ?thesis by (simp add: sf)
    qed
  next
    case (upgrade_client i protocol grant destroyed t t')
    then show ?thesis using T [of _ i] by simp
  next
    case (upgrade_worker i protocol grant destroyed t t')
    then show ?thesis using T [of _ i] by simp
  next
    case (socket_close c)
    then show ?thesis using M mute_trans [OF mute_handlers(8) mute_simps(9)] by simp
  next
    case (stop_drain i)
    then show ?thesis using T [of _ i] by simp
  next
    case (stop_terminate i)
    then show ?thesis using T [of _ i] by simp
  next
    case started
    then show ?thesis using M by (auto simp: relay_start_def split: if_splits)
  qed (simp_all add: M)
qed

lemma relay_run_deliver:
  "relay_run lc num env tr s s' \<Longrightarrow> relay_inv (snd s) \<Longrightarrow> deliver_ok [] (snd s) \<Longrightarrow> relay_inv (snd s') \<and> deliver_ok tr (snd s')"
proof (induction rule: relay_run.induct)
  case (more tr s s' a s'')
  then have "relay_inv (snd s')" "deliver_ok tr (snd s')" by blast+
  with more.hyps(2) show ?case using deliver_step relay_step_ok by (metis prod.collapse relay_inv_def)
qed simp

lemma relay_init_deliver: "deliver_ok [] relay_init"
  by (simp add: deliver_ok_def relay_init_def)

lemma relay_reachable_deliver: "relay_reachable lc num env tr d r \<Longrightarrow> deliver_ok tr r"
  using relay_run_deliver [of lc num env tr "(empty_db, relay_init)" "(d, r)"] relay_init_inv relay_init_deliver by simp

end
