(* ===== verification/RelayAuthority.thy ===== *)
theory RelayAuthority
  imports RelaySafety
begin

text \<open>
  On whose authority a pair is linked: \<open>authority_ok\<close> says that the answers a pairing waits with were
  given by the service on an earlier database, and that a linked pair had both grants accepted for
  one allocation and its session active under that lease.
\<close>

section \<open>What stays\<close>

definition allocation_of :: "pair_entry \<Rightarrow> string \<times> string \<times> string" where
  "allocation_of en = (en_sessionId en, en_workerId en, en_leaseId en)"

text \<open>
  Old entries keep their allocation, and their filled slots unless they are closed; old connections
  keep their grant, role and entry. In a step that is \<open>still\<close> moreover nobody gets a peer.
\<close>

definition lasting :: "relay \<Rightarrow> relay \<Rightarrow> bool" where
  "lasting r' r \<longleftrightarrow> rl_conns r \<le> rl_conns r' \<and> rl_entries r \<le> rl_entries r' \<and>
     (\<forall>c < rl_conns r. cn_grant (rl_conn r' c) = cn_grant (rl_conn r c) \<and> cn_role (rl_conn r' c) = cn_role (rl_conn r c) \<and>
        cn_entry (rl_conn r' c) = cn_entry (rl_conn r c)) \<and>
     (\<forall>e < rl_entries r. allocation_of (rl_entry r' e) = allocation_of (rl_entry r e) \<and>
        (en_closed (rl_entry r e) \<longrightarrow> en_closed (rl_entry r' e)) \<and>
        (\<forall>role c. slot role (rl_entry r e) = Some c \<longrightarrow> en_closed (rl_entry r' e) \<or> slot role (rl_entry r' e) = Some c))"

definition still :: "relay \<Rightarrow> relay \<Rightarrow> bool" where
  "still r' r \<longleftrightarrow> lasting r' r \<and>
     (\<forall>c < rl_conns r'. cn_peer (rl_conn r' c) \<noteq> None \<longrightarrow> c < rl_conns r \<and> cn_peer (rl_conn r c) \<noteq> None)"

lemma lasting_trans:
  assumes a: "lasting r'' r'" and b: "lasting r' r"
  shows "lasting r'' r"
proof -
  have n: "rl_conns r \<le> rl_conns r'" "rl_conns r' \<le> rl_conns r''" "rl_entries r \<le> rl_entries r'" "rl_entries r' \<le> rl_entries r''"
    using a b by (simp_all add: lasting_def)
  have "cn_grant (rl_conn r'' c) = cn_grant (rl_conn r c) \<and> cn_role (rl_conn r'' c) = cn_role (rl_conn r c) \<and>
      cn_entry (rl_conn r'' c) = cn_entry (rl_conn r c)" if c: "c < rl_conns r" for c
    using a b c n unfolding lasting_def by (metis less_le_trans)
  moreover have "allocation_of (rl_entry r'' e) = allocation_of (rl_entry r e) \<and>
        (en_closed (rl_entry r e) \<longrightarrow> en_closed (rl_entry r'' e)) \<and>
        (\<forall>role c. slot role (rl_entry r e) = Some c \<longrightarrow> en_closed (rl_entry r'' e) \<or> slot role (rl_entry r'' e) = Some c)"
    if e: "e < rl_entries r" for e
  proof -
    have e': "e < rl_entries r'" using e n by simp
    from b e have "allocation_of (rl_entry r' e) = allocation_of (rl_entry r e)" "en_closed (rl_entry r e) \<longrightarrow> en_closed (rl_entry r' e)"
      "\<forall>role c. slot role (rl_entry r e) = Some c \<longrightarrow> en_closed (rl_entry r' e) \<or> slot role (rl_entry r' e) = Some c"
      unfolding lasting_def by blast+
    moreover from a e' have "allocation_of (rl_entry r'' e) = allocation_of (rl_entry r' e)" "en_closed (rl_entry r' e) \<longrightarrow> en_closed (rl_entry r'' e)"
      "\<forall>role c. slot role (rl_entry r' e) = Some c \<longrightarrow> en_closed (rl_entry r'' e) \<or> slot role (rl_entry r'' e) = Some c"
      unfolding lasting_def by blast+
    ultimately show ?thesis by auto
  qed
  ultimately show ?thesis using n unfolding lasting_def by auto
qed

lemma still_trans:
  assumes a: "still r'' r'" and b: "still r' r"
  shows "still r'' r"
  using a b lasting_trans unfolding still_def by blast

lemma lasting_fields:
  assumes "rl_conns r' = rl_conns r" and "rl_entries r' = rl_entries r"
    and "\<And>c. cn_grant (rl_conn r' c) = cn_grant (rl_conn r c) \<and> cn_role (rl_conn r' c) = cn_role (rl_conn r c) \<and>
      cn_entry (rl_conn r' c) = cn_entry (rl_conn r c)"
    and "\<And>e. allocation_of (rl_entry r' e) = allocation_of (rl_entry r e)"
    and "\<And>e. en_closed (rl_entry r e) \<Longrightarrow> en_closed (rl_entry r' e)"
    and "\<And>e role c. slot role (rl_entry r e) = Some c \<Longrightarrow> en_closed (rl_entry r' e) \<or> slot role (rl_entry r' e) = Some c"
  shows "lasting r' r"
  unfolding lasting_def assms(1,2) using assms(3-6) by (metis order_refl)

lemma still_fields:
  assumes "rl_conns r' = rl_conns r" and "rl_entries r' = rl_entries r" and "\<And>c. same_conn (rl_conn r' c) (rl_conn r c)"
    and "\<And>e. allocation_of (rl_entry r' e) = allocation_of (rl_entry r e)"
    and "\<And>e. en_closed (rl_entry r e) \<Longrightarrow> en_closed (rl_entry r' e)"
    and "\<And>e role c. slot role (rl_entry r e) = Some c \<Longrightarrow> en_closed (rl_entry r' e) \<or> slot role (rl_entry r' e) = Some c"
  shows "still r' r"
proof -
  have "lasting r' r" using assms same_conn_fields [OF assms(3)] by (intro lasting_fields) blast+
  then show ?thesis using assms(1) same_conn_fields [OF assms(3)] unfolding still_def by metis
qed

lemma allocation_updates [simp]:
  "allocation_of (en\<lparr>en_closed := b\<rparr>) = allocation_of en" "allocation_of (en\<lparr>en_active := b\<rparr>) = allocation_of en"
  "allocation_of (en\<lparr>en_activating := b\<rparr>) = allocation_of en" "allocation_of (set_slot role v en) = allocation_of en"
  "allocation_of (en\<lparr>en_client := o1\<rparr>) = allocation_of en" "allocation_of (en\<lparr>en_worker := o1\<rparr>) = allocation_of en"
  by (simp_all add: allocation_of_def)

lemma still_same: "same_relay r' r \<Longrightarrow> still r' r"
  by (intro still_fields) (simp_all add: same_relay_def)

lemma still_simps [simp]:
  "still r r" "still (take_task i r) r" "still (add_task t r) r" "still (closeEntry e code reason r) r"
  "still (pair_settled e r) r" "still (set_closed k r) r" "still (r\<lparr>rl_pairs := ps\<rparr>) r"
  "still (upd_entry e (\<lambda>x. x\<lparr>en_closed := True\<rparr>) r) r" "still (upd_entry e (\<lambda>x. x\<lparr>en_activating := b\<rparr>) r) r"
  "still (upd_entry e (\<lambda>x. x\<lparr>en_active := b\<rparr>) r) r" "still (stop_terminated r) r" "still (relay_stop r) r"
  "still (closeSocket k code reason r) r" "still (open_socket r) r"
  using closeEntry_weak [of e code reason r]
  by (auto intro!: still_fields simp: set_closed_def stop_terminated_def relay_stop_def closeSocket_shut pair_settled_def)

lemma still_pair_failed [simp]: "still (pair_failed e r) r"
  unfolding pair_failed_def using still_trans [OF still_simps(5) still_simps(4)] .

lemma still_checks [simp]: "still (check_answered e cc wc ca wa rest r) r"
proof -
  have "still (next_pair rest (pair_checked e a b r)) r" for a b
    using still_trans [OF still_same [OF next_pair_same] still_simps(4)] still_same [OF next_pair_same]
    by (simp add: pair_checked_def)
  then show ?thesis
    by (auto simp: check_answered_def revalidation_failed_def intro!: still_same split: option.splits sum.splits)
qed

lemma still_upgrades [simp]:
  "still (handleUpgrade parse_url destroyed url header r) r"
  "still (upgrade_client_answered destroyed protocol grant a r) r"
  "still (upgrade_worker_answered destroyed protocol grant a r) r"
  by (auto simp: handleUpgrade_def upgrade_client_answered_def upgrade_worker_answered_def still_same split: option.splits sum.splits)

lemma still_events [simp]:
  "still (onMessage c f buffered r) r" "still (onSendFailed c reason r) r" "still (onSocketError c r) r"
  "still (peerTimerFired c r) r" "still (idleTimerFired c r) r" "still (stop_drained r) r"
proof -
  have "same_relay (push_frame k f (resetIdleTimers e r)) r" for k e
    using same_relay_trans same_relay_simps(6) same_relay_resetIdleTimers by blast
  from still_same [OF this] show "still (onMessage c f buffered r) r"
    by (auto simp: onMessage_def Let_def split: option.splits sum.splits bool.splits)
  show "still (onSendFailed c reason r) r" "still (onSocketError c r) r" "still (peerTimerFired c r) r" "still (idleTimerFired c r) r"
    using still_trans [OF still_simps(4) still_same [OF same_relay_simps(2)]] still_same [OF same_relay_simps(2)]
      still_trans [OF still_simps(4) still_same [OF same_relay_simps(5)]]
    by (auto simp: onSendFailed_def onSocketError_def peerTimerFired_def idleTimerFired_def Let_def)
  have "still (close_entries es r) r" for es r
  proof (induction es arbitrary: r)
    case (Cons e es)
    from still_trans [OF Cons.IH still_simps(4)] show ?case by (simp add: close_entries_def)
  qed (simp add: close_entries_def)
  then show "still (stop_drained r) r" unfolding stop_drained_def using still_trans [OF still_simps(3)] by blast
qed

lemma still_socket_close:
  assumes ok: "relay_ok r" and c: "open_conn c r"
  shows "still (handleSocketClose c (set_closed (cn_socket (rl_conn r c)) r)) r"
proof (cases "en_closed (rl_entry r (cn_entry (rl_conn r c)))")
  case True
  then have "handleSocketClose c (set_closed (cn_socket (rl_conn r c)) r) =
      clearStateTimers c (set_closed (cn_socket (rl_conn r c)) r)"
    by (simp add: handleSocketClose_def Let_def set_closed_def clearStateTimers_def clearPeerTimer_def)
  then show ?thesis using still_trans [OF still_same [OF same_relay_simps(3)] still_simps(6)] by simp
next
  case False
  let ?g = "set_closed (cn_socket (rl_conn r c)) (closeEntry (cn_entry (rl_conn r c)) TRY_AGAIN_LATER [] r)"
  have "still (upd_entry (cn_entry (rl_conn r c)) (set_slot (cn_role (rl_conn r c)) None) ?g) ?g"
    by (intro still_fields) (auto simp: set_closed_def slot_def set_slot_def)
  with still_trans [OF still_simps(6) still_simps(4)] still_trans
  have "still (upd_entry (cn_entry (rl_conn r c)) (set_slot (cn_role (rl_conn r c)) None) ?g) r" by blast
  with still_trans [OF still_same [OF handleSocketClose_open [OF ok c False, of TRY_AGAIN_LATER "[]"]]] show ?thesis by blast
qed
lemma still_accepted:
  assumes ok: "relay_ok r" and role: "gc_role (fst auth) \<in> {''client'', ''worker''}"
  shows "still (upgrade_accepted destroyed protocol grant auth r) r"
proof (cases "rl_closed r \<or> destroyed")
  case False
  let ?k = "rl_sockets r"
  obtain e r1 where l: "lookup_entry (fst auth) (open_socket r) = (e, r1)" by fastforce
  from False have run: "\<not> rl_closed (open_socket r)" by simp
  note L = lookup_entry_ok [OF open_socket_ok [OF ok] run l]
  have ok1: "relay_ok r1" and e: "e < rl_entries r1" and nc: "\<not> en_closed (rl_entry r1 e)" using L by blast+
  have r1: "still r1 r"
    using L unfolding still_def lasting_def by (auto simp del: open_socket_fields(9))
  have t: "still (tryPair e x) x" for x
    by (auto simp: tryPair_def Let_def split: option.splits intro: still_trans [OF still_simps(3)])
  have close: "still (closeSocket ?k DUPLICATE_ROLE ''duplicate relay role'' r1) r" using still_trans [OF still_simps(13) r1] .
  have join: "still (join_entry ?k grant protocol (fst auth) e r1) r"
    if free: "slot (gc_role (fst auth)) (rl_entry r1 e) = None"
  proof -
    have "still (upd_entry e (set_slot (gc_role (fst auth)) (Some (rl_conns r1)))
        (r1\<lparr>rl_conn := (rl_conn r1)(rl_conns r1 := new_conn ?k grant protocol (fst auth) e), rl_conns := Suc (rl_conns r1)\<rparr>)) r1"
      using free by (auto simp: still_def lasting_def new_conn_def less_Suc_eq slot_def set_slot_def)
    then show ?thesis unfolding join_entry_def using still_trans t r1 by blast
  qed
  have "still (acceptConnection ?k grant (fst auth) protocol (open_socket r)) r"
  proof (cases "slot (gc_role (fst auth)) (rl_entry r1 e)")
    case None
    then show ?thesis using l join by (simp add: acceptConnection_def)
  next
    case (Some c)
    then have "ws_ready (conn_socket r1 c) \<noteq> WsClosed"
      using slotD(4) [OF ok1 e _ role nc] by blast
    then show ?thesis using l close Some by (simp add: acceptConnection_def)
  qed
  then show ?thesis using False by (simp add: upgrade_accepted_def)
qed (auto simp: upgrade_accepted_def)

section \<open>Authority\<close>

text \<open>A fact about some database of the control plane from which the present one was reached.\<close>

definition once ::
  "(string \<Rightarrow> string \<Rightarrow> int) \<Rightarrow> (rat \<Rightarrow> string) \<Rightarrow> relay_env \<Rightarrow> db \<Rightarrow> (db \<Rightarrow> bool) \<Rightarrow> bool" where
  "once lc num env d P \<longleftrightarrow> (\<exists>d0. cp_reachable lc num (ev_service env) d0 \<and> cp_steps lc num (ev_service env) d0 d \<and> P d0)"

lemma once_mono: "once lc num env d P \<Longrightarrow> cp_steps lc num (ev_service env) d d' \<Longrightarrow> once lc num env d' P"
  unfolding once_def using cp_steps_trans by blast

lemma once_now: "cp_reachable lc num (ev_service env) d \<Longrightarrow> P d \<Longrightarrow> once lc num env d P"
  unfolding once_def using cp_steps.none by blast

lemma once_weaken: "once lc num env d P \<Longrightarrow> (\<And>d0. P d0 \<Longrightarrow> Q d0) \<Longrightarrow> once lc num env d Q"
  unfolding once_def by blast

definition answered ::
  "(string \<Rightarrow> string \<Rightarrow> int) \<Rightarrow> (rat \<Rightarrow> string) \<Rightarrow> relay_env \<Rightarrow> db \<Rightarrow> string \<Rightarrow> string \<Rightarrow> answer \<Rightarrow> bool" where
  "answered lc num env d grant role a \<longleftrightarrow> once lc num env d (\<lambda>d0. \<exists>t t'. ask_grant env grant role t t' d0 = a)"

text \<open>The service accepted the grant in the role, for the allocation of the entry.\<close>

definition accepted ::
  "(string \<Rightarrow> string \<Rightarrow> int) \<Rightarrow> (rat \<Rightarrow> string) \<Rightarrow> relay_env \<Rightarrow> db \<Rightarrow> string \<Rightarrow> string \<Rightarrow> string \<times> string \<times> string \<Rightarrow> bool" where
  "accepted lc num env d grant role alloc \<longleftrightarrow>
     (\<exists>c s. answered lc num env d grant role (Inr (Some (c, s))) \<and> (gc_sessionId c, gc_workerId c, gc_leaseId c) = alloc)"

text \<open>
  The session was active under the allocation, up to the blanks around an identifier that the
  request validator strips.
\<close>

definition session_was_active ::
  "(string \<Rightarrow> string \<Rightarrow> int) \<Rightarrow> (rat \<Rightarrow> string) \<Rightarrow> relay_env \<Rightarrow> db \<Rightarrow> string \<times> string \<times> string \<Rightarrow> bool" where
  "session_was_active lc num env d alloc \<longleftrightarrow> (case alloc of (sessionId, workerId, leaseId) \<Rightarrow>
     once lc num env d (\<lambda>d0. \<exists>s \<in> set (db_sessions d0). s_id s = sessionId \<and> s_status s = Active \<and>
       map_option trim (s_assignedWorkerId s) = Some (trim workerId) \<and> map_option trim (s_leaseId s) = Some (trim leaseId)))"

definition both_accepted ::
  "(string \<Rightarrow> string \<Rightarrow> int) \<Rightarrow> (rat \<Rightarrow> string) \<Rightarrow> relay_env \<Rightarrow> db \<Rightarrow> relay \<Rightarrow> nat \<Rightarrow> bool" where
  "both_accepted lc num env d r e \<longleftrightarrow> en_closed (rl_entry r e) \<or>
     accepted lc num env d (cn_grant (rl_conn r (the (en_client (rl_entry r e))))) ''client'' (allocation_of (rl_entry r e)) \<and>
     accepted lc num env d (cn_grant (rl_conn r (the (en_worker (rl_entry r e))))) ''worker'' (allocation_of (rl_entry r e))"

fun task_authority ::
  "(string \<Rightarrow> string \<Rightarrow> int) \<Rightarrow> (rat \<Rightarrow> string) \<Rightarrow> relay_env \<Rightarrow> db \<Rightarrow> relay \<Rightarrow> task \<Rightarrow> bool" where
  "task_authority lc num env d r (PairAuthorize e cg wg ca wa) \<longleftrightarrow>
     (\<forall>a. ca = Some a \<longrightarrow> answered lc num env d cg ''client'' a) \<and>
     (\<forall>a. wa = Some a \<longrightarrow> answered lc num env d wg ''worker'' a)"
| "task_authority lc num env d r (PairActivate e) \<longleftrightarrow> both_accepted lc num env d r e"
| "task_authority lc num env d r (PairActivated e outcome) \<longleftrightarrow> both_accepted lc num env d r e \<and>
     (\<forall>s. outcome = Inr s \<longrightarrow> session_was_active lc num env d (allocation_of (rl_entry r e)))"
| "task_authority lc num env d r _ \<longleftrightarrow> True"

definition authority_ok ::
  "(string \<Rightarrow> string \<Rightarrow> int) \<Rightarrow> (rat \<Rightarrow> string) \<Rightarrow> relay_env \<Rightarrow> db \<Rightarrow> relay \<Rightarrow> bool" where
  "authority_ok lc num env d r \<longleftrightarrow> list_all (task_authority lc num env d r) (rl_tasks r) \<and>
     (\<forall>c < rl_conns r. cn_peer (rl_conn r c) \<noteq> None \<longrightarrow>
        accepted lc num env d (cn_grant (rl_conn r c)) (cn_role (rl_conn r c)) (allocation_of (rl_entry r (cn_entry (rl_conn r c)))) \<and>
        session_was_active lc num env d (allocation_of (rl_entry r (cn_entry (rl_conn r c)))))"

lemma accepted_mono: "accepted lc num env d g role a \<Longrightarrow> cp_steps lc num (ev_service env) d d' \<Longrightarrow> accepted lc num env d' g role a"
  unfolding accepted_def answered_def using once_mono by blast

lemma active_mono:
  "session_was_active lc num env d a \<Longrightarrow> cp_steps lc num (ev_service env) d d' \<Longrightarrow> session_was_active lc num env d' a"
  unfolding session_was_active_def by (cases a) (auto intro: once_mono)

lemma accepted_step:
  assumes au: "authority_ok lc num env d r" and ok: "relay_ok r" and la: "lasting r' r"
    and db: "cp_steps lc num (ev_service env) d d'"
    and peers: "\<And>c. c < rl_conns r' \<Longrightarrow> cn_peer (rl_conn r' c) \<noteq> None \<Longrightarrow> c < rl_conns r \<and> (cn_peer (rl_conn r c) \<noteq> None \<or>
        accepted lc num env d' (cn_grant (rl_conn r c)) (cn_role (rl_conn r c)) (allocation_of (rl_entry r (cn_entry (rl_conn r c)))) \<and>
        session_was_active lc num env d' (allocation_of (rl_entry r (cn_entry (rl_conn r c)))))"
    and tasks: "\<And>t. t \<in> set (rl_tasks r') \<Longrightarrow> t \<in> set (rl_tasks r) \<or> task_authority lc num env d' r' t"
  shows "authority_ok lc num env d' r'"
proof -
  have alloc: "allocation_of (rl_entry r' e) = allocation_of (rl_entry r e)" if "e < rl_entries r" for e
    using la that by (simp add: lasting_def)
  have both: "both_accepted lc num env d' r' e" if b: "both_accepted lc num env d r e" and e: "e < rl_entries r" "filled r e" for e
  proof (cases "en_closed (rl_entry r' e)")
    case False
    with la e have nc: "\<not> en_closed (rl_entry r e)" unfolding lasting_def by blast
    with e obtain c w where cw: "en_client (rl_entry r e) = Some c" "en_worker (rl_entry r e) = Some w" by (auto simp: filled_def)
    from la e(1) False cw have "en_client (rl_entry r' e) = Some c" "en_worker (rl_entry r' e) = Some w"
      unfolding lasting_def slot_client slot_worker by blast+
    moreover have "cn_grant (rl_conn r' c) = cn_grant (rl_conn r c)" "cn_grant (rl_conn r' w) = cn_grant (rl_conn r w)"
      using la clientD(1) [OF ok e(1) cw(1)] workerD(1) [OF ok e(1) cw(2)] by (simp_all add: lasting_def)
    ultimately show ?thesis
      using b nc cw accepted_mono [OF _ db] by (simp add: both_accepted_def alloc [OF e(1)])
  qed (simp add: both_accepted_def)
  have "task_authority lc num env d' r' t" if t: "t \<in> set (rl_tasks r)" for t
  proof -
    have a: "task_authority lc num env d r t" using au t by (simp add: authority_ok_def list_all_iff)
    have k: "task_ok r t" using ok t by (simp add: relay_ok_def tasks_ok_def list_all_iff)
    show ?thesis
    proof (cases t)
      case (PairAuthorize e cg wg ca wa)
      then show ?thesis using a once_mono [OF _ db] by (auto simp: answered_def)
    next
      case (PairActivate e)
      then show ?thesis using a k both by simp
    next
      case (PairActivated e outcome)
      then show ?thesis using a k both active_mono [OF _ db] by (simp add: alloc)
    qed simp_all
  qed
  with tasks have "list_all (task_authority lc num env d' r') (rl_tasks r')" by (auto simp: list_all_iff)
  moreover have "accepted lc num env d' (cn_grant (rl_conn r' c)) (cn_role (rl_conn r' c)) (allocation_of (rl_entry r' (cn_entry (rl_conn r' c)))) \<and>
        session_was_active lc num env d' (allocation_of (rl_entry r' (cn_entry (rl_conn r' c))))"
    if c: "c < rl_conns r'" "cn_peer (rl_conn r' c) \<noteq> None" for c
  proof -
    from peers [OF c] have cr: "c < rl_conns r" by simp
    then have f: "cn_grant (rl_conn r' c) = cn_grant (rl_conn r c)" "cn_role (rl_conn r' c) = cn_role (rl_conn r c)"
      "cn_entry (rl_conn r' c) = cn_entry (rl_conn r c)" using la by (simp_all add: lasting_def)
    note e = connD(2) [OF ok cr]
    show ?thesis
    proof (cases "cn_peer (rl_conn r c) = None")
      case True
      then show ?thesis using peers [OF c] by (simp add: f alloc [OF e])
    next
      case False
      with au cr have "accepted lc num env d (cn_grant (rl_conn r c)) (cn_role (rl_conn r c)) (allocation_of (rl_entry r (cn_entry (rl_conn r c))))"
        "session_was_active lc num env d (allocation_of (rl_entry r (cn_entry (rl_conn r c))))" by (simp_all add: authority_ok_def)
      then show ?thesis using accepted_mono [OF _ db] active_mono [OF _ db] by (simp add: f alloc [OF e])
    qed
  qed
  ultimately show ?thesis by (simp add: authority_ok_def)
qed

lemma authority_still:
  assumes "authority_ok lc num env d r" and "relay_ok r" and "still r' r" and "cp_steps lc num (ev_service env) d d'"
    and "\<And>t. t \<in> set (rl_tasks r') \<Longrightarrow> t \<in> set (rl_tasks r) \<or> task_authority lc num env d' r' t"
  shows "authority_ok lc num env d' r'"
  using assms(3) by (intro accepted_step [OF assms(1,2) _ assms(4) _ assms(5)]) (auto simp: still_def)

subsection \<open>Linking\<close>

lemma link_lasting: "lasting (link_peers c w r) r"
  by (intro lasting_fields) (simp_all add: link_peers_def)

lemma still_send_ready [simp]: "still (send_ready e cs r) r"
proof (induction e cs r rule: send_ready.induct)
  case (2 e c cs r)
  have p: "still (push_frame k f r) r" for k f by (rule still_same) simp
  show ?case using 2 still_trans [OF _ p] by (simp only: send_ready.simps still_simps split: if_split) blast
qed simp

lemma pair_failed_tasks [simp]: "rl_tasks (pair_failed e r) = rl_tasks r"
  by (simp add: pair_failed_def)

lemma activated_lasting: "lasting (pair_activated e r) r"
  and activated_peers: "c < rl_conns (pair_activated e r) \<Longrightarrow> cn_peer (rl_conn (pair_activated e r) c) \<noteq> None \<Longrightarrow>
    c < rl_conns r \<and> (cn_peer (rl_conn r c) \<noteq> None \<or>
      \<not> en_closed (rl_entry r e) \<and> (en_client (rl_entry r e) = Some c \<or> en_worker (rl_entry r e) = Some c))"
  and activated_tasks: "rl_tasks (pair_activated e r) = rl_tasks r"
proof -
  have still_ok: "lasting x r \<and> (\<forall>c < rl_conns x. cn_peer (rl_conn x c) \<noteq> None \<longrightarrow> c < rl_conns r \<and> cn_peer (rl_conn r c) \<noteq> None)"
    if "still x r" for x using that by (simp add: still_def)
  have st: "rl_tasks (send_ready e cs x) = rl_tasks x" for cs x
    by (induction e cs x rule: send_ready.induct) (auto simp: push_frame_def)
  have "lasting (pair_activated e r) r \<and> rl_tasks (pair_activated e r) = rl_tasks r \<and>
    (\<forall>c < rl_conns (pair_activated e r). cn_peer (rl_conn (pair_activated e r) c) \<noteq> None \<longrightarrow> c < rl_conns r \<and> (cn_peer (rl_conn r c) \<noteq> None \<or>
      \<not> en_closed (rl_entry r e) \<and> (en_client (rl_entry r e) = Some c \<or> en_worker (rl_entry r e) = Some c)))"
  proof (cases "\<not> en_closed (rl_entry r e) \<and> en_client (rl_entry r e) \<noteq> None \<and> en_worker (rl_entry r e) \<noteq> None")
    case False
    then have "pair_activated e r = pair_settled e r \<or> pair_activated e r = pair_failed e (upd_entry e (\<lambda>x. x\<lparr>en_active := True\<rparr>) r)"
      by (auto simp: pair_activated_def Let_def split: option.splits)
    moreover have "still (pair_failed e (upd_entry e (\<lambda>x. x\<lparr>en_active := True\<rparr>) r)) r"
      using still_trans [OF still_pair_failed still_simps(10)] .
    ultimately show ?thesis using still_ok by (auto simp: pair_failed_def)
  next
    case True
    then obtain c w where nc: "\<not> en_closed (rl_entry r e)" and cw: "en_client (rl_entry r e) = Some c" "en_worker (rl_entry r e) = Some w"
      by auto
    define l where "l = link_peers c w (upd_entry e (\<lambda>x. x\<lparr>en_active := True\<rparr>) r)"
    define y where "y = pair_settled e (send_ready e [c, w] (resetIdleTimers e (clearPeerTimer w (clearPeerTimer c l))))"
    have eq: "pair_activated e r = y"
      using nc cw by (simp add: pair_activated_def Let_def l_def y_def del: send_ready.simps)
    have s: "same_relay (resetIdleTimers e (clearPeerTimer w (clearPeerTimer c l))) l"
      using same_relay_trans same_relay_simps(2) same_relay_resetIdleTimers by blast
    have yl: "still y l"
      unfolding y_def using still_trans [OF still_simps(5) still_trans [OF still_send_ready still_same [OF s]]] .
    have "lasting l r"
      unfolding l_def using lasting_trans [OF link_lasting] still_simps(10) still_def by blast
    then have "lasting y r" using yl lasting_trans by (auto simp: still_def)
    moreover have "rl_tasks y = rl_tasks r"
      unfolding y_def using s by (simp add: st same_relay_def l_def link_peers_def del: send_ready.simps)
    moreover have "x < rl_conns r \<and> (cn_peer (rl_conn r x) \<noteq> None \<or> x = c \<or> x = w)" if x: "x < rl_conns y" "cn_peer (rl_conn y x) \<noteq> None" for x
    proof -
      have "x < rl_conns l \<and> cn_peer (rl_conn l x) \<noteq> None" using yl x by (simp add: still_def)
      then show ?thesis by (auto simp: l_def link_peers_def split: if_splits)
    qed
    ultimately show ?thesis unfolding eq using nc cw by auto
  qed
  then show "lasting (pair_activated e r) r" "rl_tasks (pair_activated e r) = rl_tasks r"
    "c < rl_conns (pair_activated e r) \<Longrightarrow> cn_peer (rl_conn (pair_activated e r) c) \<noteq> None \<Longrightarrow>
    c < rl_conns r \<and> (cn_peer (rl_conn r c) \<noteq> None \<or>
      \<not> en_closed (rl_entry r e) \<and> (en_client (rl_entry r e) = Some c \<or> en_worker (rl_entry r e) = Some c))" by blast+
qed

lemma set_take_task: "t \<in> set (rl_tasks (take_task i r)) \<Longrightarrow> t \<in> set (rl_tasks r)"
  by (auto simp: take_task_def dest: in_set_takeD in_set_dropD)

lemma authority_activated:
  assumes au: "authority_ok lc num env d r" and ok: "relay_ok r" and e: "e < rl_entries r"
    and both: "both_accepted lc num env d r e" and act: "session_was_active lc num env d (allocation_of (rl_entry r e))"
  shows "authority_ok lc num env d (pair_activated e (take_task i r))"
proof (rule accepted_step [OF au ok _ cp_steps.none])
  show "lasting (pair_activated e (take_task i r)) r"
    using activated_lasting [of e "take_task i r"] lasting_trans still_simps(2) [of i r] unfolding still_def by blast
  show "t \<in> set (rl_tasks r) \<or> task_authority lc num env d (pair_activated e (take_task i r)) t"
    if "t \<in> set (rl_tasks (pair_activated e (take_task i r)))" for t
    using that set_take_task by (simp add: activated_tasks)
next
  fix c assume "c < rl_conns (pair_activated e (take_task i r))" "cn_peer (rl_conn (pair_activated e (take_task i r)) c) \<noteq> None"
  from activated_peers [OF this] consider "c < rl_conns r" "cn_peer (rl_conn r c) \<noteq> None"
    | "\<not> en_closed (rl_entry r e)" "en_client (rl_entry r e) = Some c" | "\<not> en_closed (rl_entry r e)" "en_worker (rl_entry r e) = Some c"
    by auto
  then show "c < rl_conns r \<and> (cn_peer (rl_conn r c) \<noteq> None \<or>
        accepted lc num env d (cn_grant (rl_conn r c)) (cn_role (rl_conn r c)) (allocation_of (rl_entry r (cn_entry (rl_conn r c)))) \<and>
        session_was_active lc num env d (allocation_of (rl_entry r (cn_entry (rl_conn r c)))))"
  proof cases
    case 2
    then show ?thesis using clientD(1-3) [OF ok e 2(2)] both act by (simp add: both_accepted_def)
  next
    case 3
    then show ?thesis using workerD(1-3) [OF ok e 3(2)] both act by (simp add: both_accepted_def)
  qed simp
qed

subsection \<open>Every step\<close>

lemma session_from_answer:
  assumes "answered lc num env d grant role (Inr (Some (c, s)))" and "s_status s = Active"
  shows "session_was_active lc num env d (gc_sessionId c, gc_workerId c, gc_leaseId c)"
proof -
  have "\<exists>s \<in> set (db_sessions d0). s_id s = gc_sessionId c \<and> s_status s = Active \<and>
      map_option trim (s_assignedWorkerId s) = Some (trim (gc_workerId c)) \<and> map_option trim (s_leaseId s) = Some (trim (gc_leaseId c))"
    if "ask_grant env grant role t t' d0 = Inr (Some (c, s))" for t t' d0
  proof -
    note a = ask_grant_Some(2) [OF that]
    from ask_allocation_Some(4) [OF a] have "s \<in> set (db_sessions d0)" "s_id s = gc_sessionId c"
      by (auto simp: getSession_def dest: sql_get_filter_Some)
    then show ?thesis using assms(2) ask_allocation_Some(6,7) [OF a] by auto
  qed
  then show ?thesis
    using assms(1) unfolding answered_def session_was_active_def by (auto elim!: once_weaken)
qed

lemma activateSession_Inr:
  assumes "activateSession cfg sessionId (activation_request en) now d = (Inr s, d')"
  shows "s \<in> set (db_sessions d') \<and> s_id s = sessionId \<and> s_status s = Active \<and>
    s_assignedWorkerId s = Some (trim (en_workerId en)) \<and> s_leaseId s = Some (trim (en_leaseId en))"
proof -
  from assms obtain lease where l: "validateLeaseAction (activation_request en) = Inr lease"
    by (cases "validateLeaseAction (activation_request en)") (auto simp: activateSession_def validated_def)
  then have t: "la_workerId lease = trim (en_workerId en)" "la_leaseId lease = trim (en_leaseId en)"
    by (auto simp: validateLeaseAction_def activation_request_def and_then_Inr requireString_Inr requireObject_Inr)
  from assms l obtain d1 where row: "activateSession_row sessionId (la_workerId lease) (la_leaseId lease) (now + cf_leaseDurationMs cfg) now d = (Some s, d1)"
    and d': "db_sessions d' = db_sessions d1"
    by (auto simp: activateSession_def validated_def fenced_def transaction_def split: option.splits prod.splits)
  from row have "s \<in> set (snd (sql_update (session_lease_matches {Connecting} sessionId (la_workerId lease) (la_leaseId lease) now)
      (\<lambda>s. s\<lparr>s_status := Active, s_leaseExpiresAt := Some (now + cf_leaseDurationMs cfg), s_updatedAt := now\<rparr>) (db_sessions d)))"
    "db_sessions d1 = fst (sql_update (session_lease_matches {Connecting} sessionId (la_workerId lease) (la_leaseId lease) now)
      (\<lambda>s. s\<lparr>s_status := Active, s_leaseExpiresAt := Some (now + cf_leaseDurationMs cfg), s_updatedAt := now\<rparr>) (db_sessions d))"
    by (auto simp: activateSession_row_def Let_def case_prod_unfold dest: sql_get_Some)
  then show ?thesis
    by (force simp: d' sql_update_fst sql_update_snd session_lease_matches_def t)
qed

lemma authority_pairing:
  assumes au: "authority_ok lc num env d r" and ok: "relay_ok r" and t: "task_ok r (PairAuthorize e cg wg ca0 wa0)"
    and ca: "\<And>a. ca = Some a \<Longrightarrow> answered lc num env d cg ''client'' a"
    and wa: "\<And>a. wa = Some a \<Longrightarrow> answered lc num env d wg ''worker'' a"
  shows "authority_ok lc num env d (pair_answered e cg wg ca wa (take_task i r))"
proof -
  let ?r = "take_task i r"
  have e: "e < rl_entries r" using t by simp
  have S: "authority_ok lc num env d x" if "still x ?r" and "\<And>t. t \<in> set (rl_tasks x) \<Longrightarrow> t \<in> set (rl_tasks ?r) \<or> task_authority lc num env d x t" for x
    using that set_take_task by (intro authority_still [OF au ok still_trans [OF that(1) still_simps(2)] cp_steps.none]) blast
  have wait: "authority_ok lc num env d (add_task (PairAuthorize e cg wg ca wa) ?r)" using ca wa by (intro S) auto
  have failed: "authority_ok lc num env d (pair_failed e ?r)" by (intro S) simp_all
  have closed: "authority_ok lc num env d (pair_settled e (closeEntry e code reason ?r))" for code reason
    by (intro S still_trans [OF still_simps(5) still_simps(4)]) simp
  show ?thesis
  proof (cases "\<exists>ca' wa'. ca = Some (Inr (Some ca')) \<and> wa = Some (Inr (Some wa')) \<and>
      sameAllocation (Some ca') (rl_entry r e) \<and> sameAllocation (Some wa') (rl_entry r e)")
    case False
    then have "pair_answered e cg wg ca wa ?r = add_task (PairAuthorize e cg wg ca wa) ?r \<or> pair_answered e cg wg ca wa ?r = pair_failed e ?r"
      by (cases ca; cases wa) (auto simp: pair_answered_def sameAllocation_def split: sum.splits option.splits)
    then show ?thesis using wait failed by auto
  next
    case True
    then obtain c s c' s' where a: "ca = Some (Inr (Some (c, s)))" "wa = Some (Inr (Some (c', s')))"
      and same: "sameAllocation (Some (c, s)) (rl_entry r e)" "sameAllocation (Some (c', s')) (rl_entry r e)" by auto
    have alloc: "(gc_sessionId c, gc_workerId c, gc_leaseId c) = allocation_of (rl_entry r e)"
      "(gc_sessionId c', gc_workerId c', gc_leaseId c') = allocation_of (rl_entry r e)"
      using same by (simp_all add: sameAllocation_def allocation_of_def)
    have both: "both_accepted lc num env d r e"
      using t ca [OF a(1)] wa [OF a(2)] alloc by (auto simp: both_accepted_def accepted_def)
    have act: "session_was_active lc num env d (allocation_of (rl_entry r e))" if "s_status s = Active"
      using session_from_answer [OF ca [OF a(1)] that] alloc(1) by simp
    have "authority_ok lc num env d (add_task (PairActivate e) ?r)"
      using both by (intro S) (auto simp: both_accepted_def)
    moreover have "authority_ok lc num env d (pair_activated e ?r)" if "s_status s = Active"
      using authority_activated [OF au ok e both act [OF that]] .
    ultimately show ?thesis using a same closed by (simp add: pair_answered_def)
  qed
qed

lemma upgrade_accepted_tasks:
  assumes "t \<in> set (rl_tasks (upgrade_accepted destroyed protocol grant auth r))"
  shows "t \<in> set (rl_tasks r) \<or> (\<exists>e cg wg. t = PairAuthorize e cg wg None None)"
proof (cases "rl_closed r \<or> destroyed")
  case False
  obtain e r1 where l: "lookup_entry (fst auth) (open_socket r) = (e, r1)" by fastforce
  then have r1: "rl_tasks r1 = rl_tasks r" by (auto simp: lookup_entry_def split: option.splits)
  have "t \<in> set (rl_tasks (tryPair e x)) \<Longrightarrow> t \<in> set (rl_tasks x) \<or> (\<exists>e cg wg. t = PairAuthorize e cg wg None None)" for x
    by (auto simp: tryPair_def Let_def split: option.splits if_splits)
  from this [of "upd_entry e (set_slot (gc_role (fst auth)) (Some (rl_conns r1)))
       (r1\<lparr>rl_conn := (rl_conn r1)(rl_conns r1 := new_conn (rl_sockets r) grant protocol (fst auth) e), rl_conns := Suc (rl_conns r1)\<rparr>)"]
  show ?thesis
    using assms False l r1 by (auto simp: upgrade_accepted_def acceptConnection_def join_entry_def closeSocket_shut split: if_splits)
qed (use assms in \<open>auto simp: upgrade_accepted_def\<close>)

lemma task_in: "task_at i t r \<Longrightarrow> t \<in> set (rl_tasks r)"
  unfolding task_at_def using nth_mem by blast

lemma timer_tasks:
  "rl_tasks (onSendFailed c reason r) = rl_tasks r" "rl_tasks (onSocketError c r) = rl_tasks r"
  "rl_tasks (peerTimerFired c r) = rl_tasks r" "rl_tasks (idleTimerFired c r) = rl_tasks r"
  by (simp_all add: onSendFailed_def onSocketError_def peerTimerFired_def idleTimerFired_def clearPeerTimer_def Let_def)

lemma authority_step:
  assumes st: "relay_step lc num env a (d, r) (d', r')" and ok: "relay_ok r" and au: "authority_ok lc num env d r"
    and reach: "cp_reachable lc num (ev_service env) d"
  shows "authority_ok lc num env d' r'"
proof -
  note db = relay_step_db [OF st]
  have S: "authority_ok lc num env d' r'" if "still r' r" "set (rl_tasks r') \<subseteq> set (rl_tasks r)"
    using that authority_still [OF au ok _ db] by blast
  have TK: "still x r" if "still x (take_task i r)" for x i using still_trans [OF that still_simps(2)] .
  have now: "answered lc num env d grant role (ask_grant env grant role t t' d)" for grant role t t'
    unfolding answered_def by (rule once_now [OF reach]) blast
  from st show ?thesis
  proof cases
    case started
    then show ?thesis by (intro S) (auto simp: relay_start_def still_same split: if_splits)
  next
    case event
    have "rl_tasks (scheduleRevalidation r) = rl_tasks r" using scheduleRevalidation_same [of r] by (simp add: same_relay_def)
    with event show ?thesis by (intro S) (simp_all add: still_same)
  next
    case (upgrade destroyed url header)
    then show ?thesis
      by (intro authority_still [OF au ok _ db], simp_all) (auto simp: handleUpgrade_def rejectUpgrade_def split: option.splits if_splits)
  next
    case (upgrade_client i protocol grant destroyed t t')
    then have st: "still r' r" using still_trans [OF still_upgrades(2) still_simps(2)] by simp
    have "t \<in> set (rl_tasks (take_task i r)) \<or> task_authority lc num env d' r' t" if "t \<in> set (rl_tasks r')" for t
      using that upgrade_client by (auto simp: upgrade_client_answered_def rejectUpgrade_def split: option.splits sum.splits if_splits)
    then show ?thesis using set_take_task by (intro authority_still [OF au ok st db]) blast
  next
    case (upgrade_worker i protocol grant destroyed t t')
    then have st: "still r' r" using still_trans [OF still_upgrades(3) still_simps(2)] by simp
    have "t \<in> set (rl_tasks (take_task i r)) \<or> task_authority lc num env d' r' t" if "t \<in> set (rl_tasks r')" for t
      using that upgrade_worker by (auto simp: upgrade_worker_answered_def rejectUpgrade_def split: option.splits sum.splits if_splits)
    then show ?thesis using set_take_task by (intro authority_still [OF au ok st db]) blast
  next
    case (upgrade_accept i protocol grant auth destroyed)
    have "relay_ok (take_task i r)" using upgrade_accept by (intro take_other_task_ok [OF ok]) auto
    moreover have "gc_role (fst auth) \<in> {''client'', ''worker''}" using task_atD [OF ok] upgrade_accept by (fastforce simp: valid_claims_def)
    ultimately have "still r' r" using upgrade_accept still_trans [OF still_accepted still_simps(2)] by simp
    then show ?thesis
      using upgrade_accept upgrade_accepted_tasks set_take_task by (intro authority_still [OF au ok _ db]) fastforce+
  next
    case (pair_client i e cg wg wa t t')
    have t: "task_ok r (PairAuthorize e cg wg None wa)" using task_atD [OF ok] pair_client by blast
    have "PairAuthorize e cg wg None wa \<in> set (rl_tasks r)" using pair_client task_in by blast
    with au have other: "\<And>a. wa = Some a \<Longrightarrow> answered lc num env d wg ''worker'' a" by (auto simp: authority_ok_def list_all_iff)
    have "authority_ok lc num env d (pair_answered e cg wg (Some (ask_grant env cg ''client'' t t' d)) wa (take_task i r))"
      by (rule authority_pairing [OF au ok t]) (use now other in auto)
    then show ?thesis using pair_client by simp
  next
    case (pair_worker i e cg wg ca t t')
    have t: "task_ok r (PairAuthorize e cg wg ca None)" using task_atD [OF ok] pair_worker by blast
    have "PairAuthorize e cg wg ca None \<in> set (rl_tasks r)" using pair_worker task_in by blast
    with au have other: "\<And>a. ca = Some a \<Longrightarrow> answered lc num env d cg ''client'' a" by (auto simp: authority_ok_def list_all_iff)
    have "authority_ok lc num env d (pair_answered e cg wg ca (Some (ask_grant env wg ''worker'' t t' d)) (take_task i r))"
      by (rule authority_pairing [OF au ok t]) (use now other in auto)
    then show ?thesis using pair_worker by simp
  next
    case (activate i e now outcome)
    have t: "task_ok r (PairActivate e)" using task_atD [OF ok] activate by blast
    have "PairActivate e \<in> set (rl_tasks r)" using activate task_in by blast
    with au have both: "both_accepted lc num env d r e" by (auto simp: authority_ok_def list_all_iff)
    have reach': "cp_reachable lc num (ev_service env) d'" using cp_steps_trans reach db by blast
    have "session_was_active lc num env d' (allocation_of (rl_entry r e))" if "outcome = Inr s" for s
      using activateSession_Inr [OF activate(4) [unfolded that]] unfolding session_was_active_def allocation_of_def
      by (auto intro!: once_now [OF reach'])
    moreover have "both_accepted lc num env d' r e" using both accepted_mono [OF _ db] unfolding both_accepted_def by blast
    moreover have "still r' r" using activate TK [of _ i] by simp
    ultimately show ?thesis
      using activate set_take_task by (intro authority_still [OF au ok _ db]) (auto simp: both_accepted_def)
  next
    case (activated i e outcome)
    have t: "task_ok r (PairActivated e outcome)" using task_atD [OF ok] activated by blast
    have "PairActivated e outcome \<in> set (rl_tasks r)" using activated task_in by blast
    with au have both: "both_accepted lc num env d r e"
      and act: "\<And>s. outcome = Inr s \<Longrightarrow> session_was_active lc num env d (allocation_of (rl_entry r e))"
      by (auto simp: authority_ok_def list_all_iff)
    show ?thesis
    proof (cases outcome)
      case (Inl err)
      then show ?thesis using activated set_take_task TK [OF still_pair_failed, of e i]
        by (intro S) (auto simp: pair_activation_answered_def)
    next
      case (Inr s)
      then show ?thesis using activated authority_activated [OF au ok _ both act [OF Inr]] t
        by (simp add: pair_activation_answered_def)
    qed
  next
    case (socket_close c)
    have "rl_tasks (handleSocketClose c x) = rl_tasks x" for x
      by (auto simp: handleSocketClose_def Let_def clearStateTimers_def clearPeerTimer_def split: option.splits)
    then show ?thesis using socket_close still_socket_close [OF ok] by (intro S) (auto simp: set_closed_def)
  next
    case (check_client e cc wc wa rest t)
    have "rl_tasks (check_answered e cc wc ca wa rest r) = rl_tasks r" for ca wa
      by (auto simp: check_answered_def revalidation_failed_def next_pair_def pair_checked_def split: option.splits sum.splits list.splits)
    then show ?thesis using check_client by (intro S) simp_all
  next
    case (check_worker e cc wc ca rest t)
    have "rl_tasks (check_answered e cc wc ca wa rest r) = rl_tasks r" for ca wa
      by (auto simp: check_answered_def revalidation_failed_def next_pair_def pair_checked_def split: option.splits sum.splits list.splits)
    then show ?thesis using check_worker by (intro S) simp_all
  next
    case round_over
    have "rl_tasks (revalidation_finally r) = rl_tasks r" using revalidation_finally_same [of r] by (simp add: same_relay_def)
    then show ?thesis using round_over by (intro S) (simp_all add: still_same)
  next
    case (message c buffered f)
    have "rl_tasks (onMessage c f buffered r) = rl_tasks r"
      using same_relay_resetIdleTimers
      by (auto simp: onMessage_def Let_def push_frame_def same_relay_def split: option.splits sum.splits bool.splits)
    then show ?thesis using message by (intro S) simp_all
  next
    case stop
    then have "still r' r" by simp
    moreover have "t \<in> set (rl_tasks r) \<or> task_authority lc num env d' r' t" if "t \<in> set (rl_tasks r')" for t
      using that stop by (auto simp: relay_stop_def split: if_splits)
    ultimately show ?thesis by (intro authority_still [OF au ok _ db])
  next
    case (stop_drain i)
    have "rl_tasks (close_entries es x) = rl_tasks x" for es x
      by (induction es arbitrary: x) (simp_all add: close_entries_def)
    then have t: "t \<in> set (rl_tasks (take_task i r)) \<or> task_authority lc num env d' r' t" if "t \<in> set (rl_tasks r')" for t
      using that stop_drain by (auto simp: stop_drained_def)
    have "still r' r" using stop_drain still_trans [OF still_events(6) still_simps(2)] by simp
    then show ?thesis using t set_take_task by (intro authority_still [OF au ok _ db]) blast+
  next
    case (stop_terminate i)
    then have "still r' r" using TK [OF still_simps(11), of i] by simp
    then show ?thesis using stop_terminate set_take_task by (intro S) (auto simp: stop_terminated_def)
  next
    case control_plane
    then show ?thesis by (intro S) simp_all
  next
    case (ping c)
    then show ?thesis by (intro S) (simp_all add: still_same resetIdleTimer_def)
  next
    case (stray_close k)
    then show ?thesis by (intro S) (simp_all, simp add: set_closed_def)
  next
    case (send_failed c reason)
    then show ?thesis by (intro S) (simp_all add: timer_tasks)
  next
    case (socket_error c)
    then show ?thesis by (intro S) (simp_all add: timer_tasks)
  next
    case (peer_timer c)
    then show ?thesis by (intro S) (simp_all add: timer_tasks)
  next
    case (idle_timer c)
    then show ?thesis by (intro S) (simp_all add: timer_tasks)
  qed
qed

end
