(* ===== verification/RelayRounds.thy ===== *)
theory RelayRounds
  imports RelayAuthority
begin

text \<open>
  How the relay lets go of its pairs: a stopped relay is silent for good, and a revalidation round
  closes the pairs whose session has ended, however it is interleaved with the rest.
\<close>

section \<open>A stopped relay\<close>

definition silent :: "relay \<Rightarrow> relay \<Rightarrow> bool" where
  "silent r' r \<longleftrightarrow> rl_conns r' = rl_conns r \<and> rl_entries r' = rl_entries r \<and> rl_closed r' = rl_closed r \<and>
     (\<forall>e. en_closed (rl_entry r e) \<longrightarrow> en_closed (rl_entry r' e)) \<and> (\<forall>c. same_conn (rl_conn r' c) (rl_conn r c)) \<and>
     (\<forall>k. ws_sent (rl_socket r' k) = ws_sent (rl_socket r k))"

lemma silent_trans: "silent r'' r' \<Longrightarrow> silent r' r \<Longrightarrow> silent r'' r"
  unfolding silent_def using same_conn_trans by (metis (full_types))

lemma silent_simps [simp]:
  "silent r r" "silent (take_task i r) r" "silent (add_task t r) r" "silent (closeEntry e code reason r) r"
  "silent (pair_settled e r) r" "silent (set_closed k r) r" "silent (rejectUpgrade b n m r) r"
  "silent (clearPeerTimer c r) r" "silent (clearStateTimers c r) r" "silent (resetIdleTimer c r) r"
  "silent (r\<lparr>rl_pairs := ps\<rparr>) r" "silent (r\<lparr>rl_revalidation := v\<rparr>) r" "silent (revalidation_failed r) r"
  "silent (upd_conn c (\<lambda>x. x\<lparr>cn_idleTimer := b\<rparr>) r) r" "silent (stop_terminated r) r"
  "silent (upd_entry e (set_slot role o1) r) r" "silent (upd_entry e (\<lambda>x. x\<lparr>en_closed := True\<rparr>) r) r"
  using closeEntry_weak [of e code reason r] same_relay_simps(2-4) [of _ r]
  by (auto simp: silent_def same_relay_def set_closed_def rejectUpgrade_def revalidation_failed_def same_conn_def
      stop_terminated_def terminate_def clearPeerTimer_def clearStateTimers_def resetIdleTimer_def pair_settled_def)

lemma silent_next_pair [simp]: "silent (next_pair es r) r"
  by (auto simp: next_pair_def split: list.splits option.splits)

lemma silent_failed [simp]: "silent (pair_failed e r) r"
  unfolding pair_failed_def using silent_trans [OF silent_simps(5) silent_simps(4)] .

lemma silent_checks [simp]: "silent (check_answered e cc wc ca wa rest r) r"
  using silent_trans [OF silent_next_pair silent_simps(4)]
  by (auto simp: check_answered_def pair_checked_def split: option.splits sum.splits)

lemma silent_close_entries [simp]: "silent (close_entries es r) r"
proof (induction es arbitrary: r)
  case (Cons e es)
  from silent_trans [OF Cons.IH silent_simps(4)] show ?case by (simp add: close_entries_def)
qed (simp add: close_entries_def)

lemma silent_handlers [simp]:
  "silent (upgrade_client_answered destroyed protocol grant a r) r"
  "silent (upgrade_worker_answered destroyed protocol grant a r) r"
  "silent (onSendFailed c reason r) r" "silent (onSocketError c r) r" "silent (peerTimerFired c r) r" "silent (idleTimerFired c r) r"
  "silent (handleSocketClose c r) r" "silent (stop_drained r) r"
proof -
  show "silent (upgrade_client_answered destroyed protocol grant a r) r"
    "silent (upgrade_worker_answered destroyed protocol grant a r) r"
    by (auto simp: upgrade_client_answered_def upgrade_worker_answered_def split: option.splits sum.splits)
  show "silent (onSendFailed c reason r) r" "silent (onSocketError c r) r"
    by (simp_all add: onSendFailed_def onSocketError_def)
  show "silent (peerTimerFired c r) r" "silent (idleTimerFired c r) r"
    using silent_trans [OF silent_simps(4) silent_simps(8)] silent_trans [OF silent_simps(4) silent_simps(14)]
    by (auto simp: peerTimerFired_def idleTimerFired_def Let_def)
  show "silent (handleSocketClose c r) r"
    unfolding handleSocketClose_def Let_def
    by (auto split: option.splits intro!: silent_trans [OF silent_simps(4)] silent_trans [OF silent_simps(11)]
        silent_trans [OF silent_simps(17)] silent_trans [OF silent_simps(16)])
  show "silent (stop_drained r) r"
    unfolding stop_drained_def using silent_trans [OF silent_simps(3) silent_close_entries] .
qed

definition stopped :: "relay \<Rightarrow> bool" where
  "stopped r \<longleftrightarrow> rl_closed r \<and> (\<forall>e < rl_entries r. en_closed (rl_entry r e))"

lemma stopped_silent: "stopped r \<Longrightarrow> silent r' r \<Longrightarrow> stopped r'"
  by (simp add: stopped_def silent_def)

lemma stopped_activated: "stopped r \<Longrightarrow> e < rl_entries r \<Longrightarrow> silent (pair_activated e r) r"
  by (simp add: stopped_def pair_activated_def)

lemma stopped_answered:
  assumes "stopped r" and "e < rl_entries r"
  shows "silent (pair_answered e cg wg ca wa r) r"
  using stopped_activated [OF assms] silent_trans [OF silent_simps(5) silent_simps(4)]
  by (auto simp: pair_answered_def split: option.splits sum.splits)

lemma stopped_message:
  assumes ok: "relay_ok r" and s: "stopped r" and c: "c < rl_conns r"
    and b: "0 \<le> buffered" "buffered \<le> max_safe_integer"
  shows "onMessage c f buffered r = r"
proof (rule onMessage_cases [OF b, of c f r])
  have e: "en_closed (rl_entry r (cn_entry (rl_conn r c)))" using s connD(2) [OF ok c] by (simp add: stopped_def)
  show ?thesis if "onMessage c f buffered r = closeEntry (cn_entry (rl_conn r c)) code reason r" for code reason
    using that e by simp
  show ?thesis if "cn_peer (rl_conn r c) = Some p" "ws_ready (conn_socket r p) = WsOpen" for p
    using connD(6) [OF ok peerD(1) [OF ok c that(1)]] peerD(2) [OF ok c that(1)] e that(2) by simp
qed

lemma stopped_step:
  assumes st: "relay_step lc num env a (d, r) (d', r')" and ok: "relay_ok r" and s: "stopped r"
  shows "silent r' r"
proof -
  have sc: "rl_closed r" and tk: "stopped (take_task i r)" for i
    using s by (simp_all add: stopped_def)
  have T: "silent x r" if "silent x (take_task i r)" for x i using silent_trans [OF that silent_simps(2)] .
  from st show ?thesis
  proof cases
    case event
    then show ?thesis using sc by (simp add: scheduleRevalidation_def)
  next
    case (upgrade destroyed url header)
    then show ?thesis using sc by (simp add: handleUpgrade_def)
  next
    case (upgrade_accept i protocol grant auth destroyed)
    then show ?thesis using sc by (simp add: upgrade_accepted_def)
  next
    case (pair_client i e cg wg wa t t')
    then show ?thesis using stopped_answered [OF tk] task_atD [OF ok] by (fastforce intro: T)
  next
    case (pair_worker i e cg wg ca t t')
    then show ?thesis using stopped_answered [OF tk] task_atD [OF ok] by (fastforce intro: T)
  next
    case (activated i e outcome)
    then have "e < rl_entries (take_task i r)" using task_atD [OF ok] by fastforce
    with activated show ?thesis
      using stopped_activated [OF tk] T T [OF silent_failed] by (auto simp: pair_activation_answered_def split: sum.splits)
  next
    case (message c buffered f)
    then show ?thesis using stopped_message [OF ok s] by (simp add: open_conn_def)
  next
    case round_over
    then show ?thesis using sc by (simp add: revalidation_finally_def)
  next
    case stop
    then show ?thesis using sc by (simp add: relay_stop_def)
  next
    case started
    then show ?thesis using sc by (simp add: relay_start_def)
  next
    case (socket_close c)
    then show ?thesis using silent_trans [OF silent_handlers(7) silent_simps(6)] by simp
  next
    case (upgrade_client i protocol grant destroyed t t')
    then show ?thesis using T [of _ i] by simp
  next
    case (upgrade_worker i protocol grant destroyed t t')
    then show ?thesis using T [of _ i] by simp
  next
    case (activate i e now outcome)
    then show ?thesis using T [of "add_task (PairActivated e outcome) (take_task i r)" i] by simp
  next
    case (stop_drain i)
    then show ?thesis using T [of _ i] by simp
  next
    case (stop_terminate i)
    then show ?thesis using T [of _ i] by simp
  qed simp_all
qed

lemma stopped_run:
  "relay_run lc num env tr s s' \<Longrightarrow> relay_inv (snd s) \<Longrightarrow> stopped (snd s) \<Longrightarrow> silent (snd s') (snd s) \<and> relay_inv (snd s')"
proof (induction rule: relay_run.induct)
  case (more tr s s' a s'')
  then have ih: "silent (snd s') (snd s)" "relay_inv (snd s')" by blast+
  then have "stopped (snd s')" using more.prems(2) stopped_silent by blast
  moreover have st: "relay_step lc num env a (fst s', snd s') (fst s'', snd s'')" using more.hyps(2) by simp
  ultimately have "silent (snd s'') (snd s')" using stopped_step [OF st] ih(2) by (simp add: relay_inv_def)
  then show ?case using ih silent_trans relay_step_ok more.hyps(2) by (metis prod.collapse)
qed simp

section \<open>What a step keeps\<close>

lemma relay_step_lasting:
  assumes st: "relay_step lc num env a (d, r) (d', r')" and ok: "relay_ok r"
  shows "lasting r' r"
proof -
  have S: "lasting x r" if "still x r" for x using that by (simp add: still_def)
  have TK: "lasting x r" if "lasting x (take_task i r)" for x i
    using lasting_trans [OF that] still_simps(2) [of i r] by (simp add: still_def)
  have TS: "lasting x r" if "still x (take_task i r)" for x i using that TK [of x i] unfolding still_def by blast
  have A: "lasting (pair_answered e cg wg ca wa x) x" for e cg wg ca wa x
  proof -
    have "still (pair_settled e (closeEntry e code reason x)) x" for code reason
      using still_trans [OF still_simps(5) still_simps(4)] .
    then show ?thesis
      using activated_lasting [of e x] still_pair_failed [of e x] still_simps(3) [of _ x]
      by (auto simp: pair_answered_def still_def split: option.splits sum.splits)
  qed
  from st show ?thesis
  proof cases
    case (upgrade_accept i protocol grant auth destroyed)
    have "relay_ok (take_task i r)" using upgrade_accept by (intro take_other_task_ok [OF ok]) auto
    moreover have "gc_role (fst auth) \<in> {''client'', ''worker''}" using task_atD [OF ok] upgrade_accept by (fastforce simp: valid_claims_def)
    ultimately show ?thesis using upgrade_accept TS [OF still_accepted] by blast
  next
    case (activated i e outcome)
    then show ?thesis using TK [OF activated_lasting] TS [OF still_pair_failed] by (simp add: pair_activation_answered_def split: sum.splits)
  next
    case (socket_close c)
    then show ?thesis using S still_socket_close [OF ok] by simp
  next
    case started
    then show ?thesis by (intro S) (auto simp: relay_start_def still_same split: if_splits)
  next
    case event
    then show ?thesis by (intro S) (simp add: still_same)
  next
    case round_over
    then show ?thesis by (intro S) (simp add: still_same)
  next
    case (ping c)
    then show ?thesis by (intro S) (simp add: still_same)
  next
    case (pair_client i e cg wg wa t t')
    then show ?thesis using TK [OF A] by simp
  next
    case (pair_worker i e cg wg ca t t')
    then show ?thesis using TK [OF A] by simp
  next
    case (activate i e now outcome)
    then show ?thesis using TS [of "add_task (PairActivated e outcome) (take_task i r)" i] by simp
  next
    case (upgrade_client i protocol grant destroyed t t')
    then show ?thesis using TS [of _ i] by simp
  next
    case (upgrade_worker i protocol grant destroyed t t')
    then show ?thesis using TS [of _ i] by simp
  next
    case (stop_drain i)
    then show ?thesis using TS [of _ i] by simp
  next
    case (stop_terminate i)
    then show ?thesis using TS [of _ i] by simp
  qed (simp_all add: S)
qed

text \<open>Every step but those of the revalidation itself leaves a round as it is.\<close>

lemma relay_step_beside:
  assumes st: "relay_step lc num env a (d, r) (d', r')"
  obtains (beside) "beside_round r' r"
  | (event) "r' = scheduleRevalidation r"
  | (client) e cc wc wa rest t where "rl_revalidation r = CheckPair e cc wc None wa rest"
      "r' = check_answered e cc wc (Some (ask_allocation cc ''client'' t d)) wa rest r" "d' = d"
  | (worker) e cc wc ca rest t where "rl_revalidation r = CheckPair e cc wc ca None rest"
      "r' = check_answered e cc wc ca (Some (ask_allocation wc ''worker'' t d)) rest r" "d' = d"
  | (over) "rl_revalidation r = RoundOver" "r' = revalidation_finally r"
proof -
  have T: "beside_round x r" if "beside_round x (take_task i r)" for x i using beside_trans [OF that] by simp
  from st show ?thesis
  proof cases
    case (socket_close c)
    then show ?thesis using that(1) beside_trans [OF beside_handlers(9) beside_simps(13)] by simp
  next
    case started
    then show ?thesis by (intro that(1)) (auto simp: relay_start_def split: if_splits)
  next
    case (check_client e cc wc wa rest t)
    then show ?thesis using that(3) by blast
  next
    case (check_worker e cc wc ca rest t)
    then show ?thesis using that(4) by blast
  next
    case (activate i e now outcome)
    then show ?thesis using that(1) T [of "add_task (PairActivated e outcome) (take_task i r)" i] by simp
  next
    case (upgrade_client i protocol grant destroyed t t')
    then show ?thesis using that(1) T [of _ i] by simp
  next
    case (upgrade_worker i protocol grant destroyed t t')
    then show ?thesis using that(1) T [of _ i] by simp
  next
    case (upgrade_accept i protocol grant auth destroyed)
    then show ?thesis using that(1) T [of _ i] by simp
  next
    case (pair_client i e cg wg wa t t')
    then show ?thesis using that(1) T [of _ i] by simp
  next
    case (pair_worker i e cg wg ca t t')
    then show ?thesis using that(1) T [of _ i] by simp
  next
    case (activated i e outcome)
    then show ?thesis using that(1) T [of _ i] by simp
  next
    case (stop_drain i)
    then show ?thesis using that(1) T [of _ i] by simp
  next
    case (stop_terminate i)
    then show ?thesis using that(1) T [of _ i] by simp
  qed (auto intro: that)
qed

section \<open>A round reaches every pair\<close>

definition session_ended :: "string \<Rightarrow> db \<Rightarrow> bool" where
  "session_ended sid d \<longleftrightarrow> list_ex (\<lambda>s. s_id s = sid \<and> session_terminal s) (db_sessions d)"

lemma session_ended_steps:
  assumes "session_ended sid d" and "cp_reachable lc num cfg d" and "cp_steps lc num cfg d d'" and "comparator lc"
  shows "session_ended sid d'"
proof -
  from assms(1) obtain s where s: "s \<in> set (db_sessions d)" "s_id s = sid" "session_terminal s"
    by (auto simp: session_ended_def list_ex_iff)
  from cp_steps_evolves [OF assms(2,3,4)] have "grows session_evolves (db_sessions d) (db_sessions d')"
    by (simp add: evolves_def)
  from grows_mem [OF this s(1)] s have "s \<in> set (db_sessions d')" by (auto simp: session_evolves_def)
  with s show ?thesis by (auto simp: session_ended_def list_ex_iff)
qed

text \<open>The service knows no allocation of a session that has ended.\<close>

lemma ended_answer:
  assumes e: "session_ended (en_sessionId en) d" and u: "distinct (map s_id (db_sessions d))"
    and a: "ask_allocation cc role t d = Inr x"
  shows "\<not> sameAllocation x en"
proof
  assume sa: "sameAllocation x en"
  then obtain c s where x: "x = Some (c, s)" and c: "gc_sessionId c = en_sessionId en"
    by (auto simp: sameAllocation_def split: option.splits)
  have g: "getSession (en_sessionId en) d = Some s" and al: "session_allocated s"
    using ask_allocation_Some(4,5) [OF a [unfolded x]] c by simp_all
  from g have s: "s \<in> set (db_sessions d)" "s_id s = en_sessionId en"
    by (auto simp: getSession_def dest: sql_get_filter_Some)
  from e obtain s' where "s' \<in> set (db_sessions d)" "s_id s' = en_sessionId en" "session_terminal s'"
    by (auto simp: session_ended_def list_ex_iff)
  with key_unique [OF u _ s(1)] s(2) al show False by (auto simp: session_terminal_def session_allocated_def)
qed

text \<open>
  The pair \<open>e\<close> is taken care of: it is closed, or a round has failed since, or the running round is
  still to check it, with no answer so far that would spare it.
\<close>

definition no_match :: "answer option \<Rightarrow> pair_entry \<Rightarrow> bool" where
  "no_match a en \<longleftrightarrow> (\<forall>x. a = Some (Inr x) \<longrightarrow> \<not> sameAllocation x en)"

definition awaiting :: "nat \<Rightarrow> relay \<Rightarrow> bool" where
  "awaiting e r \<longleftrightarrow> (case rl_revalidation r of
      CheckPair x _ _ ca wa rest \<Rightarrow> e \<in> set rest \<or> x = e \<and> no_match ca (rl_entry r e) \<and> no_match wa (rl_entry r e)
    | _ \<Rightarrow> False)"

definition watched :: "nat \<Rightarrow> nat \<Rightarrow> relay \<Rightarrow> bool" where
  "watched e n r \<longleftrightarrow> e < rl_entries r \<and>
     (en_closed (rl_entry r e) \<or> n < rl_revalidationFailures r \<or> n \<le> rl_revalidationFailures r \<and> awaiting e r)"

lemma sameAllocation_cong:
  "allocation_of en' = allocation_of en \<Longrightarrow> sameAllocation x en' = sameAllocation x en"
  by (auto simp: allocation_of_def sameAllocation_def split: option.splits)

lemma awaiting_cong:
  assumes "rl_revalidation r' = rl_revalidation r" and "allocation_of (rl_entry r' e) = allocation_of (rl_entry r e)"
  shows "awaiting e r' = awaiting e r"
  using assms sameAllocation_cong [OF assms(2)] by (simp add: awaiting_def no_match_def cong: revalidation.case_cong)

lemma watched_beside:
  assumes w: "watched e n r" and l: "lasting r' r" and b: "beside_round r' r"
  shows "watched e n r'"
proof -
  have e: "e < rl_entries r" using w by (simp add: watched_def)
  with l have "allocation_of (rl_entry r' e) = allocation_of (rl_entry r e)"
    "en_closed (rl_entry r e) \<Longrightarrow> en_closed (rl_entry r' e)" by (simp_all add: lasting_def)
  with awaiting_cong [of r' r e] w b show ?thesis by (auto simp: watched_def beside_round_def)
qed

lemma next_pair_progress:
  "rl_revalidationFailures r \<le> rl_revalidationFailures (next_pair es r)"
  "e \<in> set es \<Longrightarrow> rl_revalidationFailures r < rl_revalidationFailures (next_pair es r) \<or> awaiting e (next_pair es r)"
  by (auto simp: next_pair_def revalidation_failed_def awaiting_def no_match_def split: list.splits option.splits)

lemma next_pair_entry [simp]: "rl_entry (next_pair es r) = rl_entry r" "rl_entries (next_pair es r) = rl_entries r"
  using next_pair_same [of es r] by (simp_all add: same_relay_def)

lemma watched_next:
  assumes "e < rl_entries r" and "en_closed (rl_entry r e) \<or> n < rl_revalidationFailures r \<or> n \<le> rl_revalidationFailures r \<and> e \<in> set es"
  shows "watched e n (next_pair es r)"
  using assms next_pair_progress(1) [of r es] next_pair_progress(2) [of e es r] by (auto simp: watched_def)

lemma watched_checked:
  assumes w: "watched e n r" and rv: "rl_revalidation r = CheckPair x cc wc ca0 wa0 rest"
    and ca: "e = x \<Longrightarrow> no_match ca0 (rl_entry r e) \<Longrightarrow> no_match ca (rl_entry r e)"
    and wa: "e = x \<Longrightarrow> no_match wa0 (rl_entry r e) \<Longrightarrow> no_match wa (rl_entry r e)"
  shows "watched e n (check_answered x cc wc ca wa rest r)"
proof -
  have failed: "watched e n (revalidation_failed r)"
    using w by (auto simp: watched_def revalidation_failed_def)
  have waiting: "watched e n (r\<lparr>rl_revalidation := CheckPair x cc wc ca wa rest\<rparr>)"
    using w rv ca wa by (auto simp: watched_def awaiting_def)
  have "watched e n (next_pair rest (pair_checked x a b r))" if "ca = Some (Inr a)" "wa = Some (Inr b)" for a b
    using w rv ca wa that by (intro watched_next) (auto simp: watched_def pair_checked_def awaiting_def no_match_def)
  with failed waiting show ?thesis by (auto simp: check_answered_def split: option.splits sum.splits)
qed

lemma watched_schedule:
  assumes w: "watched e n r" shows "watched e n (scheduleRevalidation r)"
proof -
  have "watched e n (r\<lparr>rl_revalidationPending := True\<rparr>)"
    using w awaiting_cong [of "r\<lparr>rl_revalidationPending := True\<rparr>" r e] by (simp add: watched_def)
  moreover have "watched e n (revalidatePairs r)" if "rl_revalidation r = NoRound"
    unfolding revalidatePairs_def using w that by (intro watched_next) (auto simp: watched_def awaiting_def)
  ultimately show ?thesis using w by (simp add: scheduleRevalidation_def)
qed

lemma watched_finally:
  assumes w: "watched e n r" and o: "rl_revalidation r = RoundOver"
  shows "watched e n (revalidation_finally r)"
proof -
  have "watched e n (r\<lparr>rl_revalidation := NoRound\<rparr>)" "watched e n (r\<lparr>rl_revalidation := NoRound, rl_revalidationPending := False\<rparr>)"
    using w o by (simp_all add: watched_def awaiting_def)
  then show ?thesis using watched_schedule unfolding revalidation_finally_def Let_def by simp
qed

lemma watched_step:
  assumes st: "relay_step lc num env a (d, r) (d', r')" and ok: "relay_ok r" and w: "watched e n r"
    and ended: "session_ended (en_sessionId (rl_entry r e)) d" and u: "distinct (map s_id (db_sessions d))"
  shows "watched e n r'"
proof -
  have no: "no_match (Some (ask_allocation cc role t d)) (rl_entry r e)" for cc role t
    using ended_answer [OF ended u, of cc role t] by (auto simp: no_match_def)
  from st show ?thesis
  proof (rule relay_step_beside)
    assume "beside_round r' r"
    then show ?thesis using watched_beside [OF w relay_step_lasting [OF st ok]] by blast
  next
    assume "r' = scheduleRevalidation r"
    then show ?thesis using watched_schedule [OF w] by simp
  next
    fix x cc wc wa rest t
    assume rv: "rl_revalidation r = CheckPair x cc wc None wa rest"
      and r': "r' = check_answered x cc wc (Some (ask_allocation cc ''client'' t d)) wa rest r"
    show ?thesis unfolding r' using watched_checked [OF w rv no] by blast
  next
    fix x cc wc ca rest t
    assume rv: "rl_revalidation r = CheckPair x cc wc ca None rest"
      and r': "r' = check_answered x cc wc ca (Some (ask_allocation wc ''worker'' t d)) rest r"
    show ?thesis unfolding r' using watched_checked [OF w rv _ no] by blast
  next
    assume "rl_revalidation r = RoundOver" "r' = revalidation_finally r"
    then show ?thesis using watched_finally [OF w] by simp
  qed
qed

lemma watched_run:
  assumes "relay_run lc num env tr s s'" and "relay_inv (snd s)" and "watched e n (snd s)"
    and "session_ended (en_sessionId (rl_entry (snd s) e)) (fst s)" and "cp_reachable lc num (ev_service env) (fst s)" and "comparator lc"
  shows "watched e n (snd s') \<and> relay_inv (snd s') \<and> en_sessionId (rl_entry (snd s') e) = en_sessionId (rl_entry (snd s) e)"
  using assms
proof (induction rule: relay_run.induct)
  case (more tr s s' a s'')
  then have ih: "watched e n (snd s')" "relay_inv (snd s')" "en_sessionId (rl_entry (snd s') e) = en_sessionId (rl_entry (snd s) e)"
    by blast+
  have st: "relay_step lc num env a (fst s', snd s') (fst s'', snd s'')" using more.hyps(2) by simp
  have steps: "cp_steps lc num (ev_service env) (fst s) (fst s')" using relay_run_db [OF more.hyps(1)] .
  have ended: "session_ended (en_sessionId (rl_entry (snd s') e)) (fst s')"
    unfolding ih(3) using session_ended_steps [OF more.prems(3,4) steps more.prems(5)] .
  have "distinct (map s_id (db_sessions (fst s')))"
    using cp_steps_evolves [OF more.prems(4) steps more.prems(5)] by (simp add: evolves_def db_ok_def sessions_ok_def)
  from watched_step [OF st _ ih(1) ended this] ih(2) have "watched e n (snd s'')" by (simp add: relay_inv_def)
  moreover have "lasting (snd s'') (snd s')" using relay_step_lasting [OF st] ih(2) by (simp add: relay_inv_def)
  then have "en_sessionId (rl_entry (snd s'') e) = en_sessionId (rl_entry (snd s') e)"
    using ih(1) by (simp add: lasting_def watched_def allocation_of_def)
  ultimately show ?case using ih(3) relay_step_ok [OF st ih(2)] by simp
qed simp

section \<open>An uninterrupted round\<close>

lemma relay_run_trans:
  "relay_run lc num env tr' s' s'' \<Longrightarrow> relay_run lc num env tr s s' \<Longrightarrow> relay_run lc num env (tr @ tr') s s''"
proof (induction rule: relay_run.induct)
  case (more tr' s' s'' a s3)
  then show ?case using relay_run.more [OF more.IH [OF more.prems] more.hyps(2)] by simp
qed simp

lemma relay_run_two:
  assumes "relay_step lc num env a s s1" and "relay_step lc num env b s1 s2"
  shows "relay_run lc num env [a, b] s s2"
  using relay_run.more [OF relay_run.more [OF relay_run.none assms(1)] assms(2)] by simp

definition authorised :: "int \<Rightarrow> db \<Rightarrow> relay \<Rightarrow> nat \<Rightarrow> bool" where
  "authorised t d r e =
     (case (en_client (rl_entry r e), en_worker (rl_entry r e)) of
        (Some c, Some w) \<Rightarrow>
          (case (ask_allocation (cn_claims (rl_conn r c)) ''client'' t d, ask_allocation (cn_claims (rl_conn r w)) ''worker'' t d) of
             (Inr a, Inr b) \<Rightarrow> sameAllocation a (rl_entry r e) \<and> sameAllocation b (rl_entry r e)
           | _ \<Rightarrow> False)
      | _ \<Rightarrow> False)"

lemma ask_valid:
  assumes "valid_claims cc" and "gc_role cc = role"
  obtains x where "ask_allocation cc role t d = Inr x"
proof -
  have "role \<in> {''client'', ''worker''}" using assms by (auto simp: valid_claims_def)
  then have "ask_allocation cc role t d \<noteq> Inl err" for err
    using validateDataPlaneGrantClaims_id [OF assms(1)]
    by (auto simp: ask_allocation_def authorizeDataPlaneAllocation_def validateDataPlaneRole_def split: option.splits)
  then show ?thesis using that by (cases "ask_allocation cc role t d") auto
qed

lemma authorised_checked:
  assumes "rl_entry r' = (rl_entry r)(e := (rl_entry r e)\<lparr>en_closed := b\<rparr>)" and "\<And>c. cn_claims (rl_conn r' c) = cn_claims (rl_conn r c)"
  shows "authorised t d r' x = authorised t d r x"
proof -
  have "en_client (rl_entry r' x) = en_client (rl_entry r x)" "en_worker (rl_entry r' x) = en_worker (rl_entry r x)"
    "allocation_of (rl_entry r' x) = allocation_of (rl_entry r x)" using assms(1) by simp_all
  then show ?thesis
    using assms(2) sameAllocation_cong [of "rl_entry r' x" "rl_entry r x"]
    by (simp add: authorised_def cong: option.case_cong sum.case_cong)
qed

lemma round_runs:
  assumes "relay_ok r" and "\<forall>e \<in> set es. e < rl_entries r \<and> en_client (rl_entry r e) \<noteq> None \<and> en_worker (rl_entry r e) \<noteq> None"
  shows "\<exists>r'. relay_run lc num env (replicate (2 * length es) Internal) (d, next_pair es r) (d, r') \<and>
    rl_revalidation r' = RoundOver \<and> rl_revalidationFailures r' = rl_revalidationFailures r \<and>
    rl_entries r' = rl_entries r \<and>
    (\<forall>x. en_closed (rl_entry r' x) \<longleftrightarrow> en_closed (rl_entry r x) \<or> x \<in> set es \<and> \<not> authorised t d r x)"
  using assms
proof (induction es arbitrary: r)
  case Nil
  show ?case
    by (rule exI [of _ "next_pair [] r"]) (simp add: next_pair_def relay_run.none)
next
  case (Cons e es)
  then obtain c w where cw: "en_client (rl_entry r e) = Some c" "en_worker (rl_entry r e) = Some w" and e: "e < rl_entries r" by auto
  note ok = Cons.prems(1)
  let ?cc = "cn_claims (rl_conn r c)" and ?wc = "cn_claims (rl_conn r w)"
  have cl: "valid_claims ?cc" "gc_role ?cc = ''client''" "valid_claims ?wc" "gc_role ?wc = ''worker''"
    using connD(7,8) [OF ok clientD(1) [OF ok e cw(1)]] connD(7,8) [OF ok workerD(1) [OF ok e cw(2)]]
      clientD(3) [OF ok e cw(1)] workerD(3) [OF ok e cw(2)] by simp_all
  obtain a where a: "ask_allocation ?cc ''client'' t d = Inr a" using ask_valid [OF cl(1,2)] .
  obtain b where b: "ask_allocation ?wc ''worker'' t d = Inr b" using ask_valid [OF cl(3,4)] .
  let ?r0 = "r\<lparr>rl_revalidation := CheckPair e ?cc ?wc None None es\<rparr>"
  let ?r1 = "r\<lparr>rl_revalidation := CheckPair e ?cc ?wc (Some (Inr a)) None es\<rparr>"
  let ?r2 = "pair_checked e a b ?r1"
  have n: "next_pair (e # es) r = ?r0" using cw by (simp add: next_pair_def)
  have s1: "relay_step lc num env Internal (d, ?r0) (d, ?r1)"
    using relay_step.check_client [of ?r0 e ?cc ?wc None es lc num env d t] by (simp add: a check_answered_def)
  have s2: "relay_step lc num env Internal (d, ?r1) (d, next_pair es ?r2)"
    using relay_step.check_worker [of ?r1 e ?cc ?wc "Some (Inr a)" es lc num env d t] by (simp add: b check_answered_def)
  have k1: "same_relay ?r1 r" by simp
  then have ok1: "relay_ok ?r1" using same_relayI [OF ok] by blast
  have en: "rl_entry ?r2 = (rl_entry r)(e := (rl_entry r e)\<lparr>en_closed := en_closed (rl_entry r e) \<or> \<not> authorised t d r e\<rparr>)"
    using cw a b by (auto simp: pair_checked_def authorised_def fun_eq_iff)
  have cc: "cn_claims (rl_conn ?r2 x) = cn_claims (rl_conn r x)" for x by (simp add: pair_checked_def)
  have f2: "rl_entries ?r2 = rl_entries r" "rl_revalidationFailures ?r2 = rl_revalidationFailures r" by (simp_all add: pair_checked_def)
  have ok2: "relay_ok ?r2" using ok1 e by (auto simp: pair_checked_def intro!: closeEntry_ok)
  have "\<forall>x \<in> set es. x < rl_entries ?r2 \<and> en_client (rl_entry ?r2 x) \<noteq> None \<and> en_worker (rl_entry ?r2 x) \<noteq> None"
    unfolding en f2 using Cons.prems(2) by simp
  from Cons.IH [OF ok2 this] obtain r' where
    r': "relay_run lc num env (replicate (2 * length es) Internal) (d, next_pair es ?r2) (d, r')"
      "rl_revalidation r' = RoundOver" "rl_revalidationFailures r' = rl_revalidationFailures r" "rl_entries r' = rl_entries r"
      "\<forall>x. en_closed (rl_entry r' x) \<longleftrightarrow> en_closed (rl_entry ?r2 x) \<or> x \<in> set es \<and> \<not> authorised t d r x"
    unfolding f2 authorised_checked [OF en cc] by blast
  have "relay_run lc num env (replicate (2 * length (e # es)) Internal) (d, next_pair (e # es) r) (d, r')"
    using relay_run_trans [OF r'(1) relay_run_two [OF s1 s2]] by (simp add: n)
  moreover have "en_closed (rl_entry r' x) \<longleftrightarrow> en_closed (rl_entry r x) \<or> x \<in> set (e # es) \<and> \<not> authorised t d r x" for x
    using r'(5) unfolding en by auto
  ultimately show ?case using r'(2-4) by blast
qed

lemma live_entries_iff:
  assumes "relay_ok r"
  shows "e \<in> set (live_entries r) \<longleftrightarrow> e < rl_entries r \<and> en_active (rl_entry r e) \<and> \<not> en_closed (rl_entry r e)"
proof -
  have p: "pairs_ok r" using assms by (simp add: relay_ok_def)
  have "e < rl_entries r" if "e \<in> snd ` set (rl_pairs r)" using p that by (auto simp: pairs_ok_def)
  moreover have "e \<in> snd ` set (rl_pairs r)" if "e < rl_entries r" "\<not> en_closed (rl_entry r e)"
    using p that by (force simp: pairs_ok_def)
  ultimately show ?thesis by (auto simp: live_entries_def)
qed

lemma live_entries_filled:
  assumes "relay_ok r" and "e \<in> set (live_entries r)"
  shows "e < rl_entries r \<and> en_client (rl_entry r e) \<noteq> None \<and> en_worker (rl_entry r e) \<noteq> None"
proof -
  note l = assms(2) [unfolded live_entries_iff [OF assms(1)]]
  have "links_ok r" using assms(1) by (simp add: relay_ok_def)
  with l show ?thesis unfolding links_ok_def by blast
qed

end
