(* ===== verification/RelayGuarantees.thy ===== *)
theory RelayGuarantees
  imports RelayRounds Guarantees
begin

text \<open>
  The properties of the relay beside the control plane, with the concrete run their witnesses use:
  a client on the second protocol version and a worker on the first are paired for the session of
  the control plane's sample run, and the worker sends a frame.
\<close>

section \<open>A concrete run\<close>

definition pair_claims :: "string \<Rightarrow> grant_claims" where
  "pair_claims role = sample_grant_claims\<lparr>gc_role := role\<rparr>"

text \<open>The same for a second session.\<close>

definition second_claims :: "string \<Rightarrow> grant_claims" where
  "second_claims role = (pair_claims role)\<lparr>gc_sessionId := ''session_t''\<rparr>"

definition pair_token :: "string \<Rightarrow> string" where
  "pair_token payload = TOKEN_PREFIX @ ''.'' @ base64url payload @ ''.'' @ ''ZGlnZXN0''"

definition pair_env :: relay_env where
  "pair_env = \<lparr>ev_url = \<lambda>u. Some (u, []),
     ev_decode = \<lambda>b. if b = ''c'' then Some (claims_js (pair_claims ''client''))
       else if b = ''w'' then Some (claims_js (pair_claims ''worker''))
       else if b = ''d'' then Some (claims_js (second_claims ''client''))
       else if b = ''v'' then Some (claims_js (second_claims ''worker'')) else None,
     ev_hmac = sample_digest, ev_service = sample_service\<rparr>"

definition run_connecting :: db where
  "run_connecting = snd (startSession sample_service ''session_s'' sample_lease_request 4000 run5)"

definition sample_connecting_session :: session where
  "sample_connecting_session = sample_allocated_session\<lparr>s_status := Connecting, s_leaseExpiresAt := Some 64000, s_updatedAt := 4000\<rparr>"

definition run_active :: db where
  "run_active = snd (activateSession sample_service ''session_s'' sample_lease_request 6000 run_connecting)"

lemma run_connecting_eq: "db_sessions run_connecting = [sample_connecting_session]"
  by code_simp

lemma run_active_eq: "db_sessions run_active = [sample_connecting_session\<lparr>s_status := Active, s_leaseExpiresAt := Some 66000, s_updatedAt := 6000\<rparr>]"
  by code_simp

lemma activate_sample:
  "activateSession sample_service ''session_s'' sample_lease_request 6000 run_connecting =
   (Inr (sample_connecting_session\<lparr>s_status := Active, s_leaseExpiresAt := Some 66000, s_updatedAt := 6000\<rparr>), run_active)"
proof -
  have "fst (activateSession sample_service ''session_s'' sample_lease_request 6000 run_connecting) =
      Inr (sample_connecting_session\<lparr>s_status := Active, s_leaseExpiresAt := Some 66000, s_updatedAt := 6000\<rparr>)"
    by code_simp
  then show ?thesis by (simp add: run_active_def prod_eq_iff)
qed

lemma activate_pair:
  assumes "en_sessionId en = ''session_s''" and "en_workerId en = ''w1''" and "en_leaseId en = ''lease_u''"
  shows "activateSession (ev_service pair_env) (en_sessionId en) (activation_request en) 6000 run_connecting =
   (Inr (sample_connecting_session\<lparr>s_status := Active, s_leaseExpiresAt := Some 66000, s_updatedAt := 6000\<rparr>), run_active)"
proof -
  have "activation_request en = JObj [(''workerId'', JStr ''w1''), (''leaseId'', JStr ''lease_u'')]"
    using assms by (simp add: activation_request_def)
  moreover have "validateLeaseAction (JObj [(''workerId'', JStr ''w1''), (''leaseId'', JStr ''lease_u'')]) =
      validateLeaseAction sample_lease_request"
    by code_simp
  ultimately have "validateLeaseAction (activation_request en) = validateLeaseAction sample_lease_request"
    by simp
  with assms show ?thesis
    using activate_sample by (simp add: activateSession_def pair_env_def)
qed

lemma run_connecting_reachable: "cp_reachable str_cmp (\<lambda>_. []) sample_service run_connecting"
  unfolding run_connecting_def by (rule cp_steps.more [OF run5_reachable cp_step.start_session])

lemma pair_payloads: "base64url ''c'' = ''Yw''" "base64url ''w'' = ''dw''" "base64url ''d'' = ''ZA''" "base64url ''v'' = ''dg''"
  "base64url ''digest'' = ''ZGlnZXN0''"
  by code_simp+

lemma token_verified:
  assumes "p \<in> {''c'', ''w'', ''d'', ''v''}" and "ev_decode pair_env p = Some (claims_js cl)" and "valid_claims cl"
    and "gc_issuedAt cl \<le> t" and "t < gc_expiresAt cl" and "0 \<le> t" and "t \<le> max_safe_integer"
  shows "verifyDataPlaneGrant (ev_decode pair_env) (ev_hmac pair_env) (JStr (pair_token p)) (cf_dataPlaneSigningKey (ev_service pair_env)) t =
    Inr (Some cl)"
proof -
  have s: "grant_signature sample_digest sample_key q = ''ZGlnZXN0''" for q
    unfolding grant_signature_def sample_digest_def pair_payloads ..
  have key: "cf_dataPlaneSigningKey sample_service = JStr sample_key" by (simp add: sample_service_def)
  have env: "ev_hmac pair_env = sample_digest" "ev_service pair_env = sample_service" by (simp_all add: pair_env_def)
  obtain e where e: "base64url p = e" and es: "e = ''Yw'' \<or> e = ''dw'' \<or> e = ''ZA'' \<or> e = ''dg''"
    using assms(1) pair_payloads by auto
  have d: "base64url_decode e = p" unfolding e [symmetric] by simp
  from es show ?thesis
    unfolding pair_token_def e verifyDataPlaneGrant_def validateSigningKey_def env key
    by (elim disjE) (use d assms(2,4-7) in \<open>simp_all add: sample_key_length TOKEN_PREFIX_def utf8_length_simps
        DATA_PLANE_GRANT_MAX_TOKEN_BYTES_def isBase64Url_def b64_alphabet_def Let_def s validateDataPlaneGrantClaims_id [OF assms(3)]\<close>)
qed

lemma pair_claims_valid: "role \<in> {''client'', ''worker''} \<Longrightarrow> valid_claims (pair_claims role)"
  by (auto simp: valid_claims_def pair_claims_def sample_grant_claims_def DATA_PLANE_GRANT_MAX_TTL_MS_def max_safe_integer_def)

lemma pair_verified:
  assumes "p = ''c'' \<and> role = ''client'' \<or> p = ''w'' \<and> role = ''worker''" and "4000 \<le> t" and "t < 19000"
  shows "verifyDataPlaneGrant (ev_decode pair_env) (ev_hmac pair_env) (JStr (pair_token p)) (cf_dataPlaneSigningKey (ev_service pair_env)) t =
    Inr (Some (pair_claims role))"
proof -
  have "gc_issuedAt (pair_claims role) \<le> t" "t < gc_expiresAt (pair_claims role)"
    using assms(2,3) by (simp_all add: pair_claims_def sample_grant_claims_def)
  with assms show ?thesis using pair_claims_valid [of role] by (intro token_verified) (auto simp: pair_env_def max_safe_integer_def)
qed

lemma pair_allocation:
  assumes "role \<in> {''client'', ''worker''}" and "db_sessions d = [s]" and "s_id s = ''session_s''" and "session_allocated s"
    and "s_assignedWorkerId s = Some ''w1''" and "s_leaseId s = Some ''lease_u''" and "s_leaseExpiresAt s = Some e" and "t < e" and "\<bar>e\<bar> \<le> max_safe_integer"
  shows "ask_allocation (pair_claims role) role t d = Inr (Some (pair_claims role, s))"
  using assms(1,3-9) unfolding ask_allocation_def authorizeDataPlaneAllocation_def validateDataPlaneGrantClaims_id [OF pair_claims_valid [OF assms(1)]]
  by (auto simp: validateDataPlaneRole_def pair_claims_def sample_grant_claims_def getSession_def assms(2) safe_lease_expiry_def)

lemma pair_mismatch:
  assumes "role \<in> {''client'', ''worker''}" and "expected \<in> {''client'', ''worker''}" and "role \<noteq> expected"
  shows "ask_allocation (pair_claims role) expected t d = Inr None"
  using assms unfolding ask_allocation_def authorizeDataPlaneAllocation_def validateDataPlaneGrantClaims_id [OF pair_claims_valid [OF assms(1)]]
  by (auto simp: validateDataPlaneRole_def pair_claims_def)

lemma lapsed_allocation:
  "role \<in> {''client'', ''worker''} \<Longrightarrow> ask_allocation (pair_claims role) role 70000 run_active = Inr None"
  unfolding ask_allocation_def authorizeDataPlaneAllocation_def
  by (auto simp: validateDataPlaneGrantClaims_id [OF pair_claims_valid] validateDataPlaneRole_def getSession_def run_active_eq
      safe_lease_expiry_def split: option.splits)

lemma pair_ask:
  assumes "p = ''c'' \<and> role = ''client'' \<or> p = ''w'' \<and> role = ''worker''" and "expected \<in> {''client'', ''worker''}"
  shows "ask_grant pair_env (pair_token p) expected 5000 5000 d = ask_allocation (pair_claims role) expected 5000 d"
  using pair_verified [OF assms(1), of 5000] assms(2)
  by (auto simp: ask_grant_def authorizeDataPlaneGrant_def ask_allocation_def validateDataPlaneRole_def)

lemma connecting_allocation:
  "role \<in> {''client'', ''worker''} \<Longrightarrow>
   ask_allocation (pair_claims role) role 5000 run_connecting = Inr (Some (pair_claims role, sample_connecting_session))"
  by (rule pair_allocation [OF _ run_connecting_eq])
    (auto simp: sample_connecting_session_def sample_allocated_session_def session_allocated_def max_safe_integer_def)

lemma pair_asked:
  "ask_grant pair_env (pair_token ''c'') ''client'' 5000 5000 run_connecting = Inr (Some (pair_claims ''client'', sample_connecting_session))"
  "ask_grant pair_env (pair_token ''w'') ''worker'' 5000 5000 run_connecting = Inr (Some (pair_claims ''worker'', sample_connecting_session))"
  "ask_grant pair_env (pair_token ''w'') ''client'' 5000 5000 run_connecting = Inr None"
  using pair_ask [of "''c''" "''client''" "''client''"] pair_ask [of "''w''" "''worker''" "''worker''"] pair_ask [of "''w''" "''worker''" "''client''"]
    connecting_allocation pair_mismatch [of "''worker''" "''client''"] by simp_all

text \<open>The states of the run: the client is accepted, the worker is accepted, they are paired, a frame arrives.\<close>

definition relay1 :: relay where
  "relay1 = upgrade_accepted False DATA_PLANE_SUBPROTOCOL_V2 (pair_token ''c'') (pair_claims ''client'', sample_connecting_session) relay_init"

definition relay2 :: relay where
  "relay2 = upgrade_accepted False DATA_PLANE_SUBPROTOCOL (pair_token ''w'') (pair_claims ''worker'', sample_connecting_session) relay1"

definition relay3 :: relay where
  "relay3 = pair_activated 0 (take_task 0 relay2)"

definition relay4 :: relay where
  "relay4 = onMessage 1 (''hello'', False) 0 relay3"

lemmas relay_run_defs = upgrade_accepted_def open_socket_def acceptConnection_def lookup_entry_def join_entry_def new_entry_def
  new_conn_def tryPair_def set_slot_def slot_def Let_def relay_init_def upd_entry_def upd_conn_def upd_socket_def add_task_def
  pair_claims_def sample_grant_claims_def pairingKey_def

lemma relay1_eq:
  "rl_tasks relay1 = []" "rl_conns relay1 = 1" "rl_sockets relay1 = 1" "rl_entries relay1 = 1" "rl_closed relay1 = False"
  "rl_pairs relay1 = [(pairingKey (pair_claims ''client''), 0)]" "rl_revalidation relay1 = NoRound"
  "rl_entry relay1 0 = (new_entry (pair_claims ''client''))\<lparr>en_client := Some 0\<rparr>"
  "rl_conn relay1 0 = new_conn 0 (pair_token ''c'') DATA_PLANE_SUBPROTOCOL_V2 (pair_claims ''client'') 0"
  "rl_socket relay1 0 = \<lparr>ws_ready = WsOpen, ws_sent = [], ws_close = None\<rparr>"
  by (simp_all add: relay1_def relay_run_defs)

lemma pair_key: "pairingKey (pair_claims ''worker'') = pairingKey (pair_claims ''client'')"
  by (simp add: pairingKey_def pair_claims_def)

lemma relay2_eq:
  "rl_tasks relay2 = [PairAuthorize 0 (pair_token ''c'') (pair_token ''w'') None None]" "rl_conns relay2 = 2" "rl_sockets relay2 = 2"
  "rl_entries relay2 = 1" "rl_closed relay2 = False" "rl_revalidation relay2 = NoRound"
  "rl_pairs relay2 = [(pairingKey (pair_claims ''client''), 0)]"
  "rl_entry relay2 0 = (new_entry (pair_claims ''client''))\<lparr>en_client := Some 0, en_worker := Some 1, en_activating := True\<rparr>"
  "rl_conn relay2 0 = new_conn 0 (pair_token ''c'') DATA_PLANE_SUBPROTOCOL_V2 (pair_claims ''client'') 0"
  "rl_conn relay2 1 = new_conn 1 (pair_token ''w'') DATA_PLANE_SUBPROTOCOL (pair_claims ''worker'') 0"
  "rl_socket relay2 0 = \<lparr>ws_ready = WsOpen, ws_sent = [], ws_close = None\<rparr>"
  "rl_socket relay2 1 = \<lparr>ws_ready = WsOpen, ws_sent = [], ws_close = None\<rparr>"
proof -
  have k: "map_of (rl_pairs (open_socket relay1)) (pairingKey (pair_claims ''worker'')) = Some 0"
    by (simp add: relay1_eq pair_key)
  have "gc_role (pair_claims ''worker'') = ''worker''" by (simp add: pair_claims_def)
  then have r2: "relay2 = join_entry 1 (pair_token ''w'') DATA_PLANE_SUBPROTOCOL (pair_claims ''worker'') 0 (open_socket relay1)"
    by (simp add: relay2_def upgrade_accepted_def acceptConnection_def lookup_entry_def k pair_key relay1_eq slot_def new_entry_def)
  show "rl_tasks relay2 = [PairAuthorize 0 (pair_token ''c'') (pair_token ''w'') None None]" "rl_conns relay2 = 2" "rl_sockets relay2 = 2"
    "rl_entries relay2 = 1" "rl_closed relay2 = False" "rl_revalidation relay2 = NoRound"
    "rl_pairs relay2 = [(pairingKey (pair_claims ''client''), 0)]"
    "rl_entry relay2 0 = (new_entry (pair_claims ''client''))\<lparr>en_client := Some 0, en_worker := Some 1, en_activating := True\<rparr>"
    "rl_conn relay2 0 = new_conn 0 (pair_token ''c'') DATA_PLANE_SUBPROTOCOL_V2 (pair_claims ''client'') 0"
    "rl_conn relay2 1 = new_conn 1 (pair_token ''w'') DATA_PLANE_SUBPROTOCOL (pair_claims ''worker'') 0"
    "rl_socket relay2 0 = \<lparr>ws_ready = WsOpen, ws_sent = [], ws_close = None\<rparr>"
    "rl_socket relay2 1 = \<lparr>ws_ready = WsOpen, ws_sent = [], ws_close = None\<rparr>"
    unfolding r2
    by (simp_all add: join_entry_def tryPair_def Let_def relay1_eq set_slot_def new_entry_def pair_claims_def new_conn_def sample_grant_claims_def)
qed


lemma protocol_distinct [simp]: "DATA_PLANE_SUBPROTOCOL \<noteq> DATA_PLANE_SUBPROTOCOL_V2" "DATA_PLANE_SUBPROTOCOL_V2 \<noteq> DATA_PLANE_SUBPROTOCOL"
  by (simp_all add: DATA_PLANE_SUBPROTOCOL_def DATA_PLANE_SUBPROTOCOL_V2_def)

lemma relay3_eq:
  "rl_conns relay3 = 2" "rl_entries relay3 = 1" "rl_closed relay3 = False" "rl_tasks relay3 = []" "rl_revalidation relay3 = NoRound"
  "cn_peer (rl_conn relay3 0) = Some 1" "cn_peer (rl_conn relay3 1) = Some 0"
  "cn_socket (rl_conn relay3 0) = 0" "cn_socket (rl_conn relay3 1) = 1" "cn_entry (rl_conn relay3 0) = 0" "cn_entry (rl_conn relay3 1) = 0"
  "cn_protocol (rl_conn relay3 0) = DATA_PLANE_SUBPROTOCOL_V2" "cn_protocol (rl_conn relay3 1) = DATA_PLANE_SUBPROTOCOL"
  "cn_grant (rl_conn relay3 0) = pair_token ''c''" "cn_grant (rl_conn relay3 1) = pair_token ''w''"
  "cn_role (rl_conn relay3 0) = ''client''" "cn_role (rl_conn relay3 1) = ''worker''"
  "cn_claims (rl_conn relay3 0) = pair_claims ''client''" "cn_claims (rl_conn relay3 1) = pair_claims ''worker''"
  "en_active (rl_entry relay3 0)" "\<not> en_closed (rl_entry relay3 0)" "en_client (rl_entry relay3 0) = Some 0" "en_worker (rl_entry relay3 0) = Some 1"
  "allocation_of (rl_entry relay3 0) = (''session_s'', ''w1'', ''lease_u'')"
  "rl_socket relay3 0 = \<lparr>ws_ready = WsOpen, ws_sent = [ready_frame], ws_close = None\<rparr>"
  "rl_socket relay3 1 = \<lparr>ws_ready = WsOpen, ws_sent = [], ws_close = None\<rparr>"
  "rl_pairs relay3 = [(pairingKey (pair_claims ''client''), 0)]"
  by (simp_all add: relay3_def pair_activated_def Let_def take_task_def relay2_eq [unfolded One_nat_def] link_peers_def clearPeerTimer_def resetIdleTimers_def
      resetIdleTimer_def pair_settled_def push_frame_def new_conn_def new_entry_def)
    (simp_all add: pair_claims_def sample_grant_claims_def allocation_of_def)

lemma relay4_sent: "ws_sent (conn_socket relay4 0) = [ready_frame, (''hello'', False)]"
  and relay4_eq: "rl_conns relay4 = 2" "cn_peer (rl_conn relay4 0) = Some 1" "cn_protocol (rl_conn relay4 0) = DATA_PLANE_SUBPROTOCOL_V2"
  "cn_entry (rl_conn relay4 0) = 0" "\<not> en_closed (rl_entry relay4 0)"
  by (simp_all add: relay3_eq [unfolded One_nat_def] relay4_def onMessage_def Let_def validateDataPlaneFrameSize_def isDataPlaneBackpressured_def max_safe_integer_def
      DATA_PLANE_MAX_FRAME_BYTES_def DATA_PLANE_MAX_BUFFERED_BYTES_def DATA_PLANE_RELAY_READY_V2_def push_frame_def
      resetIdleTimers_def resetIdleTimer_def)

text \<open>The control plane moves on while the relay rests.\<close>

lemma relay_run_db_steps:
  assumes "cp_steps lc num (ev_service env) d d'"
  shows "\<exists>n. relay_run lc num env (replicate n Internal) (d, r) (d', r)"
  using assms
proof (induction rule: cp_steps.induct)
  case (none d)
  have "relay_run lc num env (replicate 0 Internal) (d, r) (d, r)" by (simp add: relay_run.none)
  then show ?case by blast
next
  case (more d d' d'')
  then obtain n where "relay_run lc num env (replicate n Internal) (d, r) (d', r)" by blast
  from relay_run.more [OF this relay_step.control_plane [OF more.hyps(2)]]
  have "relay_run lc num env (replicate (Suc n) Internal) (d, r) (d'', r)" by (simp add: replicate_append_same)
  then show ?case by blast
qed

lemma run_step:
  "relay_run lc num env tr s s' \<Longrightarrow> relay_step lc num env a s' s'' \<Longrightarrow> tr' = tr @ [a] \<Longrightarrow> relay_run lc num env tr' s s''"
  using relay_run.more by blast

lemma received_replicate [simp]: "received c (replicate n Internal) = []"
  by (induction n) simp_all

definition pair_header :: "string \<Rightarrow> string \<Rightarrow> string" where
  "pair_header protocol token = protocol @ '', '' @ DATA_PLANE_GRANT_SUBPROTOCOL_PREFIX @ token"

lemma pair_offers:
  "parseDataPlaneProtocols (Some (pair_header DATA_PLANE_SUBPROTOCOL_V2 (pair_token ''c''))) = Some (DATA_PLANE_SUBPROTOCOL_V2, pair_token ''c'')"
  "parseDataPlaneProtocols (Some (pair_header DATA_PLANE_SUBPROTOCOL (pair_token ''w''))) = Some (DATA_PLANE_SUBPROTOCOL, pair_token ''w'')"
  by code_simp+

lemma take_add_task: "rl_tasks r = [] \<Longrightarrow> take_task 0 (add_task t r) = r"
  by (simp add: take_task_def add_task_def)

lemma task_add: "rl_tasks r = [] \<Longrightarrow> task_at 0 t (add_task t r)"
  by (simp add: task_at_def)

lemma handle_pair_upgrade:
  assumes "parseDataPlaneProtocols (Some header) = Some (protocol, grant)" and "\<not> rl_closed r"
  shows "handleUpgrade (ev_url pair_env) False DATA_PLANE_PATH (Some header) r = add_task (UpgradeClient protocol grant) r"
  using assms by (simp add: handleUpgrade_def pair_env_def)

lemma pair_service [simp]: "ev_service pair_env = sample_service"
  by (simp add: pair_env_def)

text \<open>The whole run, with the frames that arrived on it.\<close>

lemma pair_run:
  obtains tr where "relay_reachable str_cmp (\<lambda>_. []) pair_env tr run_active relay3" and "received 0 tr = []" and "received 1 tr = []"
proof -
  let ?run = "relay_run str_cmp (\<lambda>_. []) pair_env" and ?s0 = "(empty_db, relay_init)" and ?d = run_connecting
  obtain n where "?run (replicate n Internal) ?s0 (?d, relay_init)"
    using relay_run_db_steps [of str_cmp "\<lambda>_. []" pair_env empty_db ?d relay_init] run_connecting_reachable by auto
  then have r0: "\<exists>n. ?run (replicate n Internal) ?s0 (?d, relay_init)" by blast
  have step: "\<exists>n. ?run (replicate n Internal) ?s0 s'"
    if "\<exists>n. ?run (replicate n Internal) ?s0 s" and "relay_step str_cmp (\<lambda>_. []) pair_env Internal s s'" for s s'
    using that relay_run.more by (metis replicate_append_same replicate_Suc)
  let ?C = "UpgradeClient DATA_PLANE_SUBPROTOCOL_V2 (pair_token ''c'')"
    and ?CA = "UpgradeAccept DATA_PLANE_SUBPROTOCOL_V2 (pair_token ''c'') (pair_claims ''client'', sample_connecting_session)"
    and ?W = "UpgradeClient DATA_PLANE_SUBPROTOCOL (pair_token ''w'')"
    and ?W' = "UpgradeWorker DATA_PLANE_SUBPROTOCOL (pair_token ''w'')"
    and ?WA = "UpgradeAccept DATA_PLANE_SUBPROTOCOL (pair_token ''w'') (pair_claims ''worker'', sample_connecting_session)"
  have i: "rl_tasks relay_init = []" "\<not> rl_closed relay_init" by (simp_all add: relay_init_def)
  have r1: "rl_tasks relay1 = []" "\<not> rl_closed relay1" by (simp_all add: relay1_eq)
  from step [OF r0 relay_step.upgrade [where env = pair_env and d = ?d and r = relay_init and destroyed = False and url = DATA_PLANE_PATH and header = "Some (pair_header DATA_PLANE_SUBPROTOCOL_V2 (pair_token ''c''))"]]
  have "\<exists>n. ?run (replicate n Internal) ?s0 (?d, add_task ?C relay_init)"
    by (simp add: handle_pair_upgrade [OF pair_offers(1) i(2)])
  from step [OF this relay_step.upgrade_client [OF task_add [OF i(1)], where env = pair_env and d = ?d and destroyed = False and t = 5000 and t' = 5000]]
  have "\<exists>n. ?run (replicate n Internal) ?s0 (?d, add_task ?CA relay_init)"
    by (simp add: pair_asked take_add_task [OF i(1)] upgrade_client_answered_def)
  from step [OF this relay_step.upgrade_accept [OF task_add [OF i(1)], where env = pair_env and d = ?d and destroyed = False]]
  have "\<exists>n. ?run (replicate n Internal) ?s0 (?d, relay1)"
    by (simp add: take_add_task [OF i(1)] relay1_def)
  from step [OF this relay_step.upgrade [where env = pair_env and d = ?d and r = relay1 and destroyed = False and url = DATA_PLANE_PATH and header = "Some (pair_header DATA_PLANE_SUBPROTOCOL (pair_token ''w''))"]]
  have "\<exists>n. ?run (replicate n Internal) ?s0 (?d, add_task ?W relay1)"
    by (simp add: handle_pair_upgrade [OF pair_offers(2) r1(2)])
  from step [OF this relay_step.upgrade_client [OF task_add [OF r1(1)], where env = pair_env and d = ?d and destroyed = False and t = 5000 and t' = 5000]]
  have "\<exists>n. ?run (replicate n Internal) ?s0 (?d, add_task ?W' relay1)"
    by (simp add: pair_asked take_add_task [OF r1(1)] upgrade_client_answered_def)
  from step [OF this relay_step.upgrade_worker [OF task_add [OF r1(1)], where env = pair_env and d = ?d and destroyed = False and t = 5000 and t' = 5000]]
  have "\<exists>n. ?run (replicate n Internal) ?s0 (?d, add_task ?WA relay1)"
    by (simp add: pair_asked take_add_task [OF r1(1)] upgrade_worker_answered_def)
  from step [OF this relay_step.upgrade_accept [OF task_add [OF r1(1)], where env = pair_env and d = ?d and destroyed = False]]
  have r2: "\<exists>n. ?run (replicate n Internal) ?s0 (?d, relay2)"
    by (simp add: take_add_task [OF r1(1)] relay2_def)
  define base where "base = take_task 0 relay2"
  have b: "rl_tasks base = []" "rl_entry base = rl_entry relay2" by (simp_all add: base_def take_task_def relay2_eq)
  have t2: "task_at 0 (PairAuthorize 0 (pair_token ''c'') (pair_token ''w'') None None) relay2" by (simp add: task_at_def relay2_eq)
  let ?ca = "Inr (Some (pair_claims ''client'', sample_connecting_session))" and ?wa = "Inr (Some (pair_claims ''worker'', sample_connecting_session))"
  from step [OF r2 relay_step.pair_client [OF t2, where env = pair_env and d = ?d and t = 5000 and t' = 5000]]
  have "\<exists>n. ?run (replicate n Internal) ?s0 (?d, add_task (PairAuthorize 0 (pair_token ''c'') (pair_token ''w'') (Some ?ca) None) base)"
    by (simp add: pair_asked pair_answered_def base_def)
  from step [OF this relay_step.pair_worker [OF task_add [OF b(1)], where env = pair_env and d = ?d and t = 5000 and t' = 5000]]
  have a: "\<exists>n. ?run (replicate n Internal) ?s0 (?d, pair_answered 0 (pair_token ''c'') (pair_token ''w'') (Some ?ca) (Some ?wa) base)"
    by (simp add: pair_asked take_add_task [OF b(1)])
  have same: "sameAllocation (Some (pair_claims role, s)) (rl_entry base 0)" for role s
    by (simp add: sameAllocation_def b relay2_eq new_entry_def pair_claims_def)
  from a have "\<exists>n. ?run (replicate n Internal) ?s0 (?d, add_task (PairActivate 0) base)"
    by (simp add: pair_answered_def same sample_connecting_session_def)
  from step [OF this relay_step.activate [OF task_add [OF b(1)], where env = pair_env and d = ?d, OF activate_pair]]
  have "\<exists>n. ?run (replicate n Internal) ?s0 (run_active, add_task (PairActivated 0
      (Inr (sample_connecting_session\<lparr>s_status := Active, s_leaseExpiresAt := Some 66000, s_updatedAt := 6000\<rparr>))) base)"
    by (simp add: take_add_task [OF b(1)] b relay2_eq new_entry_def pair_claims_def sample_grant_claims_def)
  from step [OF this relay_step.activated [OF task_add [OF b(1)]]]
  have "\<exists>n. ?run (replicate n Internal) ?s0 (run_active, relay3)"
    by (simp add: take_add_task [OF b(1), unfolded base_def] pair_activation_answered_def relay3_def base_def)
  then show ?thesis using that by force
qed

lemma pair_run_frame:
  obtains tr where "relay_reachable str_cmp (\<lambda>_. []) pair_env tr run_active relay4"
    and "received 0 tr = []" and "received 1 tr = [(''hello'', False)]"
proof -
  obtain tr where r: "relay_reachable str_cmp (\<lambda>_. []) pair_env tr run_active relay3" and q: "received 0 tr = []" "received 1 tr = []"
    by (rule pair_run)
  have "open_conn 1 relay3" by (simp add: open_conn_def relay3_eq [unfolded One_nat_def])
  from relay_run.more [OF r relay_step.message [OF this, where buffered = 0 and env = pair_env and f = "(''hello'', False)" and d = run_active]]
  have "relay_reachable str_cmp (\<lambda>_. []) pair_env (tr @ [Received 1 (''hello'', False)]) run_active relay4"
    by (simp add: relay4_def max_safe_integer_def)
  with q that show ?thesis by simp
qed

section \<open>The properties\<close>

text \<open>
  C18. Whatever the sockets, timers and the control plane do, the relay delivers faithfully: what a
  connection is sent is, after the readiness frame of the second protocol version, exactly the
  frames its one peer sent, in order, for as long as their pair is open, and a part of them in
  order once it is closed; the peer is of the same pair and the other role. A connection without a
  peer is sent nothing, and on the second version no frame of the peer passes for the readiness frame.
\<close>

theorem relay_delivery:
  assumes "relay_reachable lc num env tr d r" and "p < rl_conns r"
  shows "case cn_peer (rl_conn r p) of
      None \<Rightarrow> ws_sent (conn_socket r p) = []
    | Some c \<Rightarrow> c < rl_conns r \<and> cn_entry (rl_conn r c) = cn_entry (rl_conn r p) \<and>
        cn_role (rl_conn r c) = other_role (cn_role (rl_conn r p)) \<and> cn_peer (rl_conn r c) = Some p \<and>
        (if conn_closed r p
         then subseq (ws_sent (conn_socket r p)) (greeting (rl_conn r p) @ received c tr)
         else ws_sent (conn_socket r p) = greeting (rl_conn r p) @ received c tr) \<and>
        (cn_protocol (rl_conn r p) = DATA_PLANE_SUBPROTOCOL_V2 \<longrightarrow> ready_frame \<notin> set (tl (ws_sent (conn_socket r p))))"
proof (cases "cn_peer (rl_conn r p)")
  case None
  have "served tr r p" using relay_reachable_deliver [OF assms(1)] assms(2) by (simp add: deliver_ok_def)
  with None show ?thesis by (simp add: served_def)
next
  case (Some c)
  have s: "served tr r p" using relay_reachable_deliver [OF assms(1)] assms(2) by (simp add: deliver_ok_def)
  have g: "tl (greeting (rl_conn r p) @ rest) = rest" if "cn_protocol (rl_conn r p) = DATA_PLANE_SUBPROTOCOL_V2" for rest
    using that by (simp add: greeting_def)
  have "subseq (greeting (rl_conn r p) @ rest) (greeting (rl_conn r p) @ received c tr)" if "subseq rest (received c tr)" for rest
    using that by (simp add: subseq_append')
  with s Some g peerD [OF relay_reachable_ok [OF assms(1)] assms(2) Some] show ?thesis
    by (auto simp: served_def)
qed

theorem relay_delivery_witness:
  "\<exists>tr. received 1 tr = [(''hello'', False)] \<and> ws_sent (conn_socket relay4 0) = ready_frame # received 1 tr"
proof -
  obtain tr where r: "relay_reachable str_cmp (\<lambda>_. []) pair_env tr run_active relay4" and q: "received 1 tr = [(''hello'', False)]"
    by (rule pair_run_frame)
  from relay_delivery [OF r, of 0] have "ws_sent (conn_socket relay4 0) = greeting (rl_conn relay4 0) @ received 1 tr"
    by (simp add: relay4_eq conn_closed_def)
  with q show ?thesis by (auto simp: greeting_def relay4_eq)
qed

lemma relay_run_authority:
  "relay_run lc num env tr s s' \<Longrightarrow> relay_inv (snd s) \<Longrightarrow> authority_ok lc num env (fst s) (snd s) \<Longrightarrow>
   cp_reachable lc num (ev_service env) (fst s) \<Longrightarrow> relay_inv (snd s') \<and> authority_ok lc num env (fst s') (snd s')"
proof (induction rule: relay_run.induct)
  case (more tr s s' a s'')
  then have ih: "relay_inv (snd s')" "authority_ok lc num env (fst s') (snd s')" by blast+
  have st: "relay_step lc num env a (fst s', snd s') (fst s'', snd s'')" using more.hyps(2) by simp
  have "cp_reachable lc num (ev_service env) (fst s')"
    using cp_steps_trans [OF more.prems(3) relay_run_db [OF more.hyps(1)]] .
  with authority_step [OF st _ ih(2)] relay_step_ok [OF st ih(1)] ih(1) show ?case by (simp add: relay_inv_def)
qed simp

lemma relay_reachable_authority:
  assumes "relay_reachable lc num env tr d r" shows "authority_ok lc num env d r"
proof -
  have "authority_ok lc num env empty_db relay_init" by (simp add: authority_ok_def relay_init_def)
  with relay_run_authority [OF assms] show ?thesis by (simp add: relay_init_inv cp_steps.none)
qed

text \<open>
  C19. In every reachable state no two open pairs share a key, and the pair map holds exactly the open
  entries; an open socket is the one in its role's slot of an open entry, so a pair never has two
  clients or two workers; and the two sides of an active open pair are there and are each other's peers.
\<close>

theorem relay_structure:
  assumes "relay_reachable lc num env tr d r"
  shows "distinct (map fst (rl_pairs r)) \<and>
    (\<forall>e < rl_entries r. \<not> en_closed (rl_entry r e) \<longleftrightarrow> (en_key (rl_entry r e), e) \<in> set (rl_pairs r)) \<and>
    (\<forall>c < rl_conns r. ws_ready (conn_socket r c) = WsOpen \<longrightarrow>
       \<not> en_closed (rl_entry r (cn_entry (rl_conn r c))) \<and>
       slot (cn_role (rl_conn r c)) (rl_entry r (cn_entry (rl_conn r c))) = Some c) \<and>
    (\<forall>e < rl_entries r. en_active (rl_entry r e) \<and> \<not> en_closed (rl_entry r e) \<longrightarrow>
       (\<exists>c w. en_client (rl_entry r e) = Some c \<and> en_worker (rl_entry r e) = Some w \<and>
          cn_peer (rl_conn r c) = Some w \<and> cn_peer (rl_conn r w) = Some c))"
proof -
  have ok: "relay_ok r" using relay_reachable_ok [OF assms] .
  have a: "distinct (map fst (rl_pairs r))" using ok by (simp add: relay_ok_def pairs_ok_def)
  have b: "\<forall>e < rl_entries r. \<not> en_closed (rl_entry r e) \<longleftrightarrow> (en_key (rl_entry r e), e) \<in> set (rl_pairs r)"
    using ok unfolding relay_ok_def pairs_ok_def by fastforce
  have c: "\<forall>c < rl_conns r. ws_ready (conn_socket r c) = WsOpen \<longrightarrow>
       \<not> en_closed (rl_entry r (cn_entry (rl_conn r c))) \<and>
       slot (cn_role (rl_conn r c)) (rl_entry r (cn_entry (rl_conn r c))) = Some c"
    using connD(5,6) [OF ok] by fastforce
  show ?thesis using a b c ok unfolding relay_ok_def links_ok_def by blast
qed

theorem relay_structure_witness:
  "\<exists>c w. en_client (rl_entry relay3 0) = Some c \<and> en_worker (rl_entry relay3 0) = Some w \<and>
     cn_peer (rl_conn relay3 c) = Some w \<and> cn_peer (rl_conn relay3 w) = Some c"
proof -
  obtain tr where r: "relay_reachable str_cmp (\<lambda>_. []) pair_env tr run_active relay3" by (rule pair_run)
  have "0 < rl_entries relay3" by (simp add: relay3_eq)
  then show ?thesis using relay_structure [OF r] relay3_eq(20,21) by blast
qed

text \<open>
  C20. Two connections are ever made each other's peers only on the service's word: both grants were
  accepted, each in its own role, by the service on some earlier database for one and the same
  session, worker and lease, and that session was active under this allocation.
\<close>

theorem pairing_authority:
  assumes "relay_reachable lc num env tr d r" and "c < rl_conns r" and "cn_peer (rl_conn r c) = Some p"
  shows "\<exists>alloc. allocation_of (rl_entry r (cn_entry (rl_conn r c))) = alloc \<and>
    accepted lc num env d (cn_grant (rl_conn r c)) (cn_role (rl_conn r c)) alloc \<and>
    accepted lc num env d (cn_grant (rl_conn r p)) (other_role (cn_role (rl_conn r c))) alloc \<and>
    session_was_active lc num env d alloc"
proof -
  have ok: "relay_ok r" using relay_reachable_ok [OF assms(1)] .
  have au: "authority_ok lc num env d r" using relay_reachable_authority [OF assms(1)] .
  note p = peerD [OF ok assms(2,3)]
  have "accepted lc num env d (cn_grant (rl_conn r x)) (cn_role (rl_conn r x)) (allocation_of (rl_entry r (cn_entry (rl_conn r x)))) \<and>
      session_was_active lc num env d (allocation_of (rl_entry r (cn_entry (rl_conn r x))))" if "x < rl_conns r" "cn_peer (rl_conn r x) \<noteq> None" for x
    using au that unfolding authority_ok_def by blast
  from this [of c] this [of p] assms(2,3) p(1-4) show ?thesis by simp
qed

theorem pairing_authority_witness:
  "session_was_active str_cmp (\<lambda>_. []) pair_env run_active (''session_s'', ''w1'', ''lease_u'')"
proof -
  obtain tr where r: "relay_reachable str_cmp (\<lambda>_. []) pair_env tr run_active relay3" by (rule pair_run)
  from pairing_authority [OF r, of 0 1] show ?thesis by (simp add: relay3_eq [unfolded One_nat_def])
qed

text \<open>
  C21. Once a stopped relay has closed its pairs, every run that follows is silent: no connection is
  accepted, no frame is sent to anyone, and every socket stays closed or closing.
\<close>

theorem relay_stopped:
  assumes "relay_reachable lc num env tr d r" and "task_at i StopDrain r"
    and "relay_run lc num env tr' (d, stop_drained (take_task i r)) (d', r')"
  shows "rl_conns r' = rl_conns r \<and>
    (\<forall>c < rl_conns r. ws_sent (conn_socket r' c) = ws_sent (conn_socket r c) \<and> ws_ready (conn_socket r' c) \<noteq> WsOpen)"
proof -
  let ?x = "stop_drained (take_task i r)"
  have inv: "relay_inv r" using relay_reachable_inv [OF assms(1)] .
  then have ok: "relay_ok r" by (simp add: relay_inv_def)
  have cl: "rl_closed r" using task_atD [OF ok assms(2)] by simp
  have ok': "relay_ok (take_task i r)" using take_other_task_ok [OF ok assms(2)] by simp
  note drained = stop_drained_ok [OF ok'] 
  have xr: "silent ?x r" using silent_trans [OF silent_handlers(8) silent_simps(2)] .
  have x: "relay_ok ?x" "stopped ?x" using drained cl xr by (auto simp: stopped_def silent_def)
  have "round_ok ?x" using inv round_ok_beside [OF _ beside_trans [OF beside_stop_drained beside_simps(2)]] by (simp add: relay_inv_def)
  with x stopped_run [OF assms(3)] have s: "silent r' ?x" "relay_inv r'" by (simp_all add: relay_inv_def)
  have st: "stopped r'" using stopped_silent [OF x(2) s(1)] .
  have all: "silent r' r" using silent_trans [OF s(1) xr] .
  then have same: "cn_socket (rl_conn r' c) = cn_socket (rl_conn r c)" for c
    using same_conn_fields unfolding silent_def by blast
  have n: "rl_conns r' = rl_conns r" using all by (simp add: silent_def)
  have "ws_ready (conn_socket r' c) \<noteq> WsOpen" if "c < rl_conns r" for c
    using connD(2,6) [of r' c] s(2) st that n by (simp add: relay_inv_def stopped_def)
  with all n same show ?thesis by (simp add: silent_def)
qed

theorem relay_stopped_witness:
  "rl_conns (stop_drained (take_task 0 (relay_stop relay3))) = 2 \<and>
   ws_ready (conn_socket (stop_drained (take_task 0 (relay_stop relay3))) 0) \<noteq> WsOpen"
proof -
  obtain tr where r: "relay_reachable str_cmp (\<lambda>_. []) pair_env tr run_active relay3" by (rule pair_run)
  from relay_run.more [OF r relay_step.stop]
  have "relay_reachable str_cmp (\<lambda>_. []) pair_env (tr @ [Internal]) run_active (relay_stop relay3)" .
  moreover have "task_at 0 StopDrain (relay_stop relay3)" by (simp add: task_at_def relay_stop_def relay3_eq)
  ultimately have "rl_conns (stop_drained (take_task 0 (relay_stop relay3))) = rl_conns (relay_stop relay3) \<and>
      (\<forall>c < rl_conns (relay_stop relay3). ws_ready (conn_socket (stop_drained (take_task 0 (relay_stop relay3))) c) \<noteq> WsOpen)"
    using relay_stopped [OF _ _ relay_run.none] by blast
  moreover have "rl_conns (relay_stop relay3) = 2" by (simp add: relay_stop_def relay3_eq)
  ultimately show ?thesis by simp
qed

text \<open>
  C22. A revalidation that runs alone ends after two answers for each live pair, none of which can
  throw, and closes exactly the live pairs one of whose two sides the service no longer authorises.
\<close>

theorem revalidation_exact:
  assumes "relay_reachable lc num env tr d r" and "rl_revalidation r = NoRound" and "\<not> rl_closed r"
  shows "\<exists>r'. relay_run lc num env (replicate (2 * length (live_entries r)) Internal) (d, scheduleRevalidation r) (d, r') \<and>
    rl_revalidation r' = RoundOver \<and> rl_revalidationFailures r' = rl_revalidationFailures r \<and>
    (\<forall>e < rl_entries r. en_closed (rl_entry r' e) \<longleftrightarrow>
       en_closed (rl_entry r e) \<or> en_active (rl_entry r e) \<and> \<not> authorised t d r e)"
proof -
  have ok: "relay_ok r" using relay_reachable_ok [OF assms(1)] .
  note live = live_entries_iff [OF ok]
  have "\<forall>e \<in> set (live_entries r). e < rl_entries r \<and> en_client (rl_entry r e) \<noteq> None \<and> en_worker (rl_entry r e) \<noteq> None"
    using live_entries_filled [OF ok] by blast
  from round_runs [OF ok this, of lc num env d t] obtain r' where
    "relay_run lc num env (replicate (2 * length (live_entries r)) Internal) (d, next_pair (live_entries r) r) (d, r')"
    "rl_revalidation r' = RoundOver" "rl_revalidationFailures r' = rl_revalidationFailures r"
    "\<forall>x. en_closed (rl_entry r' x) \<longleftrightarrow> en_closed (rl_entry r x) \<or> x \<in> set (live_entries r) \<and> \<not> authorised t d r x"
    by blast
  then show ?thesis using assms(2,3) by (intro exI [of _ r']) (auto simp: scheduleRevalidation_def revalidatePairs_def live)
qed

theorem revalidation_exact_witness:
  "\<exists>r'. relay_run str_cmp (\<lambda>_. []) pair_env [Internal, Internal] (run_active, scheduleRevalidation relay3) (run_active, r') \<and>
     en_closed (rl_entry r' 0)"
proof -
  obtain tr where r: "relay_reachable str_cmp (\<lambda>_. []) pair_env tr run_active relay3" by (rule pair_run)
  have l: "live_entries relay3 = [0]" by (simp add: live_entries_def relay3_eq)
  have "\<not> authorised 70000 run_active relay3 0"
    by (simp add: authorised_def relay3_eq [unfolded One_nat_def] lapsed_allocation sameAllocation_def)
  with revalidation_exact [OF r, where t = 70000] show ?thesis
    by (auto simp: relay3_eq l numeral_2_eq_2)
qed

text \<open>
  C23. A round reaches every pair, however it is interleaved with sockets, timers and requests: a
  live pair whose session had ended when the round began is closed when the round is over, unless a
  round was broken off by an error and so counted as failed.
\<close>

theorem revalidation_reaches:
  assumes "relay_reachable lc num env tr d r" and "comparator lc" and "rl_revalidation r = NoRound" and "\<not> rl_closed r"
    and "e < rl_entries r" and "en_active (rl_entry r e)" and "session_ended (en_sessionId (rl_entry r e)) d"
    and "relay_run lc num env tr' (d, scheduleRevalidation r) (d', r')"
    and "rl_revalidation r' \<in> {NoRound, RoundOver}" and "rl_revalidationFailures r' = rl_revalidationFailures r"
  shows "en_closed (rl_entry r' e) \<and> (\<forall>c < rl_conns r'. cn_entry (rl_conn r' c) = e \<longrightarrow> ws_ready (conn_socket r' c) \<noteq> WsOpen)"
proof -
  have inv: "relay_inv r" and ok: "relay_ok r" using relay_reachable_inv [OF assms(1)] by (simp_all add: relay_inv_def)
  have reach: "cp_reachable lc num (ev_service env) d" using relay_run_db [OF assms(1)] by simp
  have "watched e (rl_revalidationFailures r) (next_pair (live_entries r) r)"
  proof (rule watched_next [OF assms(5)])
    have "e \<in> set (live_entries r)" if "\<not> en_closed (rl_entry r e)"
      using assms(5,6) that by (simp add: live_entries_iff [OF ok])
    then show "en_closed (rl_entry r e) \<or> rl_revalidationFailures r < rl_revalidationFailures r \<or>
        rl_revalidationFailures r \<le> rl_revalidationFailures r \<and> e \<in> set (live_entries r)" by blast
  qed
  then have w: "watched e (rl_revalidationFailures r) (scheduleRevalidation r)"
    using assms(3,4) by (simp add: scheduleRevalidation_def revalidatePairs_def)
  have same: "same_relay (scheduleRevalidation r) r" by simp
  then have "relay_inv (scheduleRevalidation r)"
    using inv scheduleRevalidation_round [OF ok] same_relayI [OF ok] by (simp add: relay_inv_def)
  moreover have "session_ended (en_sessionId (rl_entry (scheduleRevalidation r) e)) d"
    using assms(7) same by (simp add: same_relay_def)
  ultimately have "watched e (rl_revalidationFailures r) r'" "relay_inv r'"
    using watched_run [OF assms(8), of e "rl_revalidationFailures r"] w reach assms(2) by simp_all
  then have "en_closed (rl_entry r' e)" "relay_ok r'" using assms(9,10) by (auto simp: watched_def awaiting_def relay_inv_def)
  then show ?thesis using connD(6) by blast
qed

definition run_closed :: db where
  "run_closed = snd (closeSession_tx ''session_s'' 7000 run_active)"

theorem revalidation_reaches_witness:
  "\<exists>r'. relay_run str_cmp (\<lambda>_. []) pair_env [Internal, Internal] (run_closed, scheduleRevalidation relay3) (run_closed, r') \<and>
     en_closed (rl_entry r' 0)"
proof -
  obtain tr where "relay_reachable str_cmp (\<lambda>_. []) pair_env tr run_active relay3" by (rule pair_run)
  from relay_run.more [OF this relay_step.control_plane [OF cp_step.close_session]]
  have r: "relay_reachable str_cmp (\<lambda>_. []) pair_env (tr @ [Internal]) run_closed relay3" by (simp add: run_closed_def)
  have ended: "session_ended ''session_s'' run_closed" by code_simp
  have l: "live_entries relay3 = [0]" by (simp add: live_entries_def relay3_eq)
  obtain r' where r': "relay_run str_cmp (\<lambda>_. []) pair_env (replicate (2 * length [0]) Internal) (run_closed, next_pair [0] relay3) (run_closed, r')"
    "rl_revalidation r' = RoundOver" "rl_revalidationFailures r' = rl_revalidationFailures relay3"
    using round_runs [OF relay_reachable_ok [OF r], of "[0]" str_cmp "\<lambda>_. []" pair_env run_closed 0]
    by (auto simp: relay3_eq numeral_2_eq_2)
  have s: "scheduleRevalidation relay3 = next_pair [0] relay3"
    by (simp add: scheduleRevalidation_def revalidatePairs_def l relay3_eq)
  have "en_sessionId (rl_entry relay3 0) = ''session_s''" using relay3_eq(24) by (simp add: allocation_of_def)
  with revalidation_reaches [OF r code_units.comparator_axioms _ _ _ _ _ _ _ r'(3), of 0 "[Internal, Internal]" run_closed] r' ended
  have "en_closed (rl_entry r' 0)" by (simp add: s relay3_eq numeral_2_eq_2)
  with r' s show ?thesis by (auto simp: numeral_2_eq_2)
qed

end
