(* ===== verification/RelayAborts.thy ===== *)
theory RelayAborts
  imports RelayGuarantees
begin

text \<open>
  A defect of the revalidation: a pair that loses one of its connections while it waits to be checked
  breaks the round off. The slots of a closed entry never change again, so the read of its claims
  throws when the round gets there, whatever happens in between. The concrete run has two pairs.
\<close>

section \<open>A closed entry keeps its slots\<close>

definition same_slots :: "relay \<Rightarrow> relay \<Rightarrow> bool" where
  "same_slots r' r \<longleftrightarrow> rl_entries r' = rl_entries r \<and>
     (\<forall>e. en_client (rl_entry r' e) = en_client (rl_entry r e) \<and> en_worker (rl_entry r' e) = en_worker (rl_entry r e))"

lemma same_slots_trans: "same_slots r'' r' \<Longrightarrow> same_slots r' r \<Longrightarrow> same_slots r'' r"
  by (simp add: same_slots_def)

lemma same_slots_same: "same_relay r' r \<Longrightarrow> same_slots r' r"
  by (simp add: same_slots_def same_relay_def)

lemma same_slots_simps [simp]:
  "same_slots r r" "same_slots (take_task i r) r" "same_slots (add_task t r) r" "same_slots (closeEntry e code reason r) r"
  "same_slots (pair_settled e r) r" "same_slots (set_closed k r) r" "same_slots (rejectUpgrade b n m r) r"
  "same_slots (upd_conn c g r) r" "same_slots (upd_entry e (\<lambda>x. x\<lparr>en_active := b\<rparr>) r) r"
  "same_slots (upd_entry e (\<lambda>x. x\<lparr>en_activating := b\<rparr>) r) r" "same_slots (clearPeerTimer c r) r"
  "same_slots (push_frame k f r) r" "same_slots (revalidation_failed r) r" "same_slots (stop_terminated r) r"
  "same_slots (relay_stop r) r"
  by (auto simp: same_slots_def set_closed_def rejectUpgrade_def pair_settled_def push_frame_def revalidation_failed_def
      stop_terminated_def relay_stop_def clearPeerTimer_def)

lemma same_slots_send_ready [simp]: "same_slots (send_ready e cs r) r"
  by (induction e cs r rule: send_ready.induct) (auto intro: same_slots_trans)

lemma same_slots_failed [simp]: "same_slots (pair_failed e r) r"
  unfolding pair_failed_def using same_slots_trans [OF same_slots_simps(5) same_slots_simps(4)] .

lemma same_slots_activated [simp]: "same_slots (pair_activated e r) r"
proof -
  have l: "same_slots (resetIdleTimers e (clearPeerTimer w (clearPeerTimer c (link_peers c w x)))) x" for c w x
    unfolding link_peers_def
    by (intro same_slots_trans [OF same_slots_same [OF same_relay_resetIdleTimers]] same_slots_trans [OF same_slots_simps(11)]
        same_slots_trans [OF same_slots_simps(8)]) simp
  let ?a = "upd_entry e (\<lambda>x. x\<lparr>en_active := True\<rparr>) r"
  have "same_slots (pair_settled e (send_ready e cs (resetIdleTimers e (clearPeerTimer w (clearPeerTimer c (link_peers c w ?a)))))) r" for cs c w
    by (rule same_slots_trans [OF same_slots_simps(5)], rule same_slots_trans [OF same_slots_send_ready],
        rule same_slots_trans [OF l]) simp
  moreover have "same_slots (pair_failed e ?a) r" using same_slots_trans [OF same_slots_failed] by simp
  ultimately show ?thesis
    unfolding pair_activated_def Let_def by (auto split: option.splits simp del: send_ready.simps)
qed

lemma same_slots_answered [simp]:
  "same_slots (pair_answered e cg wg ca wa r) r" "same_slots (pair_activation_answered e outcome r) r"
  "same_slots (check_answered e cc wc ca0 wa0 rest r) r"
proof -
  have "same_slots (pair_settled e (closeEntry e code reason r)) r" for code reason
    using same_slots_trans [OF same_slots_simps(5) same_slots_simps(4)] .
  then show "same_slots (pair_answered e cg wg ca wa r) r"
    by (auto simp: pair_answered_def split: option.splits sum.splits)
  show "same_slots (pair_activation_answered e outcome r) r"
    by (auto simp: pair_activation_answered_def split: sum.splits)
  have "same_slots (next_pair rest (pair_checked e a b r)) r" for a b
    using same_slots_trans [OF same_slots_same [OF next_pair_same]] by (auto simp: pair_checked_def same_slots_same)
  then show "same_slots (check_answered e cc wc ca0 wa0 rest r) r"
    by (auto simp: check_answered_def intro!: same_slots_same split: option.splits sum.splits)
qed

lemma same_slots_handlers [simp]:
  "same_slots (handleUpgrade parse_url destroyed url header r) r"
  "same_slots (upgrade_client_answered destroyed protocol grant a r) r"
  "same_slots (upgrade_worker_answered destroyed protocol grant a r) r"
  "same_slots (onMessage c f buffered r) r" "same_slots (onSendFailed c reason r) r" "same_slots (onSocketError c r) r"
  "same_slots (peerTimerFired c r) r" "same_slots (idleTimerFired c r) r" "same_slots (stop_drained r) r"
  "same_slots (tryPair e r) r"
proof -
  show "same_slots (handleUpgrade parse_url destroyed url header r) r"
    "same_slots (upgrade_client_answered destroyed protocol grant a r) r"
    "same_slots (upgrade_worker_answered destroyed protocol grant a r) r"
    by (auto simp: handleUpgrade_def upgrade_client_answered_def upgrade_worker_answered_def split: option.splits sum.splits)
  have "same_slots (push_frame k f (resetIdleTimers e r)) r" for k e
    by (rule same_slots_trans [OF same_slots_simps(12)]) (simp add: same_slots_same)
  then show "same_slots (onMessage c f buffered r) r"
    by (auto simp: onMessage_def Let_def split: option.splits sum.splits bool.splits)
  show "same_slots (onSendFailed c reason r) r" "same_slots (onSocketError c r) r"
    by (simp_all add: onSendFailed_def onSocketError_def)
  show "same_slots (peerTimerFired c r) r" "same_slots (idleTimerFired c r) r"
    using same_slots_trans [OF same_slots_simps(4) same_slots_simps(11)] same_slots_trans [OF same_slots_simps(4) same_slots_simps(8)]
    by (auto simp: peerTimerFired_def idleTimerFired_def Let_def)
  have "same_slots (close_entries es r) r" for es r
  proof (induction es arbitrary: r)
    case (Cons e es)
    from same_slots_trans [OF Cons.IH same_slots_simps(4)] show ?case by (simp add: close_entries_def)
  qed (simp add: close_entries_def)
  then show "same_slots (stop_drained r) r" unfolding stop_drained_def using same_slots_trans [OF same_slots_simps(3)] by blast
  show "same_slots (tryPair e r) r"
    by (auto simp: tryPair_def Let_def split: option.splits intro: same_slots_trans [OF same_slots_simps(3)])
qed

text \<open>Neither a connection that joins nor one that leaves touches the slots of a closed entry.\<close>

definition closed_slots :: "relay \<Rightarrow> relay \<Rightarrow> bool" where
  "closed_slots r' r \<longleftrightarrow> (\<forall>e < rl_entries r. en_closed (rl_entry r e) \<longrightarrow>
     en_client (rl_entry r' e) = en_client (rl_entry r e) \<and> en_worker (rl_entry r' e) = en_worker (rl_entry r e))"

lemma closed_slots_accepted:
  assumes ok: "relay_ok r"
  shows "closed_slots (upgrade_accepted destroyed protocol grant auth r) r"
proof (cases "rl_closed r \<or> destroyed")
  case False
  obtain e r1 where l: "lookup_entry (fst auth) (open_socket r) = (e, r1)" by fastforce
  from False have run: "\<not> rl_closed (open_socket r)" by simp
  note L = lookup_entry_ok [OF open_socket_ok [OF ok] run l]
  have r1: "rl_entry r1 x = rl_entry r x" if "x < rl_entries r" for x using L that by auto
  have open_e: "x \<noteq> e" if "x < rl_entries r" "en_closed (rl_entry r x)" for x using L r1 that by metis
  have "closed_slots (join_entry k grant protocol claims e r1) r" for k claims
  proof -
    let ?y = "upd_entry e (set_slot (gc_role claims) (Some (rl_conns r1)))
         (r1\<lparr>rl_conn := (rl_conn r1)(rl_conns r1 := new_conn k grant protocol claims e), rl_conns := Suc (rl_conns r1)\<rparr>)"
    have "rl_entry ?y x = rl_entry r x" if "x < rl_entries r" "en_closed (rl_entry r x)" for x
      using r1 [OF that(1)] open_e [OF that] by simp
    moreover have "same_slots (tryPair e ?y) ?y" by (rule same_slots_handlers(10))
    ultimately show ?thesis unfolding join_entry_def closed_slots_def same_slots_def by metis
  qed
  moreover have "closed_slots (closeSocket k code reason r1) r" for k code reason
    using r1 by (simp add: closed_slots_def closeSocket_def)
  ultimately show ?thesis using False l by (simp add: upgrade_accepted_def acceptConnection_def)
qed (auto simp: upgrade_accepted_def closed_slots_def)

lemma socket_close_beside:
  "x \<noteq> cn_entry (rl_conn r c) \<Longrightarrow> rl_entry (handleSocketClose c (set_closed k r)) x = rl_entry r x"
  by (auto simp: handleSocketClose_def Let_def clearStateTimers_def clearPeerTimer_def set_closed_def split: option.splits)

lemma closed_slots_socket_close: "closed_slots (handleSocketClose c (set_closed k r)) r"
proof (cases "en_closed (rl_entry r (cn_entry (rl_conn r c)))")
  case True
  then have "rl_entry (handleSocketClose c (set_closed k r)) = rl_entry r"
    by (simp add: handleSocketClose_def Let_def clearStateTimers_def clearPeerTimer_def set_closed_def)
  then show ?thesis by (simp add: closed_slots_def)
next
  case False
  then show ?thesis unfolding closed_slots_def using socket_close_beside by metis
qed

text \<open>The entry a connection leaves is closed, and the connection's slot is empty.\<close>

lemma socket_close_vacates:
  assumes "slot (cn_role (rl_conn r c)) (rl_entry r (cn_entry (rl_conn r c))) = Some c"
    and "\<not> en_closed (rl_entry r (cn_entry (rl_conn r c)))" and "cn_role (rl_conn r c) \<in> {''client'', ''worker''}"
  shows "en_closed (rl_entry (handleSocketClose c (set_closed k r)) (cn_entry (rl_conn r c)))"
    and "slot (cn_role (rl_conn r c)) (rl_entry (handleSocketClose c (set_closed k r)) (cn_entry (rl_conn r c))) = None"
  using assms
  by (auto simp: handleSocketClose_def Let_def clearStateTimers_def clearPeerTimer_def set_closed_def slot_def set_slot_def
      split: option.splits)

lemma closed_slots_step:
  assumes st: "relay_step lc num env a (d, r) (d', r')" and ok: "relay_ok r"
  shows "closed_slots r' r"
proof -
  have S: "closed_slots x r" if "same_slots x r" for x using that by (simp add: same_slots_def closed_slots_def)
  have T: "closed_slots x r" if "same_slots x (take_task i r)" for x i
    using S [OF same_slots_trans [OF that same_slots_simps(2)]] .
  from st show ?thesis
  proof cases
    case (upgrade_accept i protocol grant auth destroyed)
    have "relay_ok (take_task i r)" using upgrade_accept by (intro take_other_task_ok [OF ok]) auto
    from closed_slots_accepted [OF this] show ?thesis using upgrade_accept by (simp add: closed_slots_def)
  next
    case (socket_close c)
    then show ?thesis using closed_slots_socket_close by simp
  next
    case started
    then show ?thesis by (intro S) (auto simp: relay_start_def same_slots_same split: if_splits)
  next
    case event
    then show ?thesis by (intro S) (simp add: same_slots_same)
  next
    case round_over
    then show ?thesis by (intro S) (simp add: same_slots_same)
  next
    case (ping c)
    then show ?thesis by (intro S) (simp add: same_slots_same)
  next
    case (activate i e now outcome)
    then show ?thesis using T [of "add_task (PairActivated e outcome) (take_task i r)" i] by simp
  next
    case (pair_client i e cg wg wa t t')
    then show ?thesis using T [of _ i] by simp
  next
    case (pair_worker i e cg wg ca t t')
    then show ?thesis using T [of _ i] by simp
  next
    case (activated i e outcome)
    then show ?thesis using T [of _ i] by simp
  next
    case (upgrade_client i protocol grant destroyed t t')
    then show ?thesis using T [of _ i] by simp
  next
    case (upgrade_worker i protocol grant destroyed t t')
    then show ?thesis using T [of _ i] by simp
  next
    case (stop_drain i)
    then show ?thesis using T [of _ i] by simp
  next
    case (stop_terminate i)
    then show ?thesis using T [of _ i] by simp
  qed (simp_all add: S)
qed

section \<open>A round that meets a vacated pair\<close>

text \<open>
  What is left of a round on its way to the pair \<open>x\<close>: it is still at one of the pairs \<open>before\<close> (in their
  order), and \<open>x\<close> and the pairs \<open>behind\<close> it are to come.
\<close>

definition short_of :: "nat \<Rightarrow> nat list \<Rightarrow> nat list \<Rightarrow> relay \<Rightarrow> bool" where
  "short_of x before behind r \<longleftrightarrow> (\<exists>past e cc wc ca wa left. rl_revalidation r = CheckPair e cc wc ca wa (left @ x # behind) \<and>
     before = past @ e # left)"

definition doomed :: "nat \<Rightarrow> nat list \<Rightarrow> nat list \<Rightarrow> nat \<Rightarrow> relay \<Rightarrow> bool" where
  "doomed x before behind n r \<longleftrightarrow> x < rl_entries r \<and> en_closed (rl_entry r x) \<and>
     (en_client (rl_entry r x) = None \<or> en_worker (rl_entry r x) = None) \<and>
     (n < rl_revalidationFailures r \<or> n = rl_revalidationFailures r \<and> short_of x before behind r)"

lemma schedule_failures: "rl_revalidationFailures r \<le> rl_revalidationFailures (scheduleRevalidation r)"
  using next_pair_progress(1) [of r] by (simp add: scheduleRevalidation_def revalidatePairs_def)

lemma finally_failures: "rl_revalidationFailures r \<le> rl_revalidationFailures (revalidation_finally r)"
  using schedule_failures [of "r\<lparr>rl_revalidation := NoRound, rl_revalidationPending := False\<rparr>"]
  by (simp add: revalidation_finally_def Let_def)

lemma checked_failures: "rl_revalidationFailures r \<le> rl_revalidationFailures (check_answered e cc wc ca wa rest r)"
proof -
  have "rl_revalidationFailures r \<le> rl_revalidationFailures (next_pair rest (pair_checked e a b r))" for a b
    using next_pair_progress(1) [of "pair_checked e a b r" rest] unfolding pair_checked_def by (auto split: if_splits)
  then show ?thesis by (auto simp: check_answered_def revalidation_failed_def split: option.splits sum.splits)
qed

lemma short_of_checked:
  fixes ca wa :: "answer option"
  assumes "rl_revalidation r = CheckPair e cc wc ca0 wa0 (left @ x # behind)" and "before = past @ e # left"
    and "en_client (rl_entry r x) = None \<or> en_worker (rl_entry r x) = None"
  defines "r' \<equiv> check_answered e cc wc ca wa (left @ x # behind) r"
  shows "rl_revalidationFailures r < rl_revalidationFailures r' \<or>
    rl_revalidationFailures r' = rl_revalidationFailures r \<and> short_of x before behind r'"
proof -
  have goes: "rl_revalidationFailures y < rl_revalidationFailures (next_pair (left @ x # behind) y) \<or>
      rl_revalidationFailures (next_pair (left @ x # behind) y) = rl_revalidationFailures y \<and>
      short_of x before behind (next_pair (left @ x # behind) y)"
    if "en_client (rl_entry y x) = None \<or> en_worker (rl_entry y x) = None" for y
  proof (cases left)
    case Nil
    with that show ?thesis by (auto simp: next_pair_def revalidation_failed_def split: option.split)
  next
    case (Cons e' left')
    then have "before = (past @ [e]) @ e' # left'" using assms(2) by simp
    then have "short_of x before behind z" if "rl_revalidation z = CheckPair e' c w a b (left' @ x # behind)" for z c w a b
      using that unfolding short_of_def by blast
    then show ?thesis by (auto simp: Cons next_pair_def revalidation_failed_def split: option.split)
  qed
  have checked: "rl_revalidationFailures (pair_checked e a b r) = rl_revalidationFailures r"
    "en_client (rl_entry (pair_checked e a b r) x) = None \<or> en_worker (rl_entry (pair_checked e a b r) x) = None" for a b
    using assms(3) by (auto simp: pair_checked_def)
  have "short_of x before behind (r\<lparr>rl_revalidation := CheckPair e cc wc ca wa (left @ x # behind)\<rparr>)"
    using assms(2) unfolding short_of_def by auto
  then show ?thesis
    using goes [OF checked(2)] unfolding r'_def check_answered_def checked(1)
    by (auto simp: revalidation_failed_def split: option.split sum.split)
qed

lemma doomed_step:
  assumes st: "relay_step lc num env a (d, r) (d', r')" and ok: "relay_ok r" and w: "doomed x before behind n r"
  shows "doomed x before behind n r'"
proof -
  have x: "x < rl_entries r" "en_closed (rl_entry r x)"
    and v: "en_client (rl_entry r x) = None \<or> en_worker (rl_entry r x) = None"
    and now: "n < rl_revalidationFailures r \<or> n = rl_revalidationFailures r \<and> short_of x before behind r"
    using w by (simp_all add: doomed_def)
  have "lasting r' r" "closed_slots r' r" using relay_step_lasting [OF st ok] closed_slots_step [OF st ok] by simp_all
  with x v have here: "x < rl_entries r'" "en_closed (rl_entry r' x)" "en_client (rl_entry r' x) = None \<or> en_worker (rl_entry r' x) = None"
    by (auto simp: lasting_def closed_slots_def)
  from st have "n < rl_revalidationFailures r' \<or> n = rl_revalidationFailures r' \<and> short_of x before behind r'"
  proof (rule relay_step_beside)
    assume b: "beside_round r' r"
    then have "short_of x before behind r' = short_of x before behind r" by (simp add: beside_round_def short_of_def)
    with b now show ?thesis by (simp add: beside_round_def)
  next
    assume r': "r' = scheduleRevalidation r"
    have "short_of x before behind r' \<and> rl_revalidationFailures r' = rl_revalidationFailures r" if s: "short_of x before behind r"
    proof -
      have "rl_revalidation r \<noteq> NoRound" using s by (auto simp: short_of_def)
      then have "r' = r \<or> r' = r\<lparr>rl_revalidationPending := True\<rparr>" by (simp add: r' scheduleRevalidation_def)
      with s show ?thesis by (auto simp: short_of_def)
    qed
    with now schedule_failures [of r] show ?thesis unfolding r' by auto
  next
    fix e cc wc wa rest t
    assume rv: "rl_revalidation r = CheckPair e cc wc None wa rest"
      and r': "r' = check_answered e cc wc (Some (ask_allocation cc ''client'' t d)) wa rest r"
    show ?thesis
    proof (cases "n < rl_revalidationFailures r")
      case True
      then show ?thesis using checked_failures [of r] unfolding r' by (meson less_le_trans)
    next
      case False
      with now rv obtain past left where "rest = left @ x # behind" "before = past @ e # left" "n = rl_revalidationFailures r"
        by (auto simp: short_of_def)
      with short_of_checked [OF _ this(2) v] rv show ?thesis unfolding r' by metis
    qed
  next
    fix e cc wc ca rest t
    assume rv: "rl_revalidation r = CheckPair e cc wc ca None rest"
      and r': "r' = check_answered e cc wc ca (Some (ask_allocation wc ''worker'' t d)) rest r"
    show ?thesis
    proof (cases "n < rl_revalidationFailures r")
      case True
      then show ?thesis using checked_failures [of r] unfolding r' by (meson less_le_trans)
    next
      case False
      with now rv obtain past left where "rest = left @ x # behind" "before = past @ e # left" "n = rl_revalidationFailures r"
        by (auto simp: short_of_def)
      with short_of_checked [OF _ this(2) v] rv show ?thesis unfolding r' by metis
    qed
  next
    assume "rl_revalidation r = RoundOver" and r': "r' = revalidation_finally r"
    then have "n < rl_revalidationFailures r" using now by (auto simp: short_of_def)
    then show ?thesis using finally_failures [of r] unfolding r' by linarith
  qed
  with here show ?thesis by (simp add: doomed_def)
qed

lemma doomed_run:
  "relay_run lc num env tr s s' \<Longrightarrow> relay_inv (snd s) \<Longrightarrow> doomed x before behind n (snd s) \<Longrightarrow> doomed x before behind n (snd s')"
proof -
  have "relay_run lc num env tr s s' \<Longrightarrow> relay_inv (snd s) \<Longrightarrow> doomed x before behind n (snd s) \<Longrightarrow>
      doomed x before behind n (snd s') \<and> relay_inv (snd s')"
  proof (induction rule: relay_run.induct)
    case (more tr s s' a s'')
    then have ih: "doomed x before behind n (snd s')" "relay_inv (snd s')" by blast+
    have st: "relay_step lc num env a (fst s', snd s') (fst s'', snd s'')" using more.hyps(2) by simp
    from doomed_step [OF st _ ih(1)] relay_step_ok [OF st ih(2)] ih(2) show ?case by (simp add: relay_inv_def)
  qed simp
  then show "relay_run lc num env tr s s' \<Longrightarrow> relay_inv (snd s) \<Longrightarrow> doomed x before behind n (snd s) \<Longrightarrow> doomed x before behind n (snd s')"
    by blast
qed

text \<open>A pair that waits for an answer gets it: both answers come, or the round fails.\<close>

definition round_waits :: "relay \<Rightarrow> bool" where
  "round_waits r \<longleftrightarrow> (case rl_revalidation r of CheckPair _ _ _ ca wa _ \<Rightarrow> ca = None \<or> wa = None | _ \<Rightarrow> True)"

lemma check_outcomes:
  obtains "check_answered e cc wc ca wa rest r = revalidation_failed r"
  | a b where "check_answered e cc wc ca wa rest r = next_pair rest (pair_checked e a b r)"
  | "check_answered e cc wc ca wa rest r = r\<lparr>rl_revalidation := CheckPair e cc wc ca wa rest\<rparr>" "ca = None \<or> wa = None"
proof -
  have "check_answered e cc wc ca wa rest r = revalidation_failed r \<or>
      (\<exists>a b. check_answered e cc wc ca wa rest r = next_pair rest (pair_checked e a b r)) \<or>
      check_answered e cc wc ca wa rest r = r\<lparr>rl_revalidation := CheckPair e cc wc ca wa rest\<rparr> \<and> (ca = None \<or> wa = None)"
    unfolding check_answered_def by (cases ca; cases wa) (auto split: sum.splits)
  then show thesis using that by blast
qed

lemma next_pair_waits: "round_waits (next_pair es r)"
  by (auto simp: round_waits_def next_pair_def revalidation_failed_def split: list.split option.split)

lemma check_waits: "round_waits (check_answered e cc wc ca wa rest r)"
  by (rule check_outcomes [of e cc wc ca wa rest r]) (simp_all add: next_pair_waits, simp_all add: round_waits_def revalidation_failed_def)

lemma schedule_waits: "round_waits r \<Longrightarrow> round_waits (scheduleRevalidation r)"
  by (auto simp: scheduleRevalidation_def revalidatePairs_def next_pair_waits) (simp add: round_waits_def)

lemma round_waits_step:
  assumes st: "relay_step lc num env a (d, r) (d', r')" and w: "round_waits r"
  shows "round_waits r'"
  using st
proof (rule relay_step_beside)
  assume "beside_round r' r"
  with w show ?thesis by (simp add: round_waits_def beside_round_def)
next
  assume "r' = revalidation_finally r"
  then show ?thesis
    using schedule_waits [of "r\<lparr>rl_revalidation := NoRound, rl_revalidationPending := False\<rparr>"]
    by (auto simp: revalidation_finally_def Let_def) (simp_all add: round_waits_def)
qed (use w in \<open>simp_all add: schedule_waits check_waits\<close>)

lemma round_waits_run: "relay_run lc num env tr s s' \<Longrightarrow> round_waits (snd s) \<Longrightarrow> round_waits (snd s')"
proof (induction rule: relay_run.induct)
  case (more tr s s' a s'')
  then show ?case using round_waits_step [of lc num env a "fst s'" "snd s'" "fst s''" "snd s''"] by simp
qed simp

lemma reachable_waits: "relay_reachable lc num env tr d r \<Longrightarrow> round_waits r"
  using round_waits_run [of lc num env tr "(empty_db, relay_init)" "(d, r)"] by (simp add: round_waits_def relay_init_def)

definition pair_over :: "nat \<Rightarrow> nat list \<Rightarrow> relay \<Rightarrow> relay \<Rightarrow> bool" where
  "pair_over e rest r r' \<longleftrightarrow> (\<exists>z. (r' = revalidation_failed z \<or> r' = next_pair rest z) \<and> same_slots z r \<and>
     rl_revalidationFailures z = rl_revalidationFailures r \<and> (\<forall>v. v \<noteq> e \<longrightarrow> rl_entry z v = rl_entry r v))"

lemma check_over:
  "pair_over e rest r (check_answered e cc wc ca wa rest r) \<or>
   check_answered e cc wc ca wa rest r = r\<lparr>rl_revalidation := CheckPair e cc wc ca wa rest\<rparr> \<and> (ca = None \<or> wa = None)"
proof (rule check_outcomes [of e cc wc ca wa rest r])
  fix a b assume "check_answered e cc wc ca wa rest r = next_pair rest (pair_checked e a b r)"
  then have "pair_over e rest r (check_answered e cc wc ca wa rest r)"
    unfolding pair_over_def by (intro exI [of _ "pair_checked e a b r"]) (simp add: pair_checked_def)
  then show ?thesis ..
qed (auto simp: pair_over_def)

lemma pair_runs_over:
  assumes rv: "rl_revalidation r = CheckPair e cc wc ca wa rest" and w: "ca = None \<or> wa = None"
  shows "\<exists>n r'. relay_run lc num env (replicate n Internal) (d, r) (d, r') \<and> pair_over e rest r r'"
proof -
  have one: "\<exists>n r'. relay_run lc num env (replicate n Internal) (d, s) (d, r') \<and> pair_over e rest s r'"
    if "relay_step lc num env Internal (d, s) (d, s')" "pair_over e rest s s'" for s s'
    using that relay_run.more [OF relay_run.none that(1)] by (intro exI [of _ 1] exI [of _ s']) simp
  have two: "\<exists>n r'. relay_run lc num env (replicate n Internal) (d, r) (d, r') \<and> pair_over e rest r r'"
    if "relay_step lc num env Internal (d, r) (d, s)" "relay_step lc num env Internal (d, s) (d, s')" "pair_over e rest s s'"
      "s = r\<lparr>rl_revalidation := v\<rparr>" for s s' v
  proof -
    have "pair_over e rest r s'" using that(3,4) by (auto simp: pair_over_def same_slots_def)
    with relay_run_two [OF that(1,2)] show ?thesis by (intro exI [of _ 2] exI [of _ s']) (simp add: numeral_2_eq_2)
  qed
  let ?A = "Some (ask_allocation cc ''client'' 0 d)" and ?B = "Some (ask_allocation wc ''worker'' 0 d)"
  show ?thesis
  proof (cases ca)
    case None
    let ?s = "check_answered e cc wc ?A wa rest r"
    have s: "relay_step lc num env Internal (d, r) (d, ?s)" using relay_step.check_client rv None by blast
    from check_over [of e rest r cc wc ?A wa] show ?thesis
    proof (elim disjE conjE)
      assume q: "?s = r\<lparr>rl_revalidation := CheckPair e cc wc ?A wa rest\<rparr>" "wa = None"
      then have rv1: "rl_revalidation ?s = CheckPair e cc wc ?A None rest" by simp
      have "pair_over e rest ?s (check_answered e cc wc ?A ?B rest ?s)" using check_over [of e rest ?s cc wc ?A ?B] by simp
      from two [OF s relay_step.check_worker [OF rv1] this q(1)] show ?thesis .
    qed (use one [OF s] in simp_all)
  next
    case (Some A)
    with w have "wa = None" by simp
    let ?s = "check_answered e cc wc ca ?B rest r"
    have s: "relay_step lc num env Internal (d, r) (d, ?s)" using relay_step.check_worker rv \<open>wa = None\<close> by blast
    have "pair_over e rest r ?s" using check_over [of e rest r cc wc ca ?B] Some by simp
    with one [OF s] show ?thesis by simp
  qed
qed

text \<open>Left to itself the round comes to the vacated pair, if nothing fails before, and fails there.\<close>

lemma round_fails:
  "rl_revalidation r = CheckPair e cc wc ca wa (left @ x # behind) \<Longrightarrow> ca = None \<or> wa = None \<Longrightarrow>
   en_client (rl_entry r x) = None \<or> en_worker (rl_entry r x) = None \<Longrightarrow>
   \<exists>n r'. relay_run lc num env (replicate n Internal) (d, r) (d, r') \<and> rl_revalidation r' = RoundOver \<and>
     rl_revalidationFailures r' = Suc (rl_revalidationFailures r) \<and> (\<forall>v. v \<notin> set (e # left) \<longrightarrow> rl_entry r' v = rl_entry r v)"
proof (induction left arbitrary: r e cc wc ca wa)
  case Nil
  from pair_runs_over [OF Nil.prems(1,2)] obtain n r' z where run: "relay_run lc num env (replicate n Internal) (d, r) (d, r')"
    and z: "r' = revalidation_failed z \<or> r' = next_pair (x # behind) z" "same_slots z r"
      "rl_revalidationFailures z = rl_revalidationFailures r" "\<forall>v. v \<noteq> e \<longrightarrow> rl_entry z v = rl_entry r v"
    unfolding pair_over_def append_Nil by blast
  from z(2) Nil.prems(3) have "r' = revalidation_failed z" using z(1) by (auto simp: next_pair_def same_slots_def split: option.split)
  with run z(3,4) show ?case by (intro exI [of _ n] exI [of _ r']) (simp add: revalidation_failed_def)
next
  case (Cons e1 left)
  from pair_runs_over [OF Cons.prems(1,2)] obtain n r1 z where run: "relay_run lc num env (replicate n Internal) (d, r) (d, r1)"
    and z: "r1 = revalidation_failed z \<or> r1 = next_pair (e1 # left @ x # behind) z" "same_slots z r"
      "rl_revalidationFailures z = rl_revalidationFailures r" "\<forall>v. v \<noteq> e \<longrightarrow> rl_entry z v = rl_entry r v"
    unfolding pair_over_def append_Cons by blast
  show ?case
  proof (cases "r1 = revalidation_failed z")
    case True
    with run z(3,4) show ?thesis by (intro exI [of _ n] exI [of _ r1]) (simp add: revalidation_failed_def)
  next
    case False
    with z(1) obtain c w where r1: "r1 = z\<lparr>rl_revalidation := CheckPair e1 c w None None (left @ x # behind)\<rparr>"
      by (auto simp: next_pair_def split: option.splits)
    have "en_client (rl_entry r1 x) = None \<or> en_worker (rl_entry r1 x) = None" using z(2) Cons.prems(3) by (simp add: r1 same_slots_def)
    from Cons.IH [OF _ _ this, of e1 c w None None] obtain m r' where r':
      "relay_run lc num env (replicate m Internal) (d, r1) (d, r')" "rl_revalidation r' = RoundOver"
      "rl_revalidationFailures r' = Suc (rl_revalidationFailures r1)" "\<forall>v. v \<notin> set (e1 # left) \<longrightarrow> rl_entry r' v = rl_entry r1 v"
      by (auto simp: r1)
    have "relay_run lc num env (replicate (n + m) Internal) (d, r) (d, r')"
      using relay_run_trans [OF r'(1) run] by (simp add: replicate_add)
    with r' z(3,4) show ?thesis by (intro exI [of _ "n + m"] exI [of _ r']) (simp add: r1)
  qed
qed

section \<open>A second pair\<close>

text \<open>
  A second session is submitted, allocated the other GPU, started and activated while the first pair
  is live; its client and worker are paired, and the relay is subscribed to the event stream.
\<close>

definition second_session_input :: session_input where
  "second_session_input = sample_session_input\<lparr>si_id := ''session_t'', si_now := 6100\<rparr>"

definition run_requested :: db where
  "run_requested = snd (submitSession_tx second_session_input run_active)"

definition run_allocated :: db where
  "run_allocated = snd (runOnce str_cmp sample_config True sample_uuids 6200 run_requested)"

definition run_started :: db where
  "run_started = snd (startSession sample_service ''session_t'' sample_lease_request 6300 run_allocated)"

definition run_two :: db where
  "run_two = snd (activateSession sample_service ''session_t'' sample_lease_request 6400 run_started)"

definition second_active_session :: session where
  "second_active_session = sample_allocated_session\<lparr>s_id := ''session_t'', s_status := Active, s_assignedGpuUuid := Some ''g2'',
     s_leaseExpiresAt := Some 66400, s_createdAt := 6100, s_updatedAt := 6400\<rparr>"

lemma run_two_sessions:
  "db_sessions run_two = [sample_connecting_session\<lparr>s_status := Active, s_leaseExpiresAt := Some 66000, s_updatedAt := 6000\<rparr>, second_active_session]"
  by code_simp

lemma second_session_valid:
  "session_submission str_cmp (\<lambda>_. []) ''t'' sample_session_request JNull 6100 = Inr second_session_input"
  by (simp add: session_submission_def sample_session_request_valid second_session_input_def sample_session_input_def optionalString_def createId_def)

lemma run_active_reachable: "cp_reachable str_cmp (\<lambda>_. []) sample_service run_active"
  unfolding run_active_def by (rule cp_steps.more [OF run_connecting_reachable cp_step.activate_session])

lemma run_two_steps: "cp_steps str_cmp (\<lambda>_. []) sample_service run_active run_two"
proof -
  let ?steps = "cp_steps str_cmp (\<lambda>_. []) sample_service run_active"
  have "?steps run_requested"
    unfolding run_requested_def by (rule cp_steps.more [OF cp_steps.none cp_step.submit_session]) (rule second_session_valid)
  moreover have "cf_scheduler sample_service = sample_config" by (simp add: sample_service_def)
  ultimately have "?steps run_allocated"
    unfolding run_allocated_def
    using cp_step.schedule [of str_cmp "\<lambda>_. []" sample_service run_requested True sample_uuids 6200] by (metis cp_steps.more)
  then have "?steps run_started" unfolding run_started_def by (rule cp_steps.more) (rule cp_step.start_session)
  then show ?thesis unfolding run_two_def by (rule cp_steps.more) (rule cp_step.activate_session)
qed

lemma second_claims_valid: "role \<in> {''client'', ''worker''} \<Longrightarrow> valid_claims (second_claims role)"
  by (auto simp: valid_claims_def second_claims_def pair_claims_def sample_grant_claims_def DATA_PLANE_GRANT_MAX_TTL_MS_def max_safe_integer_def)

lemma second_asked:
  "ask_grant pair_env (pair_token ''d'') ''client'' 7000 7000 run_two = Inr (Some (second_claims ''client'', second_active_session))"
  "ask_grant pair_env (pair_token ''v'') ''worker'' 7000 7000 run_two = Inr (Some (second_claims ''worker'', second_active_session))"
  "ask_grant pair_env (pair_token ''v'') ''client'' 7000 7000 run_two = Inr None"
proof -
  have d: "verifyDataPlaneGrant (ev_decode pair_env) (ev_hmac pair_env) (JStr (pair_token ''d'')) (cf_dataPlaneSigningKey (ev_service pair_env)) 7000 =
      Inr (Some (second_claims ''client''))"
    by (intro token_verified second_claims_valid)
      (simp_all add: pair_env_def second_claims_def pair_claims_def sample_grant_claims_def max_safe_integer_def)
  have v: "verifyDataPlaneGrant (ev_decode pair_env) (ev_hmac pair_env) (JStr (pair_token ''v'')) (cf_dataPlaneSigningKey (ev_service pair_env)) 7000 =
      Inr (Some (second_claims ''worker''))"
    by (intro token_verified second_claims_valid)
      (simp_all add: pair_env_def second_claims_def pair_claims_def sample_grant_claims_def max_safe_integer_def)
  have g: "getSession ''session_t'' run_two = Some second_active_session"
    by (simp add: getSession_def run_two_sessions sample_connecting_session_def sample_allocated_session_def second_active_session_def)
  have a: "ask_allocation (second_claims role) role 7000 run_two = Inr (Some (second_claims role, second_active_session))"
    if "role \<in> {''client'', ''worker''}" for role
    using that unfolding ask_allocation_def authorizeDataPlaneAllocation_def validateDataPlaneGrantClaims_id [OF second_claims_valid [OF that]]
    by (auto simp: validateDataPlaneRole_def second_claims_def pair_claims_def sample_grant_claims_def g safe_lease_expiry_def)
      (auto simp: second_active_session_def sample_allocated_session_def session_allocated_def max_safe_integer_def)
  have n: "ask_allocation (second_claims ''worker'') ''client'' 7000 run_two = Inr None"
    unfolding ask_allocation_def authorizeDataPlaneAllocation_def validateDataPlaneGrantClaims_id [OF second_claims_valid, of "''worker''", simplified]
    by (simp add: validateDataPlaneRole_def second_claims_def pair_claims_def)
  show "ask_grant pair_env (pair_token ''d'') ''client'' 7000 7000 run_two = Inr (Some (second_claims ''client'', second_active_session))"
    "ask_grant pair_env (pair_token ''v'') ''worker'' 7000 7000 run_two = Inr (Some (second_claims ''worker'', second_active_session))"
    "ask_grant pair_env (pair_token ''v'') ''client'' 7000 7000 run_two = Inr None"
    using d v a [of "''client''"] a [of "''worker''"] n
    by (simp_all add: ask_grant_def authorizeDataPlaneGrant_def ask_allocation_def validateDataPlaneRole_def)
qed

lemma second_offers:
  "parseDataPlaneProtocols (Some (pair_header DATA_PLANE_SUBPROTOCOL (pair_token ''d''))) = Some (DATA_PLANE_SUBPROTOCOL, pair_token ''d'')"
  "parseDataPlaneProtocols (Some (pair_header DATA_PLANE_SUBPROTOCOL (pair_token ''v''))) = Some (DATA_PLANE_SUBPROTOCOL, pair_token ''v'')"
  by code_simp+

definition relay5 :: relay where
  "relay5 = upgrade_accepted False DATA_PLANE_SUBPROTOCOL (pair_token ''d'') (second_claims ''client'', second_active_session) relay3"

definition relay6 :: relay where
  "relay6 = upgrade_accepted False DATA_PLANE_SUBPROTOCOL (pair_token ''v'') (second_claims ''worker'', second_active_session) relay5"

definition relay7 :: relay where
  "relay7 = pair_activated 1 (take_task 0 relay6)"

lemma relay3_rest: "rl_sockets relay3 = 2" "rl_revalidationFailures relay3 = 0"
  by (simp_all add: relay3_def pair_activated_def Let_def take_task_def relay2_eq [unfolded One_nat_def] link_peers_def clearPeerTimer_def resetIdleTimers_def
      resetIdleTimer_def pair_settled_def push_frame_def new_conn_def new_entry_def)
    (simp add: relay2_def relay1_def relay_run_defs)

lemma second_keys: "pairingKey (second_claims role) \<noteq> pairingKey (pair_claims role')" "pairingKey (second_claims ''worker'') = pairingKey (second_claims ''client'')"
  by (simp_all add: pairingKey_def second_claims_def pair_claims_def sample_grant_claims_def)

lemma relay5_eq:
  "rl_tasks relay5 = []" "rl_conns relay5 = 3" "rl_sockets relay5 = 3" "rl_entries relay5 = 2" "rl_closed relay5 = False"
  "rl_revalidation relay5 = NoRound" "rl_revalidationFailures relay5 = 0"
  "rl_pairs relay5 = [(pairingKey (pair_claims ''client''), 0), (pairingKey (second_claims ''client''), 1)]"
  "rl_entry relay5 0 = rl_entry relay3 0" "rl_conn relay5 0 = rl_conn relay3 0" "rl_conn relay5 1 = rl_conn relay3 1"
  "rl_entry relay5 1 = (new_entry (second_claims ''client''))\<lparr>en_client := Some 2\<rparr>"
  "rl_conn relay5 2 = new_conn 2 (pair_token ''d'') DATA_PLANE_SUBPROTOCOL (second_claims ''client'') 1"
  "rl_socket relay5 2 = \<lparr>ws_ready = WsOpen, ws_sent = [], ws_close = None\<rparr>"
proof -
  have role: "gc_role (second_claims ''client'') = ''client''" by (simp add: second_claims_def pair_claims_def)
  show "rl_tasks relay5 = []" "rl_conns relay5 = 3" "rl_sockets relay5 = 3" "rl_entries relay5 = 2" "rl_closed relay5 = False"
  "rl_revalidation relay5 = NoRound" "rl_revalidationFailures relay5 = 0"
  "rl_pairs relay5 = [(pairingKey (pair_claims ''client''), 0), (pairingKey (second_claims ''client''), 1)]"
  "rl_entry relay5 0 = rl_entry relay3 0" "rl_conn relay5 0 = rl_conn relay3 0" "rl_conn relay5 1 = rl_conn relay3 1"
  "rl_entry relay5 1 = (new_entry (second_claims ''client''))\<lparr>en_client := Some 2\<rparr>"
  "rl_conn relay5 2 = new_conn 2 (pair_token ''d'') DATA_PLANE_SUBPROTOCOL (second_claims ''client'') 1"
  "rl_socket relay5 2 = \<lparr>ws_ready = WsOpen, ws_sent = [], ws_close = None\<rparr>"
    by (simp_all add: relay5_def upgrade_accepted_def acceptConnection_def lookup_entry_def second_keys relay3_eq relay3_rest slot_def new_entry_def
      role join_entry_def tryPair_def Let_def set_slot_def open_socket_def)
qed


lemma relay6_eq:
  "rl_tasks relay6 = [PairAuthorize 1 (pair_token ''d'') (pair_token ''v'') None None]" "rl_conns relay6 = 4" "rl_entries relay6 = 2"
  "rl_closed relay6 = False" "rl_revalidation relay6 = NoRound" "rl_revalidationFailures relay6 = 0"
  "rl_pairs relay6 = [(pairingKey (pair_claims ''client''), 0), (pairingKey (second_claims ''client''), 1)]"
  "rl_entry relay6 0 = rl_entry relay3 0" "rl_conn relay6 0 = rl_conn relay3 0" "rl_conn relay6 1 = rl_conn relay3 1"
  "rl_entry relay6 1 = (new_entry (second_claims ''client''))\<lparr>en_client := Some 2, en_worker := Some 3, en_activating := True\<rparr>"
  "rl_conn relay6 2 = new_conn 2 (pair_token ''d'') DATA_PLANE_SUBPROTOCOL (second_claims ''client'') 1"
  "rl_conn relay6 3 = new_conn 3 (pair_token ''v'') DATA_PLANE_SUBPROTOCOL (second_claims ''worker'') 1"
  "rl_socket relay6 2 = \<lparr>ws_ready = WsOpen, ws_sent = [], ws_close = None\<rparr>"
  "rl_socket relay6 3 = \<lparr>ws_ready = WsOpen, ws_sent = [], ws_close = None\<rparr>"
proof -
  have role: "gc_role (second_claims ''worker'') = ''worker''" "gc_role (second_claims ''client'') = ''client''"
    by (simp_all add: second_claims_def pair_claims_def)
  have r6: "relay6 = join_entry 3 (pair_token ''v'') DATA_PLANE_SUBPROTOCOL (second_claims ''worker'') 1 (open_socket relay5)"
    by (simp add: relay6_def upgrade_accepted_def acceptConnection_def lookup_entry_def second_keys relay5_eq relay5_eq(12) [unfolded One_nat_def] slot_def new_entry_def role)
  show "rl_tasks relay6 = [PairAuthorize 1 (pair_token ''d'') (pair_token ''v'') None None]" "rl_conns relay6 = 4" "rl_entries relay6 = 2"
  "rl_closed relay6 = False" "rl_revalidation relay6 = NoRound" "rl_revalidationFailures relay6 = 0"
  "rl_pairs relay6 = [(pairingKey (pair_claims ''client''), 0), (pairingKey (second_claims ''client''), 1)]"
  "rl_entry relay6 0 = rl_entry relay3 0" "rl_conn relay6 0 = rl_conn relay3 0" "rl_conn relay6 1 = rl_conn relay3 1"
  "rl_entry relay6 1 = (new_entry (second_claims ''client''))\<lparr>en_client := Some 2, en_worker := Some 3, en_activating := True\<rparr>"
  "rl_conn relay6 2 = new_conn 2 (pair_token ''d'') DATA_PLANE_SUBPROTOCOL (second_claims ''client'') 1"
  "rl_conn relay6 3 = new_conn 3 (pair_token ''v'') DATA_PLANE_SUBPROTOCOL (second_claims ''worker'') 1"
  "rl_socket relay6 2 = \<lparr>ws_ready = WsOpen, ws_sent = [], ws_close = None\<rparr>"
  "rl_socket relay6 3 = \<lparr>ws_ready = WsOpen, ws_sent = [], ws_close = None\<rparr>"
    unfolding r6
    by (simp_all add: join_entry_def tryPair_def Let_def relay5_eq [unfolded One_nat_def] set_slot_def new_entry_def role new_conn_def)
qed

lemma relay7_eq:
  "rl_conns relay7 = 4" "rl_entries relay7 = 2" "rl_closed relay7 = False" "rl_tasks relay7 = []" "rl_revalidation relay7 = NoRound"
  "rl_revalidationFailures relay7 = 0"
  "cn_claims (rl_conn relay7 0) = pair_claims ''client''" "cn_claims (rl_conn relay7 1) = pair_claims ''worker''"
  "cn_entry (rl_conn relay7 2) = 1" "cn_socket (rl_conn relay7 2) = 2"
  "rl_entry relay7 0 = rl_entry relay3 0"
  "en_active (rl_entry relay7 1)" "\<not> en_closed (rl_entry relay7 1)" "en_client (rl_entry relay7 1) = Some 2" "en_worker (rl_entry relay7 1) = Some 3"
  "rl_socket relay7 2 = \<lparr>ws_ready = WsOpen, ws_sent = [], ws_close = None\<rparr>"
  "rl_pairs relay7 = [(pairingKey (pair_claims ''client''), 0), (pairingKey (second_claims ''client''), 1)]"
  by (simp_all add: relay7_def pair_activated_def Let_def take_task_def relay6_eq [unfolded One_nat_def] link_peers_def clearPeerTimer_def resetIdleTimers_def
      resetIdleTimer_def pair_settled_def push_frame_def new_conn_def new_entry_def relay3_eq [unfolded One_nat_def])

text \<open>The relay in the middle of a round: the first pair is checked, the second is to come.\<close>

definition relay_round :: relay where
  "relay_round = scheduleRevalidation (relay7\<lparr>rl_subscribed := True\<rparr>)"

lemma relay_round_eq:
  "relay_round = relay7\<lparr>rl_subscribed := True, rl_revalidation := CheckPair 0 (pair_claims ''client'') (pair_claims ''worker'') None None [1]\<rparr>"
  by (simp add: relay_round_def scheduleRevalidation_def revalidatePairs_def live_entries_def next_pair_def relay7_eq [unfolded One_nat_def] relay3_eq [unfolded One_nat_def])

lemma second_pair_run:
  obtains tr where "relay_reachable str_cmp (\<lambda>_. []) pair_env tr run_two relay_round"
proof -
  let ?run = "\<lambda>tr r. relay_reachable str_cmp (\<lambda>_. []) pair_env tr run_two r" and ?d = run_two
  have step: "\<exists>tr. ?run tr r'" if "\<exists>tr. ?run tr r" and "relay_step str_cmp (\<lambda>_. []) pair_env Internal (run_two, r) (run_two, r')" for r r'
    using that relay_run.more by metis
  obtain tr0 where "relay_reachable str_cmp (\<lambda>_. []) pair_env tr0 run_active relay3" by (rule pair_run)
  then have r3: "\<exists>tr. ?run tr relay3"
    using relay_run_db_steps [of str_cmp "\<lambda>_. []" pair_env run_active run_two relay3] run_two_steps relay_run_trans by (metis pair_service)
  let ?C = "UpgradeClient DATA_PLANE_SUBPROTOCOL (pair_token ''d'')"
    and ?CA = "UpgradeAccept DATA_PLANE_SUBPROTOCOL (pair_token ''d'') (second_claims ''client'', second_active_session)"
    and ?W = "UpgradeClient DATA_PLANE_SUBPROTOCOL (pair_token ''v'')"
    and ?W' = "UpgradeWorker DATA_PLANE_SUBPROTOCOL (pair_token ''v'')"
    and ?WA = "UpgradeAccept DATA_PLANE_SUBPROTOCOL (pair_token ''v'') (second_claims ''worker'', second_active_session)"
  have i: "rl_tasks relay3 = []" "\<not> rl_closed relay3" by (simp_all add: relay3_eq)
  have r5: "rl_tasks relay5 = []" "\<not> rl_closed relay5" by (simp_all add: relay5_eq)
  from step [OF r3 relay_step.upgrade [where env = pair_env and d = ?d and r = relay3 and destroyed = False and url = DATA_PLANE_PATH and header = "Some (pair_header DATA_PLANE_SUBPROTOCOL (pair_token ''d''))"]]
  have "\<exists>tr. ?run tr (add_task ?C relay3)" by (simp add: handle_pair_upgrade [OF second_offers(1) i(2)])
  from step [OF this relay_step.upgrade_client [OF task_add [OF i(1)], where env = pair_env and d = ?d and destroyed = False and t = 7000 and t' = 7000]]
  have "\<exists>tr. ?run tr (add_task ?CA relay3)" by (simp add: second_asked take_add_task [OF i(1)] upgrade_client_answered_def)
  from step [OF this relay_step.upgrade_accept [OF task_add [OF i(1)], where env = pair_env and d = ?d and destroyed = False]]
  have "\<exists>tr. ?run tr relay5" by (simp add: take_add_task [OF i(1)] relay5_def)
  from step [OF this relay_step.upgrade [where env = pair_env and d = ?d and r = relay5 and destroyed = False and url = DATA_PLANE_PATH and header = "Some (pair_header DATA_PLANE_SUBPROTOCOL (pair_token ''v''))"]]
  have "\<exists>tr. ?run tr (add_task ?W relay5)" by (simp add: handle_pair_upgrade [OF second_offers(2) r5(2)])
  from step [OF this relay_step.upgrade_client [OF task_add [OF r5(1)], where env = pair_env and d = ?d and destroyed = False and t = 7000 and t' = 7000]]
  have "\<exists>tr. ?run tr (add_task ?W' relay5)" by (simp add: second_asked take_add_task [OF r5(1)] upgrade_client_answered_def)
  from step [OF this relay_step.upgrade_worker [OF task_add [OF r5(1)], where env = pair_env and d = ?d and destroyed = False and t = 7000 and t' = 7000]]
  have "\<exists>tr. ?run tr (add_task ?WA relay5)" by (simp add: second_asked take_add_task [OF r5(1)] upgrade_worker_answered_def)
  from step [OF this relay_step.upgrade_accept [OF task_add [OF r5(1)], where env = pair_env and d = ?d and destroyed = False]]
  have r6: "\<exists>tr. ?run tr relay6" by (simp add: take_add_task [OF r5(1)] relay6_def)
  define base where "base = take_task 0 relay6"
  have b: "rl_tasks base = []" "rl_entry base = rl_entry relay6" by (simp_all add: base_def take_task_def relay6_eq)
  have t6: "task_at 0 (PairAuthorize 1 (pair_token ''d'') (pair_token ''v'') None None) relay6" by (simp add: task_at_def relay6_eq)
  let ?ca = "Inr (Some (second_claims ''client'', second_active_session))" and ?wa = "Inr (Some (second_claims ''worker'', second_active_session))"
  from step [OF r6 relay_step.pair_client [OF t6, where env = pair_env and d = ?d and t = 7000 and t' = 7000]]
  have "\<exists>tr. ?run tr (add_task (PairAuthorize 1 (pair_token ''d'') (pair_token ''v'') (Some ?ca) None) base)"
    by (simp add: second_asked pair_answered_def base_def)
  from step [OF this relay_step.pair_worker [OF task_add [OF b(1)], where env = pair_env and d = ?d and t = 7000 and t' = 7000]]
  have a: "\<exists>tr. ?run tr (pair_answered 1 (pair_token ''d'') (pair_token ''v'') (Some ?ca) (Some ?wa) base)"
    by (simp add: second_asked take_add_task [OF b(1)])
  have same: "sameAllocation (Some (second_claims role, s)) (rl_entry base 1)" for role s
    using relay6_eq(11) by (simp add: sameAllocation_def b new_entry_def second_claims_def pair_claims_def)
  have "\<exists>tr. ?run tr relay7"
    using a same by (simp add: pair_answered_def second_active_session_def relay7_def base_def)
  then have "\<exists>tr. ?run tr (relay7\<lparr>rl_subscribed := True\<rparr>)"
    by (rule step) (rule relay_step.started, simp add: relay_start_def relay7_eq)
  then have "\<exists>tr. ?run tr relay_round"
    unfolding relay_round_def by (rule step) (rule relay_step.event, simp)
  then show ?thesis using that by blast
qed

section \<open>The property\<close>

text \<open>
  C24. Once either side of an open pair that a round has still to check disconnects, that round can no
  longer end but as a failed one: in every run that follows, as long as no failure is counted, the
  round is still at one of the pairs before it, and the pairs behind it have not been looked at. The
  failure does come: left to itself, the round ends as failed, with the vacated pair and the pairs
  behind it left as they are, whatever has become of their sessions.
\<close>

theorem revalidation_aborts:
  assumes "relay_reachable lc num env tr d r"
    and "rl_revalidation r = CheckPair e cc wc ca wa (left @ x # behind)"
    and "open_conn c r" and "cn_entry (rl_conn r c) = x" and "\<not> en_closed (rl_entry r x)"
    and "relay_run lc num env tr' (d, handleSocketClose c (set_closed (cn_socket (rl_conn r c)) r)) (d', r')"
  shows "rl_revalidationFailures r < rl_revalidationFailures r' \<or>
    rl_revalidationFailures r' = rl_revalidationFailures r \<and>
    (\<exists>past e' cc' wc' ca' wa' left'. rl_revalidation r' = CheckPair e' cc' wc' ca' wa' (left' @ x # behind) \<and>
       e # left = past @ e' # left' \<and>
       (\<exists>n r''. relay_run lc num env (replicate n Internal) (d', r') (d', r'') \<and> rl_revalidation r'' = RoundOver \<and>
          rl_revalidationFailures r'' = Suc (rl_revalidationFailures r) \<and>
          (\<forall>y. y \<notin> set (e # left) \<longrightarrow> rl_entry r'' y = rl_entry r' y)))"
proof -
  let ?r1 = "handleSocketClose c (set_closed (cn_socket (rl_conn r c)) r)"
  have inv: "relay_inv r" and ok: "relay_ok r" using relay_reachable_inv [OF assms(1)] by (simp_all add: relay_inv_def)
  have c: "c < rl_conns r" "ws_ready (conn_socket r c) \<noteq> WsClosed" using assms(3) by (simp_all add: open_conn_def)
  have slot: "slot (cn_role (rl_conn r c)) (rl_entry r x) = Some c" using connD(5) [OF ok c(1)] c(2) assms(4) by simp
  note role = connD(3) [OF ok c(1)]
  have st: "relay_step lc num env Internal (d, r) (d, ?r1)" using relay_step.socket_close [OF assms(3)] .
  have inv1: "relay_inv ?r1" using relay_step_ok [OF st] inv by simp
  have b: "beside_round ?r1 r" by (rule beside_trans [OF beside_handlers(9) beside_simps(13)])
  have "slot (cn_role (rl_conn r c)) (rl_entry ?r1 x) = None" "en_closed (rl_entry ?r1 x)"
    using socket_close_vacates [of r c "cn_socket (rl_conn r c)"] slot role assms(4,5) by simp_all
  moreover have "x < rl_entries ?r1"
    using connD(2) [OF ok c(1)] assms(4) b by (simp add: beside_round_def)
  moreover have "short_of x (e # left) behind ?r1"
    using b assms(2) unfolding short_of_def beside_round_def by (metis append_Nil)
  ultimately have "doomed x (e # left) behind (rl_revalidationFailures r) ?r1"
    using role b by (auto simp: doomed_def beside_round_def slot_def)
  with doomed_run [OF assms(6)] inv1 have "doomed x (e # left) behind (rl_revalidationFailures r) r'" by simp
  then have dm: "en_client (rl_entry r' x) = None \<or> en_worker (rl_entry r' x) = None"
    "rl_revalidationFailures r < rl_revalidationFailures r' \<or>
      rl_revalidationFailures r = rl_revalidationFailures r' \<and> short_of x (e # left) behind r'" by (simp_all add: doomed_def)
  have "round_waits r'" using round_waits_run [OF assms(6)] round_waits_step [OF st reachable_waits [OF assms(1)]] by simp
  show ?thesis
  proof (cases "rl_revalidationFailures r < rl_revalidationFailures r'")
    case False
    with dm(2) obtain past e' cc' wc' ca' wa' left' where
      now: "rl_revalidation r' = CheckPair e' cc' wc' ca' wa' (left' @ x # behind)" "e # left = past @ e' # left'"
      and n: "rl_revalidationFailures r' = rl_revalidationFailures r" unfolding short_of_def by auto
    have "ca' = None \<or> wa' = None" using \<open>round_waits r'\<close> now(1) by (simp add: round_waits_def)
    from round_fails [OF now(1) this dm(1), of lc num env d'] obtain k r'' where
      "relay_run lc num env (replicate k Internal) (d', r') (d', r'')" "rl_revalidation r'' = RoundOver"
      "rl_revalidationFailures r'' = Suc (rl_revalidationFailures r)" "\<forall>v. v \<notin> set (e' # left') \<longrightarrow> rl_entry r'' v = rl_entry r' v"
      unfolding n by blast
    moreover have "set (e' # left') \<subseteq> set (e # left)" unfolding now(2) by auto
    ultimately show ?thesis using now n by blast
  qed simp
qed

theorem revalidation_aborts_witness:
  "\<exists>n r'. relay_run str_cmp (\<lambda>_. []) pair_env (replicate n Internal)
      (run_two, handleSocketClose 2 (set_closed (cn_socket (rl_conn relay_round 2)) relay_round)) (run_two, r') \<and>
     rl_revalidation r' = RoundOver \<and> rl_revalidationFailures r' = 1"
proof -
  obtain tr where r: "relay_reachable str_cmp (\<lambda>_. []) pair_env tr run_two relay_round" by (rule second_pair_run)
  have round: "rl_revalidation relay_round = CheckPair 0 (pair_claims ''client'') (pair_claims ''worker'') None None ([] @ 1 # [])"
    by (simp add: relay_round_eq)
  have c: "open_conn 2 relay_round" "cn_entry (rl_conn relay_round 2) = 1" "\<not> en_closed (rl_entry relay_round 1)"
    by (simp_all add: relay_round_eq open_conn_def relay7_eq [unfolded One_nat_def])
  have "beside_round (handleSocketClose 2 (set_closed (cn_socket (rl_conn relay_round 2)) relay_round)) relay_round"
    by (rule beside_trans [OF beside_handlers(9) beside_simps(13)])
  moreover have "rl_revalidationFailures relay_round = 0" by (simp add: relay_round_eq relay7_eq)
  ultimately show ?thesis
    using revalidation_aborts [OF r round c relay_run.none] by (auto simp: beside_round_def)
qed

end
