(* ===== verification/HttpServer.thy ===== *)
theory HttpServer
  imports Guarantees
begin

text \<open>
  \<^verbatim>\<open>src/control-plane/http-server.mjs\<close>: routing, bearer tokens, request bodies, the answers and the
  event streams. URL parsing, \<^verbatim>\<open>decodeURIComponent\<close>, \<^verbatim>\<open>JSON.parse\<close>, \<^verbatim>\<open>Number\<close> and HMAC are
  parameters of the environment. A request is handled as a whole: its operation, the scheduler pass
  the operation waits for, and the flush of the event streams.
\<close>

section \<open>Requests and answers\<close>

record http_url =
  hu_pathname :: string
  hu_param :: "string \<Rightarrow> string option"

record http_env =
  he_config :: service_config
  he_profiles :: "broker_profile list"
  he_lc :: "string \<Rightarrow> string \<Rightarrow> int"
  he_num :: "rat \<Rightarrow> string"
  he_hmac :: "string \<Rightarrow> string \<Rightarrow> string"
  he_url :: "string \<Rightarrow> http_url option"
  he_component :: "string \<Rightarrow> string option"
  he_json :: "string \<Rightarrow> jsval option"
  he_number :: "string \<Rightarrow> jsval"

text \<open>
  A header that is not there is \<^verbatim>\<open>undefined\<close>. The last fields are what the operation is given while
  it runs: an identifier, the clock's reading, and the pass it waits for.
\<close>

record http_request =
  rq_method :: string
  rq_url :: string
  rq_authorization :: jsval
  rq_idempotencyKey :: jsval
  rq_lastEventId :: "string option"
  rq_chunks :: "string list"
  rq_uuid :: string
  rq_now :: int
  rq_passAcquired :: bool
  rq_passUuids :: "nat \<Rightarrow> string"
  rq_passNow :: int

datatype http_body =
    StatusBody string
  | ErrorBody string string
  | MetricsBody "string list"
  | EventStreamBody
  | ReservationBody broker_reservation
  | ObservationBody broker_observation
  | WorkerBody worker
  | WorkersBody "worker list"
  | LeasesBody "job list" "session list"
  | SubmittedJobBody "job option" bool
  | JobsBody "job list"
  | JobBody job
  | SubmittedSessionBody "session option" bool
  | SessionsBody "session list"
  | SessionBody session
  | GrantBody string int
  | PassBody pass_result

record http_answer =
  an_status :: int
  an_challenge :: bool
  an_body :: http_body

text \<open>\<open>TooLarge\<close> is the \<^verbatim>\<open>ValidationError\<close> whose status code is set to 413.\<close>

datatype thrown = Thrown error | TooLarge

definition sendJson :: "int \<Rightarrow> http_body \<Rightarrow> http_answer" where
  "sendJson status body = \<lparr>an_status = status, an_challenge = False, an_body = body\<rparr>"

definition error_status :: "thrown \<Rightarrow> int" where
  "error_status e =
     (case e of
        TooLarge \<Rightarrow> 413
      | Thrown (ValidationError _) \<Rightarrow> 400
      | Thrown (NotFoundError _) \<Rightarrow> 404
      | Thrown (ConflictError _) \<Rightarrow> 409
      | Thrown (BrokerClaimError _ status) \<Rightarrow> int status
      | _ \<Rightarrow> 500)"

text \<open>The code of the answer: the error's own, or its name in snake case. Other classes have status 500.\<close>

definition error_code :: "thrown \<Rightarrow> string" where
  "error_code e =
     (if error_status e = 500 then ''internal_error''
      else
        (case e of
           Thrown (BrokerClaimError code _) \<Rightarrow> code
         | Thrown (NotFoundError _) \<Rightarrow> ''not_found''
         | Thrown (ConflictError _) \<Rightarrow> ''conflict''
         | _ \<Rightarrow> ''validation''))"

definition error_message :: "thrown \<Rightarrow> string" where
  "error_message e =
     (if error_status e = 500 then ''internal server error''
      else
        (case e of
           Thrown (BrokerClaimError code _) \<Rightarrow> code
         | Thrown (NotFoundError m) \<Rightarrow> m
         | Thrown (ConflictError m) \<Rightarrow> m
         | Thrown (ValidationError m) \<Rightarrow> m
         | _ \<Rightarrow> ''request body exceeds 1 MiB''))"

definition error_answer :: "thrown \<Rightarrow> http_answer" where
  "error_answer e = sendJson (error_status e) (ErrorBody (error_code e) (error_message e))"

definition not_found :: "string \<Rightarrow> http_answer" where
  "not_found message = sendJson 404 (ErrorBody ''not_found'' message)"

definition challenge :: "string \<Rightarrow> string \<Rightarrow> http_answer" where
  "challenge code message = \<lparr>an_status = 401, an_challenge = True, an_body = ErrorBody code message\<rparr>"

definition MAX_BODY_BYTES :: nat where
  "MAX_BODY_BYTES = 1048576"

text \<open>The chunks of the body are read until they are too long together.\<close>

fun read_chunks :: "nat \<Rightarrow> string list \<Rightarrow> bool" where
  "read_chunks got [] = True"
| "read_chunks got (chunk # chunks) =
     (if got + length chunk > MAX_BODY_BYTES then False else read_chunks (got + length chunk) chunks)"

definition readJson :: "http_env \<Rightarrow> http_request \<Rightarrow> thrown + jsval" where
  "readJson env rq =
     (if \<not> read_chunks 0 (rq_chunks rq) then Inl TooLarge
      else if rq_chunks rq = [] then Inr (JObj [])
      else (case he_json env (concat (rq_chunks rq)) of
          None \<Rightarrow> Inl (Thrown (ValidationError ''request body must contain valid JSON''))
        | Some v \<Rightarrow> Inr v))"

definition parseLimit :: "http_env \<Rightarrow> string option \<Rightarrow> int result" where
  "parseLimit env v =
     (case v of
        None \<Rightarrow> Inr 100
      | Some text \<Rightarrow>
          (case safe_integer (he_number env text) of
             Some n \<Rightarrow> if n < 1 \<or> n > 500 then Inl (ValidationError ''limit must be an integer from 1 through 500'') else Inr n
           | None \<Rightarrow> Inl (ValidationError ''limit must be an integer from 1 through 500'')))"

section \<open>Routes\<close>

text \<open>\<^verbatim>\<open>path.split("/").filter(Boolean)\<close>.\<close>

fun split_segments :: "string \<Rightarrow> string \<Rightarrow> string list" where
  "split_segments seg [] = (if seg = [] then [] else [rev seg])"
| "split_segments seg (c # cs) =
     (if c = CHR ''/'' then (if seg = [] then [] else [rev seg]) @ split_segments [] cs
      else split_segments (c # seg) cs)"

text \<open>
  \<^verbatim>\<open>matchPath\<close> on patterns with at most one \<^verbatim>\<open>:id\<close>: the decoded id; \<^verbatim>\<open>decodeURIComponent\<close> throws an
  error that has no status code.
\<close>

fun match_segments :: "(string \<Rightarrow> string option) \<Rightarrow> string list \<Rightarrow> string list \<Rightarrow> string \<Rightarrow> string option result" where
  "match_segments decode (a # as) (e # es) found =
     (if e = '':id'' then
        (case decode a of
           None \<Rightarrow> Inl (PlainError ''URI malformed'')
         | Some v \<Rightarrow> match_segments decode as es v)
      else if e \<noteq> a then Inr None
      else match_segments decode as es found)"
| "match_segments decode _ _ found = Inr (Some found)"

definition matchPath :: "(string \<Rightarrow> string option) \<Rightarrow> string \<Rightarrow> string \<Rightarrow> string option result" where
  "matchPath decode actualPath pattern =
     (let actual = split_segments [] actualPath; expected = split_segments [] pattern in
      if length actual \<noteq> length expected then Inr None else match_segments decode actual expected [])"

datatype route =
    Healthz
  | Readyz
  | Metrics
  | Events
  | BrokerReserve
  | BrokerObserve
  | RegisterWorker
  | ListWorkers
  | HeartbeatWorker string
  | DrainWorker string
  | WorkerLeases string
  | SubmitJob
  | ListJobs
  | ShowJob string
  | StartJob string
  | RenewJob string
  | FinishJob string
  | CancelJob string
  | SubmitSession
  | ListSessions
  | ShowSession string
  | StartSession string
  | ActivateSession string
  | RenewSession string
  | ClientGrant string
  | WorkerGrant string
  | CloseSession string
  | RunScheduler
  | NoRoute

text \<open>
  The conditions of the handler in their order. A pattern is matched, and its id decoded, before the
  method is looked at.
\<close>

datatype condition = Exact string string route | Pattern string string "string \<Rightarrow> route"

definition conditions :: "condition list" where
  "conditions =
    [Exact ''GET'' ''/healthz'' Healthz,
     Exact ''GET'' ''/readyz'' Readyz,
     Exact ''GET'' ''/metrics'' Metrics,
     Exact ''GET'' ''/v1/events'' Events,
     Exact ''POST'' ''/v1/broker/attempts/reserve'' BrokerReserve,
     Exact ''POST'' ''/v1/broker/attempts/observe'' BrokerObserve,
     Exact ''POST'' ''/v1/workers/register'' RegisterWorker,
     Exact ''GET'' ''/v1/workers'' ListWorkers,
     Pattern ''POST'' ''/v1/workers/:id/heartbeat'' HeartbeatWorker,
     Pattern ''POST'' ''/v1/workers/:id/drain'' DrainWorker,
     Pattern ''GET'' ''/v1/workers/:id/leases'' WorkerLeases,
     Exact ''POST'' ''/v1/jobs'' SubmitJob,
     Exact ''GET'' ''/v1/jobs'' ListJobs,
     Pattern ''GET'' ''/v1/jobs/:id'' ShowJob,
     Pattern ''POST'' ''/v1/jobs/:id/start'' StartJob,
     Pattern ''POST'' ''/v1/jobs/:id/renew'' RenewJob,
     Pattern ''POST'' ''/v1/jobs/:id/finish'' FinishJob,
     Pattern ''POST'' ''/v1/jobs/:id/cancel'' CancelJob,
     Exact ''POST'' ''/v1/sessions'' SubmitSession,
     Exact ''GET'' ''/v1/sessions'' ListSessions,
     Pattern ''GET'' ''/v1/sessions/:id'' ShowSession,
     Pattern ''POST'' ''/v1/sessions/:id/start'' StartSession,
     Pattern ''POST'' ''/v1/sessions/:id/activate'' ActivateSession,
     Pattern ''POST'' ''/v1/sessions/:id/renew'' RenewSession,
     Pattern ''POST'' ''/v1/sessions/:id/data-plane/client-grant'' ClientGrant,
     Pattern ''POST'' ''/v1/sessions/:id/data-plane/worker-grant'' WorkerGrant,
     Pattern ''POST'' ''/v1/sessions/:id/close'' CloseSession,
     Exact ''POST'' ''/v1/scheduler/run'' RunScheduler]"

fun first_route :: "(string \<Rightarrow> string option) \<Rightarrow> string \<Rightarrow> string \<Rightarrow> condition list \<Rightarrow> route result" where
  "first_route decode request_method path [] = Inr NoRoute"
| "first_route decode request_method path (Exact m p r # cs) =
     (if request_method = m \<and> path = p then Inr r else first_route decode request_method path cs)"
| "first_route decode request_method path (Pattern m p r # cs) =
     and_then (matchPath decode path p) (\<lambda>matched.
     case matched of
       Some v \<Rightarrow> if request_method = m then Inr (r v) else first_route decode request_method path cs
     | None \<Rightarrow> first_route decode request_method path cs)"

definition find_route :: "http_env \<Rightarrow> http_request \<Rightarrow> http_url \<Rightarrow> route result" where
  "find_route env rq url = first_route (he_component env) (rq_method rq) (hu_pathname url) conditions"

section \<open>Event streams\<close>

text \<open>A client of the event stream, with the events that were written to it.\<close>

record event_client =
  ec_id :: nat
  ec_sequence :: int
  ec_written :: "event list"

record http_state =
  hs_db :: db
  hs_clients :: "event_client list"
  hs_nextClient :: nat

definition flushClient :: "db \<Rightarrow> event_client \<Rightarrow> event_client" where
  "flushClient d client =
     (let events = listEventsAfter (ec_sequence client) 500 d in
      client\<lparr>ec_written := ec_written client @ events,
        ec_sequence := (if events = [] then ec_sequence client else ev_sequence (last events))\<rparr>)"

definition broadcastNewEvents :: "http_state \<Rightarrow> http_state" where
  "broadcastNewEvents s = s\<lparr>hs_clients := map (flushClient (hs_db s)) (hs_clients s)\<rparr>"

definition last_event_id :: "http_env \<Rightarrow> http_request \<Rightarrow> int" where
  "last_event_id env rq =
     (case rq_lastEventId rq of
        None \<Rightarrow> 0
      | Some header \<Rightarrow> (case safe_integer (he_number env header) of Some n \<Rightarrow> n | None \<Rightarrow> 0))"

definition openEventStream :: "http_env \<Rightarrow> http_request \<Rightarrow> http_state \<Rightarrow> http_state" where
  "openEventStream env rq s =
     s\<lparr>hs_clients := hs_clients s @
         [flushClient (hs_db s) \<lparr>ec_id = hs_nextClient s, ec_sequence = last_event_id env rq, ec_written = []\<rparr>],
       hs_nextClient := Suc (hs_nextClient s)\<rparr>"

definition stream_closed :: "nat \<Rightarrow> http_state \<Rightarrow> http_state" where
  "stream_closed i s = s\<lparr>hs_clients := filter (\<lambda>c. ec_id c \<noteq> i) (hs_clients s)\<rparr>"

section \<open>The handler\<close>

definition metrics_line :: "string \<Rightarrow> string \<Rightarrow> int option \<Rightarrow> string" where
  "metrics_line metric status n =
     metric @ ''{status='' @ [CHR 0x22] @ status @ [CHR 0x22] @ ''} '' @ string_of_int (case n of None \<Rightarrow> 0 | Some k \<Rightarrow> k)"

definition metrics_lines :: "db \<Rightarrow> string list" where
  "metrics_lines d =
     (let (workerCounts, jobCounts) = counts d in
      [''# HELP gpulink_workers Number of registered workers by state.'',
       ''# TYPE gpulink_workers gauge'',
       metrics_line ''gpulink_workers'' ''online'' (workerCounts Online),
       metrics_line ''gpulink_workers'' ''offline'' (workerCounts Offline),
       ''# HELP gpulink_jobs Number of jobs by lifecycle state.'',
       ''# TYPE gpulink_jobs gauge''] @
      map (\<lambda>status. metrics_line ''gpulink_jobs'' (job_status_name status) (jobCounts status))
        [Queued, Leased, Running, Succeeded, Failed, Cancelled] @ [[]])"

definition request_pass :: "http_env \<Rightarrow> http_request \<Rightarrow> scheduler_run" where
  "request_pass env rq =
     runOnce (he_lc env) (cf_scheduler (he_config env)) (rq_passAcquired rq) (rq_passUuids rq) (rq_passNow rq)"

text \<open>\<^verbatim>\<open>authorize\<close>, and the rest of the branch behind it.\<close>

type_synonym served = "(thrown + http_answer) \<times> http_state"

definition authorize :: "http_env \<Rightarrow> http_request \<Rightarrow> string list \<Rightarrow> served \<Rightarrow> http_state \<Rightarrow> served" where
  "authorize env rq allowedScopes rest s =
     (if authenticate (he_config env) (rq_authorization rq) allowedScopes then rest
      else (Inr (challenge ''unauthorized'' ''valid bearer token required''), s))"

definition authorize_broker :: "http_env \<Rightarrow> http_request \<Rightarrow> served \<Rightarrow> http_state \<Rightarrow> served" where
  "authorize_broker env rq rest s =
     (if he_profiles env = [] then (Inr (not_found ''route not found''), s)
      else if authenticateBroker (he_profiles env) (rq_authorization rq) = None
      then (Inr (challenge ''broker_unauthorized'' ''broker credential required''), s)
      else rest)"

text \<open>An operation with the request's body; its result is the answer, after the streams are flushed or not.\<close>

definition with_body :: "http_env \<Rightarrow> http_request \<Rightarrow> (jsval \<Rightarrow> served) \<Rightarrow> http_state \<Rightarrow> served" where
  "with_body env rq rest s = (case readJson env rq of Inl e \<Rightarrow> (Inl e, s) | Inr v \<Rightarrow> rest v)"

definition answering :: "('a \<Rightarrow> http_answer) \<Rightarrow> 'a result \<times> db \<Rightarrow> http_state \<Rightarrow> served" where
  "answering answer r s =
     (case r of
        (Inl e, d) \<Rightarrow> (Inl (Thrown e), s\<lparr>hs_db := d\<rparr>)
      | (Inr x, d) \<Rightarrow> (Inr (answer x), s\<lparr>hs_db := d\<rparr>))"

definition broadcasting :: "('a \<Rightarrow> http_answer) \<Rightarrow> 'a result \<times> db \<Rightarrow> http_state \<Rightarrow> served" where
  "broadcasting answer r s =
     (case r of
        (Inl e, d) \<Rightarrow> (Inl (Thrown e), s\<lparr>hs_db := d\<rparr>)
      | (Inr x, d) \<Rightarrow> (Inr (answer x), broadcastNewEvents (s\<lparr>hs_db := d\<rparr>)))"

definition listing :: "http_env \<Rightarrow> http_url \<Rightarrow> (string option \<Rightarrow> int \<Rightarrow> http_body) \<Rightarrow> http_state \<Rightarrow> served" where
  "listing env url rows s =
     (case parseLimit env (hu_param url ''limit'') of
        Inl e \<Rightarrow> (Inl (Thrown e), s)
      | Inr limit \<Rightarrow> (Inr (sendJson 200 (rows (hu_param url ''status'') limit)), s))"

text \<open>What a worker is told to hold: the active ones among the latest hundred jobs and sessions assigned to it.\<close>

definition leased_jobs :: "string \<Rightarrow> db \<Rightarrow> job list" where
  "leased_jobs workerId d = filter (\<lambda>j. j_status j = Leased \<or> j_status j = Running) (listJobs None (Some workerId) 100 d)"

definition leased_sessions :: "string \<Rightarrow> db \<Rightarrow> session list" where
  "leased_sessions workerId d =
     filter (\<lambda>s. s_status s = Allocated \<or> s_status s = Connecting \<or> s_status s = Active)
       (listSessions None (Some workerId) 100 d)"

definition submission_status :: "bool \<Rightarrow> int" where
  "submission_status duplicate = (if duplicate then 200 else 201)"

definition serve_worker_routes :: "http_env \<Rightarrow> http_request \<Rightarrow> route \<Rightarrow> http_state \<Rightarrow> served" where
  "serve_worker_routes env rq r s =
     (case r of
        RegisterWorker \<Rightarrow> authorize env rq [''worker''] (with_body env rq (\<lambda>v.
          broadcasting (\<lambda>w. sendJson 200 (WorkerBody w))
            (registerWorker (he_lc env) (request_pass env rq) (rq_uuid rq) v (rq_now rq) (hs_db s)) s) s) s
      | ListWorkers \<Rightarrow> authorize env rq [''admin''] (Inr (sendJson 200 (WorkersBody (listWorkers (hs_db s)))), s) s
      | HeartbeatWorker i \<Rightarrow> authorize env rq [''worker''] (with_body env rq (\<lambda>v.
          broadcasting (\<lambda>w. sendJson 200 (WorkerBody w))
            (heartbeatWorker (he_lc env) (request_pass env rq) i v (rq_now rq) (hs_db s)) s) s) s
      | DrainWorker i \<Rightarrow> authorize env rq [''admin''] (with_body env rq (\<lambda>v.
          broadcasting (\<lambda>w. sendJson 200 (WorkerBody w)) (setWorkerDrain i v (rq_now rq) (hs_db s)) s) s) s
      | WorkerLeases i \<Rightarrow> authorize env rq [''worker'']
          (if getWorker i (hs_db s) = None then (Inr (not_found ''worker not found''), s)
           else (Inr (sendJson 200 (LeasesBody (leased_jobs i (hs_db s)) (leased_sessions i (hs_db s)))), s)) s
      | _ \<Rightarrow> (Inr (not_found ''route not found''), s))"

definition serve_job_routes :: "http_env \<Rightarrow> http_request \<Rightarrow> http_url \<Rightarrow> route \<Rightarrow> http_state \<Rightarrow> served" where
  "serve_job_routes env rq url r s =
     (case r of
        SubmitJob \<Rightarrow> authorize env rq [''client''] (with_body env rq (\<lambda>v.
          broadcasting (\<lambda>(j, duplicate). sendJson (submission_status duplicate) (SubmittedJobBody j duplicate))
            (submitJob (request_pass env rq) (rq_uuid rq) v (rq_idempotencyKey rq) (rq_now rq) (hs_db s)) s) s) s
      | ListJobs \<Rightarrow> authorize env rq [''client'']
          (listing env url (\<lambda>status limit. JobsBody (listJobs status None limit (hs_db s))) s) s
      | ShowJob i \<Rightarrow> authorize env rq [''client'']
          (Inr (case getJob i (hs_db s) of Some j \<Rightarrow> sendJson 200 (JobBody j) | None \<Rightarrow> not_found ''job not found''), s) s
      | StartJob i \<Rightarrow> authorize env rq [''worker''] (with_body env rq (\<lambda>v.
          broadcasting (\<lambda>j. sendJson 200 (JobBody j)) (startJob (he_config env) i v (rq_now rq) (hs_db s)) s) s) s
      | RenewJob i \<Rightarrow> authorize env rq [''worker''] (with_body env rq (\<lambda>v.
          answering (\<lambda>j. sendJson 200 (JobBody j)) (renewJob (he_config env) i v (rq_now rq) (hs_db s)) s) s) s
      | FinishJob i \<Rightarrow> authorize env rq [''worker''] (with_body env rq (\<lambda>v.
          broadcasting (\<lambda>j. sendJson 200 (JobBody j)) (finishJob (request_pass env rq) i v (rq_now rq) (hs_db s)) s) s) s
      | CancelJob i \<Rightarrow> authorize env rq [''client'']
          (broadcasting (\<lambda>j. sendJson 200 (JobBody j)) (cancelJob (request_pass env rq) i (rq_now rq) (hs_db s)) s) s
      | _ \<Rightarrow> (Inr (not_found ''route not found''), s))"

definition serve_session_routes :: "http_env \<Rightarrow> http_request \<Rightarrow> http_url \<Rightarrow> route \<Rightarrow> http_state \<Rightarrow> served" where
  "serve_session_routes env rq url r s =
     (case r of
        SubmitSession \<Rightarrow> authorize env rq [''client''] (with_body env rq (\<lambda>v.
          broadcasting (\<lambda>(x, duplicate). sendJson (submission_status duplicate) (SubmittedSessionBody x duplicate))
            (submitSession (he_lc env) (he_num env) (request_pass env rq) (rq_uuid rq) v (rq_idempotencyKey rq) (rq_now rq) (hs_db s)) s) s) s
      | ListSessions \<Rightarrow> authorize env rq [''client'']
          (listing env url (\<lambda>status limit. SessionsBody (listSessions status None limit (hs_db s))) s) s
      | ShowSession i \<Rightarrow> authorize env rq [''client'']
          (Inr (case getSession i (hs_db s) of Some x \<Rightarrow> sendJson 200 (SessionBody x) | None \<Rightarrow> not_found ''session not found''), s) s
      | StartSession i \<Rightarrow> authorize env rq [''worker''] (with_body env rq (\<lambda>v.
          broadcasting (\<lambda>x. sendJson 200 (SessionBody x)) (startSession (he_config env) i v (rq_now rq) (hs_db s)) s) s) s
      | ActivateSession i \<Rightarrow> authorize env rq [''worker''] (with_body env rq (\<lambda>v.
          broadcasting (\<lambda>x. sendJson 200 (SessionBody x)) (activateSession (he_config env) i v (rq_now rq) (hs_db s)) s) s) s
      | RenewSession i \<Rightarrow> authorize env rq [''worker''] (with_body env rq (\<lambda>v.
          answering (\<lambda>x. sendJson 200 (SessionBody x)) (renewSession (he_config env) i v (rq_now rq) (hs_db s)) s) s) s
      | ClientGrant i \<Rightarrow> authorize env rq [''client'']
          (answering (\<lambda>(token, expires). sendJson 200 (GrantBody token expires))
            (issueDataPlaneGrant (he_num env) (he_hmac env) (he_config env) (rq_uuid rq) i ''client'' JUndefined (rq_now rq) (hs_db s), hs_db s) s) s
      | WorkerGrant i \<Rightarrow> authorize env rq [''worker''] (with_body env rq (\<lambda>v.
          answering (\<lambda>(token, expires). sendJson 200 (GrantBody token expires))
            (issueDataPlaneGrant (he_num env) (he_hmac env) (he_config env) (rq_uuid rq) i ''worker'' v (rq_now rq) (hs_db s), hs_db s) s) s) s
      | CloseSession i \<Rightarrow> authorize env rq [''client'']
          (broadcasting (\<lambda>x. sendJson 200 (SessionBody x)) (closeSession (request_pass env rq) i (rq_now rq) (hs_db s)) s) s
      | _ \<Rightarrow> (Inr (not_found ''route not found''), s))"

definition serve :: "http_env \<Rightarrow> http_request \<Rightarrow> http_url \<Rightarrow> route \<Rightarrow> http_state \<Rightarrow> served" where
  "serve env rq url r s =
     (case r of
        Healthz \<Rightarrow> (Inr (sendJson 200 (StatusBody ''ok'')), s)
      | Readyz \<Rightarrow> (Inr (sendJson 200 (StatusBody ''ready'')), s)
      | Metrics \<Rightarrow> authorize env rq [''admin''] (Inr (sendJson 200 (MetricsBody (metrics_lines (hs_db s)))), s) s
      | Events \<Rightarrow> authorize env rq [''admin''] (Inr (sendJson 200 EventStreamBody), openEventStream env rq s) s
      | BrokerReserve \<Rightarrow> authorize_broker env rq (with_body env rq (\<lambda>v.
          answering (\<lambda>x. sendJson 201 (ReservationBody x))
            (reserveBrokerBoundAttempt (he_profiles env) (rq_authorization rq) v (rq_now rq)
              (min (sc_heartbeatTimeoutMs (cf_scheduler (he_config env))) 300000) (hs_db s)) s) s) s
      | BrokerObserve \<Rightarrow> authorize_broker env rq (with_body env rq (\<lambda>v.
          answering (\<lambda>x. sendJson 200 (ObservationBody x))
            (observeBrokerBoundAttempt (he_profiles env) (rq_authorization rq) v (hs_db s), hs_db s) s) s) s
      | RegisterWorker \<Rightarrow> serve_worker_routes env rq r s
      | ListWorkers \<Rightarrow> serve_worker_routes env rq r s
      | HeartbeatWorker _ \<Rightarrow> serve_worker_routes env rq r s
      | DrainWorker _ \<Rightarrow> serve_worker_routes env rq r s
      | WorkerLeases _ \<Rightarrow> serve_worker_routes env rq r s
      | SubmitJob \<Rightarrow> serve_job_routes env rq url r s
      | ListJobs \<Rightarrow> serve_job_routes env rq url r s
      | ShowJob _ \<Rightarrow> serve_job_routes env rq url r s
      | StartJob _ \<Rightarrow> serve_job_routes env rq url r s
      | RenewJob _ \<Rightarrow> serve_job_routes env rq url r s
      | FinishJob _ \<Rightarrow> serve_job_routes env rq url r s
      | CancelJob _ \<Rightarrow> serve_job_routes env rq url r s
      | RunScheduler \<Rightarrow> authorize env rq [''admin'']
          (broadcasting (\<lambda>x. sendJson 200 (PassBody x)) (request_pass env rq (hs_db s)) s) s
      | NoRoute \<Rightarrow> (Inr (not_found ''route not found''), s)
      | _ \<Rightarrow> serve_session_routes env rq url r s)"

definition handle :: "http_env \<Rightarrow> http_request \<Rightarrow> http_state \<Rightarrow> http_answer \<times> http_state" where
  "handle env rq s =
     (case he_url env (rq_url rq) of
        None \<Rightarrow> (error_answer (Thrown (TypeError ''Invalid URL'')), s)
      | Some url \<Rightarrow>
          (case find_route env rq url of
             Inl e \<Rightarrow> (error_answer (Thrown e), s)
           | Inr r \<Rightarrow>
               (case serve env rq url r s of
                  (Inl e, s') \<Rightarrow> (error_answer e, s')
                | (Inr a, s') \<Rightarrow> (a, s'))))"

section \<open>Authority\<close>

text \<open>Who may use a route.\<close>

datatype access = Open | Scopes "string list" | Broker

definition route_access :: "route \<Rightarrow> access" where
  "route_access r =
     (case r of
        Healthz \<Rightarrow> Open | Readyz \<Rightarrow> Open | NoRoute \<Rightarrow> Open
      | BrokerReserve \<Rightarrow> Broker | BrokerObserve \<Rightarrow> Broker
      | Metrics \<Rightarrow> Scopes [''admin''] | Events \<Rightarrow> Scopes [''admin''] | ListWorkers \<Rightarrow> Scopes [''admin'']
      | DrainWorker _ \<Rightarrow> Scopes [''admin''] | RunScheduler \<Rightarrow> Scopes [''admin'']
      | RegisterWorker \<Rightarrow> Scopes [''worker''] | HeartbeatWorker _ \<Rightarrow> Scopes [''worker''] | WorkerLeases _ \<Rightarrow> Scopes [''worker'']
      | StartJob _ \<Rightarrow> Scopes [''worker''] | RenewJob _ \<Rightarrow> Scopes [''worker''] | FinishJob _ \<Rightarrow> Scopes [''worker'']
      | StartSession _ \<Rightarrow> Scopes [''worker''] | ActivateSession _ \<Rightarrow> Scopes [''worker''] | RenewSession _ \<Rightarrow> Scopes [''worker'']
      | WorkerGrant _ \<Rightarrow> Scopes [''worker'']
      | _ \<Rightarrow> Scopes [''client''])"

definition entitled :: "http_env \<Rightarrow> http_request \<Rightarrow> route \<Rightarrow> bool" where
  "entitled env rq r =
     (case route_access r of
        Open \<Rightarrow> False
      | Scopes scopes \<Rightarrow> authenticate (he_config env) (rq_authorization rq) scopes
      | Broker \<Rightarrow> authenticateBroker (he_profiles env) (rq_authorization rq) \<noteq> None)"

lemmas serve_defs = serve_def serve_worker_routes_def serve_job_routes_def serve_session_routes_def

lemma not_entitled:
  assumes "\<not> entitled env rq r"
  shows "\<exists>a. serve env rq url r s = (Inr a, s) \<and>
    (a = sendJson 200 (StatusBody ''ok'') \<or> a = sendJson 200 (StatusBody ''ready'') \<or> a = not_found ''route not found'' \<or>
     a = challenge ''unauthorized'' ''valid bearer token required'' \<or>
     a = challenge ''broker_unauthorized'' ''broker credential required'')"
  using assms
  by (cases r) (simp_all add: entitled_def route_access_def serve_defs authorize_def authorize_broker_def)

section \<open>A request is a sequence of steps of the control plane\<close>

abbreviation env_steps :: "http_env \<Rightarrow> db \<Rightarrow> db \<Rightarrow> bool" where
  "env_steps env \<equiv> cp_steps (he_lc env) (he_num env) (he_config env)"

abbreviation env_step :: "http_env \<Rightarrow> db \<Rightarrow> db \<Rightarrow> bool" where
  "env_step env \<equiv> cp_step (he_lc env) (he_num env) (he_config env)"

named_theorems steps_intros \<open>operations are sequences of steps\<close>

lemma steps_one [steps_intros]: "env_step env d d' \<Longrightarrow> env_steps env d d'"
  by (rule cp_steps.more [OF cp_steps.none])

lemma steps_none [steps_intros]: "env_steps env d d"
  by (rule cp_steps.none)

lemma pass_step: "env_step env d (snd (request_pass env rq d))"
  unfolding request_pass_def by (rule cp_step.schedule)

lemma then_pass_steps [steps_intros]:
  assumes "env_step env d (snd r)"
  shows "env_steps env d (snd (then_pass (request_pass env rq) r))"
proof (cases r)
  case (Pair x d1)
  show ?thesis
  proof (cases x)
    case (Inl e)
    with Pair assms show ?thesis by (simp add: then_pass_def steps_one)
  next
    case (Inr y)
    with Pair have "snd (then_pass (request_pass env rq) r) = snd (request_pass env rq d1)"
      by (simp add: then_pass_def split: prod.split sum.split)
    with cp_steps.more [OF steps_one [OF assms], of "snd (request_pass env rq d1)"] pass_step [of env d1 rq] Pair show ?thesis
      by simp
  qed
qed

lemma validated_steps [steps_intros]:
  "(\<And>i. v = Inr i \<Longrightarrow> env_steps env d (snd (k i d))) \<Longrightarrow> env_steps env d (snd (validated v k d))"
  by (auto simp: validated_def steps_none split: sum.split)

lemma reread_snd [simp]: "snd (reread get r) = snd r"
  by (simp add: reread_def split: prod.split sum.split)

lemma operation_steps:
  "env_steps env d (snd (registerWorker (he_lc env) (request_pass env rq) uuid v now d))"
  "env_steps env d (snd (heartbeatWorker (he_lc env) (request_pass env rq) i v now d))"
  "env_steps env d (snd (setWorkerDrain i v now d))"
  "env_steps env d (snd (submitJob (request_pass env rq) uuid v header now d))"
  "env_steps env d (snd (startJob (he_config env) i v now d))"
  "env_steps env d (snd (renewJob (he_config env) i v now d))"
  "env_steps env d (snd (finishJob (request_pass env rq) i v now d))"
  "env_steps env d (snd (cancelJob (request_pass env rq) i now d))"
  "env_steps env d (snd (submitSession (he_lc env) (he_num env) (request_pass env rq) uuid v header now d))"
  "env_steps env d (snd (startSession (he_config env) i v now d))"
  "env_steps env d (snd (activateSession (he_config env) i v now d))"
  "env_steps env d (snd (renewSession (he_config env) i v now d))"
  "env_steps env d (snd (closeSession (request_pass env rq) i now d))"
  "env_steps env d (snd (reserveBrokerBoundAttempt profiles authorization v now age d))"
  "env_steps env d (snd (request_pass env rq d))"
  unfolding registerWorker_def heartbeatWorker_def submitJob_def finishJob_def cancelJob_def submitSession_def closeSession_def
  by (auto intro!: validated_steps then_pass_steps intro: cp_step.intros steps_one pass_step)

text \<open>The parts of the state a branch leaves alone or changes by steps.\<close>

lemma answering_db: "hs_db (snd (answering f r s)) = snd r"
  by (simp add: answering_def split: prod.split sum.split)

lemma broadcasting_db: "hs_db (snd (broadcasting f r s)) = snd r"
  by (simp add: broadcasting_def broadcastNewEvents_def split: prod.split sum.split)

lemma listing_state: "snd (listing env url rows s) = s"
  by (simp add: listing_def split: sum.split)

lemma authorize_steps:
  "env_steps env (hs_db s) (hs_db (snd rest)) \<Longrightarrow> env_steps env (hs_db s) (hs_db (snd (authorize env rq scopes rest s)))"
  "env_steps env (hs_db s) (hs_db (snd rest)) \<Longrightarrow> env_steps env (hs_db s) (hs_db (snd (authorize_broker env rq rest s)))"
  by (simp_all add: authorize_def authorize_broker_def steps_none)

lemma with_body_steps:
  "(\<And>v. env_steps env (hs_db s) (hs_db (snd (rest v)))) \<Longrightarrow> env_steps env (hs_db s) (hs_db (snd (with_body env rq rest s)))"
  by (simp add: with_body_def steps_none split: sum.split)

lemma serve_steps: "env_steps env (hs_db s) (hs_db (snd (serve env rq url r s)))"
  by (cases r)
    (auto simp: serve_defs answering_db broadcasting_db listing_state openEventStream_def
      intro!: authorize_steps with_body_steps operation_steps steps_none)

lemma handle_serve:
  assumes "handle env rq s = (a, s')"
  obtains (bad_request) e where "s' = s" "a = error_answer (Thrown e)"
    "he_url env (rq_url rq) = None \<or> (\<exists>url. he_url env (rq_url rq) = Some url \<and> find_route env rq url = Inl e)"
  | (served) url r x where "he_url env (rq_url rq) = Some url" "find_route env rq url = Inr r" "serve env rq url r s = (x, s')"
      "a = (case x of Inl e \<Rightarrow> error_answer e | Inr a \<Rightarrow> a)"
  using assms by (auto simp: handle_def split: option.splits sum.splits prod.splits)

lemma handle_steps: "handle env rq s = (a, s') \<Longrightarrow> env_steps env (hs_db s) (hs_db s')"
  by (erule handle_serve) (metis serve_steps snd_conv steps_none)+

section \<open>The server beside the rest of the control plane\<close>

text \<open>
  Requests, steps that do not come through HTTP (periodic passes, other servers on the same database),
  event notifications, and streams that close.
\<close>

inductive http_reachable :: "http_env \<Rightarrow> http_state \<Rightarrow> bool" for env where
  start: "http_reachable env \<lparr>hs_db = empty_db, hs_clients = [], hs_nextClient = 0\<rparr>"
| request: "http_reachable env s \<Longrightarrow> handle env rq s = (a, s') \<Longrightarrow> http_reachable env s'"
| elsewhere: "http_reachable env s \<Longrightarrow> cp_step (he_lc env) (he_num env) (he_config env) (hs_db s) d \<Longrightarrow> http_reachable env (s\<lparr>hs_db := d\<rparr>)"
| notified: "http_reachable env s \<Longrightarrow> http_reachable env (broadcastNewEvents s)"
| closing: "http_reachable env s \<Longrightarrow> http_reachable env (stream_closed i s)"

lemma http_cp_reachable:
  "http_reachable env s \<Longrightarrow> cp_reachable (he_lc env) (he_num env) (he_config env) (hs_db s)"
proof (induction rule: http_reachable.induct)
  case (request s rq a s')
  then show ?case using handle_steps cp_steps_trans by metis
next
  case (elsewhere s d)
  then show ?case by (auto intro: cp_steps.more)
qed (simp_all add: cp_steps.none broadcastNewEvents_def stream_closed_def)

text \<open>What a stream was written is in ascending order without repetition, up to the client's position.\<close>

definition stream_ok :: "event_client \<Rightarrow> bool" where
  "stream_ok c = (sorted_wrt (<) (map ev_sequence (ec_written c)) \<and> list_all (\<lambda>e. ev_sequence e \<le> ec_sequence c) (ec_written c))"

lemma read_events:
  assumes "events_ok d"
  shows "map ev_sequence (listEventsAfter n 500 d) = take 500 [max (max 1 (db_lastSequence d - 9999)) (n + 1) .. db_lastSequence d]"
proof -
  have "listEventsAfter n 500 d = take 500 (filter (\<lambda>e. n < ev_sequence e) (db_events d))"
    using events_sorted [OF assms, of n] by (simp add: listEventsAfter_def sql_limit_def)
  moreover have "map ev_sequence (filter (\<lambda>e. n < ev_sequence e) (db_events d)) = filter (\<lambda>k. k > n) (map ev_sequence (db_events d))"
    by (simp add: filter_map comp_def)
  ultimately show ?thesis using assms
    by (simp add: take_map [symmetric] events_ok_def event_retention_def filter_upto_above)
qed

lemma flush_stream_ok:
  assumes "events_ok d" and "stream_ok c"
  shows "stream_ok (flushClient d c)"
proof -
  define es where "es = listEventsAfter (ec_sequence c) 500 d"
  let ?l = "max (max 1 (db_lastSequence d - 9999)) (ec_sequence c + 1)"
  have m: "map ev_sequence es = take 500 [?l .. db_lastSequence d]" unfolding es_def by (rule read_events [OF assms(1)])
  have up: "\<forall>e \<in> set es. ec_sequence c < ev_sequence e"
  proof
    fix e assume "e \<in> set es"
    then have "ev_sequence e \<in> set (take 500 [?l .. db_lastSequence d])" by (metis image_eqI list.set_map m)
    then have "ev_sequence e \<in> set [?l .. db_lastSequence d]" by (rule in_set_takeD)
    then show "ec_sequence c < ev_sequence e" by simp
  qed
  have so: "sorted_wrt (<) (map ev_sequence es)" unfolding m by (rule sorted_wrt_take) (rule sorted_wrt_upto)
  show ?thesis
  proof (cases "es = []")
    case True
    with assms(2) show ?thesis by (simp add: flushClient_def es_def Let_def stream_ok_def)
  next
    case False
    from so have below: "\<forall>e \<in> set es. ev_sequence e \<le> ev_sequence (last es)"
      using False by (induction es rule: rev_induct) (auto simp: sorted_wrt_append)
    with up False have "ec_sequence c < ev_sequence (last es)" by simp
    have seq: "flushClient d c = c\<lparr>ec_written := ec_written c @ es, ec_sequence := ev_sequence (last es)\<rparr>"
      using False by (simp add: flushClient_def es_def Let_def)
    from assms(2) have w: "sorted_wrt (<) (map ev_sequence (ec_written c))" "\<forall>e \<in> set (ec_written c). ev_sequence e \<le> ec_sequence c"
      by (simp_all add: stream_ok_def list_all_iff)
    from w(2) up have across: "\<forall>a \<in> set (ec_written c). \<forall>b \<in> set es. ev_sequence a < ev_sequence b" by force
    from w up so below across \<open>ec_sequence c < ev_sequence (last es)\<close> show ?thesis
      unfolding seq stream_ok_def by (auto simp: sorted_wrt_append list_all_iff)
  qed
qed

definition clients_follow :: "http_state \<Rightarrow> http_state \<Rightarrow> bool" where
  "clients_follow s s' =
     (hs_clients s' = hs_clients s \<or> hs_clients s' = map (flushClient (hs_db s')) (hs_clients s) \<or>
      (\<exists>c. ec_written c = [] \<and> hs_clients s' = hs_clients s @ [flushClient (hs_db s') c]))"

lemma follow_open: "clients_follow s (openEventStream env rq s)"
proof -
  let ?c = "\<lparr>ec_id = hs_nextClient s, ec_sequence = last_event_id env rq, ec_written = []\<rparr>"
  have "ec_written ?c = [] \<and> hs_clients (openEventStream env rq s) = hs_clients s @ [flushClient (hs_db (openEventStream env rq s)) ?c]"
    by (simp add: openEventStream_def)
  then show ?thesis unfolding clients_follow_def by blast
qed

lemma follow_intros:
  "clients_follow s s"
  "clients_follow s (snd (answering f r s))"
  "clients_follow s (snd (broadcasting f r s))"
  "clients_follow s (snd (listing env url rows s))"
  "clients_follow s (snd rest) \<Longrightarrow> clients_follow s (snd (authorize env rq scopes rest s))"
  "clients_follow s (snd rest) \<Longrightarrow> clients_follow s (snd (authorize_broker env rq rest s))"
  "(\<And>v. clients_follow s (snd (k v))) \<Longrightarrow> clients_follow s (snd (with_body env rq k s))"
  by (auto simp: clients_follow_def answering_def broadcasting_def broadcastNewEvents_def listing_def
      authorize_def authorize_broker_def with_body_def split: prod.splits sum.splits)

lemma serve_follow: "clients_follow s (snd (serve env rq url r s))"
  by (cases r) (auto simp: serve_defs intro!: follow_intros follow_open)

lemma follow_stream_ok:
  assumes "clients_follow s s'" and "list_all stream_ok (hs_clients s)" and "events_ok (hs_db s')"
  shows "list_all stream_ok (hs_clients s')"
proof -
  have "stream_ok c" if "ec_written c = []" for c using that by (simp add: stream_ok_def)
  with assms show ?thesis by (auto simp: clients_follow_def list_all_iff intro!: flush_stream_ok)
qed

lemma reachable_events_ok: "http_reachable env s \<Longrightarrow> comparator (he_lc env) \<Longrightarrow> events_ok (hs_db s)"
  using cp_reachable_ok [OF http_cp_reachable] by (simp add: db_ok_def)

lemma reachable_streams:
  "http_reachable env s \<Longrightarrow> comparator (he_lc env) \<Longrightarrow> list_all stream_ok (hs_clients s)"
proof (induction rule: http_reachable.induct)
  case (request s rq a s')
  from request(2) have "clients_follow s s'"
    by (rule handle_serve) (metis follow_intros(1), metis serve_follow snd_conv)
  moreover have "events_ok (hs_db s')"
    using reachable_events_ok [OF http_reachable.request [OF request(1,2)] request(4)] .
  ultimately show ?case using request(3,4) by (blast intro: follow_stream_ok)
next
  case (notified s)
  then show ?case using reachable_events_ok [OF notified(1)]
    by (auto simp: broadcastNewEvents_def list_all_iff intro: flush_stream_ok)
qed (auto simp: stream_closed_def list_all_iff)

section \<open>The leases a worker is shown\<close>

text \<open>How many jobs assigned to the worker come before a creation time.\<close>

definition newer_jobs :: "string \<Rightarrow> int \<Rightarrow> db \<Rightarrow> job list" where
  "newer_jobs workerId t d = filter (\<lambda>j. j_assignedWorkerId j = Some workerId \<and> t < j_createdAt j) (db_jobs d)"

definition as_new_jobs :: "string \<Rightarrow> int \<Rightarrow> db \<Rightarrow> job list" where
  "as_new_jobs workerId t d = filter (\<lambda>j. j_assignedWorkerId j = Some workerId \<and> t \<le> j_createdAt j) (db_jobs d)"

lemma take_sorted:
  fixes key :: "'a \<Rightarrow> int"
  assumes "sorted_wrt (\<lambda>a b. key b \<le> key a) xs" and "x \<in> set xs"
  shows "length (filter (\<lambda>y. key x \<le> key y) xs) \<le> n \<Longrightarrow> x \<in> set (take n xs)"
    and "n \<le> length (filter (\<lambda>y. key x < key y) xs) \<Longrightarrow> x \<notin> set (take n xs)"
proof -
  have pre: "take (length (filter (\<lambda>y. P (key y)) ys)) ys = filter (\<lambda>y. P (key y)) ys"
    if "sorted_wrt (\<lambda>a b. key b \<le> key a) ys" and up: "\<And>a b. P b \<Longrightarrow> b \<le> a \<Longrightarrow> P a" for P ys
    using that(1)
  proof (induction ys)
    case (Cons y ys)
    show ?case
    proof (cases "P (key y)")
      case False
      with Cons(2) up have "filter (\<lambda>y. P (key y)) ys = []" by (auto simp: filter_empty_conv)
      with False show ?thesis by simp
    qed (use Cons in simp)
  qed simp
  show "x \<in> set (take n xs)" if "length (filter (\<lambda>y. key x \<le> key y) xs) \<le> n"
  proof -
    have "x \<in> set (filter (\<lambda>y. key x \<le> key y) xs)" using assms(2) by simp
    also have "\<dots> = set (take (length (filter (\<lambda>y. key x \<le> key y) xs)) xs)"
      using pre [OF assms(1), of "\<lambda>k. key x \<le> k"] by simp
    also have "\<dots> \<subseteq> set (take n xs)" using that by (rule set_take_subset_set_take)
    finally show ?thesis .
  qed
  show "x \<notin> set (take n xs)" if "n \<le> length (filter (\<lambda>y. key x < key y) xs)"
  proof
    assume "x \<in> set (take n xs)"
    with set_take_subset_set_take [OF that, of xs] have "x \<in> set (take (length (filter (\<lambda>y. key x < key y) xs)) xs)" by blast
    also have "\<dots> = set (filter (\<lambda>y. key x < key y) xs)" using pre [OF assms(1), of "\<lambda>k. key x < k"] by simp
    finally show False by simp
  qed
qed

lemma leased_jobs_take:
  assumes "workerId \<noteq> []"
  shows "leased_jobs workerId d = filter (\<lambda>j. j_status j = Leased \<or> j_status j = Running)
    (take 100 (js_sort (\<lambda>a b. j_createdAt b - j_createdAt a) (filter (\<lambda>j. j_assignedWorkerId j = Some workerId) (db_jobs d))))"
  using assms by (simp add: leased_jobs_def listJobs_def sql_limit_def)

lemma leased_job_shown:
  assumes "workerId \<noteq> []" and "j \<in> set (db_jobs d)" and "j_assignedWorkerId j = Some workerId"
  shows "j_status j = Leased \<or> j_status j = Running \<Longrightarrow> length (as_new_jobs workerId (j_createdAt j) d) \<le> 100 \<Longrightarrow> j \<in> set (leased_jobs workerId d)"
    and "100 \<le> length (newer_jobs workerId (j_createdAt j) d) \<Longrightarrow> j \<notin> set (leased_jobs workerId d)"
proof -
  let ?rows = "filter (\<lambda>j. j_assignedWorkerId j = Some workerId) (db_jobs d)"
  let ?xs = "js_sort (\<lambda>a b. j_createdAt b - j_createdAt a) ?rows"
  have so: "sorted_wrt (\<lambda>a b. j_createdAt b \<le> j_createdAt a) ?xs"
    using comparator.sorted_js_sort [OF comparator_diff_desc [of j_createdAt], of ?rows] by simp
  have mem: "j \<in> set ?xs" using assms by simp
  have len: "length (filter P ?xs) = length (filter P ?rows)" for P
    by (metis mset_filter mset_js_sort size_mset)
  show "j_status j = Leased \<or> j_status j = Running \<Longrightarrow> length (as_new_jobs workerId (j_createdAt j) d) \<le> 100 \<Longrightarrow> j \<in> set (leased_jobs workerId d)"
    using take_sorted(1) [OF so mem, of 100] by (simp add: leased_jobs_take [OF assms(1)] len as_new_jobs_def conj_commute)
  show "100 \<le> length (newer_jobs workerId (j_createdAt j) d) \<Longrightarrow> j \<notin> set (leased_jobs workerId d)"
    using take_sorted(2) [OF so mem, of 100] by (simp add: leased_jobs_take [OF assms(1)] len newer_jobs_def conj_commute)
qed

section \<open>Guarantees\<close>

definition uninformative :: "http_body \<Rightarrow> bool" where
  "uninformative b = (case b of StatusBody _ \<Rightarrow> True | ErrorBody _ _ \<Rightarrow> True | _ \<Rightarrow> False)"

text \<open>
  C25. A request that changes anything, or is answering with more than a health status or an error,
  was routed and carried the credential its route asks for: the bearer token of the route's scope or
  of the administrator, or a broker's. Every other request leaves the database and the streams as
  they were, and it is answering with health, 401, 404, or the error of a request that has no route.
\<close>

theorem http_authorised:
  assumes "handle env rq s = (a, s')"
  shows "(\<exists>url r. he_url env (rq_url rq) = Some url \<and> find_route env rq url = Inr r \<and> entitled env rq r) \<or>
    (s' = s \<and> uninformative (an_body a) \<and>
     (an_status a \<in> {401, 404} \<or> a = sendJson 200 (StatusBody ''ok'') \<or> a = sendJson 200 (StatusBody ''ready'') \<or>
      (\<exists>e. a = error_answer (Thrown e) \<and>
        (he_url env (rq_url rq) = None \<or> (\<exists>url. he_url env (rq_url rq) = Some url \<and> find_route env rq url = Inl e)))))"
  using assms
proof (rule handle_serve)
  fix e
  assume "s' = s" "a = error_answer (Thrown e)"
    "he_url env (rq_url rq) = None \<or> (\<exists>url. he_url env (rq_url rq) = Some url \<and> find_route env rq url = Inl e)"
  then show ?thesis by (auto simp: uninformative_def error_answer_def sendJson_def)
next
  fix url r x
  assume r: "he_url env (rq_url rq) = Some url" "find_route env rq url = Inr r" and x: "serve env rq url r s = (x, s')"
    and a: "a = (case x of Inl e \<Rightarrow> error_answer e | Inr a \<Rightarrow> a)"
  show ?thesis
  proof (cases "entitled env rq r")
    case False
    from not_entitled [OF this, of url s] x a show ?thesis
      by (auto simp: uninformative_def sendJson_def not_found_def challenge_def)
  qed (use r in blast)
qed

text \<open>
  C26. The HTTP server refines the control plane: in every state it can reach, whatever it does beside
  other servers and periodic passes, the database is one the transition system of the control
  plane reaches, and a request takes the database there by steps of that system; so what holds of
  every reachable state of the control plane, the exclusive GPUs for one, holds of the server.
\<close>

theorem http_steps:
  assumes "http_reachable env s" and "handle env rq s = (a, s')" and "comparator (he_lc env)"
  shows "cp_reachable (he_lc env) (he_num env) (he_config env) (hs_db s) \<and>
    cp_steps (he_lc env) (he_num env) (he_config env) (hs_db s) (hs_db s') \<and> http_reachable env s' \<and>
    db_ok (hs_db s') \<and> distinct (occupied_gpus (hs_db s'))"
proof -
  have r: "http_reachable env s'" using assms(1,2) by (rule http_reachable.request)
  have "db_ok (hs_db s')" using cp_reachable_ok [OF http_cp_reachable [OF r] assms(3)] .
  with http_cp_reachable [OF assms(1)] handle_steps [OF assms(2)] r exclusive_distinct show ?thesis by (auto simp: db_ok_def)
qed

text \<open>
  C27. Every event stream has been written events in ascending order without repetition; a flush adds
  to it the stored events behind the client's position without a gap, five hundred at most.
\<close>

theorem event_stream:
  assumes "http_reachable env s" and "c \<in> set (hs_clients s)" and "comparator (he_lc env)"
  shows "sorted_wrt (<) (map ev_sequence (ec_written c)) \<and>
    map ev_sequence (ec_written (flushClient (hs_db s) c)) =
      map ev_sequence (ec_written c) @
      take 500 [max (max 1 (db_lastSequence (hs_db s) - 9999)) (ec_sequence c + 1) .. db_lastSequence (hs_db s)] \<and>
    stream_ok (flushClient (hs_db s) c)"
proof -
  have e: "events_ok (hs_db s)" using assms(1,3) by (rule reachable_events_ok)
  have c: "stream_ok c" using reachable_streams [OF assms(1,3)] assms(2) by (simp add: list_all_iff)
  from c flush_stream_ok [OF e c] show ?thesis by (simp add: stream_ok_def [of c] flushClient_def Let_def read_events [OF e])
qed

text \<open>
  C28. The leases a worker reads contain an active job that is assigned to it when at most a hundred
  of the worker's jobs, finished ones included, were created with it or after it; and they do not
  contain it, although it is active, once a hundred of them were created after it: the limit is
  applied before the finished jobs are dropped.
\<close>

theorem worker_leases_exact:
  assumes "workerId \<noteq> []" and "j \<in> set (db_jobs d)" and "j_assignedWorkerId j = Some workerId"
    and "j_status j = Leased \<or> j_status j = Running"
  shows "(length (as_new_jobs workerId (j_createdAt j) d) \<le> 100 \<longrightarrow> j \<in> set (leased_jobs workerId d)) \<and>
    (100 \<le> length (newer_jobs workerId (j_createdAt j) d) \<longrightarrow> j \<notin> set (leased_jobs workerId d))"
  using leased_job_shown [OF assms(1-3)] assms(4) by blast

text \<open>
  A path whose id is not a valid escape sequence is answering as an internal error, whatever the
  method and the credential are.
\<close>

lemma malformed_path:
  assumes "he_url env (rq_url rq) = Some url" and "hu_pathname url = ''/v1/workers/%/heartbeat''"
    and "he_component env ''%'' = None"
  shows "handle env rq s = (sendJson 500 (ErrorBody ''internal_error'' ''internal server error''), s)"
  using assms
  by (simp add: handle_def find_route_def conditions_def matchPath_def Let_def error_answer_def error_status_def
      error_code_def error_message_def)

section \<open>A server\<close>

definition demo_env :: http_env where
  "demo_env = \<lparr>he_config = sample_service\<lparr>cf_tokens := [(''client'', ''c''), (''admin'', ''a'')]\<rparr>, he_profiles = [],
     he_lc = str_cmp, he_num = (\<lambda>_. []), he_hmac = (\<lambda>_ _. []), he_url = (\<lambda>u. Some \<lparr>hu_pathname = u, hu_param = (\<lambda>_. None)\<rparr>),
     he_component = Some, he_json = (\<lambda>_. None), he_number = (\<lambda>_. JUndefined)\<rparr>"

definition demo_request :: "string \<Rightarrow> string \<Rightarrow> string \<Rightarrow> http_request" where
  "demo_request m url token = \<lparr>rq_method = m, rq_url = url, rq_authorization = JStr (''Bearer '' @ token),
     rq_idempotencyKey = JUndefined, rq_lastEventId = None, rq_chunks = [], rq_uuid = ''u'', rq_now = 4000,
     rq_passAcquired = True, rq_passUuids = sample_uuids, rq_passNow = 4000\<rparr>"

definition demo_http :: "db \<Rightarrow> http_state" where
  "demo_http d = \<lparr>hs_db = d, hs_clients = [], hs_nextClient = 0\<rparr>"

lemma steps_http_reachable:
  "cp_steps (he_lc env) (he_num env) (he_config env) d d' \<Longrightarrow> http_reachable env (s\<lparr>hs_db := d\<rparr>) \<Longrightarrow> http_reachable env (s\<lparr>hs_db := d'\<rparr>)"
proof (induction rule: cp_steps.induct)
  case (more d d' d'')
  from http_reachable.elsewhere [OF more(3) [OF more(4)]] more(2) show ?case by simp
qed simp

lemma demo_steps:
  "cp_steps str_cmp num (he_config demo_env) empty_db run1"
  "cp_steps str_cmp num (he_config demo_env) run1 run2"
  "cp_steps str_cmp num (he_config demo_env) run2 run3"
proof -
  show "cp_steps str_cmp num (he_config demo_env) empty_db run1"
    unfolding run1_def by (rule cp_steps.more [OF cp_steps.none cp_step.register]) (rule sample_worker_valid)
  show "cp_steps str_cmp num (he_config demo_env) run1 run2"
    unfolding run2_def by (rule cp_steps.more [OF cp_steps.none cp_step.submit_job]) (rule sample_job_valid)
  have "cf_scheduler (he_config demo_env) = sample_config" by (simp add: demo_env_def sample_service_def)
  with cp_step.schedule [of str_cmp num "he_config demo_env" run2 True sample_uuids 3000]
  show "cp_steps str_cmp num (he_config demo_env) run2 run3"
    unfolding run3_def by (metis cp_steps.more cp_steps.none)
qed

lemma demo_parameters: "he_lc demo_env = str_cmp" "he_num demo_env = (\<lambda>_. [])" "comparator (he_lc demo_env)"
  by (simp_all add: demo_env_def code_units.comparator_axioms)

lemma demo_reachable: "http_reachable demo_env (demo_http run1)" "http_reachable demo_env (demo_http run3)"
proof -
  have r: "http_reachable demo_env (demo_http empty_db)" unfolding demo_http_def by (rule http_reachable.start)
  note go = steps_http_reachable [where env = demo_env, unfolded demo_parameters]
  from go [OF demo_steps(1), of "demo_http empty_db"] r show r1: "http_reachable demo_env (demo_http run1)"
    by (simp add: demo_http_def)
  from go [OF cp_steps_trans [OF demo_steps(2,3)], of "demo_http run1"] r1 show "http_reachable demo_env (demo_http run3)"
    by (simp add: demo_http_def)
qed

lemmas routing = handle_def find_route_def conditions_def matchPath_def demo_request_def demo_env_def Let_def

theorem http_authorised_witness:
  "snd (handle demo_env (demo_request ''POST'' ''/v1/jobs/job_j/cancel'' ''x'') (demo_http run3)) = demo_http run3 \<and>
   uninformative (an_body (fst (handle demo_env (demo_request ''POST'' ''/v1/jobs/job_j/cancel'' ''x'') (demo_http run3))))"
proof -
  let ?rq = "demo_request ''POST'' ''/v1/jobs/job_j/cancel'' ''x''"
  have r: "find_route demo_env ?rq \<lparr>hu_pathname = ''/v1/jobs/job_j/cancel'', hu_param = (\<lambda>_. None)\<rparr> = Inr (CancelJob ''job_j'')"
    by (simp add: routing)
  have u: "he_url demo_env (rq_url ?rq) = Some \<lparr>hu_pathname = ''/v1/jobs/job_j/cancel'', hu_param = (\<lambda>_. None)\<rparr>"
    by (simp add: demo_env_def demo_request_def)
  have "\<not> entitled demo_env ?rq (CancelJob ''job_j'')"
    by (simp add: entitled_def route_access_def authenticate_def starts_with_def demo_request_def demo_env_def utf8_bytes_def)
  with http_authorised [of demo_env ?rq "demo_http run3", OF surjective_pairing] r u show ?thesis by auto
qed

theorem http_steps_witness:
  "db_ok (hs_db (snd (handle demo_env (demo_request ''POST'' ''/v1/jobs/job_j/cancel'' ''c'') (demo_http run3))))"
  using http_steps [OF demo_reachable(2) _ demo_parameters(3)] by (metis surjective_pairing)

definition demo_stream :: http_state where
  "demo_stream = openEventStream demo_env (demo_request ''GET'' ''/v1/events'' ''a'') (demo_http run1)"

lemma demo_stream_reachable: "http_reachable demo_env (demo_stream\<lparr>hs_db := run2\<rparr>)"
proof -
  have "handle demo_env (demo_request ''GET'' ''/v1/events'' ''a'') (demo_http run1) = (sendJson 200 EventStreamBody, demo_stream)"
    by (simp add: routing serve_def authorize_def authenticate_def starts_with_def utf8_bytes_def demo_stream_def)
  from http_reachable.request [OF demo_reachable(1) this] have "http_reachable demo_env (demo_stream\<lparr>hs_db := run1\<rparr>)"
    by (simp add: demo_stream_def openEventStream_def demo_http_def)
  from steps_http_reachable [where env = demo_env, unfolded demo_parameters, OF demo_steps(2) this] show ?thesis .
qed

definition demo_client :: event_client where
  "demo_client = hd (hs_clients demo_stream)"

theorem event_stream_witness:
  "map ev_sequence (ec_written demo_client) = [1] \<and>
   map ev_sequence (ec_written (flushClient run2 demo_client)) = [1, 2]"
proof -
  have c: "demo_client \<in> set (hs_clients (demo_stream\<lparr>hs_db := run2\<rparr>))"
    by (simp add: demo_client_def demo_stream_def openEventStream_def demo_http_def)
  have w: "map ev_sequence (ec_written demo_client) = [1]" "ec_sequence demo_client = 1"
    by (simp_all add: demo_client_def demo_stream_def openEventStream_def demo_http_def last_event_id_def demo_request_def
        flushClient_def Let_def) code_simp+
  have l: "db_lastSequence run2 = 2" by code_simp
  from event_stream [OF demo_stream_reachable c demo_parameters(3)] show ?thesis by (simp add: w l)
qed

definition crowded_db :: db where
  "crowded_db = empty_db\<lparr>db_jobs := sample_leased_job # replicate 100 (sample_leased_job\<lparr>j_status := Succeeded, j_createdAt := 9000\<rparr>)\<rparr>"

theorem worker_leases_exact_witness:
  "sample_leased_job \<in> set (leased_jobs ''w1'' run3) \<and> sample_leased_job \<notin> set (leased_jobs ''w1'' crowded_db)"
proof -
  have s: "j_assignedWorkerId sample_leased_job = Some ''w1''" "j_status sample_leased_job = Leased" "j_createdAt sample_leased_job = 2000"
    by (simp_all add: sample_leased_job_def)
  have "sample_leased_job \<in> set (db_jobs run3)" "length (as_new_jobs ''w1'' 2000 run3) \<le> 100"
    by (simp_all add: as_new_jobs_def run3_eq)
  with worker_leases_exact [of "''w1''" sample_leased_job run3] s have shown: "sample_leased_job \<in> set (leased_jobs ''w1'' run3)"
    by simp
  have "sample_leased_job \<in> set (db_jobs crowded_db)" "100 \<le> length (newer_jobs ''w1'' 2000 crowded_db)"
    by (simp_all add: newer_jobs_def crowded_db_def s)
  with worker_leases_exact [of "''w1''" sample_leased_job crowded_db] s shown show ?thesis by simp
qed

end
