(* ===== verification/BrokerObservation.thy ===== *)
theory BrokerObservation
  imports Guarantees
begin

text \<open>
  \<^verbatim>\<open>src/control-plane/broker-authority-observation.mjs\<close>: what a broker may observe of a session's lease.
  The whole function is one read transaction, a function of the database; a row of the store is a
  record, so the checks that an answer of the store is an object or an array hold of it.
\<close>

section \<open>The observation\<close>

definition OBSERVATION_FIELDS :: "string list" where
  "OBSERVATION_FIELDS = [''sessionId'', ''leaseId'', ''workerId'', ''gpuUuid'']"

definition is_time :: "int \<Rightarrow> bool" where
  "is_time v = (0 < v \<and> v \<le> max_safe_integer)"

abbreviation deny :: "string \<Rightarrow> 'a result" where
  "deny code \<equiv> Inl (BrokerAuthorityObservationError code)"

record lease_query =
  lq_sessionId :: string
  lq_leaseId :: string
  lq_workerId :: string
  lq_gpuUuid :: string

text \<open>\<^verbatim>\<open>isExact(expected, FIELDS)\<close> and the grammar of the ids.\<close>

definition parse_query :: "jsval \<Rightarrow> lease_query option" where
  "parse_query expected =
     (case ownValues expected OBSERVATION_FIELDS of
        None \<Rightarrow> None
      | Some own \<Rightarrow>
          (case (js_get own ''sessionId'', js_get own ''leaseId'', js_get own ''workerId'', js_get own ''gpuUuid'') of
             (JStr s, JStr l, JStr w, JStr g) \<Rightarrow>
               if broker_id s \<and> broker_id l \<and> broker_id w \<and> broker_id g
               then Some \<lparr>lq_sessionId = s, lq_leaseId = l, lq_workerId = w, lq_gpuUuid = g\<rparr> else None
           | _ \<Rightarrow> None))"

definition lease_current :: "lease_query \<Rightarrow> int \<Rightarrow> session \<Rightarrow> bool" where
  "lease_current q nowMs s =
     (s_status s \<in> {Allocated, Connecting, Active} \<and> s_id s = lq_sessionId q \<and> s_leaseId s = Some (lq_leaseId q) \<and>
      s_assignedWorkerId s = Some (lq_workerId q) \<and> s_assignedGpuUuid s = Some (lq_gpuUuid q) \<and>
      (case s_leaseExpiresAt s of None \<Rightarrow> False | Some e \<Rightarrow> is_time e \<and> e > nowMs))"

definition worker_available :: "lease_query \<Rightarrow> int \<Rightarrow> int \<Rightarrow> worker \<Rightarrow> bool" where
  "worker_available q nowMs maxWorkerAgeMs w =
     (w_id w = lq_workerId q \<and> w_status w = Online \<and> \<not> w_drainMode w \<and> is_time (w_lastSeenAt w) \<and>
      \<not> w_lastSeenAt w < nowMs - maxWorkerAgeMs \<and> \<not> w_lastSeenAt w > nowMs + 5000)"

definition gpu_present :: "lease_query \<Rightarrow> worker \<Rightarrow> bool" where
  "gpu_present q w =
     (length (w_gpus w) \<le> 256 \<and> length (filter (\<lambda>g. g_uuid g = lq_gpuUuid q) (w_gpus w)) = 1)"

definition gpu_conflict :: "lease_query \<Rightarrow> session list \<Rightarrow> job list \<Rightarrow> bool" where
  "gpu_conflict q sessions jobs =
     (let matching = filter (\<lambda>s. s_assignedWorkerId s = Some (lq_workerId q) \<and> s_assignedGpuUuid s = Some (lq_gpuUuid q)) sessions in
      length matching \<noteq> 1 \<or> s_id (hd matching) \<noteq> lq_sessionId q \<or>
      list_ex (\<lambda>j. j_assignedWorkerId j = Some (lq_workerId q) \<and> j_assignedGpuUuid j = Some (lq_gpuUuid q)) jobs)"

record lease_observation =
  lo_query :: lease_query
  lo_status :: string
  lo_sessionStatus :: session_status
  lo_leaseExpiresAtMs :: int
  lo_generationVerified :: bool
  lo_attemptReservationVerified :: bool
  lo_canLaunch :: bool
  lo_observationOnly :: bool

definition observe_tx :: "lease_query \<Rightarrow> int \<Rightarrow> int \<Rightarrow> db \<Rightarrow> lease_observation result" where
  "observe_tx q nowMs maxWorkerAgeMs d =
     (case getSession (lq_sessionId q) d of
        None \<Rightarrow> deny ''broker_authoritative_lease_not_current''
      | Some s \<Rightarrow>
          if \<not> lease_current q nowMs s then deny ''broker_authoritative_lease_not_current''
          else (case getWorker (lq_workerId q) d of
              None \<Rightarrow> deny ''broker_authoritative_worker_unavailable''
            | Some w \<Rightarrow>
                if \<not> worker_available q nowMs maxWorkerAgeMs w then deny ''broker_authoritative_worker_unavailable''
                else if \<not> gpu_present q w then deny ''broker_authoritative_gpu_missing''
                else
                  (let sessions = listOccupyingSessions d; jobs = listActiveJobs d in
                   if length sessions > 100000 \<or> length jobs > 100000 then deny ''broker_authority_unavailable''
                   else if gpu_conflict q sessions jobs then deny ''broker_authoritative_gpu_conflict''
                   else Inr \<lparr>lo_query = q, lo_status = ''observed-current-not-fenced'', lo_sessionStatus = s_status s,
                     lo_leaseExpiresAtMs = the (s_leaseExpiresAt s), lo_generationVerified = False,
                     lo_attemptReservationVerified = False, lo_canLaunch = False, lo_observationOnly = True\<rparr>)))"

definition observeAuthoritativeSessionLease :: "jsval \<Rightarrow> int \<Rightarrow> int \<Rightarrow> db \<Rightarrow> lease_observation result" where
  "observeAuthoritativeSessionLease expected nowMs maxWorkerAgeMs d =
     (case parse_query expected of
        None \<Rightarrow> deny ''broker_invalid_authority_query''
      | Some q \<Rightarrow>
          if \<not> is_time nowMs \<or> maxWorkerAgeMs < 1 \<or> maxWorkerAgeMs > 300000 then deny ''broker_invalid_authority_clock''
          else observe_tx q nowMs maxWorkerAgeMs d)"

section \<open>No conflict is ever seen\<close>

lemma filter_only:
  "distinct xs \<Longrightarrow> x \<in> set xs \<Longrightarrow> (\<And>y. y \<in> set xs \<Longrightarrow> P y \<longleftrightarrow> y = x) \<Longrightarrow> filter P xs = [x]"
  by (induction xs) (auto simp: filter_empty_conv)

lemma holder_unique:
  assumes ok: "db_ok d" and s: "s \<in> set (db_sessions d)" "session_occupying s" "s_assignedGpuUuid s = Some u"
  shows "t \<in> set (db_sessions d) \<Longrightarrow> session_occupying t \<Longrightarrow> s_assignedGpuUuid t = Some u \<Longrightarrow> t = s"
    and "j \<in> set (db_jobs d) \<Longrightarrow> job_active j \<Longrightarrow> j_assignedGpuUuid j \<noteq> Some u"
proof -
  from ok have rows: "\<And>r. r \<in> set (db_sessions d) \<Longrightarrow> session_ok r" "\<And>r. r \<in> set (db_jobs d) \<Longrightarrow> job_ok r"
    and one: "count (held_by job_held (db_jobs d)) v + count (held_by session_held (db_sessions d)) v \<le> 1" for v
    by (auto simp: db_ok_def sessions_ok_def jobs_ok_def exclusive_def held_def)
  from active_held(2) [OF rows(1) [OF s(1)] s(2)] s(3) have hs: "session_held s = {#u#}" by auto
  show "t = s" if t: "t \<in> set (db_sessions d)" "session_occupying t" "s_assignedGpuUuid t = Some u"
  proof (rule ccontr)
    assume "t \<noteq> s"
    moreover from active_held(2) [OF rows(1) [OF t(1)] t(2)] t(3) have "session_held t = {#u#}" by auto
    ultimately show False using held_by_two [OF t(1) s(1), of session_held u] hs one [of u] by auto
  qed
  show "j_assignedGpuUuid j \<noteq> Some u" if j: "j \<in> set (db_jobs d)" "job_active j"
  proof
    assume "j_assignedGpuUuid j = Some u"
    with active_held(1) [OF rows(2) [OF j(1)] j(2)] have "job_held j = {#u#}" by auto
    then have "1 \<le> count (held_by job_held (db_jobs d)) u" using held_by_mem [OF j(1), of job_held u] by simp
    moreover have "1 \<le> count (held_by session_held (db_sessions d)) u" using held_by_mem [OF s(1), of session_held u] hs by simp
    ultimately show False using one [of u] by linarith
  qed
qed

lemma no_conflict:
  assumes ok: "db_ok d" and s: "getSession (lq_sessionId q) d = Some s" and c: "lease_current q nowMs s"
  shows "\<not> gpu_conflict q (listOccupyingSessions d) (listActiveJobs d)"
proof -
  from s have mem: "s \<in> set (db_sessions d)" by (auto simp: getSession_def dest: sql_get_Some)
  from c have occ: "session_occupying s" and u: "s_assignedGpuUuid s = Some (lq_gpuUuid q)" "s_assignedWorkerId s = Some (lq_workerId q)" "s_id s = lq_sessionId q"
    by (simp_all add: lease_current_def session_occupying_def)
  have "distinct (db_sessions d)" using ok by (auto simp: db_ok_def sessions_ok_def distinct_map)
  then have dist: "distinct (listOccupyingSessions d)" by (simp add: listOccupyingSessions_def)
  have here: "s \<in> set (listOccupyingSessions d)" using mem occ by (simp add: listOccupyingSessions_def)
  have only: "(s_assignedWorkerId y = Some (lq_workerId q) \<and> s_assignedGpuUuid y = Some (lq_gpuUuid q)) \<longleftrightarrow> y = s"
    if "y \<in> set (listOccupyingSessions d)" for y
  proof -
    from that have "y \<in> set (db_sessions d)" "session_occupying y" by (simp_all add: listOccupyingSessions_def)
    from holder_unique(1) [OF ok mem occ u(1) this] u show ?thesis by blast
  qed
  have f: "filter (\<lambda>s. s_assignedWorkerId s = Some (lq_workerId q) \<and> s_assignedGpuUuid s = Some (lq_gpuUuid q)) (listOccupyingSessions d) = [s]"
    by (rule filter_only [OF dist here only])
  have jobs: "\<not> list_ex (\<lambda>j. j_assignedWorkerId j = Some (lq_workerId q) \<and> j_assignedGpuUuid j = Some (lq_gpuUuid q)) (listActiveJobs d)"
    using holder_unique(2) [OF ok mem occ u(1)] by (auto simp: list_ex_iff listActiveJobs_def)
  show ?thesis unfolding gpu_conflict_def f Let_def using jobs u(3) by simp
qed

section \<open>Guarantees\<close>

text \<open>
  C34. In every reachable state a valid query is answered exactly when the session holds that GPU of
  that worker under that lease, the lease has not expired, the worker is online, not drained and
  fresh, it reports the GPU once, and the tables are within the limits: the conflict it guards
  against is never seen. An answer gives no permission to launch.
\<close>

theorem observation_exact:
  assumes "cp_reachable lc num cfg d" and "comparator lc"
    and "parse_query expected = Some q" and "is_time nowMs" and "1 \<le> maxWorkerAgeMs \<and> maxWorkerAgeMs \<le> 300000"
  shows "((\<exists>x. observeAuthoritativeSessionLease expected nowMs maxWorkerAgeMs d = Inr x) \<longleftrightarrow>
      (\<exists>s w. getSession (lq_sessionId q) d = Some s \<and> lease_current q nowMs s \<and>
        getWorker (lq_workerId q) d = Some w \<and> worker_available q nowMs maxWorkerAgeMs w \<and> gpu_present q w \<and>
        length (filter session_occupying (db_sessions d)) \<le> 100000 \<and> length (filter job_active (db_jobs d)) \<le> 100000)) \<and>
    observeAuthoritativeSessionLease expected nowMs maxWorkerAgeMs d \<noteq> deny ''broker_authoritative_gpu_conflict'' \<and>
    (\<forall>x. observeAuthoritativeSessionLease expected nowMs maxWorkerAgeMs d = Inr x \<longrightarrow> \<not> lo_canLaunch x)"
proof -
  have ok: "db_ok d" using assms(1,2) by (rule cp_reachable_ok)
  have o: "observeAuthoritativeSessionLease expected nowMs maxWorkerAgeMs d = observe_tx q nowMs maxWorkerAgeMs d"
    using assms(3-5) by (auto simp: observeAuthoritativeSessionLease_def)
  have len: "length (listOccupyingSessions d) = length (filter session_occupying (db_sessions d))"
    "length (listActiveJobs d) = length (filter job_active (db_jobs d))"
    by (simp_all add: listOccupyingSessions_def listActiveJobs_def)
  show ?thesis
  proof (cases "\<exists>s. getSession (lq_sessionId q) d = Some s \<and> lease_current q nowMs s")
    case True
    then obtain s where s: "getSession (lq_sessionId q) d = Some s" "lease_current q nowMs s" by blast
    show ?thesis unfolding o observe_tx_def
      using s no_conflict [OF ok s] by (auto simp: len Let_def split: option.splits)
  next
    case False
    then show ?thesis unfolding o observe_tx_def by (auto split: option.splits)
  qed
qed

definition sample_query :: jsval where
  "sample_query = JObj [(''sessionId'', JStr ''session_s''), (''leaseId'', JStr ''lease_u''), (''workerId'', JStr ''w1''), (''gpuUuid'', JStr ''g1'')]"

lemma sample_query_valid:
  "parse_query sample_query = Some \<lparr>lq_sessionId = ''session_s'', lq_leaseId = ''lease_u'', lq_workerId = ''w1'', lq_gpuUuid = ''g1''\<rparr>"
  by (simp add: parse_query_def sample_query_def ownValues_def OBSERVATION_FIELDS_def broker_id_def claim_id_def claim_char_def
      is_alnum_def)

theorem observation_exact_witness:
  "\<exists>x. observeAuthoritativeSessionLease sample_query 3500 30000 run5 = Inr x"
proof -
  have "getSession ''session_s'' run5 = Some sample_allocated_session" "getWorker ''w1'' run5 = Some sample_run_worker"
    by (simp_all add: getSession_def getWorker_def run5_eq sample_allocated_session_def sample_run_worker_def)
  moreover have "is_time 3500" by (simp add: is_time_def max_safe_integer_def)
  ultimately show ?thesis
    using observation_exact [OF run5_reachable code_units.comparator_axioms sample_query_valid, of 3500 30000]
    by (simp add: run5_eq lease_current_def sample_allocated_session_def is_time_def max_safe_integer_def worker_available_def
        sample_run_worker_def gpu_present_def sample_worker_input_def session_occupying_def)
qed

end
