(* ===== verification/Traces.thy ===== *)
theory Traces
  imports Prelude "HOL-Library.Sublist"
begin

text \<open>
  Logs of events, newest last, for the components whose correctness is the order in which things
  happen: what stays in order when a log grows, and logs in which every event was justified by what
  stood before it.
\<close>

lemma subseq_later: "subseq xs ys \<Longrightarrow> subseq xs (ys @ zs)"
  by (rule subseq_rev_drop_many)

lemma subseq_then: "subseq xs ys \<Longrightarrow> x \<in> set zs \<Longrightarrow> subseq (xs @ [x]) (ys @ zs)"
  by (rule list_emb_append_mono) (simp_all add: subseq_singleton_left)

lemma subseq_start: "subseq (xs @ ys) zs \<Longrightarrow> subseq xs zs"
  by (rule subseq_order.order_trans [OF subseq_later [OF subseq_order.order_refl]])

lemma subseq_mem: "subseq xs ys \<Longrightarrow> x \<in> set xs \<Longrightarrow> x \<in> set ys"
  by (erule list_emb_set) auto

lemma length_append_cons_less: "xs = ys @ x # zs \<Longrightarrow> length ys < length xs"
  by simp

definition justified_log :: "('e \<Rightarrow> 'e list \<Rightarrow> bool) \<Rightarrow> 'e list \<Rightarrow> bool" where
  "justified_log just xs = (\<forall>n < length xs. just (xs ! n) (take n xs))"

lemma justified_log_Nil [simp]: "justified_log just []"
  by (simp add: justified_log_def)

lemma justified_log_snoc [simp]: "justified_log just (xs @ [x]) \<longleftrightarrow> justified_log just xs \<and> just x xs"
  by (auto simp: justified_log_def nth_append less_Suc_eq)

lemma justified_log_split:
  "justified_log just xs \<longleftrightarrow> (\<forall>ys x zs. xs = ys @ x # zs \<longrightarrow> just x ys)"
proof
  show "justified_log just xs \<Longrightarrow> \<forall>ys x zs. xs = ys @ x # zs \<longrightarrow> just x ys"
    by (metis append_eq_conv_conj justified_log_def length_append_cons_less nth_append_length)
next
  assume split: "\<forall>ys x zs. xs = ys @ x # zs \<longrightarrow> just x ys"
  show "justified_log just xs"
    unfolding justified_log_def using split id_take_nth_drop by blast
qed

end
