(* ===== verification/SchedulerRunner.thy ===== *)
theory SchedulerRunner
  imports Traces
begin

text \<open>
  \<^verbatim>\<open>src/control-plane/scheduler-runner.mjs\<close>: passes are run one after the other, and triggers that
  arrive while one runs share one pass behind it. A trigger is the promise it returned, named by a
  number; \<open>rn_waiting\<close> are the triggers of the drain in progress. Passes are numbered in the
  order they start. \<open>rn_log\<close> is what has happened, newest last.
\<close>

section \<open>The runner\<close>

datatype runner_event =
    Triggered nat
  | Refused nat
  | PassStarted nat
  | PassEnded nat bool
  | Resolved nat
  | Rejected nat
  | StopCalled

record runner =
  rn_pending :: bool
  rn_draining :: bool
  rn_stopping :: bool
  rn_waiting :: "nat list"
  rn_passes :: nat
  rn_log :: "runner_event list"

definition new_runner :: runner where
  "new_runner = \<lparr>rn_pending = False, rn_draining = False, rn_stopping = False, rn_waiting = [], rn_passes = 0, rn_log = []\<rparr>"

definition log_event :: "runner_event \<Rightarrow> runner \<Rightarrow> runner" where
  "log_event e r = r\<lparr>rn_log := rn_log r @ [e]\<rparr>"

text \<open>\<^verbatim>\<open>#drain\<close> from its loop condition to the \<^verbatim>\<open>await\<close>, or to its end.\<close>

definition drain_loop :: "runner \<Rightarrow> runner" where
  "drain_loop r =
     (if rn_pending r \<and> \<not> rn_stopping r
      then log_event (PassStarted (rn_passes r)) (r\<lparr>rn_pending := False, rn_draining := True, rn_passes := Suc (rn_passes r)\<rparr>)
      else r\<lparr>rn_draining := False, rn_waiting := [], rn_log := rn_log r @ map Resolved (rn_waiting r)\<rparr>)"

definition trigger :: "nat \<Rightarrow> runner \<Rightarrow> runner" where
  "trigger i r =
     (if rn_stopping r then log_event (Refused i) r
      else
        (let r1 = log_event (Triggered i) (r\<lparr>rn_pending := True, rn_waiting := rn_waiting r @ [i]\<rparr>) in
         if \<not> rn_draining r then drain_loop r1 else r1))"

definition runner_stop :: "runner \<Rightarrow> runner" where
  "runner_stop r = log_event StopCalled (r\<lparr>rn_stopping := True, rn_pending := False\<rparr>)"

text \<open>The pass that was awaited returned or threw; throwing leaves through \<^verbatim>\<open>finally\<close>.\<close>

definition pass_returned :: "runner \<Rightarrow> runner" where
  "pass_returned r = drain_loop (log_event (PassEnded (rn_passes r - 1) True) r)"

definition pass_threw :: "runner \<Rightarrow> runner" where
  "pass_threw r =
     (let r1 = log_event (PassEnded (rn_passes r - 1) False) r in
      r1\<lparr>rn_draining := False, rn_waiting := [], rn_log := rn_log r1 @ map Rejected (rn_waiting r1)\<rparr>)"

inductive runner_step :: "runner \<Rightarrow> runner \<Rightarrow> bool" where
  triggered: "Triggered i \<notin> set (rn_log r) \<Longrightarrow> Refused i \<notin> set (rn_log r) \<Longrightarrow> runner_step r (trigger i r)"
| stopped: "runner_step r (runner_stop r)"
| returned: "rn_draining r \<Longrightarrow> runner_step r (pass_returned r)"
| threw: "rn_draining r \<Longrightarrow> runner_step r (pass_threw r)"

inductive runner_reachable :: "runner \<Rightarrow> bool" where
  fresh: "runner_reachable new_runner"
| step: "runner_reachable r \<Longrightarrow> runner_step r r' \<Longrightarrow> runner_reachable r'"

section \<open>What the log shows\<close>

text \<open>A trigger waits for a pass that starts behind it, or one that has started behind it already.\<close>

definition waiting_ok :: "runner \<Rightarrow> bool" where
  "waiting_ok r =
     (\<forall>i \<in> set (rn_waiting r). Triggered i \<in> set (rn_log r) \<and>
        (rn_stopping r \<or> rn_pending r \<or> subseq [Triggered i, PassStarted (rn_passes r - 1)] (rn_log r)))"

definition resolved_ok :: "runner \<Rightarrow> bool" where
  "resolved_ok r =
     (\<forall>i. Resolved i \<in> set (rn_log r) \<longrightarrow> StopCalled \<in> set (rn_log r) \<or>
        (\<exists>k. subseq [Triggered i, PassStarted k, PassEnded k True, Resolved i] (rn_log r)))"

definition answers_ok :: "runner \<Rightarrow> bool" where
  "answers_ok r =
     ((\<forall>i. Triggered i \<in> set (rn_log r) \<longrightarrow> i \<in> set (rn_waiting r) \<or> Resolved i \<in> set (rn_log r) \<or> Rejected i \<in> set (rn_log r)) \<and>
      (rn_stopping r \<longleftrightarrow> StopCalled \<in> set (rn_log r)) \<and> (\<not> rn_draining r \<longrightarrow> rn_waiting r = []))"

fun pass_event :: "runner_event \<Rightarrow> bool" where
  "pass_event (PassStarted k) = True"
| "pass_event (PassEnded k b) = True"
| "pass_event _ = False"

fun is_trigger :: "runner_event \<Rightarrow> bool" where
  "is_trigger (Triggered i) = True"
| "is_trigger _ = False"

definition whole_passes :: "bool list \<Rightarrow> runner_event list" where
  "whole_passes outcomes = concat (map (\<lambda>(k, b). [PassStarted k, PassEnded k b]) (zip [0..<length outcomes] outcomes))"

definition serial_ok :: "runner \<Rightarrow> bool" where
  "serial_ok r =
     ((\<exists>outcomes. length outcomes + (if rn_draining r then 1 else 0) = rn_passes r \<and>
        filter pass_event (rn_log r) = whole_passes outcomes @ (if rn_draining r then [PassStarted (rn_passes r - 1)] else [])) \<and>
      rn_passes r + (if rn_pending r then 1 else 0) \<le> length (filter is_trigger (rn_log r)))"

lemma whole_passes_snoc: "whole_passes (bs @ [b]) = whole_passes bs @ [PassStarted (length bs), PassEnded (length bs) b]"
  by (simp add: whole_passes_def)

lemma filter_map_no_pass: "filter pass_event (map Resolved is) = []" "filter pass_event (map Rejected is) = []"
  "filter is_trigger (map Resolved is) = []" "filter is_trigger (map Rejected is) = []"
  by (induction "is") simp_all

lemmas runner_defs = trigger_def runner_stop_def pass_returned_def pass_threw_def drain_loop_def log_event_def Let_def

lemma waiting_step: "runner_step r r' \<Longrightarrow> waiting_ok r \<Longrightarrow> answers_ok r \<Longrightarrow> waiting_ok r'"
proof (induction rule: runner_step.induct)
  case (triggered i r)
  show ?case
  proof (cases "rn_stopping r \<or> rn_draining r")
    case True
    with triggered show ?thesis
      by (auto simp: waiting_ok_def runner_defs intro: subseq_later)
  next
    case False
    with triggered have "rn_waiting r = []" by (simp add: answers_ok_def)
    with False show ?thesis by (auto simp: waiting_ok_def runner_defs subseq_singleton_left intro: subseq_then [of "[Triggered i]", simplified])
  qed
next
  case (returned r)
  show ?case
  proof (cases "rn_pending r \<and> \<not> rn_stopping r")
    case True
    have "subseq [Triggered i, PassStarted (rn_passes r)] (rn_log r @ [PassEnded (rn_passes r - Suc 0) True, PassStarted (rn_passes r)])"
      if "Triggered i \<in> set (rn_log r)" for i
      using that subseq_then [of "[Triggered i]" "rn_log r" "PassStarted (rn_passes r)"] by (simp add: subseq_singleton_left)
    with True returned show ?thesis by (auto simp: waiting_ok_def runner_defs)
  qed (auto simp: waiting_ok_def runner_defs)
qed (auto simp: waiting_ok_def runner_defs)

lemma answers_step: "runner_step r r' \<Longrightarrow> answers_ok r \<Longrightarrow> answers_ok r'"
  by (induction rule: runner_step.induct) (auto simp: answers_ok_def runner_defs)

lemma resolved_later:
  assumes "resolved_ok r" and "rn_log r' = rn_log r @ es" and "\<forall>i. Resolved i \<notin> set es"
  shows "resolved_ok r'"
  using assms by (auto simp: resolved_ok_def dest: subseq_later)

lemma resolved_step: "runner_step r r' \<Longrightarrow> resolved_ok r \<Longrightarrow> waiting_ok r \<Longrightarrow> answers_ok r \<Longrightarrow> resolved_ok r'"
proof (induction rule: runner_step.induct)
  case (triggered i r)
  have "\<exists>es. rn_log (trigger i r) = rn_log r @ es \<and> (\<forall>i. Resolved i \<notin> set es)"
    by (auto simp: runner_defs)
  with triggered(3) show ?case by (blast intro: resolved_later)
next
  case (returned r)
  show ?case
  proof (cases "rn_pending r \<and> \<not> rn_stopping r")
    case True
    with returned(2) show ?thesis by (auto simp: runner_defs intro!: resolved_later [OF returned(2)])
  next
    case False
    let ?k = "rn_passes r - 1"
    have log: "rn_log (pass_returned r) = (rn_log r @ [PassEnded ?k True]) @ map Resolved (rn_waiting r)"
      using False by (auto simp: runner_defs)
    have new: "\<exists>k. subseq [Triggered i, PassStarted k, PassEnded k True, Resolved i] (rn_log (pass_returned r))"
      if i: "i \<in> set (rn_waiting r)" and "StopCalled \<notin> set (rn_log r)" for i
    proof -
      from that False returned(3,4) have "subseq [Triggered i, PassStarted ?k] (rn_log r)"
        by (auto simp: waiting_ok_def answers_ok_def)
      from subseq_then [OF subseq_then [OF this, of "PassEnded ?k True" "[PassEnded ?k True]"], of "Resolved i" "map Resolved (rn_waiting r)"] i
      show ?thesis unfolding log by auto
    qed
    have old: "subseq xs (rn_log (pass_returned r))" if "subseq xs (rn_log r)" for xs
      unfolding log by (intro subseq_later that)
    have "Resolved i \<in> set (rn_log r) \<or> i \<in> set (rn_waiting r)" if "Resolved i \<in> set (rn_log (pass_returned r))" for i
      using that unfolding log by auto
    moreover have "StopCalled \<in> set (rn_log (pass_returned r))" if "StopCalled \<in> set (rn_log r)" using that unfolding log by simp
    ultimately show ?thesis using returned(2) new old unfolding resolved_ok_def by blast
  qed
next
  case (stopped r)
  then show ?case by (intro resolved_later [OF stopped(1)]) (auto simp: runner_defs)
next
  case (threw r)
  then show ?case by (intro resolved_later [OF threw(2)]) (auto simp: runner_defs)
qed

lemma serial_ended:
  assumes "serial_ok r" and "rn_draining r"
  shows "\<exists>bs. length bs = rn_passes r \<and>
    filter pass_event (rn_log r @ [PassEnded (rn_passes r - 1) b]) = whole_passes bs"
proof -
  from assms obtain bs where bs: "length bs + 1 = rn_passes r"
    "filter pass_event (rn_log r) = whole_passes bs @ [PassStarted (rn_passes r - 1)]"
    by (auto simp: serial_ok_def)
  from bs(1) have n: "rn_passes r - Suc 0 = length bs" by simp
  have "filter pass_event (rn_log r @ [PassEnded (rn_passes r - 1) b]) = whole_passes (bs @ [b])"
    using bs(2) by (simp add: n whole_passes_snoc)
  with bs(1) show ?thesis by (intro exI [of _ "bs @ [b]"]) simp
qed

lemma serial_drain_loop:
  assumes "length bs = rn_passes r" and "filter pass_event (rn_log r) = whole_passes bs"
    and "rn_passes r + (if rn_pending r then 1 else 0) \<le> length (filter is_trigger (rn_log r))"
  shows "serial_ok (drain_loop r)"
  using assms by (auto simp: serial_ok_def drain_loop_def log_event_def filter_map_no_pass)

lemma serial_step: "runner_step r r' \<Longrightarrow> serial_ok r \<Longrightarrow> serial_ok r'"
proof (induction rule: runner_step.induct)
  case (triggered i r)
  show ?case
  proof (cases "rn_stopping r \<or> rn_draining r")
    case True
    with triggered show ?thesis by (auto simp: serial_ok_def trigger_def log_event_def Let_def)
  next
    case False
    let ?r = "log_event (Triggered i) (r\<lparr>rn_pending := True, rn_waiting := rn_waiting r @ [i]\<rparr>)"
    from False triggered obtain bs where "length bs = rn_passes r" "filter pass_event (rn_log r) = whole_passes bs"
      "rn_passes r \<le> length (filter is_trigger (rn_log r))" by (auto simp: serial_ok_def split: if_splits)
    then have "serial_ok (drain_loop ?r)" by (intro serial_drain_loop [of bs]) (simp_all add: log_event_def)
    with False show ?thesis by (simp add: trigger_def Let_def)
  qed
next
  case (stopped r)
  then show ?case by (auto simp: serial_ok_def runner_stop_def log_event_def split: if_splits)
next
  case (returned r)
  from serial_ended [OF returned(2,1), of True] obtain bs where "length bs = rn_passes r"
    "filter pass_event (rn_log r @ [PassEnded (rn_passes r - 1) True]) = whole_passes bs" by blast
  then show ?case unfolding pass_returned_def using returned(2)
    by (intro serial_drain_loop) (auto simp: log_event_def serial_ok_def)
next
  case (threw r)
  from serial_ended [OF threw(2,1), of False] obtain bs where "length bs = rn_passes r"
    "filter pass_event (rn_log r @ [PassEnded (rn_passes r - 1) False]) = whole_passes bs" by blast
  then show ?case using threw(2)
    by (auto simp: serial_ok_def pass_threw_def log_event_def Let_def filter_map_no_pass)
qed

lemma runner_invariant:
  "runner_reachable r \<Longrightarrow> waiting_ok r \<and> answers_ok r \<and> resolved_ok r \<and> serial_ok r"
proof (induction rule: runner_reachable.induct)
  case fresh
  show ?case by (simp add: new_runner_def waiting_ok_def answers_ok_def resolved_ok_def serial_ok_def whole_passes_def)
next
  case (step r r')
  then show ?case using waiting_step answers_step resolved_step serial_step by blast
qed

section \<open>Guarantees\<close>

text \<open>
  C30. Passes never overlap, and there are at most as many as triggers. A trigger that is resolved saw
  a pass that started after it and returned, unless the runner is being stopped; once no pass is
  running every trigger has been resolved or rejected.
\<close>

theorem runner_coalesces:
  assumes "runner_reachable r"
  shows "(\<exists>outcomes. length outcomes + (if rn_draining r then 1 else 0) = rn_passes r \<and>
      filter pass_event (rn_log r) = whole_passes outcomes @ (if rn_draining r then [PassStarted (rn_passes r - 1)] else [])) \<and>
    rn_passes r \<le> length (filter is_trigger (rn_log r)) \<and>
    (\<forall>i. Resolved i \<in> set (rn_log r) \<longrightarrow> StopCalled \<in> set (rn_log r) \<or>
      (\<exists>k. subseq [Triggered i, PassStarted k, PassEnded k True, Resolved i] (rn_log r))) \<and>
    (\<not> rn_draining r \<longrightarrow> (\<forall>i. Triggered i \<in> set (rn_log r) \<longrightarrow> Resolved i \<in> set (rn_log r) \<or> Rejected i \<in> set (rn_log r)))"
proof -
  from runner_invariant [OF assms] have i: "answers_ok r" "resolved_ok r" "serial_ok r" by simp_all
  from i(3) have "rn_passes r \<le> length (filter is_trigger (rn_log r))" by (simp add: serial_ok_def split: if_splits)
  with i show ?thesis by (auto simp: serial_ok_def resolved_ok_def answers_ok_def)
qed

definition two_triggers :: runner where
  "two_triggers = pass_returned (pass_returned (trigger 2 (trigger 1 (trigger 0 new_runner))))"

lemma two_triggers_log: "rn_log two_triggers =
  [Triggered 0, PassStarted 0, Triggered 1, Triggered 2, PassEnded 0 True, PassStarted 1, PassEnded 1 True, Resolved 0, Resolved 1, Resolved 2]"
  by (simp add: two_triggers_def runner_defs new_runner_def)

lemma two_triggers_reachable: "runner_reachable two_triggers"
proof -
  have 0: "runner_reachable (trigger 0 new_runner)"
    by (rule runner_reachable.step [OF runner_reachable.fresh runner_step.triggered]) (simp_all add: new_runner_def)
  have 1: "runner_reachable (trigger 1 (trigger 0 new_runner))"
    by (rule runner_reachable.step [OF 0 runner_step.triggered]) (simp_all add: runner_defs new_runner_def)
  have 2: "runner_reachable (trigger 2 (trigger 1 (trigger 0 new_runner)))"
    by (rule runner_reachable.step [OF 1 runner_step.triggered]) (simp_all add: runner_defs new_runner_def)
  have 3: "runner_reachable (pass_returned (trigger 2 (trigger 1 (trigger 0 new_runner))))"
    by (rule runner_reachable.step [OF 2 runner_step.returned]) (simp add: runner_defs new_runner_def)
  show ?thesis unfolding two_triggers_def
    by (rule runner_reachable.step [OF 3 runner_step.returned]) (simp add: runner_defs new_runner_def)
qed

text \<open>
  A trigger that arrives during a pass that throws is rejected with it: the pass it asked for stays
  pending, and does not start before the next trigger.
\<close>

lemma follow_up_lost:
  "pass_threw (trigger 1 (trigger 0 new_runner)) =
     \<lparr>rn_pending = True, rn_draining = False, rn_stopping = False, rn_waiting = [], rn_passes = 1,
      rn_log = [Triggered 0, PassStarted 0, Triggered 1, PassEnded 0 False, Rejected 0, Rejected 1]\<rparr>"
  by (simp add: runner_defs new_runner_def)

theorem runner_coalesces_witness:
  "\<exists>k. subseq [Triggered 1, PassStarted k, PassEnded k True, Resolved 1] (rn_log two_triggers)"
proof -
  have "Resolved 1 \<in> set (rn_log two_triggers)" "StopCalled \<notin> set (rn_log two_triggers)" by (simp_all add: two_triggers_log)
  with runner_coalesces [OF two_triggers_reachable] show ?thesis by blast
qed

end
