(* ===== verification/Persistence.thy ===== *)
theory Persistence
  imports JsValues
begin

text \<open>
  \<^verbatim>\<open>src/control-plane/persistence/sqlite.mjs\<close>: one connection to SQLite behind a queue. A single
  statement runs as one operation of the queue, a transaction is a callback that may wait between
  its statements, and a throwing one is rolled back. The database is any state \<open>'d\<close>, a
  statement a function on it with a result or an error.
\<close>

section \<open>Operations\<close>

text \<open>
  A transaction's callback: it returns, throws, or calls a method of the transaction view and goes
  on with what that answered. The flag says that the method is appendEvent.
\<close>

datatype ('d, 'v) callback =
    Returns 'v
  | Throws error
  | Calls bool "'d \<Rightarrow> 'v result \<times> 'd" "'v result \<Rightarrow> ('d, 'v) callback"

datatype ('d, 'v) operation =
    Statement bool "'d \<Rightarrow> 'v result \<times> 'd"
  | Transaction "('d, 'v) callback"
  | CloseConnection 'v

text \<open>
  The object: the connection's database, what a rollback goes back to, the operations behind the
  tail of the queue with their tickets, the transaction in progress with \<^verbatim>\<open>eventWritten\<close>, whether it is
  closed, and the answers and event notifications given so far.
\<close>

record ('d, 'v) persistence =
  pe_db :: 'd
  pe_saved :: "'d option"
  pe_queue :: "(nat \<times> ('d, 'v) operation) list"
  pe_running :: "(nat \<times> ('d, 'v) callback \<times> bool) option"
  pe_closed :: bool
  pe_answers :: "(nat \<times> 'v result) list"
  pe_notifications :: nat

definition open_persistence :: "'d \<Rightarrow> ('d, 'v) persistence" where
  "open_persistence d =
     \<lparr>pe_db = d, pe_saved = None, pe_queue = [], pe_running = None, pe_closed = False, pe_answers = [], pe_notifications = 0\<rparr>"

definition enqueue :: "nat \<Rightarrow> ('d, 'v) operation \<Rightarrow> ('d, 'v) persistence \<Rightarrow> ('d, 'v) persistence" where
  "enqueue t op s = s\<lparr>pe_queue := pe_queue s @ [(t, op)]\<rparr>"

definition answer :: "nat \<Rightarrow> 'v result \<Rightarrow> ('d, 'v) persistence \<Rightarrow> ('d, 'v) persistence" where
  "answer t r s = s\<lparr>pe_answers := pe_answers s @ [(t, r)]\<rparr>"

abbreviation closed_error :: "'v result" where
  "closed_error \<equiv> Inl (PlainError ''persistence is closed'')"

definition notify :: "bool \<Rightarrow> ('d, 'v) persistence \<Rightarrow> ('d, 'v) persistence" where
  "notify written s = (if written then s\<lparr>pe_notifications := Suc (pe_notifications s)\<rparr> else s)"

definition run_statement :: "nat \<Rightarrow> bool \<Rightarrow> ('d \<Rightarrow> 'v result \<times> 'd) \<Rightarrow> ('d, 'v) persistence \<Rightarrow> ('d, 'v) persistence" where
  "run_statement t isEvent f s =
     (case f (pe_db s) of
        (Inl e, d) \<Rightarrow> answer t (Inl e) (s\<lparr>pe_db := d\<rparr>)
      | (Inr v, d) \<Rightarrow> answer t (Inr v) (notify isEvent (s\<lparr>pe_db := d\<rparr>)))"

text \<open>The operation at the head of the queue starts when nothing is running.\<close>

definition start_operation :: "('d, 'v) persistence \<Rightarrow> ('d, 'v) persistence" where
  "start_operation s =
     (case pe_queue s of
        [] \<Rightarrow> s
      | (t, op) # rest \<Rightarrow>
          (let s1 = s\<lparr>pe_queue := rest\<rparr> in
           case op of
             CloseConnection v \<Rightarrow> answer t (Inr v) (s1\<lparr>pe_closed := True\<rparr>)
           | Statement isEvent f \<Rightarrow> if pe_closed s1 then answer t closed_error s1 else run_statement t isEvent f s1
           | Transaction c \<Rightarrow>
               if pe_closed s1 then answer t closed_error s1
               else s1\<lparr>pe_saved := Some (pe_db s1), pe_running := Some (t, c, False)\<rparr>))"

text \<open>The callback goes on: one statement, \<^verbatim>\<open>COMMIT\<close>, or \<^verbatim>\<open>ROLLBACK\<close>.\<close>

definition resume_callback :: "('d, 'v) persistence \<Rightarrow> ('d, 'v) persistence" where
  "resume_callback s =
     (case (pe_running s, pe_saved s) of
        (Some (t, c, written), Some saved) \<Rightarrow>
          (case c of
             Returns v \<Rightarrow> answer t (Inr v) (notify written (s\<lparr>pe_saved := None, pe_running := None\<rparr>))
           | Throws e \<Rightarrow> answer t (Inl e) (s\<lparr>pe_db := saved, pe_saved := None, pe_running := None\<rparr>)
           | Calls isEvent f k \<Rightarrow>
               (case f (pe_db s) of
                  (r, d) \<Rightarrow> s\<lparr>pe_db := d, pe_running := Some (t, k r, written \<or> (isEvent \<and> \<not> isl r))\<rparr>))
      | _ \<Rightarrow> s)"

text \<open>Runs, with the operations that were enqueued.\<close>

inductive persistence_run ::
  "'d \<Rightarrow> (nat \<times> ('d, 'v) operation) list \<Rightarrow> ('d, 'v) persistence \<Rightarrow> bool" for d0 where
  opened: "persistence_run d0 [] (open_persistence d0)"
| enqueued: "persistence_run d0 ops s \<Longrightarrow> persistence_run d0 (ops @ [(t, op)]) (enqueue t op s)"
| started: "persistence_run d0 ops s \<Longrightarrow> pe_running s = None \<Longrightarrow> pe_queue s \<noteq> [] \<Longrightarrow> persistence_run d0 ops (start_operation s)"
| resumed: "persistence_run d0 ops s \<Longrightarrow> pe_running s \<noteq> None \<Longrightarrow> persistence_run d0 ops (resume_callback s)"

section \<open>Operations that run alone\<close>

text \<open>The reference: every operation runs at once, to its end, on the database it finds.\<close>

primrec run_callback :: "('d, 'v) callback \<Rightarrow> 'd \<Rightarrow> 'v result \<times> 'd" where
  "run_callback (Returns v) = (\<lambda>d. (Inr v, d))"
| "run_callback (Throws e) = (\<lambda>d. (Inl e, d))"
| "run_callback (Calls isEvent f k) = (\<lambda>d. case f d of (r, d') \<Rightarrow> run_callback (k r) d')"

definition run_transaction :: "('d, 'v) callback \<Rightarrow> 'd \<Rightarrow> 'v result \<times> 'd" where
  "run_transaction c d = (case run_callback c d of (Inl e, _) \<Rightarrow> (Inl e, d) | (Inr v, d') \<Rightarrow> (Inr v, d'))"

definition run_atomic :: "('d, 'v) operation \<Rightarrow> bool \<times> 'd \<Rightarrow> 'v result \<times> bool \<times> 'd" where
  "run_atomic op s =
     (case s of (shut, d) \<Rightarrow>
        (case op of
           CloseConnection v \<Rightarrow> (Inr v, True, d)
         | Statement isEvent f \<Rightarrow> if shut then (closed_error, shut, d) else (case f d of (r, d') \<Rightarrow> (r, shut, d'))
         | Transaction c \<Rightarrow> if shut then (closed_error, shut, d) else (case run_transaction c d of (r, d') \<Rightarrow> (r, shut, d'))))"

fun run_serial :: "(nat \<times> ('d, 'v) operation) list \<Rightarrow> bool \<times> 'd \<Rightarrow> (nat \<times> 'v result) list \<times> bool \<times> 'd" where
  "run_serial [] s = ([], s)"
| "run_serial ((t, op) # ops) s =
     (case run_atomic op s of (r, s') \<Rightarrow> (case run_serial ops s' of (rs, s'') \<Rightarrow> ((t, r) # rs, s'')))"

lemma run_serial_snoc:
  "run_serial (ops @ [(t, op)]) s =
     (case run_serial ops s of (rs, s') \<Rightarrow> (case run_atomic op s' of (r, s'') \<Rightarrow> (rs @ [(t, r)], s'')))"
  by (induction ops s rule: run_serial.induct) (auto split: prod.splits)

section \<open>The queue makes operations atomic\<close>

definition committed :: "('d, 'v) persistence \<Rightarrow> 'd" where
  "committed s = (case pe_saved s of None \<Rightarrow> pe_db s | Some d \<Rightarrow> d)"

text \<open>The operation in progress, with what it still does agreeing with what it does alone.\<close>

definition running_ok :: "('d, 'v) persistence \<Rightarrow> (nat \<times> ('d, 'v) operation) list \<Rightarrow> bool" where
  "running_ok s current =
     (case pe_running s of
        None \<Rightarrow> current = [] \<and> pe_saved s = None
      | Some (t, c, written) \<Rightarrow>
          \<not> pe_closed s \<and> pe_saved s \<noteq> None \<and>
          (\<exists>c0. current = [(t, Transaction c0)] \<and> run_callback c0 (committed s) = run_callback c (pe_db s)))"

definition serial_state :: "'d \<Rightarrow> (nat \<times> ('d, 'v) operation) list \<Rightarrow> ('d, 'v) persistence \<Rightarrow> bool" where
  "serial_state d0 ops s =
     (\<exists>finished current. ops = finished @ current @ pe_queue s \<and> running_ok s current \<and>
        run_serial finished (False, d0) = (pe_answers s, pe_closed s, committed s))"

lemma serial_stateI:
  "ops = finished @ current @ pe_queue s \<Longrightarrow> running_ok s current \<Longrightarrow>
   run_serial finished (False, d0) = (pe_answers s, pe_closed s, committed s) \<Longrightarrow> serial_state d0 ops s"
  unfolding serial_state_def by blast

lemmas persistence_defs = answer_def notify_def committed_def running_ok_def

lemma run_statement_fields:
  "pe_db (run_statement t isEvent f s) = snd (f (pe_db s))"
  "pe_answers (run_statement t isEvent f s) = pe_answers s @ [(t, fst (f (pe_db s)))]"
  "pe_queue (run_statement t isEvent f s) = pe_queue s" "pe_saved (run_statement t isEvent f s) = pe_saved s"
  "pe_running (run_statement t isEvent f s) = pe_running s" "pe_closed (run_statement t isEvent f s) = pe_closed s"
  by (simp_all add: run_statement_def answer_def notify_def split: prod.split sum.split)

lemma start_serial:
  assumes "serial_state d0 ops s" and "pe_running s = None" and "pe_queue s \<noteq> []"
  shows "serial_state d0 ops (start_operation s)"
proof -
  from assms(3) obtain t op rest where q: "pe_queue s = (t, op) # rest" by (cases "pe_queue s") auto
  from assms(1,2) q obtain finished where f: "ops = finished @ (t, op) # rest" "pe_saved s = None"
    "run_serial finished (False, d0) = (pe_answers s, pe_closed s, pe_db s)"
    by (auto simp: serial_state_def persistence_defs)
  note snoc = run_serial_snoc [of finished t op "(False, d0)", unfolded f(3)]
  show ?thesis
  proof (cases op)
    case (CloseConnection v)
    with q f snoc assms(2) show ?thesis
      by (intro serial_stateI [of _ "finished @ [(t, op)]" "[]"]) (simp_all add: start_operation_def persistence_defs run_atomic_def)
  next
    case (Statement isEvent g)
    show ?thesis
    proof (cases "pe_closed s")
      case True
      with Statement q f snoc assms(2) show ?thesis
        by (intro serial_stateI [of _ "finished @ [(t, op)]" "[]"]) (simp_all add: start_operation_def persistence_defs run_atomic_def)
    next
      case False
      with Statement q have "start_operation s = run_statement t isEvent g (s\<lparr>pe_queue := rest\<rparr>)"
        by (simp add: start_operation_def)
      with Statement False q f snoc assms(2) show ?thesis
        by (intro serial_stateI [of _ "finished @ [(t, op)]" "[]"])
          (simp_all add: run_statement_fields committed_def running_ok_def run_atomic_def split_beta)
    qed
  next
    case (Transaction c)
    show ?thesis
    proof (cases "pe_closed s")
      case True
      with Transaction q f snoc assms(2) show ?thesis
        by (intro serial_stateI [of _ "finished @ [(t, op)]" "[]"]) (simp_all add: start_operation_def persistence_defs run_atomic_def)
    next
      case False
      with Transaction q f show ?thesis
        by (intro serial_stateI [of _ finished "[(t, op)]"]) (simp_all add: start_operation_def persistence_defs)
    qed
  qed
qed

lemma resume_serial:
  assumes "serial_state d0 ops s" and "pe_running s \<noteq> None"
  shows "serial_state d0 ops (resume_callback s)"
proof -
  from assms obtain t c written finished c0 saved where r: "pe_running s = Some (t, c, written)" "pe_saved s = Some saved" "\<not> pe_closed s"
    and o: "ops = finished @ (t, Transaction c0) # pe_queue s" and b: "run_callback c0 saved = run_callback c (pe_db s)"
    and f: "run_serial finished (False, d0) = (pe_answers s, pe_closed s, saved)"
    by (auto simp: serial_state_def persistence_defs)
  have snoc: "run_serial (finished @ [(t, Transaction c0)]) (False, d0) =
      (case run_transaction c0 saved of (x, d) \<Rightarrow> (pe_answers s @ [(t, x)], False, d))"
    using f r(3) by (simp add: run_serial_snoc run_atomic_def split: prod.split)
  show ?thesis
  proof (cases c)
    case (Returns v)
    with r o b snoc show ?thesis
      by (intro serial_stateI [of _ "finished @ [(t, Transaction c0)]" "[]"])
        (simp_all add: resume_callback_def persistence_defs run_transaction_def)
  next
    case (Throws e)
    with r o b snoc show ?thesis
      by (intro serial_stateI [of _ "finished @ [(t, Transaction c0)]" "[]"])
        (simp_all add: resume_callback_def persistence_defs run_transaction_def)
  next
    case (Calls isEvent g k)
    obtain x d where "g (pe_db s) = (x, d)" by (cases "g (pe_db s)")
    with Calls r o b f show ?thesis
      by (intro serial_stateI [of _ finished "[(t, Transaction c0)]"]) (simp_all add: resume_callback_def persistence_defs)
  qed
qed

lemma enqueue_keeps: "committed (enqueue t op s) = committed s" "running_ok (enqueue t op s) current = running_ok s current"
  by (simp_all add: enqueue_def committed_def running_ok_def split: option.split)

lemma run_serial_state: "persistence_run d0 ops s \<Longrightarrow> serial_state d0 ops s"
proof (induction rule: persistence_run.induct)
  case opened
  show ?case by (rule serial_stateI [of _ "[]" "[]"]) (simp_all add: open_persistence_def persistence_defs)
next
  case (enqueued ops s t op)
  from enqueued(2) obtain finished current where "ops = finished @ current @ pe_queue s" "running_ok s current"
    "run_serial finished (False, d0) = (pe_answers s, pe_closed s, committed s)" by (auto simp: serial_state_def)
  then show ?case
    by (intro serial_stateI [of _ finished current]) (simp_all add: enqueue_keeps, simp_all add: enqueue_def)
qed (simp_all add: start_serial resume_serial)

section \<open>Guarantees\<close>

text \<open>
  C29. However the callbacks of transactions wait and statements arrive between their statements, the
  store behaves as if every operation ran at once, one after the other in the order they were
  enqueued: the answers given and the committed database are those of that serial execution of the
  operations finished so far, a throwing transaction leaving no trace, and the rest is what runs
  and what is queued.
\<close>

theorem persistence_serial:
  assumes "persistence_run d0 ops s"
  shows "\<exists>finished current. ops = finished @ current @ pe_queue s \<and>
    length current = (if pe_running s = None then 0 else 1) \<and>
    run_serial finished (False, d0) = (pe_answers s, pe_closed s, (case pe_saved s of None \<Rightarrow> pe_db s | Some d \<Rightarrow> d))"
proof -
  from run_serial_state [OF assms] obtain finished current where f: "ops = finished @ current @ pe_queue s"
    "running_ok s current" "run_serial finished (False, d0) = (pe_answers s, pe_closed s, committed s)"
    by (auto simp: serial_state_def)
  from f(2) have "length current = (if pe_running s = None then 0 else 1)"
    by (auto simp: running_ok_def split: option.splits)
  with f show ?thesis unfolding committed_def by blast
qed

definition push_statement :: "nat \<Rightarrow> nat list \<Rightarrow> nat result \<times> nat list" where
  "push_statement n d = (Inr (length d), d @ [n])"

definition pushing :: "(nat list, nat) callback" where
  "pushing = Calls False (push_statement 1) (\<lambda>_. Throws (PlainError ''stop''))"

definition interleaved :: "(nat list, nat) persistence" where
  "interleaved = start_operation (resume_callback (enqueue 1 (Statement False (push_statement 2))
     (resume_callback (start_operation (enqueue 0 (Transaction pushing) (open_persistence []))))))"

lemma interleaved_eq: "pe_answers interleaved = [(0, Inl (PlainError ''stop'')), (1, Inr 0)]" "pe_db interleaved = [2]"
  "pe_queue interleaved = []" "pe_saved interleaved = None" "pe_closed interleaved = False"
  by (simp_all add: interleaved_def pushing_def push_statement_def start_operation_def resume_callback_def enqueue_def
      open_persistence_def answer_def notify_def run_statement_def)

lemma interleaved_run:
  "persistence_run [] [(0, Transaction pushing), (1, Statement False (push_statement 2))] interleaved"
proof -
  let ?a = "enqueue 0 (Transaction pushing) (open_persistence [])"
  have a: "persistence_run [] [(0, Transaction pushing)] ?a"
    using persistence_run.enqueued [OF persistence_run.opened] by (metis append_Nil)
  have b: "persistence_run [] [(0, Transaction pushing)] (start_operation ?a)"
    by (rule persistence_run.started [OF a]) (simp_all add: enqueue_def open_persistence_def)
  have c: "persistence_run [] [(0, Transaction pushing)] (resume_callback (start_operation ?a))"
    by (rule persistence_run.resumed [OF b]) (simp add: enqueue_def open_persistence_def start_operation_def)
  have d: "persistence_run [] [(0, Transaction pushing), (1, Statement False (push_statement 2))]
      (enqueue 1 (Statement False (push_statement 2)) (resume_callback (start_operation ?a)))"
    using persistence_run.enqueued [OF c] by (metis append_Cons append_Nil)
  have e: "persistence_run [] [(0, Transaction pushing), (1, Statement False (push_statement 2))]
      (resume_callback (enqueue 1 (Statement False (push_statement 2)) (resume_callback (start_operation ?a))))"
    by (rule persistence_run.resumed [OF d])
      (simp add: enqueue_def open_persistence_def start_operation_def resume_callback_def pushing_def push_statement_def)
  show ?thesis unfolding interleaved_def
    by (rule persistence_run.started [OF e])
      (simp_all add: enqueue_def open_persistence_def start_operation_def resume_callback_def pushing_def push_statement_def
        answer_def notify_def)
qed

theorem persistence_serial_witness:
  "\<exists>finished current. [(0, Transaction pushing), (1, Statement False (push_statement 2))] = finished @ current \<and>
     run_serial finished (False, []) = ([(0, Inl (PlainError ''stop'')), (1, Inr 0)], False, [2])"
  using persistence_serial [OF interleaved_run] unfolding interleaved_eq by auto

end
