(* ===== verification/AdapterIpc.thy ===== *)
theory AdapterIpc
  imports DataPlane
begin

text \<open>
  The framing between a worker and its adapter processes, \<^verbatim>\<open>src/worker/adapter-ipc-v1.mjs\<close>: a frame is
  the magic \<^verbatim>\<open>GLIP\<close>, a type byte, the payload's length as four bytes in big-endian order, and the
  payload. Bytes are characters. The decoder is fed chunks as they arrive from a pipe, so it keeps
  what it has of a frame between them; its header and payload buffers are modelled by the part of
  them that is filled. Its loop ends when the input does, which depends on the decoder's state, so
  it is a partial function, proved total on every state the decoder gets into.
\<close>

section \<open>Frames\<close>

definition ADAPTER_IPC_MAGIC :: string where
  "ADAPTER_IPC_MAGIC = ''GLIP''"

definition ADAPTER_IPC_HEADER_BYTES :: nat where
  "ADAPTER_IPC_HEADER_BYTES = 9"

definition ADAPTER_IPC_MAX_FRAME_BYTES :: nat where
  "ADAPTER_IPC_MAX_FRAME_BYTES = 65536"

definition ADAPTER_IPC_MAX_INPUT_CHUNK_BYTES :: nat where
  "ADAPTER_IPC_MAX_INPUT_CHUNK_BYTES = 1048576"

definition ADAPTER_IPC_MAX_BATCH_FRAMES :: nat where
  "ADAPTER_IPC_MAX_BATCH_FRAMES = 64"

text \<open>HELLO, READY, BINARY, TEXT, END, ERROR and CANCEL.\<close>

definition ADAPTER_IPC_TYPES :: "(string \<times> nat) list" where
  "ADAPTER_IPC_TYPES = [(''HELLO'', 1), (''READY'', 2), (''BINARY'', 3), (''TEXT'', 4), (''END'', 5), (''ERROR'', 6), (''CANCEL'', 7)]"

definition knownTypes :: "nat set" where
  "knownTypes = set (map snd ADAPTER_IPC_TYPES)"

definition json_types :: "nat set" where
  "json_types = {1, 2, 6}"

record ipc_frame =
  fr_type :: nat
  fr_payload :: string

text \<open>\<^verbatim>\<open>writeUInt32BE\<close> and \<^verbatim>\<open>readUInt32BE\<close>; \<^verbatim>\<open>writeUInt8\<close> and \<^verbatim>\<open>readUInt8\<close> are \<open>char_of\<close> and \<open>of_char\<close>.\<close>

definition writeUInt32BE :: "nat \<Rightarrow> string" where
  "writeUInt32BE n = [char_of (n div 16777216), char_of (n div 65536 mod 256), char_of (n div 256 mod 256), char_of (n mod 256)]"

definition byte_at :: "string \<Rightarrow> nat \<Rightarrow> nat" where
  "byte_at bytes i = of_char (bytes ! i)"

definition readUInt32BE :: "string \<Rightarrow> nat \<Rightarrow> nat" where
  "readUInt32BE bytes i = ((byte_at bytes i * 256 + byte_at bytes (i + 1)) * 256 + byte_at bytes (i + 2)) * 256 + byte_at bytes (i + 3)"

text \<open>A type is any number; \<^verbatim>\<open>Number.isInteger\<close> holds of an integer below.\<close>

definition checkType :: "int \<Rightarrow> unit result" where
  "checkType t = (if 0 \<le> t \<and> nat t \<in> knownTypes then Inr () else Inl (AdapterIpcError ''invalid_frame_type''))"

definition frame_bytes :: "ipc_frame \<Rightarrow> string" where
  "frame_bytes f = ADAPTER_IPC_MAGIC @ [char_of (fr_type f)] @ writeUInt32BE (length (fr_payload f)) @ fr_payload f"

definition encodeAdapterIpcFrame :: "int \<Rightarrow> string \<Rightarrow> string result" where
  "encodeAdapterIpcFrame t payload =
     and_then (checkType t) (\<lambda>_.
     if length payload > ADAPTER_IPC_MAX_FRAME_BYTES then Inl (AdapterIpcError ''frame_too_large'')
     else Inr (frame_bytes \<lparr>fr_type = nat t, fr_payload = payload\<rparr>))"

text \<open>
  Control frames carry JSON. \<open>json\<close> is \<^verbatim>\<open>JSON.stringify\<close>, which may throw; \<open>utf8_decode\<close> is the strict
  \<^verbatim>\<open>TextDecoder\<close> and \<open>parse\<close> is \<^verbatim>\<open>JSON.parse\<close>, nothing when they throw.
\<close>

definition encodeAdapterIpcJson :: "(jsval \<Rightarrow> string option) \<Rightarrow> int \<Rightarrow> jsval \<Rightarrow> string result" where
  "encodeAdapterIpcJson json t v =
     and_then (checkType t) (\<lambda>_.
     if nat t \<notin> json_types then Inl (AdapterIpcError ''json_control_type_required'')
     else (case v of
         JObj _ \<Rightarrow>
           (case json v of
              None \<Rightarrow> Inl (AdapterIpcError ''invalid_control_payload'')
            | Some text \<Rightarrow> encodeAdapterIpcFrame t (utf8_bytes text))
       | _ \<Rightarrow> Inl (AdapterIpcError ''invalid_control_payload'')))"

definition decodeAdapterIpcText :: "(string \<Rightarrow> string option) \<Rightarrow> string \<Rightarrow> string result" where
  "decodeAdapterIpcText utf8_decode bytes =
     (case utf8_decode bytes of None \<Rightarrow> Inl (AdapterIpcError ''invalid_utf8'') | Some text \<Rightarrow> Inr text)"

definition decodeAdapterIpcJson ::
  "(string \<Rightarrow> string option) \<Rightarrow> (string \<Rightarrow> jsval option) \<Rightarrow> ipc_frame option \<Rightarrow> nat \<Rightarrow> js_object result" where
  "decodeAdapterIpcJson utf8_decode parse frame expectedType =
     (case frame of
        None \<Rightarrow> Inl (AdapterIpcError ''invalid_control_type'')
      | Some f \<Rightarrow>
          if fr_type f \<noteq> expectedType \<or> expectedType \<notin> json_types then Inl (AdapterIpcError ''invalid_control_type'')
          else (case decodeAdapterIpcText utf8_decode (fr_payload f) of
              Inl _ \<Rightarrow> Inl (AdapterIpcError ''invalid_control_json'')
            | Inr text \<Rightarrow>
                (case parse text of
                   Some (JObj data) \<Rightarrow> Inr data
                 | _ \<Rightarrow> Inl (AdapterIpcError ''invalid_control_json''))))"

section \<open>The decoder\<close>

record ipc_decoder =
  dc_header :: string
  dc_type :: nat
  dc_expected :: nat
  dc_payload :: string
  dc_terminal :: bool

definition createAdapterIpcDecoder :: ipc_decoder where
  "createAdapterIpcDecoder = \<lparr>dc_header = [], dc_type = 0, dc_expected = 0, dc_payload = [], dc_terminal = False\<rparr>"

definition ipc_fail :: "string \<Rightarrow> ipc_decoder \<Rightarrow> 'a result \<times> ipc_decoder" where
  "ipc_fail code s = (Inl (AdapterIpcError code), s\<lparr>dc_terminal := True\<rparr>)"

text \<open>What is checked and set once the header is complete.\<close>

definition open_frame :: "ipc_decoder \<Rightarrow> string + ipc_decoder" where
  "open_frame s =
     (if take 4 (dc_header s) \<noteq> ADAPTER_IPC_MAGIC then Inl ''invalid_magic''
      else if byte_at (dc_header s) 4 \<notin> knownTypes then Inl ''invalid_frame_type''
      else if readUInt32BE (dc_header s) 5 > ADAPTER_IPC_MAX_FRAME_BYTES then Inl ''frame_too_large''
      else Inr (s\<lparr>dc_type := byte_at (dc_header s) 4, dc_expected := readUInt32BE (dc_header s) 5, dc_payload := []\<rparr>))"

definition fill_header :: "ipc_decoder \<Rightarrow> string \<Rightarrow> ipc_decoder \<times> string" where
  "fill_header s input =
     (let n = min (ADAPTER_IPC_HEADER_BYTES - length (dc_header s)) (length input) in
      (s\<lparr>dc_header := dc_header s @ take n input\<rparr>, drop n input))"

definition fill_payload :: "ipc_decoder \<Rightarrow> string \<Rightarrow> ipc_decoder \<times> string" where
  "fill_payload s input =
     (if 0 < dc_expected s then
        (let n = min (dc_expected s - length (dc_payload s)) (length input) in
         (s\<lparr>dc_payload := dc_payload s @ take n input\<rparr>, drop n input))
      else (s, input))"

text \<open>One round of the loop on input that is left: it ends with a result, or goes on.\<close>

type_synonym loop_state = "ipc_decoder \<times> string \<times> ipc_frame list"
type_synonym loop_end = "ipc_frame list result \<times> ipc_decoder"

definition take_payload :: "loop_state \<Rightarrow> loop_end + loop_state" where
  "take_payload x =
     (case x of (s, input, frames) \<Rightarrow>
        (case fill_payload s input of (s', rest) \<Rightarrow>
           if length (dc_payload s') = dc_expected s' then
             (let frames' = frames @ [\<lparr>fr_type = dc_type s', fr_payload = dc_payload s'\<rparr>] in
              if length frames' > ADAPTER_IPC_MAX_BATCH_FRAMES then Inl (ipc_fail ''frame_batch_exceeded'' s')
              else Inr (createAdapterIpcDecoder\<lparr>dc_terminal := dc_terminal s'\<rparr>, rest, frames'))
           else Inr (s', rest, frames)))"

definition decode_round :: "loop_state \<Rightarrow> loop_end + loop_state" where
  "decode_round x =
     (case x of (s, input, frames) \<Rightarrow>
        if input = [] then Inl (Inr frames, s)
        else if length (dc_header s) < ADAPTER_IPC_HEADER_BYTES then
          (case fill_header s input of (s', rest) \<Rightarrow>
             if length (dc_header s') < ADAPTER_IPC_HEADER_BYTES then Inl (Inr frames, s')
             else (case open_frame s' of Inl code \<Rightarrow> Inl (ipc_fail code s') | Inr s2 \<Rightarrow> take_payload (s2, rest, frames)))
        else take_payload (s, input, frames))"

partial_function (option) decode_loop :: "loop_state \<Rightarrow> loop_end option" where
  "decode_loop x = (case decode_round x of Inl r \<Rightarrow> Some r | Inr y \<Rightarrow> decode_loop y)"

definition decoder_push :: "string \<Rightarrow> ipc_decoder \<Rightarrow> loop_end option" where
  "decoder_push chunk s =
     (if dc_terminal s then Some (ipc_fail ''decoder_terminal'' s)
      else if length chunk > ADAPTER_IPC_MAX_INPUT_CHUNK_BYTES then Some (ipc_fail ''chunk_too_large'' s)
      else decode_loop (s, chunk, []))"

definition decoder_finish :: "ipc_decoder \<Rightarrow> unit result \<times> ipc_decoder" where
  "decoder_finish s =
     (if dc_terminal s then ipc_fail ''decoder_terminal'' s
      else if dc_header s \<noteq> [] then ipc_fail ''truncated_frame'' s
      else (Inr (), s\<lparr>dc_terminal := True\<rparr>))"

section \<open>One-shot parsing\<close>

text \<open>
  The reference: all bytes are there at once, and at most \<open>n\<close> frames may be complete. What remains
  is the beginning of a frame.
\<close>

definition valid_header :: "string \<Rightarrow> bool" where
  "valid_header h \<longleftrightarrow> length h = 9 \<and> take 4 h = ADAPTER_IPC_MAGIC \<and> byte_at h 4 \<in> knownTypes \<and>
     readUInt32BE h 5 \<le> ADAPTER_IPC_MAX_FRAME_BYTES"

definition first_frame :: "string \<Rightarrow> string + (ipc_frame \<times> string) option" where
  "first_frame b =
     (if length b < 9 then Inr None
      else if take 4 b \<noteq> ADAPTER_IPC_MAGIC then Inl ''invalid_magic''
      else if byte_at b 4 \<notin> knownTypes then Inl ''invalid_frame_type''
      else if readUInt32BE b 5 > ADAPTER_IPC_MAX_FRAME_BYTES then Inl ''frame_too_large''
      else if length b < 9 + readUInt32BE b 5 then Inr None
      else Inr (Some (\<lparr>fr_type = byte_at b 4, fr_payload = take (readUInt32BE b 5) (drop 9 b)\<rparr>,
        drop (9 + readUInt32BE b 5) b)))"

fun parse_frames :: "nat \<Rightarrow> string \<Rightarrow> string + ipc_frame list \<times> string" where
  "parse_frames n b =
     (case first_frame b of
        Inl code \<Rightarrow> Inl code
      | Inr None \<Rightarrow> Inr ([], b)
      | Inr (Some (f, rest)) \<Rightarrow>
          (case n of
             0 \<Rightarrow> Inl ''frame_batch_exceeded''
           | Suc m \<Rightarrow> and_then (parse_frames m rest) (\<lambda>(fs, r). Inr (f # fs, r))))"

declare parse_frames.simps [simp del]

definition undecoded :: "ipc_decoder \<Rightarrow> string" where
  "undecoded s = dc_header s @ dc_payload s"

definition decoder_ok :: "ipc_decoder \<Rightarrow> bool" where
  "decoder_ok s \<longleftrightarrow> \<not> dc_terminal s \<and>
     (if length (dc_header s) < 9 then dc_payload s = []
      else valid_header (dc_header s) \<and> dc_type s = byte_at (dc_header s) 4 \<and>
        dc_expected s = readUInt32BE (dc_header s) 5 \<and> length (dc_payload s) < dc_expected s)"

lemma header_prefix:
  assumes "9 \<le> length b"
  shows "take 4 b = take 4 (take 9 b)" and "byte_at b 4 = byte_at (take 9 b) 4" and "readUInt32BE b 5 = readUInt32BE (take 9 b) 5"
  using assms by (simp_all add: byte_at_def readUInt32BE_def min_def)

lemma first_frame_header:
  assumes "length h = 9"
  shows "first_frame (h @ p) =
     (if take 4 h \<noteq> ADAPTER_IPC_MAGIC then Inl ''invalid_magic''
      else if byte_at h 4 \<notin> knownTypes then Inl ''invalid_frame_type''
      else if readUInt32BE h 5 > ADAPTER_IPC_MAX_FRAME_BYTES then Inl ''frame_too_large''
      else if length p < readUInt32BE h 5 then Inr None
      else Inr (Some (\<lparr>fr_type = byte_at h 4, fr_payload = take (readUInt32BE h 5) p\<rparr>, drop (readUInt32BE h 5) p)))"
  using assms header_prefix [of "h @ p"] by (simp add: first_frame_def)

lemma first_frame_open:
  "length (dc_header s) = 9 \<Longrightarrow>
   open_frame s = (if valid_header (dc_header s)
     then Inr (s\<lparr>dc_type := byte_at (dc_header s) 4, dc_expected := readUInt32BE (dc_header s) 5, dc_payload := []\<rparr>)
     else Inl (case first_frame (dc_header s @ p) of Inl code \<Rightarrow> code | _ \<Rightarrow> []))"
  by (auto simp: open_frame_def valid_header_def first_frame_header)

lemma invalid_header: "length h = 9 \<Longrightarrow> \<not> valid_header h \<Longrightarrow> \<exists>code. first_frame (h @ p) = Inl code"
  by (auto simp: first_frame_header valid_header_def)

lemma first_frame_pending: "decoder_ok s \<Longrightarrow> first_frame (undecoded s) = Inr None"
  by (auto simp: decoder_ok_def undecoded_def first_frame_header valid_header_def split: if_splits) (simp add: first_frame_def)

lemma parse_pending: "decoder_ok s \<Longrightarrow> parse_frames n (undecoded s) = Inr ([], undecoded s)"
  by (simp add: parse_frames.simps first_frame_pending)

definition loop_ok :: "ipc_frame list \<Rightarrow> string \<Rightarrow> loop_end option \<Rightarrow> bool" where
  "loop_ok fs b x \<longleftrightarrow> (\<exists>r s. x = Some (r, s) \<and>
     (case parse_frames (ADAPTER_IPC_MAX_BATCH_FRAMES - length fs) b of
        Inl code \<Rightarrow> r = Inl (AdapterIpcError code) \<and> dc_terminal s
      | Inr (fs', rest) \<Rightarrow> r = Inr (fs @ fs') \<and> decoder_ok s \<and> undecoded s = rest))"

lemma loop_ok_stop: "decoder_ok s \<Longrightarrow> loop_ok fs (undecoded s) (Some (Inr fs, s))"
  by (simp add: loop_ok_def parse_pending)

lemma loop_ok_fail: "first_frame b = Inl code \<Longrightarrow> loop_ok fs b (Some (ipc_fail code s))"
  by (simp add: loop_ok_def parse_frames.simps ipc_fail_def)

lemma fresh_decoder_ok [simp]: "decoder_ok createAdapterIpcDecoder" "undecoded createAdapterIpcDecoder = []"
  by (simp_all add: decoder_ok_def undecoded_def createAdapterIpcDecoder_def)

lemma loop_step: "decode_loop x = (case decode_round x of Inl r \<Rightarrow> Some r | Inr y \<Rightarrow> decode_loop y)"
  by (rule decode_loop.simps)

lemma loop_stopped: "decode_loop (s, [], fs) = Some (Inr fs, s)"
  by (subst loop_step) (simp add: decode_round_def)

lemma loop_ok_cons:
  assumes "loop_ok (fs @ [f]) rest x"
    and "parse_frames (ADAPTER_IPC_MAX_BATCH_FRAMES - length fs) b =
      and_then (parse_frames (ADAPTER_IPC_MAX_BATCH_FRAMES - length (fs @ [f])) rest) (\<lambda>(fs', r). Inr (f # fs', r))"
  shows "loop_ok fs b x"
  using assms(1) unfolding loop_ok_def assms(2)
  by (cases "parse_frames (ADAPTER_IPC_MAX_BATCH_FRAMES - length (fs @ [f])) rest") auto

text \<open>The payload part of a round, given that shorter input is handled.\<close>

lemma payload_ok:
  assumes h: "valid_header (dc_header s)" "dc_type s = byte_at (dc_header s) 4" "dc_expected s = readUInt32BE (dc_header s) 5"
    and p: "length (dc_payload s) \<le> dc_expected s" and t: "\<not> dc_terminal s" and fs: "length fs \<le> ADAPTER_IPC_MAX_BATCH_FRAMES"
    and fresh: "\<And>rest fs'. length rest \<le> length input - (dc_expected s - length (dc_payload s)) \<Longrightarrow> length fs' \<le> ADAPTER_IPC_MAX_BATCH_FRAMES \<Longrightarrow>
      loop_ok fs' rest (decode_loop (createAdapterIpcDecoder, rest, fs'))"
  shows "loop_ok fs (undecoded s @ input) (case take_payload (s, input, fs) of Inl r \<Rightarrow> Some r | Inr y \<Rightarrow> decode_loop y)"
proof -
  let ?n = "dc_expected s" and ?p = "dc_payload s @ input" and ?k = "dc_expected s - length (dc_payload s)"
  have h9: "length (dc_header s) = 9" using h(1) by (simp add: valid_header_def)
  have ff: "first_frame (undecoded s @ input) = (if length ?p < ?n then Inr None
      else Inr (Some (\<lparr>fr_type = dc_type s, fr_payload = take ?n ?p\<rparr>, drop ?n ?p)))"
    using h by (simp add: undecoded_def first_frame_header h9 valid_header_def)
  have fill: "fill_payload s input = (s\<lparr>dc_payload := take ?n ?p\<rparr>, drop ?n ?p)"
    using p by (auto simp: fill_payload_def Let_def min_def)
  show ?thesis
  proof (cases "length ?p < ?n")
    case True
    let ?s = "s\<lparr>dc_payload := ?p\<rparr>"
    have "take_payload (s, input, fs) = Inr (?s, [], fs)"
      using True fill by (simp add: take_payload_def)
    moreover have "decoder_ok ?s" using True h t h9 by (simp add: decoder_ok_def)
    moreover have "undecoded ?s = undecoded s @ input" by (simp add: undecoded_def)
    ultimately show ?thesis using loop_ok_stop [of ?s fs] by (simp add: loop_stopped)
  next
    case False
    let ?f = "\<lparr>fr_type = dc_type s, fr_payload = take ?n ?p\<rparr>"
    show ?thesis
    proof (cases "length fs = ADAPTER_IPC_MAX_BATCH_FRAMES")
      case True
      with False fill have "take_payload (s, input, fs) = Inl (ipc_fail ''frame_batch_exceeded'' (s\<lparr>dc_payload := take ?n ?p\<rparr>))"
        by (simp add: take_payload_def)
      then show ?thesis using True False ff by (simp add: loop_ok_def ipc_fail_def parse_frames.simps)
    next
      case less: False
      then have m: "ADAPTER_IPC_MAX_BATCH_FRAMES - length fs = Suc (ADAPTER_IPC_MAX_BATCH_FRAMES - length (fs @ [?f]))"
        using fs by simp
      from less False fill t have "take_payload (s, input, fs) = Inr (createAdapterIpcDecoder, drop ?n ?p, fs @ [?f])"
        using fs by (simp add: take_payload_def createAdapterIpcDecoder_def)
      moreover have "loop_ok (fs @ [?f]) (drop ?n ?p) (decode_loop (createAdapterIpcDecoder, drop ?n ?p, fs @ [?f]))"
        using fs less p by (intro fresh) auto
      moreover have "parse_frames (ADAPTER_IPC_MAX_BATCH_FRAMES - length fs) (undecoded s @ input) =
          and_then (parse_frames (ADAPTER_IPC_MAX_BATCH_FRAMES - length (fs @ [?f])) (drop ?n ?p)) (\<lambda>(fs', r). Inr (?f # fs', r))"
        by (subst parse_frames.simps) (simp only: ff m False if_False sum.case option.case prod.case nat.case)
      ultimately show ?thesis using loop_ok_cons by simp
    qed
  qed
qed

lemma decode_loop_ok:
  "decoder_ok s \<Longrightarrow> length fs \<le> ADAPTER_IPC_MAX_BATCH_FRAMES \<Longrightarrow> loop_ok fs (undecoded s @ input) (decode_loop (s, input, fs))"
proof (induction "length input" arbitrary: s input fs rule: less_induct)
  case less
  note ok = less.prems(1)
  have t: "\<not> dc_terminal s" using ok by (simp add: decoder_ok_def)
  show ?case
  proof (cases "input = []")
    case True
    then show ?thesis using loop_ok_stop [OF ok] by (simp add: loop_stopped)
  next
    case input: False
    have fresh: "loop_ok fs' rest (decode_loop (createAdapterIpcDecoder, rest, fs'))"
      if "length rest < length input" "length fs' \<le> ADAPTER_IPC_MAX_BATCH_FRAMES" for rest fs'
      using less.hyps [OF that(1) fresh_decoder_ok(1) that(2)] by simp
    show ?thesis
    proof (cases "length (dc_header s) < 9")
      case False
      then have s: "valid_header (dc_header s)" "dc_type s = byte_at (dc_header s) 4" "dc_expected s = readUInt32BE (dc_header s) 5"
        "length (dc_payload s) < dc_expected s" using ok by (simp_all add: decoder_ok_def)
      have "decode_round (s, input, fs) = take_payload (s, input, fs)"
        using input False by (simp add: decode_round_def ADAPTER_IPC_HEADER_BYTES_def)
      moreover have "length input - (dc_expected s - length (dc_payload s)) < length input"
        using s(4) length_greater_0_conv [THEN iffD2, OF input] by linarith
      then have "loop_ok fs (undecoded s @ input) (case take_payload (s, input, fs) of Inl r \<Rightarrow> Some r | Inr y \<Rightarrow> decode_loop y)"
        using s t less.prems(2) by (intro payload_ok fresh) auto
      ultimately show ?thesis by (subst loop_step) simp
    next
      case True
      then have pay: "dc_payload s = []" and pend: "undecoded s = dc_header s" using ok by (simp_all add: decoder_ok_def undecoded_def)
      let ?k = "9 - length (dc_header s)"
      let ?s = "s\<lparr>dc_header := dc_header s @ take ?k input\<rparr>"
      have fill: "fill_header s input = (?s, drop ?k input)"
        by (auto simp: fill_header_def Let_def ADAPTER_IPC_HEADER_BYTES_def min_def)
      show ?thesis
      proof (cases "length input < ?k")
        case short: True
        then have total: "length (dc_header s) + length input < 9" by linarith
        with short have "decode_round (s, input, fs) = Inl (Inr fs, ?s)"
          using input True fill by (simp add: decode_round_def ADAPTER_IPC_HEADER_BYTES_def)
        moreover have "decoder_ok ?s" "undecoded ?s = undecoded s @ input"
          using short total t pay by (simp_all add: decoder_ok_def undecoded_def)
        ultimately show ?thesis using loop_ok_stop [of ?s fs] by (subst loop_step) simp
      next
        case False
        then have h9: "length (dc_header ?s) = 9" using True by simp
        have bytes: "undecoded s @ input = dc_header ?s @ drop ?k input" by (simp add: pend)
        note op = first_frame_open [OF h9, of "drop ?k input"]
        show ?thesis
        proof (cases "valid_header (dc_header ?s)")
          case invalid: False
          then obtain code where code: "first_frame (undecoded s @ input) = Inl code"
            unfolding bytes using invalid_header [OF h9] by blast
          then have "decode_round (s, input, fs) = Inl (ipc_fail code ?s)"
            using input True False fill op invalid unfolding bytes by (simp add: decode_round_def ADAPTER_IPC_HEADER_BYTES_def)
          then show ?thesis using loop_ok_fail [OF code] by (subst loop_step) simp
        next
          case valid: True
          let ?s2 = "?s\<lparr>dc_type := byte_at (dc_header ?s) 4, dc_expected := readUInt32BE (dc_header ?s) 5, dc_payload := []\<rparr>"
          have "decode_round (s, input, fs) = take_payload (?s2, drop ?k input, fs)"
            using input True False fill op valid by (simp add: decode_round_def ADAPTER_IPC_HEADER_BYTES_def)
          moreover have shorter: "length (drop ?k input) - x < length input" for x
            unfolding length_drop using length_greater_0_conv [THEN iffD2, OF input] True by linarith
          have "loop_ok fs' rest (decode_loop (createAdapterIpcDecoder, rest, fs'))"
            if "length rest \<le> length (drop ?k input) - (dc_expected ?s2 - length (dc_payload ?s2))" "length fs' \<le> ADAPTER_IPC_MAX_BATCH_FRAMES" for rest fs'
            using that(2) by (intro fresh le_less_trans [OF that(1) shorter])
          then have "loop_ok fs (undecoded ?s2 @ drop ?k input) (case take_payload (?s2, drop ?k input, fs) of Inl r \<Rightarrow> Some r | Inr y \<Rightarrow> decode_loop y)"
            by (rule payload_ok [rotated -1]) (use valid t less.prems(2) in simp_all)
          moreover have "undecoded ?s2 @ drop ?k input = undecoded s @ input" by (simp add: pend) (simp add: undecoded_def)
          ultimately show ?thesis by (subst loop_step) simp
        qed
      qed
    qed
  qed
qed

section \<open>Streams\<close>

lemma header_split:
  assumes "first_frame a \<noteq> Inr None"
  obtains h p where "a = h @ p" and "length h = 9"
proof
  from assms have "9 \<le> length a" by (auto simp: first_frame_def split: if_splits)
  then show "a = take 9 a @ drop 9 a" "length (take 9 a) = 9" by simp_all
qed

lemma first_frame_append:
  assumes "first_frame a \<noteq> Inr None"
  shows "first_frame (a @ b) = map_sum id (map_option (\<lambda>(f, rest). (f, rest @ b))) (first_frame a)"
proof -
  obtain h p where "a = h @ p" "length h = 9" using header_split [OF assms] .
  then show ?thesis using assms first_frame_header [of h p] first_frame_header [of h "p @ b"]
    by (auto split: if_splits)
qed

lemma first_frame_length: "first_frame b = Inr (Some (f, rest)) \<Longrightarrow> 9 + length rest \<le> length b"
  by (auto simp: first_frame_def split: if_splits)

lemma parse_frames_length: "parse_frames n b = Inr (fs, r) \<Longrightarrow> length fs \<le> n \<and> 9 * length fs + length r \<le> length b"
proof (induction n b arbitrary: fs r rule: parse_frames.induct)
  case (1 n b)
  show ?case
  proof (cases "first_frame b")
    case (Inr o1)
    show ?thesis
    proof (cases o1)
      case None
      with Inr 1(2) show ?thesis by (simp add: parse_frames.simps)
    next
      case (Some x)
      obtain f rest where x: "x = (f, rest)" by fastforce
      with Inr Some 1(2) obtain m gs where m: "n = Suc m" "parse_frames m rest = Inr (gs, r)" "fs = f # gs"
        by (auto simp: parse_frames.simps [of n b] result_simps split: nat.splits)
      from 1(1) [OF Inr Some x [symmetric] m(1,2)] first_frame_length [of b f rest] Inr Some x m show ?thesis by auto
    qed
  qed (use 1(2) in \<open>simp add: parse_frames.simps\<close>)
qed

lemma parse_frames_limit: "parse_frames n b = Inr (fs, r) \<Longrightarrow> length fs \<le> m \<Longrightarrow> parse_frames m b = Inr (fs, r)"
proof (induction fs arbitrary: n m b)
  case Nil
  then have "first_frame b = Inr None" "r = b"
    by (auto simp: parse_frames.simps [of n b] result_simps split: sum.splits option.splits nat.splits)
  then show ?case by (simp add: parse_frames.simps)
next
  case (Cons f fs)
  then obtain rest k where f: "first_frame b = Inr (Some (f, rest))" "n = Suc k" "parse_frames k rest = Inr (fs, r)"
    by (auto simp: parse_frames.simps [of n b] result_simps split: sum.splits option.splits nat.splits)
  obtain j where j: "m = Suc j" "length fs \<le> j" using Cons.prems(2) by (cases m) auto
  from Cons.IH [OF f(3) j(2)] f j show ?case by (simp add: parse_frames.simps [of "Suc j" b])
qed

lemma parse_frames_split:
  "parse_frames n (a @ b) = Inr (hs, r') \<Longrightarrow>
   \<exists>fs r gs. parse_frames n a = Inr (fs, r) \<and> parse_frames n (r @ b) = Inr (gs, r') \<and> hs = fs @ gs"
proof (induction n a arbitrary: hs rule: parse_frames.induct)
  case (1 n a)
  show ?case
  proof (cases "first_frame a")
    case (Inl code)
    with first_frame_append [of a b] 1(2) show ?thesis by (simp add: parse_frames.simps)
  next
    case (Inr o1)
    show ?thesis
    proof (cases o1)
      case None
      with Inr 1(2) show ?thesis by (intro exI [of _ "[]"] exI [of _ a] exI [of _ hs]) (simp add: parse_frames.simps [of n a])
    next
      case (Some x)
      obtain f rest where x: "x = (f, rest)" by fastforce
      have "first_frame (a @ b) = Inr (Some (f, rest @ b))" using Inr Some x first_frame_append [of a b] by simp
      with 1(2) obtain m gs where m: "n = Suc m" "parse_frames m (rest @ b) = Inr (gs, r')" "hs = f # gs"
        by (auto simp: parse_frames.simps [of n "a @ b"] result_simps split: nat.splits)
      from 1(1) [OF Inr Some x [symmetric] m(1,2)] obtain fs r gs' where
        g: "parse_frames m rest = Inr (fs, r)" "parse_frames m (r @ b) = Inr (gs', r')" "gs = fs @ gs'" by blast
      have "parse_frames n a = Inr (f # fs, r)" using Inr Some x m(1) g(1) by (simp add: parse_frames.simps [of "Suc m" a])
      moreover have "parse_frames n (r @ b) = Inr (gs', r')"
        using parse_frames_limit [OF g(2)] parse_frames_length [OF g(2)] m(1) by simp
      ultimately show ?thesis using m(3) g(3) by auto
    qed
  qed
qed

text \<open>What a stream of bytes contains, whatever the number of frames.\<close>

definition parse_stream :: "string \<Rightarrow> (ipc_frame list \<times> string) option" where
  "parse_stream b = (case parse_frames (length b) b of Inl _ \<Rightarrow> None | Inr x \<Rightarrow> Some x)"

lemma parse_stream_Some: "parse_stream b = Some (fs, r) \<longleftrightarrow> parse_frames (length b) b = Inr (fs, r)"
  by (simp add: parse_stream_def split: sum.splits)

lemma parse_stream_split:
  assumes "parse_stream (a @ b) = Some (hs, r')"
  shows "\<exists>fs r gs. parse_stream a = Some (fs, r) \<and> parse_stream (r @ b) = Some (gs, r') \<and> hs = fs @ gs"
proof -
  from parse_frames_split [of _ a b hs r'] assms obtain fs r gs where
    p: "parse_frames (length (a @ b)) a = Inr (fs, r)" "parse_frames (length (a @ b)) (r @ b) = Inr (gs, r')" "hs = fs @ gs"
    unfolding parse_stream_Some by blast
  have "length fs \<le> length a" "length gs \<le> length (r @ b)" using parse_frames_length [OF p(1)] parse_frames_length [OF p(2)] by simp_all
  with parse_frames_limit [OF p(1)] parse_frames_limit [OF p(2)] p(3) show ?thesis unfolding parse_stream_Some by blast
qed

text \<open>
  A decoder that is fed piece by piece, and takes a piece exactly when the piece and the frames it
  completes fit. From its laws it follows that how a stream is cut into pieces does not matter as
  long as every piece fits, and that a piece that does not fit is refused.
\<close>

locale incremental_decoder =
  fixes push :: "'b list \<Rightarrow> 's \<Rightarrow> ('f list \<times> 's) option"
    and rest_of :: "'s \<Rightarrow> 'b list" and sound :: "'s \<Rightarrow> bool" and fits :: "'b list \<Rightarrow> 'f list \<Rightarrow> bool"
    and parse :: "'b list \<Rightarrow> ('f list \<times> 'b list) option"
  assumes parse_rest: "sound s \<Longrightarrow> parse (rest_of s) = Some ([], rest_of s)"
    and parse_split: "parse (a @ b) = Some (hs, r') \<Longrightarrow> \<exists>fs r gs. parse a = Some (fs, r) \<and> parse (r @ b) = Some (gs, r') \<and> hs = fs @ gs"
    and push_parse: "sound s \<Longrightarrow> fits c fs \<Longrightarrow> parse (rest_of s @ c) = Some (fs, r) \<Longrightarrow>
      \<exists>s'. push c s = Some (fs, s') \<and> sound s' \<and> rest_of s' = r"
    and push_refused: "sound s \<Longrightarrow> \<not> fits c fs \<Longrightarrow> parse (rest_of s @ c) = Some (fs, r) \<Longrightarrow> push c s = None"
begin

fun feed :: "'b list list \<Rightarrow> 's \<Rightarrow> ('f list \<times> 's) option" where
  "feed [] s = Some ([], s)"
| "feed (c # cs) s = (case push c s of None \<Rightarrow> None | Some (fs, s') \<Rightarrow> map_option (\<lambda>(gs, s''). (fs @ gs, s'')) (feed cs s'))"

fun all_fit :: "'b list list \<Rightarrow> 'b list \<Rightarrow> bool" where
  "all_fit [] b = True"
| "all_fit (c # cs) b = (case parse (b @ c) of None \<Rightarrow> False | Some (fs, r) \<Rightarrow> fits c fs \<and> all_fit cs r)"

lemma feed_parse:
  "sound s \<Longrightarrow> parse (rest_of s @ concat cs) = Some (fs, r) \<Longrightarrow>
   (if all_fit cs (rest_of s) then \<exists>s'. feed cs s = Some (fs, s') \<and> sound s' \<and> rest_of s' = r else feed cs s = None)"
proof (induction cs arbitrary: s fs)
  case Nil
  then show ?case using parse_rest by simp
next
  case (Cons c cs)
  from parse_split [of "rest_of s @ c" "concat cs" fs r] Cons.prems(2) obtain gs q hs where
    p: "parse (rest_of s @ c) = Some (gs, q)" "parse (q @ concat cs) = Some (hs, r)" "fs = gs @ hs" by auto
  show ?case
  proof (cases "fits c gs")
    case True
    from push_parse [OF Cons.prems(1) True p(1)] obtain s1 where
      s1: "push c s = Some (gs, s1)" "sound s1" "rest_of s1 = q" by auto
    have "parse (rest_of s1 @ concat cs) = Some (hs, r)" using p(2) s1(3) by simp
    from Cons.IH [OF s1(2) this] s1 True p(1,3) show ?thesis by (auto split: if_splits)
  qed (use push_refused [OF Cons.prems(1) _ p(1)] p(1) in simp)
qed

end

text \<open>What one call of \<^verbatim>\<open>push\<close> takes: a chunk of at most 1 MiB that completes at most 64 frames.\<close>

definition push_fits :: "string \<Rightarrow> ipc_frame list \<Rightarrow> bool" where
  "push_fits c fs \<longleftrightarrow> length c \<le> ADAPTER_IPC_MAX_INPUT_CHUNK_BYTES \<and> length fs \<le> ADAPTER_IPC_MAX_BATCH_FRAMES"

definition pushed :: "string \<Rightarrow> ipc_decoder \<Rightarrow> (ipc_frame list \<times> ipc_decoder) option" where
  "pushed c s = (case decoder_push c s of Some (Inr fs, s') \<Rightarrow> Some (fs, s') | _ \<Rightarrow> None)"

lemma decoder_push_ok:
  "decoder_ok s \<Longrightarrow> length c \<le> ADAPTER_IPC_MAX_INPUT_CHUNK_BYTES \<Longrightarrow> loop_ok [] (undecoded s @ c) (decoder_push c s)"
  using decode_loop_ok [of s "[]" c] by (simp add: decoder_push_def) (simp add: decoder_ok_def)

interpretation ipc: incremental_decoder pushed undecoded decoder_ok push_fits parse_stream
proof
  show "parse_stream (undecoded s) = Some ([], undecoded s)" if "decoder_ok s" for s
    using parse_pending [OF that] by (simp add: parse_stream_Some)
  show "\<exists>fs r gs. parse_stream a = Some (fs, r) \<and> parse_stream (r @ b) = Some (gs, r') \<and> hs = fs @ gs"
    if "parse_stream (a @ b) = Some (hs, r')" for a b hs r' using parse_stream_split [OF that] .
  show "\<exists>s'. pushed c s = Some (fs, s') \<and> decoder_ok s' \<and> undecoded s' = r"
    if s: "decoder_ok s" and c: "push_fits c fs" and p: "parse_stream (undecoded s @ c) = Some (fs, r)" for s c fs r
  proof -
    have "parse_frames ADAPTER_IPC_MAX_BATCH_FRAMES (undecoded s @ c) = Inr (fs, r)"
      using p c parse_frames_limit unfolding parse_stream_Some push_fits_def by blast
    then show ?thesis using decoder_push_ok [OF s, of c] c by (auto simp: loop_ok_def pushed_def push_fits_def)
  qed
  show "pushed c s = None"
    if s: "decoder_ok s" and c: "\<not> push_fits c fs" and p: "parse_stream (undecoded s @ c) = Some (fs, r)" for s c fs r
  proof (cases "length c \<le> ADAPTER_IPC_MAX_INPUT_CHUNK_BYTES")
    case True
    with c have many: "\<not> length fs \<le> ADAPTER_IPC_MAX_BATCH_FRAMES" by (simp add: push_fits_def)
    have "\<exists>code. parse_frames ADAPTER_IPC_MAX_BATCH_FRAMES (undecoded s @ c) = Inl code"
    proof (rule ccontr)
      assume "\<nexists>code. parse_frames ADAPTER_IPC_MAX_BATCH_FRAMES (undecoded s @ c) = Inl code"
      then obtain gs q where g: "parse_frames ADAPTER_IPC_MAX_BATCH_FRAMES (undecoded s @ c) = Inr (gs, q)"
        by (metis old.prod.exhaust sum.exhaust)
      from parse_frames_length [OF g] have "length gs \<le> length (undecoded s @ c)" "length gs \<le> ADAPTER_IPC_MAX_BATCH_FRAMES" by simp_all
      with parse_frames_limit [OF g this(1)] p many show False by (simp add: parse_stream_Some)
    qed
    then show ?thesis using decoder_push_ok [OF s True] by (auto simp: loop_ok_def pushed_def)
  next
    case False
    with s show ?thesis by (simp add: pushed_def decoder_push_def decoder_ok_def ipc_fail_def)
  qed
qed

lemma of_char_byte [simp]: "byte_at (char_of n # b) 0 = n mod 256" "byte_at (c # b) (Suc i) = byte_at b i"
  by (simp_all add: byte_at_def)

lemma read_write:
  assumes "(n::nat) < 4294967296"
  shows "((n div 16777216 mod 256 * 256 + n div 65536 mod 256) * 256 + n div 256 mod 256) * 256 + n mod 256 = n"
proof -
  have "n div 16777216 mod 256 = n div 16777216" using assms by simp
  moreover have "n div 16777216 = n div 65536 div 256" "n div 65536 = n div 256 div 256" by (simp_all add: div_mult2_eq [symmetric])
  ultimately show ?thesis by (metis div_mult_mod_eq)
qed

definition frame_ok :: "ipc_frame \<Rightarrow> bool" where
  "frame_ok f \<longleftrightarrow> fr_type f \<in> knownTypes \<and> length (fr_payload f) \<le> ADAPTER_IPC_MAX_FRAME_BYTES"

lemma frame_header:
  assumes "frame_ok f"
  obtains h where "frame_bytes f = h @ fr_payload f" and "length h = 9" and "take 4 h = ADAPTER_IPC_MAGIC"
    and "byte_at h 4 = fr_type f" and "readUInt32BE h 5 = length (fr_payload f)"
proof
  let ?n = "length (fr_payload f)"
  let ?h = "ADAPTER_IPC_MAGIC @ [char_of (fr_type f)] @ writeUInt32BE ?n"
  have t: "fr_type f < 256" using assms by (auto simp: frame_ok_def knownTypes_def ADAPTER_IPC_TYPES_def)
  have n: "?n < 4294967296" using assms by (simp add: frame_ok_def ADAPTER_IPC_MAX_FRAME_BYTES_def)
  show "frame_bytes f = ?h @ fr_payload f" by (simp add: frame_bytes_def)
  show "length ?h = 9" by (simp add: ADAPTER_IPC_MAGIC_def writeUInt32BE_def)
  show "take 4 ?h = ADAPTER_IPC_MAGIC" "byte_at ?h 4 = fr_type f"
    using t by (simp_all add: ADAPTER_IPC_MAGIC_def byte_at_def)
  show "readUInt32BE ?h 5 = ?n"
    using read_write [OF n] n by (simp add: readUInt32BE_def ADAPTER_IPC_MAGIC_def writeUInt32BE_def byte_at_def)
qed

lemma first_frame_bytes:
  assumes "frame_ok f"
  shows "first_frame (frame_bytes f @ b) = Inr (Some (f, b))"
proof -
  from assms obtain h where "frame_bytes f = h @ fr_payload f" "length h = 9" "take 4 h = ADAPTER_IPC_MAGIC"
    "byte_at h 4 = fr_type f" "readUInt32BE h 5 = length (fr_payload f)" by (rule frame_header)
  with assms show ?thesis by (simp add: first_frame_header frame_ok_def)
qed

lemma first_frame_part:
  assumes "frame_ok f" and "n < length (frame_bytes f)"
  shows "first_frame (take n (frame_bytes f)) = Inr None"
proof (cases "n < 9")
  case True
  then have "length (take n (frame_bytes f)) < 9" by simp
  then show ?thesis unfolding first_frame_def by (simp only: if_True)
next
  case False
  from assms(1) obtain h where h: "frame_bytes f = h @ fr_payload f" "length h = 9" "take 4 h = ADAPTER_IPC_MAGIC"
    "byte_at h 4 = fr_type f" "readUInt32BE h 5 = length (fr_payload f)" by (rule frame_header)
  with False have "take n (frame_bytes f) = h @ take (n - 9) (fr_payload f)" by simp
  then show ?thesis using h assms by (simp add: first_frame_header frame_ok_def)
qed

lemma frame_length: "9 \<le> length (frame_bytes f)"
  by (simp add: frame_bytes_def ADAPTER_IPC_MAGIC_def writeUInt32BE_def)

text \<open>How many of the frames are complete within the first \<open>n\<close> bytes of their stream.\<close>

fun frames_within :: "nat \<Rightarrow> ipc_frame list \<Rightarrow> nat" where
  "frames_within n [] = 0"
| "frames_within n (f # fs) = (if length (frame_bytes f) \<le> n then Suc (frames_within (n - length (frame_bytes f)) fs) else 0)"

lemma frames_within_le: "frames_within n fs \<le> length fs"
  by (induction n fs rule: frames_within.induct) auto

lemma parse_prefix:
  "list_all frame_ok fs \<Longrightarrow>
   \<exists>r. parse_stream (take n (concat (map frame_bytes fs))) = Some (take (frames_within n fs) fs, r)"
proof (induction n fs rule: frames_within.induct)
  case (2 n f fs)
  let ?b = "take n (concat (map frame_bytes (f # fs)))"
  show ?case
  proof (cases "length (frame_bytes f) \<le> n")
    case True
    let ?b' = "take (n - length (frame_bytes f)) (concat (map frame_bytes fs))"
    from 2 True obtain r where r: "parse_stream ?b' = Some (take (frames_within (n - length (frame_bytes f)) fs) fs, r)" by auto
    then have "parse_frames (length ?b') ?b' = Inr (take (frames_within (n - length (frame_bytes f)) fs) fs, r)"
      by (simp only: parse_stream_Some)
    moreover have "first_frame ?b = Inr (Some (f, ?b'))" using 2(2) True by (simp add: first_frame_bytes)
    ultimately have p: "parse_frames (Suc (length ?b')) ?b = Inr (take (frames_within n (f # fs)) (f # fs), r)"
      using True by (subst parse_frames.simps) (simp del: length_take)
    from parse_frames_length [OF this] have "length (take (frames_within n (f # fs)) (f # fs)) \<le> length ?b" by linarith
    from parse_frames_limit [OF p this] show ?thesis unfolding parse_stream_Some by blast
  next
    case False
    then have "?b = take n (frame_bytes f)" by simp
    then have "first_frame ?b = Inr None" using first_frame_part [of f n] 2(2) False by simp
    then show ?thesis using False by (simp add: parse_stream_Some parse_frames.simps)
  qed
qed (simp add: parse_stream_Some parse_frames.simps first_frame_def)

lemma parse_frames_bytes: "list_all frame_ok fs \<Longrightarrow> parse_frames (length fs) (concat (map frame_bytes fs)) = Inr (fs, [])"
proof (induction fs)
  case Nil
  then show ?case by (simp add: parse_frames.simps first_frame_def)
next
  case (Cons f fs)
  then show ?case by (simp add: parse_frames.simps [of "Suc (length fs)"] first_frame_bytes)
qed

lemma encode_frames:
  "traverse (\<lambda>_ f. encodeAdapterIpcFrame (int (fr_type f)) (fr_payload f)) i fs = Inr bs \<Longrightarrow>
   bs = map frame_bytes fs \<and> list_all frame_ok fs"
proof (induction fs arbitrary: i bs)
  case (Cons f fs)
  from Cons.prems obtain c cs where c: "encodeAdapterIpcFrame (int (fr_type f)) (fr_payload f) = Inr c"
    "traverse (\<lambda>_ f. encodeAdapterIpcFrame (int (fr_type f)) (fr_payload f)) (Suc i) fs = Inr cs" "bs = c # cs"
    by (auto simp: result_simps)
  from c(1) have "c = frame_bytes f" "frame_ok f"
    by (auto simp: frame_ok_def encodeAdapterIpcFrame_def checkType_def frame_bytes_def result_simps split: if_splits)
  with Cons.IH [OF c(2)] c(3) show ?case by simp
qed simp

fun push_all :: "string list \<Rightarrow> ipc_decoder \<Rightarrow> (ipc_frame list \<times> ipc_decoder) option" where
  "push_all [] s = Some ([], s)"
| "push_all (c # cs) s = (case pushed c s of None \<Rightarrow> None | Some (fs, s') \<Rightarrow> map_option (\<lambda>(gs, s''). (fs @ gs, s'')) (push_all cs s'))"

lemma push_all_feed: "push_all cs s = ipc.feed cs s"
  by (induction cs arbitrary: s) (simp_all split: option.split)

text \<open>
  When the chunks of a stream of frames fit: every chunk has at most 1 MiB, and at most 64 of the
  frames have their last byte in it. \<open>n\<close> is the number of bytes before the chunk.
\<close>

fun chunks_fit :: "nat \<Rightarrow> string list \<Rightarrow> ipc_frame list \<Rightarrow> bool" where
  "chunks_fit n [] fs = True"
| "chunks_fit n (c # cs) fs \<longleftrightarrow>
     length c \<le> ADAPTER_IPC_MAX_INPUT_CHUNK_BYTES \<and>
     frames_within (n + length c) fs \<le> frames_within n fs + ADAPTER_IPC_MAX_BATCH_FRAMES \<and>
     chunks_fit (n + length c) cs fs"

lemma chunks_all_fit:
  "list_all frame_ok fs \<Longrightarrow> concat (map frame_bytes fs) = b @ concat cs \<Longrightarrow> parse_stream b = Some (gs, r) \<Longrightarrow>
   ipc.all_fit cs r = chunks_fit (length b) cs fs"
proof (induction cs arbitrary: b gs r)
  case (Cons c cs)
  let ?B = "concat (map frame_bytes fs)"
  have cut: "take (length b) ?B = b" "take (length b + length c) ?B = b @ c" using Cons.prems(2) by simp_all
  from parse_prefix [OF Cons.prems(1), of "length b"] Cons.prems(3) cut have
    gs: "gs = take (frames_within (length b) fs) fs" by simp
  from parse_prefix [OF Cons.prems(1), of "length b + length c"] cut obtain r' where
    p: "parse_stream (b @ c) = Some (take (frames_within (length b + length c) fs) fs, r')" by auto
  from parse_stream_split [OF p] Cons.prems(3) obtain hs where
    hs: "parse_stream (r @ c) = Some (hs, r')" "take (frames_within (length b + length c) fs) fs = gs @ hs" by auto
  have "frames_within (length b + length c) fs = frames_within (length b) fs + length hs"
    using arg_cong [OF hs(2), of length] gs frames_within_le [of "length b" fs] frames_within_le [of "length b + length c" fs] by simp
  moreover have "ipc.all_fit cs r' = chunks_fit (length (b @ c)) cs fs"
    using Cons.prems(2) by (intro Cons.IH [OF Cons.prems(1) _ p]) simp
  ultimately show ?case by (simp add: hs(1)) (simp add: push_fits_def)
qed simp

text \<open>A chunk of at most 64 headers' length always fits.\<close>

lemma frames_within_div: "frames_within n fs \<le> n div 9"
proof (induction n fs rule: frames_within.induct)
  case (2 n f fs)
  then show ?case using frame_length [of f] by simp linarith
qed simp

lemma frames_within_more: "frames_within (n + m) fs \<le> frames_within n fs + (m + 8) div 9"
proof (induction n fs rule: frames_within.induct)
  case (2 n f fs)
  show ?case
  proof (cases "length (frame_bytes f) \<le> n")
    case True
    then have "n + m - length (frame_bytes f) = n - length (frame_bytes f) + m" by (rule Nat.add_diff_assoc2 [symmetric])
    then have "frames_within (n + m) (f # fs) = Suc (frames_within (n - length (frame_bytes f) + m) fs)"
      using True by (simp only: frames_within.simps trans_le_add1 if_True)
    moreover have "frames_within n (f # fs) = Suc (frames_within (n - length (frame_bytes f)) fs)" using True by simp
    ultimately show ?thesis using 2 [OF True] by linarith
  next
    case False
    then have "n + m - length (frame_bytes f) \<le> m - 1" "length (frame_bytes f) \<le> n + m \<Longrightarrow> 0 < m" by simp_all
    with frames_within_div [of "n + m - length (frame_bytes f)" fs] False show ?thesis by simp linarith
  qed
qed simp

lemma small_chunks_fit: "list_all (\<lambda>c. length c \<le> 9 * ADAPTER_IPC_MAX_BATCH_FRAMES) cs \<Longrightarrow> chunks_fit n cs fs"
proof (induction cs arbitrary: n)
  case (Cons c cs)
  then have "length c \<le> 576" by (simp add: ADAPTER_IPC_MAX_BATCH_FRAMES_def)
  then have "(length c + 8) div 9 \<le> ADAPTER_IPC_MAX_BATCH_FRAMES" unfolding ADAPTER_IPC_MAX_BATCH_FRAMES_def by linarith
  with frames_within_more [of n "length c" fs] Cons show ?case
    by (simp add: ADAPTER_IPC_MAX_INPUT_CHUNK_BYTES_def ADAPTER_IPC_MAX_BATCH_FRAMES_def)
qed simp

section \<open>The properties\<close>

text \<open>
  C35. Feeding a decoder that has not failed always returns, and does what parsing the bytes kept so
  far together with the chunk in one go does: the same frames or the same error, and what remains of
  the bytes is kept. After an error the decoder is terminal.
\<close>

theorem ipc_push_refines:
  assumes "decoder_ok s" and "length chunk \<le> ADAPTER_IPC_MAX_INPUT_CHUNK_BYTES"
  shows "\<exists>r s'. decoder_push chunk s = Some (r, s') \<and>
    (case parse_frames ADAPTER_IPC_MAX_BATCH_FRAMES (undecoded s @ chunk) of
       Inl code \<Rightarrow> r = Inl (AdapterIpcError code) \<and> dc_terminal s'
     | Inr (fs, rest) \<Rightarrow> r = Inr fs \<and> decoder_ok s' \<and> undecoded s' = rest)"
  using decoder_push_ok [OF assms] unfolding loop_ok_def append_Nil list.size diff_zero .

text \<open>
  C36. What the encoder makes of a list of frames may be cut into chunks at any bytes. If no chunk is
  longer than 1 MiB and none holds the last byte of more than 64 frames, feeding the chunks decodes
  exactly these frames in order and the decoder can be finished; if some chunk is or does, feeding
  them fails.
\<close>

theorem ipc_roundtrip:
  assumes "traverse (\<lambda>_ f. encodeAdapterIpcFrame (int (fr_type f)) (fr_payload f)) 0 fs = Inr bytes"
    and "concat chunks = concat bytes"
  shows "if chunks_fit 0 chunks fs
    then \<exists>s. push_all chunks createAdapterIpcDecoder = Some (fs, s) \<and> decoder_finish s = (Inr (), s\<lparr>dc_terminal := True\<rparr>)
    else push_all chunks createAdapterIpcDecoder = None"
proof -
  note e = encode_frames [OF assms(1)]
  have B: "concat (map frame_bytes fs) = concat chunks" using e assms(2) by simp
  have q: "parse_frames (length fs) (concat chunks) = Inr (fs, [])" using parse_frames_bytes [OF conjunct2 [OF e]] B by simp
  then have "length fs \<le> length (concat chunks)" using parse_frames_length by fastforce
  with q have p: "parse_stream (undecoded createAdapterIpcDecoder @ concat chunks) = Some (fs, [])"
    unfolding parse_stream_Some fresh_decoder_ok(2) append_Nil by (rule parse_frames_limit)
  have none: "parse_stream [] = Some ([], [])" by (simp add: parse_stream_Some parse_frames.simps first_frame_def)
  have fit: "ipc.all_fit chunks [] = chunks_fit 0 chunks fs"
    using chunks_all_fit [OF conjunct2 [OF e] _ none, of chunks] B by simp
  have done_ok: "decoder_finish s = (Inr (), s\<lparr>dc_terminal := True\<rparr>)" if "decoder_ok s" "undecoded s = []" for s
    using that by (simp add: decoder_finish_def decoder_ok_def undecoded_def)
  from ipc.feed_parse [OF fresh_decoder_ok(1) p] show ?thesis
    unfolding fresh_decoder_ok(2) fit push_all_feed using done_ok by (auto split: if_splits)
qed

definition sample_frames :: "ipc_frame list" where
  "sample_frames = [\<lparr>fr_type = 1, fr_payload = ''{}''\<rparr>, \<lparr>fr_type = 5, fr_payload = []\<rparr>]"

theorem ipc_push_refines_witness:
  "\<exists>s'. decoder_push (frame_bytes \<lparr>fr_type = 5, fr_payload = []\<rparr> @ ''GL'') createAdapterIpcDecoder =
     Some (Inr [\<lparr>fr_type = 5, fr_payload = []\<rparr>], s') \<and> undecoded s' = ''GL''"
proof -
  have rest: "parse_frames 63 ''GL'' = Inr ([], ''GL'')" by (subst parse_frames.simps) (simp add: first_frame_def)
  have p: "parse_frames ADAPTER_IPC_MAX_BATCH_FRAMES (frame_bytes \<lparr>fr_type = 5, fr_payload = []\<rparr> @ ''GL'') =
      Inr ([\<lparr>fr_type = 5, fr_payload = []\<rparr>], ''GL'')"
    by (subst parse_frames.simps)
      (simp add: ADAPTER_IPC_MAX_BATCH_FRAMES_def first_frame_bytes frame_ok_def knownTypes_def ADAPTER_IPC_TYPES_def rest)
  have "length (frame_bytes \<lparr>fr_type = 5, fr_payload = []\<rparr> @ ''GL'') \<le> ADAPTER_IPC_MAX_INPUT_CHUNK_BYTES"
    by (simp add: frame_bytes_def ADAPTER_IPC_MAGIC_def writeUInt32BE_def ADAPTER_IPC_MAX_INPUT_CHUNK_BYTES_def)
  from ipc_push_refines [OF fresh_decoder_ok(1) this] show ?thesis by (auto simp: p)
qed

definition many_frames :: "ipc_frame list" where
  "many_frames = replicate 65 \<lparr>fr_type = 5, fr_payload = []\<rparr>"

lemma frames_within_replicate: "length (frame_bytes f) = 9 \<Longrightarrow> frames_within (9 * k) (replicate k f) = k"
  by (induction k) simp_all

lemma many_frames_do_not_fit: "\<not> chunks_fit 0 [concat (map frame_bytes many_frames)] many_frames"
proof -
  have nine: "length (frame_bytes \<lparr>fr_type = 5, fr_payload = []\<rparr>) = 9"
    by (simp add: frame_bytes_def ADAPTER_IPC_MAGIC_def writeUInt32BE_def)
  then have "length (concat (map frame_bytes many_frames)) = 9 * 65"
    by (simp add: many_frames_def length_concat map_replicate_const sum_list_replicate)
  moreover have "frames_within (9 * 65) many_frames = 65"
    unfolding many_frames_def using nine by (rule frames_within_replicate)
  moreover have "frames_within 0 many_frames = 0" using frames_within_div [of 0 many_frames] by simp
  ultimately show ?thesis by (simp add: ADAPTER_IPC_MAX_BATCH_FRAMES_def)
qed

theorem ipc_roundtrip_witness:
  "(\<exists>s. push_all [''GLI'', ''P'' @ [char_of (1::nat), char_of (0::nat)], [char_of (0::nat), char_of (0::nat), char_of (2::nat), CHR 0x7B],
       ''}'' @ frame_bytes \<lparr>fr_type = 5, fr_payload = []\<rparr>] createAdapterIpcDecoder = Some (sample_frames, s)) \<and>
   push_all [concat (map frame_bytes many_frames)] createAdapterIpcDecoder = None"
proof -
  let ?cs = "[''GLI'', ''P'' @ [char_of (1::nat), char_of (0::nat)], [char_of (0::nat), char_of (0::nat), char_of (2::nat), CHR 0x7B],
       ''}'' @ frame_bytes \<lparr>fr_type = 5, fr_payload = []\<rparr>]"
  have t: "traverse (\<lambda>_ f. encodeAdapterIpcFrame (int (fr_type f)) (fr_payload f)) 0 fs = Inr (map frame_bytes fs)"
    if "list_all (\<lambda>f. fr_type f \<in> knownTypes \<and> length (fr_payload f) < 9) fs" for fs
    using that by (intro traverse_id)
      (auto simp: list_all_iff encodeAdapterIpcFrame_def checkType_def ADAPTER_IPC_MAX_FRAME_BYTES_def frame_bytes_def)
  have s: "list_all (\<lambda>f. fr_type f \<in> knownTypes \<and> length (fr_payload f) < 9) sample_frames"
    "list_all (\<lambda>f. fr_type f \<in> knownTypes \<and> length (fr_payload f) < 9) many_frames"
    by (simp_all add: sample_frames_def many_frames_def list_all_iff knownTypes_def ADAPTER_IPC_TYPES_def)
  have c: "concat ?cs = concat (map frame_bytes sample_frames)"
    by (simp add: sample_frames_def frame_bytes_def ADAPTER_IPC_MAGIC_def writeUInt32BE_def)
  have "chunks_fit 0 ?cs sample_frames"
    by (rule small_chunks_fit) (simp add: frame_bytes_def ADAPTER_IPC_MAGIC_def writeUInt32BE_def ADAPTER_IPC_MAX_BATCH_FRAMES_def)
  with ipc_roundtrip [OF t [OF s(1)] c] ipc_roundtrip [OF t [OF s(2)], of "[concat (map frame_bytes many_frames)]"] many_frames_do_not_fit
  show ?thesis by auto
qed

end
