(* ===== verification/AsrProtocol.thy ===== *)
theory AsrProtocol
  imports DataPlane
begin

text \<open>
  The speech recognition protocol of a session, \<^verbatim>\<open>src/shared/asr-protocol-v1.mjs\<close>: control frames are
  JSON texts, audio frames have a 16 byte header. \<open>parse_json\<close> is \<^verbatim>\<open>JSON.parse\<close>, nothing when it
  throws. A string of code units below 256 has no surrogates, so \<^verbatim>\<open>isWellFormed\<close> holds of it.
  Every function that throws leaves the state of the closure as it was at that point.
\<close>

section \<open>Constants\<close>

definition ASR_AUDIO_HEADER_BYTES :: nat where
  "ASR_AUDIO_HEADER_BYTES = 16"

definition ASR_MAX_CONTROL_BYTES :: nat where
  "ASR_MAX_CONTROL_BYTES = 16384"

definition ASR_MAX_FRAME_SAMPLES :: int where
  "ASR_MAX_FRAME_SAMPLES = 3200"

definition ASR_MAX_QUEUED_SAMPLES :: int where
  "ASR_MAX_QUEUED_SAMPLES = 32000"

definition ASR_MAX_SESSION_SAMPLES :: int where
  "ASR_MAX_SESSION_SAMPLES = 28800000"

definition ASR_MAX_TRANSCRIPT_BYTES :: nat where
  "ASR_MAX_TRANSCRIPT_BYTES = 4096"

definition UINT32_MAX :: int where
  "UINT32_MAX = 4294967295"

definition VALID_ERRORS :: "string list" where
  "VALID_ERRORS = [''model_integrity_failed'', ''model_load_failed'', ''cuda_oom'', ''inference_failed'',
     ''runtime_timeout'', ''input_invalid'', ''backpressure_limit'', ''lease_lost'', ''internal_error'']"

abbreviation asr_reject :: "'a result" where
  "asr_reject \<equiv> Inl (AsrProtocolError ''input_invalid'')"

section \<open>Control frames\<close>

definition asr_uint :: "jsval \<Rightarrow> int \<Rightarrow> int \<Rightarrow> int result" where
  "asr_uint v lo hi =
     (case safe_integer v of
        Some i \<Rightarrow> if lo \<le> i \<and> i \<le> hi then Inr i else asr_reject
      | None \<Rightarrow> asr_reject)"

definition asr_fields :: "jsval \<Rightarrow> string list \<Rightarrow> js_object result" where
  "asr_fields v allowed =
     (case v of
        JObj kvs \<Rightarrow> if list_all (\<lambda>kv. fst kv \<in> set allowed) kvs then Inr kvs else asr_reject
      | _ \<Rightarrow> asr_reject)"

text \<open>
  The text is scanned for objects that name a key twice. A string literal, from after its opening
  quote, is taken up to its closing quote; the stack holds the keys of the objects that are open,
  and nothing for an array.
\<close>

fun scan_string :: "bool \<Rightarrow> string \<Rightarrow> string \<times> string" where
  "scan_string escaped [] = ([], [])"
| "scan_string escaped (c # cs) =
     (if \<not> escaped \<and> c = CHR 0x22 then ([c], cs)
      else (case scan_string (\<not> escaped \<and> c = CHR 0x5C) cs of (literal, rest) \<Rightarrow> (c # literal, rest)))"

lemma scan_string_length: "length (snd (scan_string escaped cs)) \<le> length cs"
  by (induction escaped cs rule: scan_string.induct) (auto split: prod.split)

lemma scan_string_shorter: "(literal, rest) = scan_string escaped cs \<Longrightarrow> length (dropWhile P rest) \<le> length cs"
  using scan_string_length [of escaped cs] length_dropWhile_le [of P rest] by (metis order_trans snd_conv)

definition note_key :: "(string \<Rightarrow> jsval option) \<Rightarrow> string \<Rightarrow> string list option list \<Rightarrow> string list option list result" where
  "note_key parse_json literal stack =
     (case stack of
        Some keys # rest \<Rightarrow>
          (case parse_json literal of
             Some (JStr key) \<Rightarrow> if key \<in> set keys then asr_reject else Inr (Some (key # keys) # rest)
           | _ \<Rightarrow> Inl (PlainError ''invalid JSON string''))
      | _ \<Rightarrow> asr_reject)"

function rejectDuplicateJsonKeys :: "(string \<Rightarrow> jsval option) \<Rightarrow> string list option list \<Rightarrow> string \<Rightarrow> unit result" where
  "rejectDuplicateJsonKeys parse_json stack [] = Inr ()"
| "rejectDuplicateJsonKeys parse_json stack (c # cs) =
     (if c = CHR 0x22 then
        (case scan_string False cs of (literal, rest) \<Rightarrow>
           let rest' = dropWhile is_js_space rest in
           and_then (if rest' \<noteq> [] \<and> hd rest' = CHR 0x3A then note_key parse_json (c # literal) stack else Inr stack)
             (\<lambda>stack'. rejectDuplicateJsonKeys parse_json stack' rest'))
      else if c = CHR 0x7B then rejectDuplicateJsonKeys parse_json (Some [] # stack) cs
      else if c = CHR 0x5B then rejectDuplicateJsonKeys parse_json (None # stack) cs
      else if c = CHR 0x7D \<or> c = CHR 0x5D then rejectDuplicateJsonKeys parse_json (tl stack) cs
      else rejectDuplicateJsonKeys parse_json stack cs)"
  by pat_completeness auto
termination
  by (relation "measure (\<lambda>(_, _, cs). length cs)") (auto dest!: scan_string_shorter simp: less_Suc_eq_le)

text \<open>A segment of the transcript, and the frames.\<close>

record asr_segment =
  sg_segmentId :: int
  sg_revision :: int
  sg_startSample :: int
  sg_endSample :: int

datatype asr_control =
    AsrStart
  | AsrEnd int
  | AsrCancel
  | AsrModelReady string string
  | AsrPartial asr_segment string
  | AsrFinal asr_segment string
  | AsrCompleted int
  | AsrCancelled
  | AsrError string bool

datatype asr_direction = FromClient | FromWorker

text \<open>\<^verbatim>\<open>/^[A-Za-z0-9][A-Za-z0-9._/-]*$/u\<close> and \<^verbatim>\<open>/^[a-f0-9]{40}$/u\<close>.\<close>

definition asr_model_id :: "string \<Rightarrow> bool" where
  "asr_model_id s = (s \<noteq> [] \<and> length s \<le> 200 \<and> is_alnum (hd s) \<and> list_all (\<lambda>c. is_alnum c \<or> c \<in> set ''._/-'') (tl s))"

definition asr_revision :: "string \<Rightarrow> bool" where
  "asr_revision s = (length s = 40 \<and> list_all (\<lambda>c. is_digit c \<or> c \<in> set ''abcdef'') s)"

definition asr_audio_contract :: "jsval \<Rightarrow> unit result" where
  "asr_audio_contract v =
     and_then (asr_fields v [''encoding'', ''sampleRateHz'', ''channels'']) (\<lambda>audio.
     if length audio \<noteq> 3 \<or> js_get audio ''encoding'' \<noteq> JStr ''pcm_s16le'' \<or>
        js_get audio ''sampleRateHz'' \<noteq> JInt 16000 \<or> js_get audio ''channels'' \<noteq> JInt 1
     then asr_reject else Inr ())"

definition asr_hypothesis :: "jsval \<Rightarrow> (asr_segment \<times> string) result" where
  "asr_hypothesis v =
     and_then (asr_fields v [''type'', ''segmentId'', ''revision'', ''startSample'', ''endSample'', ''text'']) (\<lambda>m.
     and_then (asr_uint (js_get m ''segmentId'') 1 UINT32_MAX) (\<lambda>segmentId.
     and_then (asr_uint (js_get m ''revision'') 1 UINT32_MAX) (\<lambda>revision.
     and_then (asr_uint (js_get m ''startSample'') 0 (ASR_MAX_SESSION_SAMPLES - 1)) (\<lambda>startSample.
     and_then (asr_uint (js_get m ''endSample'') (startSample + 1) ASR_MAX_SESSION_SAMPLES) (\<lambda>endSample.
     case js_get m ''text'' of
       JStr text \<Rightarrow>
         if utf8_length text > ASR_MAX_TRANSCRIPT_BYTES then asr_reject
         else Inr (\<lparr>sg_segmentId = segmentId, sg_revision = revision, sg_startSample = startSample,
           sg_endSample = endSample\<rparr>, text)
     | _ \<Rightarrow> asr_reject)))))"

definition sent_by :: "asr_direction \<Rightarrow> asr_direction \<Rightarrow> 'a result \<Rightarrow> 'a result" where
  "sent_by expected direction r = (if direction \<noteq> expected then asr_reject else r)"

definition asr_control_value :: "asr_direction \<Rightarrow> jsval \<Rightarrow> asr_control result" where
  "asr_control_value direction v =
     (case v of
        JObj m \<Rightarrow>
          (case js_get m ''type'' of
             JStr t \<Rightarrow>
               if t = ''asr.start.v1'' then sent_by FromClient direction (
                 and_then (asr_fields v [''type'', ''audio'']) (\<lambda>_.
                 and_then (asr_audio_contract (js_get m ''audio'')) (\<lambda>_. Inr AsrStart)))
               else if t = ''asr.end.v1'' then sent_by FromClient direction (
                 and_then (asr_fields v [''type'', ''lastSequence'']) (\<lambda>_.
                 and_then (asr_uint (js_get m ''lastSequence'') 0 UINT32_MAX) (\<lambda>n. Inr (AsrEnd n))))
               else if t = ''asr.cancel.v1'' then sent_by FromClient direction (
                 and_then (asr_fields v [''type'']) (\<lambda>_. Inr AsrCancel))
               else if t = ''asr.model_ready.v1'' then sent_by FromWorker direction (
                 and_then (asr_fields v [''type'', ''modelId'', ''revision'']) (\<lambda>_.
                 case (js_get m ''modelId'', js_get m ''revision'') of
                   (JStr modelId, JStr revision) \<Rightarrow>
                     if \<not> asr_model_id modelId \<or> \<not> asr_revision revision then asr_reject
                     else Inr (AsrModelReady modelId revision)
                 | _ \<Rightarrow> asr_reject))
               else if t = ''asr.partial.v1'' then sent_by FromWorker direction (
                 and_then (asr_hypothesis v) (\<lambda>(segment, text). Inr (AsrPartial segment text)))
               else if t = ''asr.final.v1'' then sent_by FromWorker direction (
                 and_then (asr_hypothesis v) (\<lambda>(segment, text). Inr (AsrFinal segment text)))
               else if t = ''asr.completed.v1'' then sent_by FromWorker direction (
                 and_then (asr_fields v [''type'', ''lastSequence'']) (\<lambda>_.
                 and_then (asr_uint (js_get m ''lastSequence'') 0 UINT32_MAX) (\<lambda>n. Inr (AsrCompleted n))))
               else if t = ''asr.cancelled.v1'' then sent_by FromWorker direction (
                 and_then (asr_fields v [''type'']) (\<lambda>_. Inr AsrCancelled))
               else if t = ''asr.error.v1'' then sent_by FromWorker direction (
                 and_then (asr_fields v [''type'', ''code'', ''retryable'']) (\<lambda>_.
                 case (js_get m ''code'', js_get m ''retryable'') of
                   (JStr code, JBool retryable) \<Rightarrow>
                     if code \<notin> set VALID_ERRORS then asr_reject else Inr (AsrError code retryable)
                 | _ \<Rightarrow> asr_reject))
               else asr_reject
           | _ \<Rightarrow> asr_reject)
      | _ \<Rightarrow> asr_reject)"

definition parseAsrControlFrame :: "(string \<Rightarrow> jsval option) \<Rightarrow> string \<Rightarrow> asr_direction \<Rightarrow> asr_control result" where
  "parseAsrControlFrame parse_json raw direction =
     (if utf8_length raw > ASR_MAX_CONTROL_BYTES then asr_reject
      else
        (case parse_json raw of
           None \<Rightarrow> asr_reject
         | Some v \<Rightarrow> and_then (rejectDuplicateJsonKeys parse_json [] raw) (\<lambda>_. asr_control_value direction v)))"

section \<open>Audio frames\<close>

definition readUInt32LE :: "string \<Rightarrow> nat \<Rightarrow> int" where
  "readUInt32LE bytes i = of_char (bytes ! i) + 256 * (of_char (bytes ! (i + 1)) + 256 * (of_char (bytes ! (i + 2)) + 256 * of_char (bytes ! (i + 3))))"

text \<open>\<^verbatim>\<open>toString("ascii")\<close> drops the high bit of every byte.\<close>

definition ascii :: "string \<Rightarrow> string" where
  "ascii bytes = map (\<lambda>c. char_of (of_char c mod 128 :: nat)) bytes"

record asr_audio =
  au_sequence :: int
  au_sampleOffset :: int
  au_sampleCount :: int
  au_pcm :: string

definition decodeAsrAudioFrame :: "string \<Rightarrow> int \<Rightarrow> int \<Rightarrow> asr_audio result" where
  "decodeAsrAudioFrame frame expectedSequence expectedSampleOffset =
     (if length frame < ASR_AUDIO_HEADER_BYTES + 2 then asr_reject
      else
        and_then (validateDataPlaneFrameSize (int (length frame))) (\<lambda>fits.
        if \<not> fits \<or> ascii (take 4 frame) \<noteq> ''ASR1'' then asr_reject
        else if \<not> (0 \<le> expectedSequence \<and> expectedSequence \<le> UINT32_MAX \<and>
          0 \<le> expectedSampleOffset \<and> expectedSampleOffset \<le> ASR_MAX_SESSION_SAMPLES) then asr_reject
        else
          (let sequence = readUInt32LE frame 4; sampleOffset = readUInt32LE frame 8; sampleCount = readUInt32LE frame 12 in
           if sequence \<noteq> expectedSequence \<or> sampleOffset \<noteq> expectedSampleOffset \<or>
              \<not> (1 \<le> sampleCount \<and> sampleCount \<le> ASR_MAX_FRAME_SAMPLES) \<or>
              sampleOffset + sampleCount > ASR_MAX_SESSION_SAMPLES \<or>
              int (length frame) \<noteq> int ASR_AUDIO_HEADER_BYTES + sampleCount * 2
           then asr_reject
           else Inr \<lparr>au_sequence = sequence, au_sampleOffset = sampleOffset, au_sampleCount = sampleCount,
             au_pcm = drop 16 frame\<rparr>)))"

section \<open>The client's side\<close>

datatype ingress_state = AwaitingStart | IngressStreaming | IngressDraining | IngressCancelled

record asr_ingress =
  ig_state :: ingress_state
  ig_nextSequence :: int
  ig_nextSampleOffset :: int
  ig_queuedSamples :: int

definition createAsrClientIngress :: asr_ingress where
  "createAsrClientIngress = \<lparr>ig_state = AwaitingStart, ig_nextSequence = 0, ig_nextSampleOffset = 0, ig_queuedSamples = 0\<rparr>"

definition ingress_control :: "asr_control \<Rightarrow> asr_ingress \<Rightarrow> asr_ingress result" where
  "ingress_control control g =
     (case control of
        AsrStart \<Rightarrow> if ig_state g \<noteq> AwaitingStart then asr_reject else Inr (g\<lparr>ig_state := IngressStreaming\<rparr>)
      | AsrEnd lastSequence \<Rightarrow>
          if ig_state g \<noteq> IngressStreaming \<or> ig_nextSequence g = 0 \<or> lastSequence \<noteq> ig_nextSequence g - 1 then asr_reject
          else Inr (g\<lparr>ig_state := IngressDraining\<rparr>)
      | AsrCancel \<Rightarrow> if ig_state g = IngressCancelled then asr_reject else Inr (g\<lparr>ig_state := IngressCancelled\<rparr>)
      | _ \<Rightarrow> Inr g)"

definition ingress_onControl :: "(string \<Rightarrow> jsval option) \<Rightarrow> string \<Rightarrow> asr_ingress \<Rightarrow> (asr_control \<times> asr_ingress) result" where
  "ingress_onControl parse_json raw g =
     and_then (parseAsrControlFrame parse_json raw FromClient) (\<lambda>control.
     and_then (ingress_control control g) (\<lambda>g'. Inr (control, g')))"

definition ingress_onAudio :: "string \<Rightarrow> asr_ingress \<Rightarrow> (asr_audio \<times> asr_ingress) result" where
  "ingress_onAudio frame g =
     (if ig_state g \<noteq> IngressStreaming then asr_reject
      else
        and_then (decodeAsrAudioFrame frame (ig_nextSequence g) (ig_nextSampleOffset g)) (\<lambda>decoded.
        if ig_queuedSamples g + au_sampleCount decoded > ASR_MAX_QUEUED_SAMPLES
        then Inl (AsrProtocolError ''backpressure_limit'')
        else Inr (decoded, g\<lparr>ig_nextSequence := ig_nextSequence g + 1,
          ig_nextSampleOffset := ig_nextSampleOffset g + au_sampleCount decoded,
          ig_queuedSamples := ig_queuedSamples g + au_sampleCount decoded\<rparr>)))"

definition ingress_releaseSamples :: "jsval \<Rightarrow> asr_ingress \<Rightarrow> asr_ingress result" where
  "ingress_releaseSamples samples g =
     and_then (asr_uint samples 1 (ig_queuedSamples g)) (\<lambda>n. Inr (g\<lparr>ig_queuedSamples := ig_queuedSamples g - n\<rparr>))"

section \<open>What a frame is\<close>

definition asr_segment_ok :: "asr_segment \<Rightarrow> bool" where
  "asr_segment_ok g =
     (1 \<le> sg_segmentId g \<and> sg_segmentId g \<le> UINT32_MAX \<and> 1 \<le> sg_revision g \<and> sg_revision g \<le> UINT32_MAX \<and>
      0 \<le> sg_startSample g \<and> sg_startSample g < sg_endSample g \<and> sg_endSample g \<le> ASR_MAX_SESSION_SAMPLES)"

definition asr_typed :: "asr_direction \<Rightarrow> asr_control \<Rightarrow> bool" where
  "asr_typed direction m =
     (case m of
        AsrStart \<Rightarrow> direction = FromClient
      | AsrEnd n \<Rightarrow> direction = FromClient \<and> 0 \<le> n \<and> n \<le> UINT32_MAX
      | AsrCancel \<Rightarrow> direction = FromClient
      | AsrModelReady modelId revision \<Rightarrow> direction = FromWorker \<and> asr_model_id modelId \<and> asr_revision revision
      | AsrPartial segment text \<Rightarrow> direction = FromWorker \<and> asr_segment_ok segment \<and> utf8_length text \<le> ASR_MAX_TRANSCRIPT_BYTES
      | AsrFinal segment text \<Rightarrow> direction = FromWorker \<and> asr_segment_ok segment \<and> utf8_length text \<le> ASR_MAX_TRANSCRIPT_BYTES
      | AsrCompleted n \<Rightarrow> direction = FromWorker \<and> 0 \<le> n \<and> n \<le> UINT32_MAX
      | AsrCancelled \<Rightarrow> direction = FromWorker
      | AsrError code retryable \<Rightarrow> direction = FromWorker \<and> code \<in> set VALID_ERRORS)"

definition hypothesis_json :: "string \<Rightarrow> asr_segment \<Rightarrow> string \<Rightarrow> jsval" where
  "hypothesis_json t g text =
     JObj [(''type'', JStr t), (''segmentId'', JInt (sg_segmentId g)), (''revision'', JInt (sg_revision g)),
       (''startSample'', JInt (sg_startSample g)), (''endSample'', JInt (sg_endSample g)), (''text'', JStr text)]"

definition asr_json :: "asr_control \<Rightarrow> jsval" where
  "asr_json m =
     (case m of
        AsrStart \<Rightarrow> JObj [(''type'', JStr ''asr.start.v1''),
          (''audio'', JObj [(''encoding'', JStr ''pcm_s16le''), (''sampleRateHz'', JInt 16000), (''channels'', JInt 1)])]
      | AsrEnd n \<Rightarrow> JObj [(''type'', JStr ''asr.end.v1''), (''lastSequence'', JInt n)]
      | AsrCancel \<Rightarrow> JObj [(''type'', JStr ''asr.cancel.v1'')]
      | AsrModelReady modelId revision \<Rightarrow>
          JObj [(''type'', JStr ''asr.model_ready.v1''), (''modelId'', JStr modelId), (''revision'', JStr revision)]
      | AsrPartial segment text \<Rightarrow> hypothesis_json ''asr.partial.v1'' segment text
      | AsrFinal segment text \<Rightarrow> hypothesis_json ''asr.final.v1'' segment text
      | AsrCompleted n \<Rightarrow> JObj [(''type'', JStr ''asr.completed.v1''), (''lastSequence'', JInt n)]
      | AsrCancelled \<Rightarrow> JObj [(''type'', JStr ''asr.cancelled.v1'')]
      | AsrError code retryable \<Rightarrow>
          JObj [(''type'', JStr ''asr.error.v1''), (''code'', JStr code), (''retryable'', JBool retryable)])"

lemma asr_uint_Inr [result_simps]:
  "asr_uint v lo hi = Inr i \<longleftrightarrow> v = JInt i \<and> \<bar>i\<bar> \<le> max_safe_integer \<and> lo \<le> i \<and> i \<le> hi"
  unfolding asr_uint_def by (auto split: option.splits if_splits dest: safe_integer_Some)

lemma asr_fields_Inr [result_simps]:
  "asr_fields v allowed = Inr kvs \<longleftrightarrow> v = JObj kvs \<and> list_all (\<lambda>kv. fst kv \<in> set allowed) kvs"
  unfolding asr_fields_def by (auto split: jsval.splits)

lemma sent_by_Inr [result_simps]: "sent_by expected direction r = Inr x \<longleftrightarrow> direction = expected \<and> r = Inr x"
  by (simp add: sent_by_def)

lemma case_jsval_Inr:
  "(case v of JStr t \<Rightarrow> f t | _ \<Rightarrow> Inl e) = Inr x \<longleftrightarrow> (\<exists>t. v = JStr t \<and> f t = Inr x)"
  "(case v of JObj kvs \<Rightarrow> g kvs | _ \<Rightarrow> Inl e) = Inr x \<longleftrightarrow> (\<exists>kvs. v = JObj kvs \<and> g kvs = Inr x)"
  "(case v of JBool b \<Rightarrow> h b | _ \<Rightarrow> Inl e) = Inr x \<longleftrightarrow> (\<exists>b. v = JBool b \<and> h b = Inr x)"
  by (cases v; simp)+

lemma asr_hypothesis_ok:
  "asr_hypothesis v = Inr (g, text) \<Longrightarrow> asr_segment_ok g \<and> utf8_length text \<le> ASR_MAX_TRANSCRIPT_BYTES"
  unfolding asr_hypothesis_def by (auto simp: result_simps case_jsval_Inr asr_segment_ok_def split: if_splits)

lemma asr_hypothesis_json:
  "asr_hypothesis (hypothesis_json t g text) = Inr (g, text)"
  if "asr_segment_ok g" "utf8_length text \<le> ASR_MAX_TRANSCRIPT_BYTES"
  using that
  by (simp add: asr_hypothesis_def hypothesis_json_def asr_fields_def asr_uint_def asr_segment_ok_def js_get_def
      max_safe_integer_def UINT32_MAX_def ASR_MAX_SESSION_SAMPLES_def)

lemma asr_control_value_typed: "asr_control_value direction v = Inr m \<Longrightarrow> asr_typed direction m"
  unfolding asr_control_value_def
  by (auto simp: result_simps case_jsval_Inr asr_typed_def split: if_splits dest: asr_hypothesis_ok)

lemma asr_control_value_json: "asr_typed direction m \<Longrightarrow> asr_control_value direction (asr_json m) = Inr m"
  by (cases m)
    (simp_all add: asr_typed_def asr_json_def asr_control_value_def js_get_def sent_by_def asr_fields_def asr_uint_def
      asr_audio_contract_def max_safe_integer_def UINT32_MAX_def hypothesis_json_def
      asr_hypothesis_json [unfolded hypothesis_json_def])

lemma parsed_control: "parseAsrControlFrame pj raw direction = Inr m \<Longrightarrow> asr_typed direction m"
  unfolding parseAsrControlFrame_def
  by (auto simp: result_simps split: option.splits if_splits intro: asr_control_value_typed)

lemma readUInt32LE_nonneg: "0 \<le> readUInt32LE bytes i"
proof -
  have "(0::int) \<le> of_char c" for c by (metis of_nat_0_le_iff of_nat_of_char)
  then show ?thesis by (simp add: readUInt32LE_def)
qed

lemma decoded_audio:
  assumes "decodeAsrAudioFrame frame n k = Inr a"
  shows "au_sequence a = n" "au_sampleOffset a = k" "1 \<le> au_sampleCount a" "au_sampleCount a \<le> ASR_MAX_FRAME_SAMPLES"
    "k + au_sampleCount a \<le> ASR_MAX_SESSION_SAMPLES" "int (length (au_pcm a)) = 2 * au_sampleCount a"
    "0 \<le> n" "n \<le> UINT32_MAX" "0 \<le> k"
proof -
  from assms have l: "16 \<le> length frame"
    by (auto simp: decodeAsrAudioFrame_def ASR_AUDIO_HEADER_BYTES_def split: if_splits)
  from assms l show "au_sequence a = n" "au_sampleOffset a = k" "1 \<le> au_sampleCount a" "au_sampleCount a \<le> ASR_MAX_FRAME_SAMPLES"
    "k + au_sampleCount a \<le> ASR_MAX_SESSION_SAMPLES" "int (length (au_pcm a)) = 2 * au_sampleCount a"
    "0 \<le> n" "n \<le> UINT32_MAX" "0 \<le> k"
    by (auto simp: decodeAsrAudioFrame_def result_simps Let_def ASR_AUDIO_HEADER_BYTES_def split: if_splits)
qed

text \<open>The magic is compared after its high bits are dropped: these are not the bytes of ''ASR1''.\<close>

definition masked_frame :: string where
  "masked_frame = [CHR 0xC1, CHR ''S'', CHR ''R'', CHR ''1'', CHR 0x00, CHR 0x00, CHR 0x00, CHR 0x00,
     CHR 0x00, CHR 0x00, CHR 0x00, CHR 0x00, CHR 0x01, CHR 0x00, CHR 0x00, CHR 0x00, CHR ''x'', CHR ''y'']"

lemma magic_is_masked:
  "decodeAsrAudioFrame masked_frame 0 0 =
     Inr \<lparr>au_sequence = 0, au_sampleOffset = 0, au_sampleCount = 1, au_pcm = ''xy''\<rparr>"
  by (simp add: masked_frame_def decodeAsrAudioFrame_def ASR_AUDIO_HEADER_BYTES_def validateDataPlaneFrameSize_def max_safe_integer_def
      DATA_PLANE_MAX_FRAME_BYTES_def ascii_def char_of_def bit_0 Let_def UINT32_MAX_def ASR_MAX_SESSION_SAMPLES_def readUInt32LE_def
      ASR_MAX_FRAME_SAMPLES_def)

section \<open>Bounds of the client's side\<close>

text \<open>
  What holds of the counters: every accepted frame carries at least one sample, and what is queued
  has been received.
\<close>

definition ingress_ok :: "asr_ingress \<Rightarrow> bool" where
  "ingress_ok g =
     (0 \<le> ig_queuedSamples g \<and> ig_queuedSamples g \<le> ASR_MAX_QUEUED_SAMPLES \<and> ig_queuedSamples g \<le> ig_nextSampleOffset g \<and>
      ig_nextSampleOffset g \<le> ASR_MAX_SESSION_SAMPLES \<and> 0 \<le> ig_nextSequence g \<and> ig_nextSequence g \<le> ig_nextSampleOffset g)"

lemma ingress_control_ok: "ingress_control m g = Inr g' \<Longrightarrow> ingress_ok g \<Longrightarrow> ingress_ok g'"
  by (auto simp: ingress_control_def ingress_ok_def split: asr_control.splits if_splits)

lemma ingress_onAudio_ok: "ingress_onAudio frame g = Inr (a, g') \<Longrightarrow> ingress_ok g \<Longrightarrow> ingress_ok g'"
  by (auto simp: ingress_onAudio_def ingress_ok_def result_simps split: if_splits dest: decoded_audio)

lemma ingress_releaseSamples_ok: "ingress_releaseSamples v g = Inr g' \<Longrightarrow> ingress_ok g \<Longrightarrow> ingress_ok g'"
  by (auto simp: ingress_releaseSamples_def ingress_ok_def result_simps)

end
