(* ===== verification/AsrSession.thy ===== *)
theory AsrSession
  imports AsrProtocol
begin

text \<open>
  A speech recognition session: \<^verbatim>\<open>src/shared/asr-worker-output-v1.mjs\<close>, which follows the messages of
  the worker, and \<^verbatim>\<open>asr-session-coordinator-v1.mjs\<close>, which puts it beside the client's side of
  \<open>AsrProtocol\<close>. A coordinator operation returns its result with the session after it, so that what
  a throwing operation leaves behind can be stated. \<open>asr_run\<close> is a session with the replies it has given.
\<close>

section \<open>The worker's output\<close>

datatype output_state =
    OutputAwaitingModelReady
  | OutputStreaming
  | OutputDraining
  | OutputCancelling
  | OutputCompleted
  | OutputCancelled
  | OutputFailed
  | OutputInterrupted

record asr_output =
  ot_modelId :: string
  ot_revision :: string
  ot_state :: output_state
  ot_inputEndSequence :: "int option"
  ot_lastFinalSegmentId :: int
  ot_lastFinalEndSample :: int
  ot_activeSegment :: "asr_segment option"

definition ASR_MAX_SEGMENTS :: int where
  "ASR_MAX_SEGMENTS = 10000"

definition output_terminal :: "output_state \<Rightarrow> bool" where
  "output_terminal state = (state \<in> {OutputCompleted, OutputCancelled, OutputFailed, OutputInterrupted})"

text \<open>
  The expected identity is checked as a model_ready message: \<^verbatim>\<open>JSON.parse\<close> of \<^verbatim>\<open>JSON.stringify\<close> gives
  back the object, and an identity too long for a control frame is refused by the grammar as well.
\<close>

definition createAsrWorkerOutput :: "jsval \<Rightarrow> jsval \<Rightarrow> asr_output result" where
  "createAsrWorkerOutput modelId revision =
     and_then (asr_control_value FromWorker
       (JObj [(''type'', JStr ''asr.model_ready.v1''), (''modelId'', modelId), (''revision'', revision)])) (\<lambda>m.
     case m of
       AsrModelReady model pinned \<Rightarrow>
         Inr \<lparr>ot_modelId = model, ot_revision = pinned, ot_state = OutputAwaitingModelReady, ot_inputEndSequence = None,
           ot_lastFinalSegmentId = 0, ot_lastFinalEndSample = 0, ot_activeSegment = None\<rparr>
     | _ \<Rightarrow> asr_reject)"

definition output_hypothesis :: "asr_segment \<Rightarrow> asr_output \<Rightarrow> asr_output result" where
  "output_hypothesis m w =
     (if ot_state w \<noteq> OutputStreaming \<and> ot_state w \<noteq> OutputDraining then asr_reject
      else if sg_segmentId m \<noteq> ot_lastFinalSegmentId w + 1 \<or> sg_segmentId m > ASR_MAX_SEGMENTS \<or>
        sg_startSample m < ot_lastFinalEndSample w then asr_reject
      else
        (case ot_activeSegment w of
           None \<Rightarrow> Inr (w\<lparr>ot_activeSegment := Some m\<rparr>)
         | Some a \<Rightarrow>
             if sg_segmentId m \<noteq> sg_segmentId a \<or> sg_revision m \<le> sg_revision a \<or>
                sg_startSample m \<noteq> sg_startSample a \<or> sg_endSample m < sg_endSample a then asr_reject
             else Inr (w\<lparr>ot_activeSegment := Some (a\<lparr>sg_revision := sg_revision m, sg_endSample := sg_endSample m\<rparr>)\<rparr>)))"

definition output_message :: "asr_control \<Rightarrow> asr_output \<Rightarrow> asr_output result" where
  "output_message m w =
     (case m of
        AsrModelReady model pinned \<Rightarrow>
          if ot_state w \<noteq> OutputAwaitingModelReady \<or> model \<noteq> ot_modelId w \<or> pinned \<noteq> ot_revision w then asr_reject
          else Inr (w\<lparr>ot_state := OutputStreaming\<rparr>)
      | AsrPartial segment text \<Rightarrow> output_hypothesis segment w
      | AsrFinal segment text \<Rightarrow>
          and_then (output_hypothesis segment w) (\<lambda>w'.
          Inr (w'\<lparr>ot_lastFinalSegmentId := sg_segmentId segment, ot_lastFinalEndSample := sg_endSample segment,
            ot_activeSegment := None\<rparr>))
      | AsrCompleted lastSequence \<Rightarrow>
          if ot_state w \<noteq> OutputDraining \<or> ot_inputEndSequence w \<noteq> Some lastSequence \<or> ot_activeSegment w \<noteq> None then asr_reject
          else Inr (w\<lparr>ot_state := OutputCompleted\<rparr>)
      | AsrCancelled \<Rightarrow>
          if ot_state w \<noteq> OutputCancelling then asr_reject else Inr (w\<lparr>ot_state := OutputCancelled\<rparr>)
      | AsrError code retryable \<Rightarrow> Inr (w\<lparr>ot_state := OutputFailed\<rparr>)
      | _ \<Rightarrow> asr_reject)"

definition output_onMessage :: "(string \<Rightarrow> jsval option) \<Rightarrow> string \<Rightarrow> asr_output \<Rightarrow> (asr_control \<times> asr_output) result" where
  "output_onMessage parse_json raw w =
     and_then (parseAsrControlFrame parse_json raw FromWorker) (\<lambda>m.
     if output_terminal (ot_state w) then asr_reject
     else and_then (output_message m w) (\<lambda>w'. Inr (m, w')))"

definition output_onClientEnd :: "int \<Rightarrow> asr_output \<Rightarrow> asr_output result" where
  "output_onClientEnd lastSequence w =
     (if ot_state w \<noteq> OutputStreaming \<or> \<not> (0 \<le> lastSequence \<and> lastSequence \<le> UINT32_MAX) then asr_reject
      else Inr (w\<lparr>ot_inputEndSequence := Some lastSequence, ot_state := OutputDraining\<rparr>))"

definition output_onClientCancel :: "asr_output \<Rightarrow> asr_output result" where
  "output_onClientCancel w =
     (if output_terminal (ot_state w) \<or> ot_state w = OutputCancelling then asr_reject
      else Inr (w\<lparr>ot_state := OutputCancelling\<rparr>))"

definition output_onDisconnected :: "asr_output \<Rightarrow> asr_output" where
  "output_onDisconnected w = (if output_terminal (ot_state w) then w else w\<lparr>ot_state := OutputInterrupted\<rparr>)"

section \<open>The coordinator\<close>

record asr_session =
  as_client :: asr_ingress
  as_worker :: asr_output

definition createAsrSessionCoordinator :: "jsval \<Rightarrow> jsval \<Rightarrow> asr_session result" where
  "createAsrSessionCoordinator modelId revision =
     and_then (createAsrWorkerOutput modelId revision) (\<lambda>w.
     Inr \<lparr>as_client = createAsrClientIngress, as_worker = w\<rparr>)"

definition consumedSamples :: "asr_session \<Rightarrow> int" where
  "consumedSamples s = ig_nextSampleOffset (as_client s) - ig_queuedSamples (as_client s)"

definition ensureActive :: "asr_session \<Rightarrow> output_state result" where
  "ensureActive s =
     (let state = ot_state (as_worker s) in
      if output_terminal state \<or> state = OutputCancelling then asr_reject else Inr state)"

definition client_control_refused :: "asr_control \<Rightarrow> output_state \<Rightarrow> asr_ingress \<Rightarrow> bool" where
  "client_control_refused message workerState client =
     (case message of
        AsrStart \<Rightarrow> workerState \<noteq> OutputStreaming \<or> ig_state client \<noteq> AwaitingStart
      | AsrEnd lastSequence \<Rightarrow> workerState \<noteq> OutputStreaming \<or> ig_state client \<noteq> IngressStreaming \<or>
          ig_nextSequence client = 0 \<or> lastSequence \<noteq> ig_nextSequence client - 1
      | AsrCancel \<Rightarrow> ig_state client = IngressCancelled
      | _ \<Rightarrow> False)"

definition tell_worker :: "asr_control \<Rightarrow> asr_output \<Rightarrow> asr_output result" where
  "tell_worker message w =
     (case message of
        AsrEnd lastSequence \<Rightarrow> output_onClientEnd lastSequence w
      | AsrCancel \<Rightarrow> output_onClientCancel w
      | _ \<Rightarrow> Inr w)"

definition onClientControl :: "(string \<Rightarrow> jsval option) \<Rightarrow> string \<Rightarrow> asr_session \<Rightarrow> asr_control result \<times> asr_session" where
  "onClientControl parse_json raw s =
     (case and_then (parseAsrControlFrame parse_json raw FromClient) (\<lambda>message.
           and_then (ensureActive s) (\<lambda>workerState.
           if client_control_refused message workerState (as_client s) then asr_reject
           else and_then (ingress_onControl parse_json raw (as_client s)) (\<lambda>(_, client). Inr (message, client)))) of
        Inl e \<Rightarrow> (Inl e, s)
      | Inr (message, client) \<Rightarrow>
          (let s' = s\<lparr>as_client := client\<rparr> in
           case tell_worker message (as_worker s') of
             Inl e \<Rightarrow> (Inl e, s')
           | Inr w \<Rightarrow> (Inr message, s'\<lparr>as_worker := w\<rparr>)))"

definition onClientAudio :: "string \<Rightarrow> asr_session \<Rightarrow> asr_audio result \<times> asr_session" where
  "onClientAudio frame s =
     (case and_then (ensureActive s) (\<lambda>state.
           if state \<noteq> OutputStreaming \<or> ig_state (as_client s) \<noteq> IngressStreaming then asr_reject
           else ingress_onAudio frame (as_client s)) of
        Inl e \<Rightarrow> (Inl e, s)
      | Inr (decoded, client) \<Rightarrow> (Inr decoded, s\<lparr>as_client := client\<rparr>))"

definition onSamplesConsumed :: "jsval \<Rightarrow> asr_session \<Rightarrow> int result \<times> asr_session" where
  "onSamplesConsumed samples s =
     (case and_then (ensureActive s) (\<lambda>state.
           if (state \<noteq> OutputStreaming \<and> state \<noteq> OutputDraining) \<or>
              (ig_state (as_client s) \<noteq> IngressStreaming \<and> ig_state (as_client s) \<noteq> IngressDraining) then asr_reject
           else ingress_releaseSamples samples (as_client s)) of
        Inl e \<Rightarrow> (Inl e, s)
      | Inr client \<Rightarrow> (let s' = s\<lparr>as_client := client\<rparr> in (Inr (consumedSamples s'), s')))"

definition worker_message_refused :: "asr_control \<Rightarrow> asr_session \<Rightarrow> bool" where
  "worker_message_refused message s =
     (let client = as_client s; state = ot_state (as_worker s) in
      output_terminal state \<or>
      (state = OutputCancelling \<and> \<not> (case message of AsrCancelled \<Rightarrow> True | AsrError _ _ \<Rightarrow> True | _ \<Rightarrow> False)) \<or>
      (case message of
         AsrModelReady _ _ \<Rightarrow> ig_state client \<noteq> AwaitingStart
       | AsrPartial segment _ \<Rightarrow> (ig_state client \<noteq> IngressStreaming \<and> ig_state client \<noteq> IngressDraining) \<or>
           sg_endSample segment > consumedSamples s
       | AsrFinal segment _ \<Rightarrow> (ig_state client \<noteq> IngressStreaming \<and> ig_state client \<noteq> IngressDraining) \<or>
           sg_endSample segment > consumedSamples s
       | AsrCompleted _ \<Rightarrow> ig_state client \<noteq> IngressDraining \<or> ig_queuedSamples client \<noteq> 0 \<or> state \<noteq> OutputDraining
       | AsrCancelled \<Rightarrow> ig_state client \<noteq> IngressCancelled \<or> state \<noteq> OutputCancelling
       | _ \<Rightarrow> False))"

definition onWorkerMessage :: "(string \<Rightarrow> jsval option) \<Rightarrow> string \<Rightarrow> asr_session \<Rightarrow> asr_control result \<times> asr_session" where
  "onWorkerMessage parse_json raw s =
     (case and_then (parseAsrControlFrame parse_json raw FromWorker) (\<lambda>message.
           if worker_message_refused message s then asr_reject
           else output_onMessage parse_json raw (as_worker s)) of
        Inl e \<Rightarrow> (Inl e, s)
      | Inr (message, w) \<Rightarrow> (Inr message, s\<lparr>as_worker := w\<rparr>))"

definition onDisconnected :: "asr_session \<Rightarrow> output_state \<times> asr_session" where
  "onDisconnected s =
     (let w = output_onDisconnected (as_worker s) in (ot_state w, s\<lparr>as_worker := w\<rparr>))"

section \<open>Sessions\<close>

datatype asr_event =
    ClientControl string
  | ClientAudio string
  | SamplesConsumed jsval
  | WorkerMessage string
  | Disconnected

datatype asr_reply =
    Message asr_control
  | Audio asr_audio
  | Consumed int
  | Ended output_state

definition asr_apply :: "(string \<Rightarrow> jsval option) \<Rightarrow> asr_event \<Rightarrow> asr_session \<Rightarrow> asr_reply result \<times> asr_session" where
  "asr_apply parse_json event s =
     (case event of
        ClientControl raw \<Rightarrow> apfst (map_sum id Message) (onClientControl parse_json raw s)
      | ClientAudio frame \<Rightarrow> apfst (map_sum id Audio) (onClientAudio frame s)
      | SamplesConsumed samples \<Rightarrow> apfst (map_sum id Consumed) (onSamplesConsumed samples s)
      | WorkerMessage raw \<Rightarrow> apfst (map_sum id Message) (onWorkerMessage parse_json raw s)
      | Disconnected \<Rightarrow> apfst (\<lambda>state. Inr (Ended state)) (onDisconnected s))"

inductive asr_run :: "(string \<Rightarrow> jsval option) \<Rightarrow> jsval \<Rightarrow> jsval \<Rightarrow> asr_reply list \<Rightarrow> asr_session \<Rightarrow> bool"
  for parse_json modelId revision where
  created: "createAsrSessionCoordinator modelId revision = Inr s \<Longrightarrow> asr_run parse_json modelId revision [] s"
| accepted: "asr_run parse_json modelId revision tr s \<Longrightarrow> asr_apply parse_json event s = (Inr reply, s') \<Longrightarrow>
    asr_run parse_json modelId revision (tr @ [reply]) s'"
| refused: "asr_run parse_json modelId revision tr s \<Longrightarrow> asr_apply parse_json event s = (Inl e, s') \<Longrightarrow>
    asr_run parse_json modelId revision tr s'"

section \<open>Refusals\<close>

lemma ingress_accepts:
  "ingress_onControl pj raw g = Inr (m, g') \<Longrightarrow> parseAsrControlFrame pj raw FromClient = Inr m \<and> ingress_control m g = Inr g'"
  by (auto simp: ingress_onControl_def result_simps)

text \<open>What the coordinator has checked, neither side refuses.\<close>

lemma worker_told:
  assumes "asr_typed FromClient m" and "ensureActive s = Inr state" and "\<not> client_control_refused m state (as_client s)"
  shows "\<exists>w. tell_worker m (as_worker s) = Inr w"
  using assms
  by (cases m)
    (auto simp: tell_worker_def output_onClientEnd_def output_onClientCancel_def ensureActive_def Let_def
      asr_typed_def client_control_refused_def split: if_splits)

lemma onClientControl_cases:
  obtains (refused) e where "onClientControl pj raw s = (Inl e, s)"
  | (accepted) m state g w where "parseAsrControlFrame pj raw FromClient = Inr m" "asr_typed FromClient m"
      "ensureActive s = Inr state" "\<not> client_control_refused m state (as_client s)"
      "ingress_control m (as_client s) = Inr g" "tell_worker m (as_worker s) = Inr w"
      "onClientControl pj raw s = (Inr m, s\<lparr>as_client := g, as_worker := w\<rparr>)"
proof (cases "parseAsrControlFrame pj raw FromClient")
  case (Inl e)
  then show thesis by (intro refused) (simp add: onClientControl_def)
next
  case (Inr m)
  note typed = parsed_control [OF Inr]
  show thesis
  proof (cases "ensureActive s")
    case (Inl e)
    with Inr show thesis by (intro refused) (simp add: onClientControl_def)
  next
    case (Inr state)
    show thesis
    proof (cases "client_control_refused m state (as_client s)")
      case True
      with Inr \<open>parseAsrControlFrame pj raw FromClient = Inr m\<close> show thesis
        by (intro refused) (simp add: onClientControl_def)
    next
      case False
      from worker_told [OF typed Inr False] obtain w where w: "tell_worker m (as_worker s) = Inr w" ..
      with Inr False \<open>parseAsrControlFrame pj raw FromClient = Inr m\<close> typed show thesis
        by (cases "ingress_control m (as_client s)")
          (auto intro: refused accepted simp: onClientControl_def ingress_onControl_def)
    qed
  qed
qed

lemma onClientAudio_cases:
  obtains (refused) e where "onClientAudio frame s = (Inl e, s)"
  | (accepted) a g where "ot_state (as_worker s) = OutputStreaming" "ig_state (as_client s) = IngressStreaming"
      "ingress_onAudio frame (as_client s) = Inr (a, g)" "onClientAudio frame s = (Inr a, s\<lparr>as_client := g\<rparr>)"
proof (cases "ot_state (as_worker s) = OutputStreaming \<and> ig_state (as_client s) = IngressStreaming")
  case True
  then show thesis
    by (cases "ingress_onAudio frame (as_client s)")
      (auto intro: refused accepted simp: onClientAudio_def ensureActive_def output_terminal_def)
next
  case False
  then show thesis by (intro refused) (auto simp: onClientAudio_def ensureActive_def Let_def)
qed

lemma onSamplesConsumed_cases:
  obtains (refused) e where "onSamplesConsumed samples s = (Inl e, s)"
  | (accepted) g where "ot_state (as_worker s) = OutputStreaming \<or> ot_state (as_worker s) = OutputDraining"
      "ig_state (as_client s) = IngressStreaming \<or> ig_state (as_client s) = IngressDraining"
      "ingress_releaseSamples samples (as_client s) = Inr g"
      "onSamplesConsumed samples s = (Inr (consumedSamples (s\<lparr>as_client := g\<rparr>)), s\<lparr>as_client := g\<rparr>)"
proof (cases "(ot_state (as_worker s) = OutputStreaming \<or> ot_state (as_worker s) = OutputDraining) \<and>
    (ig_state (as_client s) = IngressStreaming \<or> ig_state (as_client s) = IngressDraining)")
  case True
  then show thesis
    by (cases "ingress_releaseSamples samples (as_client s)")
      (auto intro: refused accepted simp: onSamplesConsumed_def ensureActive_def output_terminal_def Let_def)
next
  case False
  then show thesis by (intro refused) (auto simp: onSamplesConsumed_def ensureActive_def Let_def)
qed

lemma onWorkerMessage_cases:
  obtains (refused) e where "onWorkerMessage pj raw s = (Inl e, s)"
  | (accepted) m w where "parseAsrControlFrame pj raw FromWorker = Inr m" "asr_typed FromWorker m"
      "\<not> worker_message_refused m s" "output_message m (as_worker s) = Inr w"
      "onWorkerMessage pj raw s = (Inr m, s\<lparr>as_worker := w\<rparr>)"
proof (cases "parseAsrControlFrame pj raw FromWorker")
  case (Inl e)
  then show thesis by (intro refused) (simp add: onWorkerMessage_def)
next
  case (Inr m)
  note typed = parsed_control [OF Inr]
  show thesis
  proof (cases "worker_message_refused m s")
    case True
    with Inr show thesis by (intro refused) (simp add: onWorkerMessage_def)
  next
    case False
    then have "\<not> output_terminal (ot_state (as_worker s))" by (simp add: worker_message_refused_def Let_def)
    with Inr False typed show thesis
      by (cases "output_message m (as_worker s)")
        (auto intro: refused accepted simp: onWorkerMessage_def output_onMessage_def)
  qed
qed

lemma refused_unchanged: "asr_apply pj event s = (Inl e, s') \<Longrightarrow> s' = s"
proof (cases event)
  case (ClientControl raw)
  assume "asr_apply pj event s = (Inl e, s')"
  with ClientControl show ?thesis by (cases pj raw s rule: onClientControl_cases) (auto simp: asr_apply_def)
next
  case (ClientAudio frame)
  assume "asr_apply pj event s = (Inl e, s')"
  with ClientAudio show ?thesis by (cases frame s rule: onClientAudio_cases) (auto simp: asr_apply_def)
next
  case (SamplesConsumed samples)
  assume "asr_apply pj event s = (Inl e, s')"
  with SamplesConsumed show ?thesis by (cases samples s rule: onSamplesConsumed_cases) (auto simp: asr_apply_def)
next
  case (WorkerMessage raw)
  assume "asr_apply pj event s = (Inl e, s')"
  with WorkerMessage show ?thesis by (cases pj raw s rule: onWorkerMessage_cases) (auto simp: asr_apply_def)
next
  case Disconnected
  assume "asr_apply pj event s = (Inl e, s')"
  with Disconnected show ?thesis by (simp add: asr_apply_def onDisconnected_def Let_def)
qed

text \<open>An accepted event, by the operation that took it.\<close>

lemma accepted_cases:
  assumes "asr_apply pj event s = (Inr reply, s')"
  obtains (control) m state g w where "asr_typed FromClient m" "ensureActive s = Inr state"
      "\<not> client_control_refused m state (as_client s)" "ingress_control m (as_client s) = Inr g"
      "tell_worker m (as_worker s) = Inr w" "reply = Message m" "s' = s\<lparr>as_client := g, as_worker := w\<rparr>"
  | (audio) frame a g where "ot_state (as_worker s) = OutputStreaming" "ig_state (as_client s) = IngressStreaming"
      "ingress_onAudio frame (as_client s) = Inr (a, g)" "reply = Audio a" "s' = s\<lparr>as_client := g\<rparr>"
  | (consumed) samples g where "ot_state (as_worker s) = OutputStreaming \<or> ot_state (as_worker s) = OutputDraining"
      "ig_state (as_client s) = IngressStreaming \<or> ig_state (as_client s) = IngressDraining"
      "ingress_releaseSamples samples (as_client s) = Inr g" "reply = Consumed (consumedSamples s')" "s' = s\<lparr>as_client := g\<rparr>"
  | (worker) m w where "asr_typed FromWorker m" "\<not> worker_message_refused m s"
      "output_message m (as_worker s) = Inr w" "reply = Message m" "s' = s\<lparr>as_worker := w\<rparr>"
  | (disconnected) "reply = Ended (ot_state (output_onDisconnected (as_worker s)))"
      "s' = s\<lparr>as_worker := output_onDisconnected (as_worker s)\<rparr>"
proof (cases event)
  case (ClientControl raw)
  with assms show thesis by (cases pj raw s rule: onClientControl_cases) (auto simp: asr_apply_def intro: control)
next
  case (ClientAudio frame)
  with assms show thesis by (cases frame s rule: onClientAudio_cases) (auto simp: asr_apply_def intro: audio)
next
  case (SamplesConsumed samples)
  with assms show thesis by (cases samples s rule: onSamplesConsumed_cases) (auto simp: asr_apply_def intro: consumed)
next
  case (WorkerMessage raw)
  with assms show thesis by (cases pj raw s rule: onWorkerMessage_cases) (auto simp: asr_apply_def intro: worker)
next
  case Disconnected
  with assms show thesis by (auto simp: asr_apply_def onDisconnected_def Let_def intro: disconnected)
qed

section \<open>What the replies add up to\<close>

definition audios :: "asr_reply list \<Rightarrow> asr_audio list" where
  "audios tr = [a. Audio a \<leftarrow> tr]"

definition finals :: "asr_reply list \<Rightarrow> asr_segment list" where
  "finals tr = [g. Message (AsrFinal g text) \<leftarrow> tr]"

text \<open>Audio frames that follow each other: the sequence number and the sample offset after them.\<close>

fun gapless :: "int \<Rightarrow> int \<Rightarrow> asr_audio list \<Rightarrow> (int \<times> int) option" where
  "gapless n k [] = Some (n, k)"
| "gapless n k (a # as) =
     (if au_sequence a = n \<and> au_sampleOffset a = k then gapless (n + 1) (k + au_sampleCount a) as else None)"

text \<open>Final segments that follow each other without overlap: the last identifier and the last sample.\<close>

fun transcript :: "int \<Rightarrow> int \<Rightarrow> asr_segment list \<Rightarrow> (int \<times> int) option" where
  "transcript n k [] = Some (n, k)"
| "transcript n k (g # gs) =
     (if sg_segmentId g = n + 1 \<and> k \<le> sg_startSample g \<and> sg_startSample g < sg_endSample g
      then transcript (n + 1) (sg_endSample g) gs else None)"

lemma gapless_snoc:
  "gapless n k (as @ [a]) =
     (case gapless n k as of
        Some (n', k') \<Rightarrow> if au_sequence a = n' \<and> au_sampleOffset a = k' then Some (n' + 1, k' + au_sampleCount a) else None
      | None \<Rightarrow> None)"
  by (induction n k as rule: gapless.induct) auto

lemma transcript_snoc:
  "transcript n k (gs @ [g]) =
     (case transcript n k gs of
        Some (n', k') \<Rightarrow>
          if sg_segmentId g = n' + 1 \<and> k' \<le> sg_startSample g \<and> sg_startSample g < sg_endSample g
          then Some (n' + 1, sg_endSample g) else None
      | None \<Rightarrow> None)"
  by (induction n k gs rule: transcript.induct) auto

lemma replies_snoc:
  "audios (tr @ [r]) = audios tr @ (case r of Audio a \<Rightarrow> [a] | _ \<Rightarrow> [])"
  "finals (tr @ [r]) = finals tr @ (case r of Message (AsrFinal g text) \<Rightarrow> [g] | _ \<Rightarrow> [])"
  by (simp_all add: audios_def finals_def split: asr_reply.split asr_control.split)

section \<open>The invariant of a session\<close>

text \<open>The states the two sides can be in together.\<close>

definition phases_ok :: "asr_session \<Rightarrow> bool" where
  "phases_ok s =
     (ot_state (as_worker s) \<in>
       (case ig_state (as_client s) of
          AwaitingStart \<Rightarrow> {OutputAwaitingModelReady, OutputStreaming, OutputFailed, OutputInterrupted}
        | IngressStreaming \<Rightarrow> {OutputStreaming, OutputFailed, OutputInterrupted}
        | IngressDraining \<Rightarrow> {OutputDraining, OutputCompleted, OutputFailed, OutputInterrupted}
        | IngressCancelled \<Rightarrow> {OutputCancelling, OutputCancelled, OutputFailed, OutputInterrupted}))"

definition segments_ok :: "asr_reply list \<Rightarrow> asr_session \<Rightarrow> bool" where
  "segments_ok tr s =
     (let w = as_worker s in
      transcript 0 0 (finals tr) = Some (ot_lastFinalSegmentId w, ot_lastFinalEndSample w) \<and>
      ot_lastFinalSegmentId w \<le> ASR_MAX_SEGMENTS \<and> ot_lastFinalEndSample w \<le> consumedSamples s \<and>
      (case ot_activeSegment w of
         None \<Rightarrow> True
       | Some a \<Rightarrow> sg_segmentId a = ot_lastFinalSegmentId w + 1 \<and> ot_lastFinalEndSample w \<le> sg_startSample a \<and>
           sg_startSample a < sg_endSample a \<and> sg_endSample a \<le> consumedSamples s))"

definition audio_ok :: "asr_reply list \<Rightarrow> asr_session \<Rightarrow> bool" where
  "audio_ok tr s =
     (ingress_ok (as_client s) \<and>
      gapless 0 0 (audios tr) = Some (ig_nextSequence (as_client s), ig_nextSampleOffset (as_client s)))"

definition drain_ok :: "asr_reply list \<Rightarrow> asr_session \<Rightarrow> bool" where
  "drain_ok tr s =
     ((ig_state (as_client s) = IngressDraining \<longrightarrow>
        ot_inputEndSequence (as_worker s) = Some (ig_nextSequence (as_client s) - 1) \<and>
        Message (AsrEnd (ig_nextSequence (as_client s) - 1)) \<in> set tr) \<and>
      (ot_state (as_worker s) = OutputCompleted \<longrightarrow>
        ig_queuedSamples (as_client s) = 0 \<and> ot_activeSegment (as_worker s) = None) \<and>
      (\<forall>n. Message (AsrCompleted n) \<in> set tr \<longrightarrow>
        ot_state (as_worker s) = OutputCompleted \<and> n = ig_nextSequence (as_client s) - 1))"

lemma output_hypothesis_keeps:
  "output_hypothesis g w = Inr w' \<Longrightarrow> ot_state w' = ot_state w \<and> ot_inputEndSequence w' = ot_inputEndSequence w \<and>
     ot_lastFinalSegmentId w' = ot_lastFinalSegmentId w \<and> ot_lastFinalEndSample w' = ot_lastFinalEndSample w"
  by (auto simp: output_hypothesis_def split: if_splits option.splits)

lemma output_hypothesis_active:
  assumes "output_hypothesis g w = Inr w'"
  shows "sg_segmentId g = ot_lastFinalSegmentId w + 1" "sg_segmentId g \<le> ASR_MAX_SEGMENTS"
    "ot_lastFinalEndSample w \<le> sg_startSample g" "ot_state w = OutputStreaming \<or> ot_state w = OutputDraining"
    "\<exists>a. ot_activeSegment w' = Some a \<and> sg_segmentId a = sg_segmentId g \<and> sg_revision a = sg_revision g \<and>
       sg_startSample a = sg_startSample g \<and> sg_endSample a = sg_endSample g"
  using assms by (auto simp: output_hypothesis_def split: if_splits option.splits)

lemma apply_phases:
  assumes "asr_apply pj event s = (Inr reply, s')" and "phases_ok s"
  shows "phases_ok s'"
  using assms(1)
proof (cases rule: accepted_cases)
  case (control m state g w)
  with assms(2) show ?thesis
    by (cases m; cases "ig_state (as_client s)")
      (auto simp: phases_ok_def ingress_control_def tell_worker_def output_onClientEnd_def output_onClientCancel_def
        client_control_refused_def ensureActive_def output_terminal_def Let_def asr_typed_def split: if_splits)
next
  case (audio frame a g)
  with assms(2) show ?thesis by (auto simp: phases_ok_def ingress_onAudio_def result_simps split: if_splits)
next
  case (consumed samples g)
  with assms(2) show ?thesis by (auto simp: phases_ok_def ingress_releaseSamples_def result_simps)
next
  case (worker m w)
  with assms(2) show ?thesis
    by (cases m; cases "ig_state (as_client s)")
      (auto simp: phases_ok_def output_message_def worker_message_refused_def Let_def asr_typed_def result_simps
        split: if_splits dest!: output_hypothesis_keeps)
next
  case disconnected
  with assms(2) show ?thesis
    by (auto simp: phases_ok_def output_onDisconnected_def output_terminal_def split: ingress_state.splits)
qed

lemma apply_audio:
  assumes "asr_apply pj event s = (Inr reply, s')" and "audio_ok tr s"
  shows "audio_ok (tr @ [reply]) s'"
  using assms(1)
proof (cases rule: accepted_cases)
  case (control m state g w)
  have "ig_nextSequence g = ig_nextSequence (as_client s)" "ig_nextSampleOffset g = ig_nextSampleOffset (as_client s)"
    using control(4) by (auto simp: ingress_control_def split: asr_control.splits if_splits)
  with control ingress_control_ok [OF control(4)] assms(2) show ?thesis by (simp add: audio_ok_def replies_snoc)
next
  case (audio frame a g)
  then have "ig_nextSequence g = ig_nextSequence (as_client s) + 1" "au_sequence a = ig_nextSequence (as_client s)"
    "ig_nextSampleOffset g = ig_nextSampleOffset (as_client s) + au_sampleCount a"
    "au_sampleOffset a = ig_nextSampleOffset (as_client s)"
    by (auto simp: ingress_onAudio_def result_simps split: if_splits dest: decoded_audio)
  with audio ingress_onAudio_ok [OF audio(3)] assms(2) show ?thesis
    by (simp add: audio_ok_def replies_snoc gapless_snoc)
next
  case (consumed samples g)
  have "ig_nextSequence g = ig_nextSequence (as_client s)" "ig_nextSampleOffset g = ig_nextSampleOffset (as_client s)"
    using consumed(3) by (auto simp: ingress_releaseSamples_def result_simps)
  with consumed ingress_releaseSamples_ok [OF consumed(3)] assms(2) show ?thesis by (simp add: audio_ok_def replies_snoc)
next
  case (worker m w)
  with assms(2) show ?thesis by (simp add: audio_ok_def replies_snoc)
next
  case disconnected
  with assms(2) show ?thesis by (simp add: audio_ok_def replies_snoc)
qed

lemma tell_worker_keeps:
  "tell_worker m w = Inr w' \<Longrightarrow> ot_lastFinalSegmentId w' = ot_lastFinalSegmentId w \<and>
     ot_lastFinalEndSample w' = ot_lastFinalEndSample w \<and> ot_activeSegment w' = ot_activeSegment w"
  by (auto simp: tell_worker_def output_onClientEnd_def output_onClientCancel_def split: asr_control.splits if_splits)

lemma output_onDisconnected_keeps:
  "ot_lastFinalSegmentId (output_onDisconnected w) = ot_lastFinalSegmentId w"
  "ot_lastFinalEndSample (output_onDisconnected w) = ot_lastFinalEndSample w"
  "ot_activeSegment (output_onDisconnected w) = ot_activeSegment w"
  "ot_inputEndSequence (output_onDisconnected w) = ot_inputEndSequence w"
  "ot_state (output_onDisconnected w) = (if output_terminal (ot_state w) then ot_state w else OutputInterrupted)"
  by (simp_all add: output_onDisconnected_def)

lemma segments_ok_later:
  assumes "segments_ok tr s" and "finals tr' = finals tr" and "consumedSamples s \<le> consumedSamples s'"
    and "ot_lastFinalSegmentId (as_worker s') = ot_lastFinalSegmentId (as_worker s)"
    and "ot_lastFinalEndSample (as_worker s') = ot_lastFinalEndSample (as_worker s)"
    and "ot_activeSegment (as_worker s') = ot_activeSegment (as_worker s)"
  shows "segments_ok tr' s'"
  using assms by (auto simp: segments_ok_def Let_def split: option.splits)

lemma hypothesis_segments:
  assumes "segments_ok tr s" and "output_hypothesis g (as_worker s) = Inr w" and "sg_startSample g < sg_endSample g"
    and "sg_endSample g \<le> consumedSamples s" and "finals tr' = finals tr"
  shows "segments_ok tr' (s\<lparr>as_worker := w\<rparr>)"
  using assms output_hypothesis_active [OF assms(2)] output_hypothesis_keeps [OF assms(2)]
  by (auto simp: segments_ok_def consumedSamples_def Let_def)

lemma final_segments:
  assumes "segments_ok tr s" and "output_hypothesis g (as_worker s) = Inr w" and "sg_startSample g < sg_endSample g"
    and "sg_endSample g \<le> consumedSamples s" and "finals tr' = finals tr @ [g]"
  shows "segments_ok tr' (s\<lparr>as_worker := w\<lparr>ot_lastFinalSegmentId := sg_segmentId g,
    ot_lastFinalEndSample := sg_endSample g, ot_activeSegment := None\<rparr>\<rparr>)"
  using assms output_hypothesis_active [OF assms(2)]
  by (auto simp: segments_ok_def consumedSamples_def transcript_snoc Let_def)

lemma apply_segments:
  assumes "asr_apply pj event s = (Inr reply, s')" and "segments_ok tr s"
  shows "segments_ok (tr @ [reply]) s'"
  using assms(1)
proof (cases rule: accepted_cases)
  case (control m state g w)
  have "consumedSamples s' = consumedSamples s"
    using control(4,7) by (auto simp: ingress_control_def consumedSamples_def split: asr_control.splits if_splits)
  moreover have "finals (tr @ [reply]) = finals tr"
    using control(1,6) by (auto simp: replies_snoc asr_typed_def split: asr_control.splits)
  ultimately show ?thesis
    using control(7) tell_worker_keeps [OF control(5)] by (intro segments_ok_later [OF assms(2)]) simp_all
next
  case (audio frame a g)
  then have "consumedSamples s' = consumedSamples s"
    by (auto simp: ingress_onAudio_def consumedSamples_def result_simps split: if_splits)
  with audio show ?thesis by (intro segments_ok_later [OF assms(2)]) (simp_all add: replies_snoc)
next
  case (consumed samples g)
  then have "consumedSamples s \<le> consumedSamples s'"
    by (auto simp: ingress_releaseSamples_def consumedSamples_def result_simps)
  with consumed show ?thesis by (intro segments_ok_later [OF assms(2)]) (simp_all add: replies_snoc)
next
  case (worker m w)
  have same: "consumedSamples s' = consumedSamples s" using worker(5) by (simp add: consumedSamples_def)
  show ?thesis
  proof (cases m)
    case (AsrPartial g t)
    with worker have "output_hypothesis g (as_worker s) = Inr w" "sg_startSample g < sg_endSample g"
        "sg_endSample g \<le> consumedSamples s" "finals (tr @ [reply]) = finals tr"
      by (auto simp: output_message_def asr_typed_def asr_segment_ok_def worker_message_refused_def Let_def replies_snoc)
    from hypothesis_segments [OF assms(2) this] worker(5) show ?thesis by simp
  next
    case (AsrFinal g t)
    with worker obtain w' where h: "output_hypothesis g (as_worker s) = Inr w'"
        and w: "w = w'\<lparr>ot_lastFinalSegmentId := sg_segmentId g, ot_lastFinalEndSample := sg_endSample g, ot_activeSegment := None\<rparr>"
      by (auto simp: output_message_def result_simps)
    from AsrFinal worker have "sg_startSample g < sg_endSample g"
        "sg_endSample g \<le> consumedSamples s" "finals (tr @ [reply]) = finals tr @ [g]"
      by (auto simp: asr_typed_def asr_segment_ok_def worker_message_refused_def Let_def replies_snoc)
    from final_segments [OF assms(2) h this] show ?thesis unfolding worker(5) w .
  qed (insert worker same, auto simp: output_message_def replies_snoc split: if_splits intro!: segments_ok_later [OF assms(2)])
next
  case disconnected
  then show ?thesis
    by (intro segments_ok_later [OF assms(2)]) (simp_all add: replies_snoc output_onDisconnected_keeps consumedSamples_def)
qed

lemma apply_drain:
  assumes "asr_apply pj event s = (Inr reply, s')" and "drain_ok tr s" and "phases_ok s"
  shows "drain_ok (tr @ [reply]) s'"
  using assms(1)
proof (cases rule: accepted_cases)
  case (control m state g w)
  with assms(2) show ?thesis
    by (cases m)
      (auto simp: drain_ok_def ingress_control_def tell_worker_def output_onClientEnd_def output_onClientCancel_def
        client_control_refused_def ensureActive_def output_terminal_def Let_def asr_typed_def split: if_splits)
next
  case (audio frame a g)
  with assms(2) show ?thesis by (auto simp: drain_ok_def ingress_onAudio_def result_simps split: if_splits)
next
  case (consumed samples g)
  with assms(2) show ?thesis by (auto simp: drain_ok_def ingress_releaseSamples_def result_simps)
next
  case (worker m w)
  with assms(2,3) show ?thesis
    by (cases m)
      (auto simp: drain_ok_def output_message_def worker_message_refused_def output_terminal_def Let_def asr_typed_def
        result_simps split: if_splits dest!: output_hypothesis_keeps)
next
  case disconnected
  with assms(2) show ?thesis by (auto simp: drain_ok_def output_onDisconnected_keeps output_terminal_def)
qed

definition session_ok :: "asr_reply list \<Rightarrow> asr_session \<Rightarrow> bool" where
  "session_ok tr s = (phases_ok s \<and> audio_ok tr s \<and> segments_ok tr s \<and> drain_ok tr s)"

lemma created_worker:
  "createAsrWorkerOutput modelId revision = Inr w \<Longrightarrow> \<exists>model pinned.
     w = \<lparr>ot_modelId = model, ot_revision = pinned, ot_state = OutputAwaitingModelReady, ot_inputEndSequence = None,
       ot_lastFinalSegmentId = 0, ot_lastFinalEndSample = 0, ot_activeSegment = None\<rparr>"
  unfolding createAsrWorkerOutput_def and_then_Inr by (elim exE conjE) (auto split: asr_control.splits)

lemma run_session_ok: "asr_run pj modelId revision tr s \<Longrightarrow> session_ok tr s"
proof (induction rule: asr_run.induct)
  case (created s)
  then show ?case
    by (auto simp: createAsrSessionCoordinator_def createAsrClientIngress_def and_then_Inr dest!: created_worker
        simp: session_ok_def phases_ok_def audio_ok_def segments_ok_def drain_ok_def ingress_ok_def audios_def finals_def
        consumedSamples_def ASR_MAX_SEGMENTS_def ASR_MAX_QUEUED_SAMPLES_def ASR_MAX_SESSION_SAMPLES_def)
next
  case (accepted tr s event reply s')
  then show ?case
    unfolding session_ok_def by (blast intro: apply_phases apply_audio apply_segments apply_drain)
next
  case (refused tr s event e s')
  then show ?case by (auto dest: refused_unchanged)
qed

lemma session_started: "createAsrSessionCoordinator modelId revision = Inr s \<Longrightarrow> asr_apply pj event s = (Inr reply, s') \<Longrightarrow>
    asr_run pj modelId revision [reply] s'"
  using asr_run.accepted [OF asr_run.created] by force

lemma transcript_facts:
  "transcript n k gs = Some (n', k') \<Longrightarrow>
     map sg_segmentId gs = map (\<lambda>i. n + 1 + int i) [0..<length gs] \<and> n' = n + int (length gs) \<and> k \<le> k' \<and>
     (\<forall>g \<in> set gs. k \<le> sg_startSample g \<and> sg_startSample g < sg_endSample g \<and> sg_endSample g \<le> k') \<and>
     sorted_wrt (\<lambda>g h. sg_endSample g \<le> sg_startSample h) gs"
proof (induction n k gs rule: transcript.induct)
  case (2 n k g gs)
  from 2(2) have g: "sg_segmentId g = n + 1" "k \<le> sg_startSample g" "sg_startSample g < sg_endSample g"
    and t: "transcript (n + 1) (sg_endSample g) gs = Some (n', k')" by (auto split: if_splits)
  have ids: "map (\<lambda>i. n + 1 + int i) [0..<length (g # gs)] = (n + 1) # map (\<lambda>i. n + 1 + 1 + int i) [0..<length gs]"
    by (simp add: upt_conv_Cons map_Suc_upt [symmetric] comp_def ac_simps del: upt_Suc)
  from 2(1) [OF _ t] g show ?case unfolding ids by fastforce
qed auto

lemma gapless_facts:
  "gapless n k as = Some (n', k') \<Longrightarrow>
     map au_sequence as = map (\<lambda>i. n + int i) [0..<length as] \<and> n' = n + int (length as) \<and>
     k' = k + sum_list (map au_sampleCount as)"
proof (induction n k as rule: gapless.induct)
  case (2 n k a as)
  have ids: "map (\<lambda>i. n + int i) [0..<length (a # as)] = n # map (\<lambda>i. n + 1 + int i) [0..<length as]"
    by (simp add: upt_conv_Cons map_Suc_upt [symmetric] comp_def ac_simps del: upt_Suc)
  from 2 show ?case unfolding ids by (auto split: if_splits)
qed simp

section \<open>Guarantees\<close>

text \<open>
  C37. A control frame that is accepted has at most 16384 bytes, was sent in its direction and has
  every field in its range (identifiers, sample positions, text size, the grammars of the model and
  its revision, the known error codes); what the source reads of it, written as JSON, is accepted
  as the same frame.
\<close>

theorem asr_control_typed:
  assumes "parseAsrControlFrame parse_json raw direction = Inr m"
  shows "utf8_length raw \<le> ASR_MAX_CONTROL_BYTES \<and> asr_typed direction m \<and> asr_control_value direction (asr_json m) = Inr m"
  using assms parsed_control [OF assms] asr_control_value_json [OF parsed_control [OF assms]]
  by (auto simp: parseAsrControlFrame_def split: if_splits)

text \<open>
  C40. An operation of the coordinator that throws leaves the session as it was, on both sides; once
  the worker's side has ended nothing changes it, and only a disconnection is answered.
\<close>

theorem asr_refusals:
  assumes "asr_apply parse_json event s = (r, s')"
  shows "case r of
      Inl e \<Rightarrow> s' = s
    | Inr reply \<Rightarrow> output_terminal (ot_state (as_worker s)) \<longrightarrow> s' = s \<and> reply = Ended (ot_state (as_worker s))"
proof (cases r)
  case (Inl e)
  with assms show ?thesis by (simp add: refused_unchanged)
next
  case (Inr reply)
  from assms [unfolded Inr] show ?thesis unfolding Inr
    by (cases rule: accepted_cases)
      (auto simp: ensureActive_def worker_message_refused_def output_terminal_def output_onDisconnected_def Let_def)
qed

text \<open>
  C38. In every session the final segments that were accepted have the identifiers 1, 2, 3, ..., at
  most 10000 of them, do not overlap, and end within the samples that were consumed; the audio
  frames that were accepted have the sequence numbers 0, 1, 2, ..., each begins at the sample at
  which the one before it ended, and at most 32000 of their samples are queued.
\<close>

theorem asr_transcript:
  assumes "asr_run parse_json modelId revision tr s"
  shows "map sg_segmentId (finals tr) = map (\<lambda>i. 1 + int i) [0..<length (finals tr)] \<and>
    int (length (finals tr)) \<le> ASR_MAX_SEGMENTS \<and>
    sorted_wrt (\<lambda>g h. sg_endSample g \<le> sg_startSample h) (finals tr) \<and>
    list_all (\<lambda>g. 0 \<le> sg_startSample g \<and> sg_startSample g < sg_endSample g \<and> sg_endSample g \<le> consumedSamples s) (finals tr) \<and>
    map au_sequence (audios tr) = map int [0..<length (audios tr)] \<and>
    gapless 0 0 (audios tr) = Some (int (length (audios tr)), sum_list (map au_sampleCount (audios tr))) \<and>
    consumedSamples s = sum_list (map au_sampleCount (audios tr)) - ig_queuedSamples (as_client s) \<and>
    0 \<le> ig_queuedSamples (as_client s) \<and> ig_queuedSamples (as_client s) \<le> ASR_MAX_QUEUED_SAMPLES"
proof -
  from run_session_ok [OF assms] have ok: "audio_ok tr s" "segments_ok tr s" by (simp_all add: session_ok_def)
  from ok(1) have g: "gapless 0 0 (audios tr) = Some (ig_nextSequence (as_client s), ig_nextSampleOffset (as_client s))"
    and i: "ingress_ok (as_client s)" by (simp_all add: audio_ok_def)
  from ok(2) have t: "transcript 0 0 (finals tr) = Some (ot_lastFinalSegmentId (as_worker s), ot_lastFinalEndSample (as_worker s))"
    and b: "ot_lastFinalSegmentId (as_worker s) \<le> ASR_MAX_SEGMENTS" "ot_lastFinalEndSample (as_worker s) \<le> consumedSamples s"
    by (simp_all add: segments_ok_def Let_def)
  from transcript_facts [OF t] gapless_facts [OF g] g i b show ?thesis
    by (force simp: ingress_ok_def consumedSamples_def list_all_iff)
qed

text \<open>
  C39. When the completion of a session was accepted the client had ended its input with that last
  sequence number, which is the number of frames received less one, every sample received was
  consumed, no segment is left open, and the session stays completed.
\<close>

theorem asr_completion:
  assumes "asr_run parse_json modelId revision tr s" and "Message (AsrCompleted n) \<in> set tr"
  shows "Message (AsrEnd n) \<in> set tr \<and> int (length (audios tr)) = n + 1 \<and>
    consumedSamples s = sum_list (map au_sampleCount (audios tr)) \<and> ot_activeSegment (as_worker s) = None \<and>
    ot_state (as_worker s) = OutputCompleted"
proof -
  from run_session_ok [OF assms(1)] have ok: "phases_ok s" "audio_ok tr s" "drain_ok tr s" by (simp_all add: session_ok_def)
  from ok(3) assms(2) have fin: "ot_state (as_worker s) = OutputCompleted" "n = ig_nextSequence (as_client s) - 1"
    "ig_queuedSamples (as_client s) = 0" "ot_activeSegment (as_worker s) = None" by (auto simp: drain_ok_def)
  with ok(1) have "ig_state (as_client s) = IngressDraining" by (auto simp: phases_ok_def split: ingress_state.splits)
  with ok(3) fin have "Message (AsrEnd n) \<in> set tr" by (simp add: drain_ok_def)
  moreover from ok(2) have g: "gapless 0 0 (audios tr) = Some (ig_nextSequence (as_client s), ig_nextSampleOffset (as_client s))"
    by (simp add: audio_ok_def)
  ultimately show ?thesis using fin gapless_facts [OF g] by (simp add: consumedSamples_def)
qed

section \<open>A session\<close>

definition demo_revision :: string where
  "demo_revision = replicate 40 (CHR ''0'')"

definition demo_segment :: asr_segment where
  "demo_segment = \<lparr>sg_segmentId = 1, sg_revision = 1, sg_startSample = 0, sg_endSample = 1\<rparr>"

definition demo_parse :: "string \<Rightarrow> jsval option" where
  "demo_parse raw =
     (if raw = ''ready'' then Some (asr_json (AsrModelReady ''m'' demo_revision))
      else if raw = ''start'' then Some (asr_json AsrStart)
      else if raw = ''end'' then Some (asr_json (AsrEnd 0))
      else if raw = ''final'' then Some (asr_json (AsrFinal demo_segment ''hi''))
      else if raw = ''completed'' then Some (asr_json (AsrCompleted 0))
      else None)"

definition demo_frame :: string where
  "demo_frame = ''ASR1'' @ tl (tl (tl (tl masked_frame)))"

definition demo_audio :: asr_audio where
  "demo_audio = \<lparr>au_sequence = 0, au_sampleOffset = 0, au_sampleCount = 1, au_pcm = ''xy''\<rparr>"

definition demo_replies :: "asr_reply list" where
  "demo_replies = [Message (AsrModelReady ''m'' demo_revision), Message AsrStart, Audio demo_audio, Consumed 1,
     Message (AsrEnd 0), Message (AsrFinal demo_segment ''hi''), Message (AsrCompleted 0)]"

definition demo_session :: asr_session where
  "demo_session =
     \<lparr>as_client = \<lparr>ig_state = IngressDraining, ig_nextSequence = 1, ig_nextSampleOffset = 1, ig_queuedSamples = 0\<rparr>,
      as_worker = \<lparr>ot_modelId = ''m'', ot_revision = demo_revision, ot_state = OutputCompleted, ot_inputEndSequence = Some 0,
        ot_lastFinalSegmentId = 1, ot_lastFinalEndSample = 1, ot_activeSegment = None\<rparr>\<rparr>"

lemma demo_controls:
  "parseAsrControlFrame demo_parse ''ready'' FromWorker = Inr (AsrModelReady ''m'' demo_revision)"
  "parseAsrControlFrame demo_parse ''start'' FromClient = Inr AsrStart"
  "parseAsrControlFrame demo_parse ''end'' FromClient = Inr (AsrEnd 0)"
  "parseAsrControlFrame demo_parse ''final'' FromWorker = Inr (AsrFinal demo_segment ''hi'')"
  "parseAsrControlFrame demo_parse ''completed'' FromWorker = Inr (AsrCompleted 0)"
  by (simp_all add: parseAsrControlFrame_def utf8_length_def ASR_MAX_CONTROL_BYTES_def demo_parse_def asr_control_value_json
      asr_typed_def UINT32_MAX_def asr_model_id_def is_alnum_def asr_revision_def demo_revision_def list_all_iff is_digit_def
      asr_segment_ok_def demo_segment_def ASR_MAX_SESSION_SAMPLES_def ASR_MAX_TRANSCRIPT_BYTES_def)

lemma demo_frame_decoded: "decodeAsrAudioFrame demo_frame 0 0 = Inr demo_audio"
  by (simp add: demo_frame_def masked_frame_def decodeAsrAudioFrame_def ASR_AUDIO_HEADER_BYTES_def validateDataPlaneFrameSize_def
      max_safe_integer_def DATA_PLANE_MAX_FRAME_BYTES_def ascii_def char_of_def bit_0 Let_def UINT32_MAX_def
      ASR_MAX_SESSION_SAMPLES_def readUInt32LE_def ASR_MAX_FRAME_SAMPLES_def demo_audio_def)

lemmas asr_evaluation = asr_apply_def onClientControl_def onClientAudio_def onSamplesConsumed_def onWorkerMessage_def
  demo_controls demo_frame_decoded ensureActive_def client_control_refused_def worker_message_refused_def ingress_onControl_def
  ingress_control_def tell_worker_def output_onClientEnd_def output_onMessage_def output_message_def output_hypothesis_def
  ingress_onAudio_def ingress_releaseSamples_def asr_uint_def consumedSamples_def output_terminal_def UINT32_MAX_def
  ASR_MAX_QUEUED_SAMPLES_def ASR_MAX_SEGMENTS_def max_safe_integer_def Let_def

definition demo_fresh :: asr_session where
  "demo_fresh = \<lparr>as_client = createAsrClientIngress,
     as_worker = \<lparr>ot_modelId = ''m'', ot_revision = demo_revision, ot_state = OutputAwaitingModelReady, ot_inputEndSequence = None,
       ot_lastFinalSegmentId = 0, ot_lastFinalEndSample = 0, ot_activeSegment = None\<rparr>\<rparr>"

lemma demo_created: "createAsrSessionCoordinator (JStr ''m'') (JStr demo_revision) = Inr demo_fresh"
proof -
  have "asr_typed FromWorker (AsrModelReady ''m'' demo_revision)" using demo_controls(1) by (rule parsed_control)
  from asr_control_value_json [OF this] show ?thesis
    by (simp add: createAsrSessionCoordinator_def createAsrWorkerOutput_def asr_json_def demo_fresh_def)
qed

text \<open>The replies to a list of events.\<close>

fun asr_replies :: "(string \<Rightarrow> jsval option) \<Rightarrow> asr_event list \<Rightarrow> asr_session \<Rightarrow> asr_reply list \<times> asr_session" where
  "asr_replies parse_json [] s = ([], s)"
| "asr_replies parse_json (event # events) s =
     (case asr_apply parse_json event s of
        (Inr reply, s') \<Rightarrow> apfst ((#) reply) (asr_replies parse_json events s')
      | (Inl e, s') \<Rightarrow> asr_replies parse_json events s')"

lemma run_asr_replies:
  "asr_run pj modelId revision tr s \<Longrightarrow> asr_replies pj events s = (replies, s') \<Longrightarrow> asr_run pj modelId revision (tr @ replies) s'"
proof (induction events arbitrary: tr s replies)
  case (Cons event events)
  show ?case
  proof (cases "asr_apply pj event s")
    case (Pair r t)
    show ?thesis
    proof (cases r)
      case (Inl e)
      with Cons Pair asr_run.refused [of pj modelId revision tr s event e t] show ?thesis by simp
    next
      case (Inr reply)
      with Cons(3) Pair obtain rs where "asr_replies pj events t = (rs, s')" "replies = reply # rs"
        by (auto simp: apfst_def map_prod_def split: prod.splits)
      with Cons(1) asr_run.accepted [OF Cons(2)] Pair Inr show ?thesis by fastforce
    qed
  qed
qed simp

definition demo_events :: "asr_event list" where
  "demo_events = [WorkerMessage ''ready'', ClientControl ''start'', ClientAudio demo_frame, SamplesConsumed (JInt 1),
     ClientControl ''end'', WorkerMessage ''final'', WorkerMessage ''completed'']"

lemma demo_run: "asr_run demo_parse (JStr ''m'') (JStr demo_revision) demo_replies demo_session"
proof -
  have "asr_replies demo_parse demo_events demo_fresh = (demo_replies, demo_session)"
    by (simp add: demo_events_def demo_fresh_def createAsrClientIngress_def asr_evaluation demo_replies_def demo_session_def
        demo_audio_def demo_segment_def)
  from run_asr_replies [OF asr_run.created [OF demo_created] this] show ?thesis by simp
qed

theorem asr_control_typed_witness: "asr_typed FromWorker (AsrFinal demo_segment ''hi'')"
  using asr_control_typed [OF demo_controls(4)] by blast

theorem asr_refusals_witness: "asr_apply demo_parse (ClientControl ''start'') demo_fresh = (asr_reject, demo_fresh)"
proof -
  have r: "asr_apply demo_parse (ClientControl ''start'') demo_fresh =
      (asr_reject, snd (asr_apply demo_parse (ClientControl ''start'') demo_fresh))"
    by (simp add: demo_fresh_def createAsrClientIngress_def asr_evaluation)
  from asr_refusals [OF r] r show ?thesis by simp
qed

theorem asr_transcript_witness: "map sg_segmentId (finals demo_replies) = [1] \<and> consumedSamples demo_session = 1"
proof -
  have "finals demo_replies = [demo_segment]" "audios demo_replies = [demo_audio]"
    by (simp_all add: finals_def audios_def demo_replies_def)
  with asr_transcript [OF demo_run] show ?thesis by (simp add: demo_audio_def demo_session_def)
qed

theorem asr_completion_witness: "Message (AsrEnd 0) \<in> set demo_replies \<and> consumedSamples demo_session = 1"
proof -
  have "Message (AsrCompleted 0) \<in> set demo_replies" "audios demo_replies = [demo_audio]"
    by (simp_all add: demo_replies_def audios_def)
  with asr_completion [OF demo_run, of 0] show ?thesis by (simp add: demo_audio_def)
qed

end
