(* ===== verification/WorkerAdapters.thy ===== *)
theory WorkerAdapters
  imports Service DataPlane WorkloadContracts
begin

text \<open>
  What a worker can run and how it advertises it: the built-in adapters of
  \<^verbatim>\<open>src/worker/adapters.mjs\<close>, the session adapters of \<^verbatim>\<open>src/worker/session-adapters.mjs\<close>, and
  \<^verbatim>\<open>#refreshCapabilities\<close> of \<^verbatim>\<open>src/worker/agent.mjs\<close> that joins them into the manifests, reports and
  capabilities of a registration. What a readiness probe answers before its deadline is an argument.
  The property is that the control plane accepts what a worker advertises.
\<close>

section \<open>Built-in adapters\<close>

definition builtin_manifest :: "string \<Rightarrow> string \<Rightarrow> adapter_manifest" where
  "builtin_manifest type mode =
     \<lparr>am_schemaVersion = 1, am_type = type, am_adapterId = None, am_version = ''1.0.0'', am_executionMode = mode\<rparr>"

definition builtin_adapters :: "(string \<times> adapter_manifest) list" where
  "builtin_adapters =
     [(''diagnostic.echo'', builtin_manifest ''diagnostic.echo'' ''in-process''),
      (''diagnostic.gpu-status'', builtin_manifest ''diagnostic.gpu-status'' ''in-process''),
      (BENCHMARK_TYPE, builtin_manifest BENCHMARK_TYPE ''bounded-process'')]"

definition hasAdapter :: "string \<Rightarrow> bool" where
  "hasAdapter type = (map_of builtin_adapters type \<noteq> None)"

text \<open>The workload types in \<^verbatim>\<open>GPULINK_WORKER_CAPABILITIES\<close>, \<^verbatim>\<open>src/worker/config.mjs\<close>.\<close>

definition configured_capabilities :: "string option \<Rightarrow> string list" where
  "configured_capabilities environment =
     (let text = (case environment of None \<Rightarrow> [] | Some v \<Rightarrow> trim v) in
      js_sort str_cmp (js_set (filter (\<lambda>v. v \<noteq> [])
        (map trim (split_on CHR '','' (if text = [] then ''diagnostic.echo,diagnostic.gpu-status'' else text))))))"

record adapter_report =
  ar_capabilities :: "string list"
  ar_manifests :: "adapter_manifest list"
  ar_health :: "adapter_health list"

text \<open>Only the benchmark has a probe of its own; the others are ready when installed.\<close>

definition builtin_ready :: "bool \<Rightarrow> string \<Rightarrow> bool" where
  "builtin_ready benchmark type = (if type = BENCHMARK_TYPE then benchmark else hasAdapter type)"

fun resolve_items :: "bool \<Rightarrow> int \<Rightarrow> string list \<Rightarrow> adapter_report result" where
  "resolve_items benchmark checkedAt [] = Inr \<lparr>ar_capabilities = [], ar_manifests = [], ar_health = []\<rparr>"
| "resolve_items benchmark checkedAt (c # cs) =
     (case map_of builtin_adapters c of
        None \<Rightarrow>
          and_then (adapterHealthReport c ''not-installed'' (JInt checkedAt)) (\<lambda>h.
          and_then (resolve_items benchmark checkedAt cs) (\<lambda>r. Inr (r\<lparr>ar_health := h # ar_health r\<rparr>)))
      | Some m \<Rightarrow>
          if builtin_ready benchmark c then
            and_then (adapterHealthReport c ''ready'' (JInt checkedAt)) (\<lambda>h.
            and_then (resolve_items benchmark checkedAt cs) (\<lambda>r.
            Inr \<lparr>ar_capabilities = c # ar_capabilities r, ar_manifests = m # ar_manifests r, ar_health = h # ar_health r\<rparr>))
          else
            and_then (adapterHealthReport c ''unavailable'' (JInt checkedAt)) (\<lambda>h.
            and_then (resolve_items benchmark checkedAt cs) (\<lambda>r. Inr (r\<lparr>ar_health := h # ar_health r\<rparr>))))"

definition resolveAdapterHealth :: "string list \<Rightarrow> bool \<Rightarrow> int \<Rightarrow> adapter_report result" where
  "resolveAdapterHealth configuredCapabilities benchmark checkedAt =
     resolve_items benchmark checkedAt (js_sort str_cmp (js_set configuredCapabilities))"

section \<open>Session adapters\<close>

text \<open>An adapter object: its manifest, and whether its two methods are functions.\<close>

record session_adapter_item =
  si_manifest :: jsval
  si_handleSession :: bool
  si_readinessProbe :: bool

type_synonym session_adapters = "(string \<times> adapter_manifest) list"

fun registry_items :: "nat \<Rightarrow> session_adapter_item option list \<Rightarrow> session_adapters \<Rightarrow> session_adapters result" where
  "registry_items i [] registry = Inr registry"
| "registry_items i (None # items) registry = Inl (TypeError (item_name ''sessionAdapters'' i @ '' must be an object''))"
| "registry_items i (Some adapter # items) registry =
     and_then (validateAdapterManifest (si_manifest adapter) (item_name ''sessionAdapters'' i @ ''.manifest'')) (\<lambda>manifest.
     if am_schemaVersion manifest \<noteq> 2 \<or> am_executionMode manifest \<noteq> ''streaming-gateway''
     then Inl (TypeError ''session adapter requires a v2 streaming-gateway manifest'')
     else
       (let adapterId = the (am_adapterId manifest) in
        if \<not> si_handleSession adapter
        then Inl (TypeError (''session adapter '' @ adapterId @ '' requires handleSession handler''))
        else if \<not> si_readinessProbe adapter
        then Inl (TypeError (''session adapter '' @ adapterId @ '' requires readinessProbe''))
        else if adapterId \<in> set (map fst registry)
        then Inl (TypeError (''duplicate session adapter identity '' @ adapterId))
        else registry_items (Suc i) items (registry @ [(adapterId, manifest)])))"

definition createSessionAdapterRegistry ::
  "(string \<Rightarrow> string \<Rightarrow> int) \<Rightarrow> session_adapter_item option list option \<Rightarrow> session_adapters result" where
  "createSessionAdapterRegistry lc adapters =
     (let bad = Inl (TypeError ''sessionAdapters must be an array with at most 64 items'') in
      case adapters of
        None \<Rightarrow> bad
      | Some items \<Rightarrow>
          if length items > 64 then bad
          else and_then (registry_items 0 items []) (\<lambda>registry.
            Inr (js_sort (\<lambda>left right. lc (fst left) (fst right)) registry)))"

definition session_health :: "int \<Rightarrow> adapter_manifest \<Rightarrow> bool \<Rightarrow> adapter_health result" where
  "session_health checkedAt m ready =
     validateAdapterHealthReport
       (JObj [(''schemaVersion'', JInt 2), (''type'', JStr (am_type m)),
              (''adapterId'', (case am_adapterId m of None \<Rightarrow> JUndefined | Some a \<Rightarrow> JStr a)),
              (''state'', JStr (if ready then ''ready'' else ''unavailable'')),
              (''code'', JStr (if ready then ''ready'' else ''readiness_probe_failed'')),
              (''checkedAt'', JInt checkedAt)]) ''adapterHealth''"

definition probeSessionAdapters :: "session_adapters \<Rightarrow> (adapter_manifest \<Rightarrow> bool) \<Rightarrow> int \<Rightarrow> adapter_report result" where
  "probeSessionAdapters registry probe checkedAt =
     and_then (traverse (\<lambda>i adapter. session_health checkedAt (snd adapter) (probe (snd adapter))) 0 registry) (\<lambda>health.
     let ready = filter probe (map snd registry) in
     Inr \<lparr>ar_capabilities = js_sort str_cmp (js_set (map am_type ready)), ar_manifests = ready, ar_health = health\<rparr>)"

datatype session_handler = AdapterHandler string | LegacyHandler

record session_registry =
  sr_adapters :: session_adapters
  sr_ready :: "string list"
  sr_legacy :: bool

definition selectSessionHandler :: "(string \<Rightarrow> string \<Rightarrow> int) \<Rightarrow> session_registry \<Rightarrow> session \<Rightarrow> session_handler option" where
  "selectSessionHandler lc registry s =
     (case rq_adapter (s_requirements s) of
        Some requestedId \<Rightarrow>
          (case map_of (sr_adapters registry) requestedId of
             None \<Rightarrow> None
           | Some m \<Rightarrow>
               if requestedId \<notin> set (sr_ready registry) \<or> am_type m \<noteq> s_capability s then None
               else Some (AdapterHandler requestedId))
      | None \<Rightarrow>
          (case filter (\<lambda>(i, m). i \<in> set (sr_ready registry) \<and> am_type m = s_capability s)
              (js_sort (\<lambda>x y. lc (fst x) (fst y)) (sr_adapters registry)) of
             (i, m) # _ \<Rightarrow> Some (AdapterHandler i)
           | [] \<Rightarrow> if sr_legacy registry then Some LegacyHandler else None))"

section \<open>What is advertised\<close>

record advertised =
  ad_capabilities :: "string list"
  ad_manifests :: "adapter_manifest list"
  ad_health :: "adapter_health list"
  ad_readyAdapters :: "string option list"
  ad_checkedAt :: int

definition no_advertisement :: advertised where
  "no_advertisement = \<lparr>ad_capabilities = [], ad_manifests = [], ad_health = [], ad_readyAdapters = [], ad_checkedAt = 0\<rparr>"

text \<open>\<open>resolved\<close> is what the resolver of the built-in adapters returned or threw.\<close>

definition refreshCapabilities ::
  "session_adapters \<Rightarrow> (adapter_manifest \<Rightarrow> bool) \<Rightarrow> int \<Rightarrow> bool \<Rightarrow> int \<Rightarrow> adapter_report result \<Rightarrow> advertised \<Rightarrow> advertised result" where
  "refreshCapabilities registry probe intervalMs force now resolved a =
     (if \<not> force \<and> now - ad_checkedAt a < intervalMs then Inr a
      else and_then resolved (\<lambda>report.
        let v1Manifests = filter (\<lambda>m. am_schemaVersion m = 1) (ar_manifests report);
            v1Types = js_set (map am_type v1Manifests);
            sessionTypes = js_set (map (am_type \<circ> snd) registry)
        in case filter (\<lambda>t. t \<in> set sessionTypes) v1Types of
             t # _ \<Rightarrow> Inl (PlainError (''session adapter conflicts with v1 capability '' @ t))
           | [] \<Rightarrow>
               and_then (probeSessionAdapters registry probe now) (\<lambda>sessionReport.
               let v1Capabilities = filter (\<lambda>c. c \<in> set v1Types) (ar_capabilities report);
                   v1Health = filter (\<lambda>h. ah_schemaVersion h = 1 \<and> ah_type h \<notin> set sessionTypes) (ar_health report)
               in Inr \<lparr>ad_capabilities = js_sort str_cmp (js_set (v1Capabilities @ ar_capabilities sessionReport)),
                       ad_manifests = v1Manifests @ ar_manifests sessionReport,
                       ad_health = v1Health @ ar_health sessionReport,
                       ad_readyAdapters = map ah_adapterId (filter (\<lambda>h. ah_state h = ''ready'') (ar_health sessionReport)),
                       ad_checkedAt = now\<rparr>)))"

section \<open>What the pieces return\<close>

lemma first_version: "semanticVersionPattern ''1.0.0''"
  by code_simp

lemma builtin_adapterD: "map_of builtin_adapters c = Some m \<Longrightarrow> \<exists>mode. m = builtin_manifest c mode \<and> valid_manifest m"
  by (auto simp: builtin_adapters_def builtin_manifest_def valid_manifest_def valid_name_def trim_def is_js_space_def
      BENCHMARK_TYPE_def first_version ADAPTER_EXECUTION_MODES_def split: if_splits)

lemma adapterHealthReportD:
  assumes "adapterHealthReport c state (JInt t) = Inr h" and "trim c = c"
  shows "valid_health h" and "ah_type h = c" and "ah_schemaVersion h = 1" and "ah_adapterId h = None" and "ah_state h = trim state"
  using assms validateAdapterHealthReport_valid [OF assms(1) [unfolded adapterHealthReport_def]]
  by (simp_all add: adapterHealthReport_def)
    (auto simp: validateAdapterHealthReport_def result_simps boundedInteger_def requireObject_def
      split: if_splits option.splits)

text \<open>A report of the built-in adapters over the types \<open>cs\<close> that were asked for.\<close>

definition builtin_report :: "(string \<Rightarrow> bool) \<Rightarrow> string list \<Rightarrow> adapter_report \<Rightarrow> bool" where
  "builtin_report ready cs r =
     (ar_capabilities r = filter ready cs \<and> map am_type (ar_manifests r) = filter ready cs \<and>
      (\<forall>m \<in> set (ar_manifests r). valid_manifest m \<and> am_schemaVersion m = 1 \<and> am_adapterId m = None) \<and>
      map ah_type (ar_health r) = cs \<and>
      (\<forall>h \<in> set (ar_health r). valid_health h \<and> ah_schemaVersion h = 1 \<and> ah_adapterId h = None \<and>
        (ah_state h = ''ready'' \<longleftrightarrow> ready (ah_type h))))"

lemma builtin_not_ready: "map_of builtin_adapters c = None \<Longrightarrow> \<not> builtin_ready b c"
  by (auto simp: builtin_ready_def hasAdapter_def builtin_adapters_def split: if_splits)

lemma trim_states [simp]: "trim ''not-installed'' = ''not-installed''" "trim ''ready'' = ''ready''" "trim ''unavailable'' = ''unavailable''"
  by code_simp+

lemma resolve_items_report:
  assumes "resolve_items b t cs = Inr r" and "\<forall>c \<in> set cs. trim c = c"
  shows "builtin_report (builtin_ready b) cs r"
  using assms
proof (induction cs arbitrary: r)
  case Nil
  then show ?case by (auto simp: builtin_report_def)
next
  case (Cons c cs)
  from Cons.prems(2) have c: "trim c = c" by simp
  show ?case
  proof (cases "map_of builtin_adapters c")
    case None
    with Cons.prems(1) obtain h r1 where h: "adapterHealthReport c ''not-installed'' (JInt t) = Inr h"
      and r1: "resolve_items b t cs = Inr r1" and r: "r = r1\<lparr>ar_health := h # ar_health r1\<rparr>"
      by (auto simp: and_then_Inr)
    from Cons.IH [OF r1] Cons.prems(2) adapterHealthReportD [OF h c] builtin_not_ready [OF None] show ?thesis
      unfolding r by (auto simp: builtin_report_def)
  next
    case (Some m)
    from builtin_adapterD [OF Some] have m: "valid_manifest m" "am_type m = c" "am_schemaVersion m = 1" "am_adapterId m = None"
      by (auto simp: builtin_manifest_def)
    show ?thesis
    proof (cases "builtin_ready b c")
      case True
      with Cons.prems(1) Some obtain h r1 where h: "adapterHealthReport c ''ready'' (JInt t) = Inr h"
        and r1: "resolve_items b t cs = Inr r1"
        and r: "r = \<lparr>ar_capabilities = c # ar_capabilities r1, ar_manifests = m # ar_manifests r1, ar_health = h # ar_health r1\<rparr>"
        by (auto simp: and_then_Inr)
      from Cons.IH [OF r1] Cons.prems(2) adapterHealthReportD [OF h c] True m show ?thesis
        unfolding r by (auto simp: builtin_report_def)
    next
      case False
      with Cons.prems(1) Some obtain h r1 where h: "adapterHealthReport c ''unavailable'' (JInt t) = Inr h"
        and r1: "resolve_items b t cs = Inr r1" and r: "r = r1\<lparr>ar_health := h # ar_health r1\<rparr>"
        by (auto simp: and_then_Inr)
      from Cons.IH [OF r1] Cons.prems(2) adapterHealthReportD [OF h c] False show ?thesis
        unfolding r by (auto simp: builtin_report_def)
    qed
  qed
qed

lemma configured_trimmed: "c \<in> set (configured_capabilities e) \<Longrightarrow> trim c = c"
  by (auto simp: configured_capabilities_def Let_def)

lemma resolveAdapterHealth_report:
  assumes "resolveAdapterHealth (configured_capabilities e) b t = Inr r"
  shows "\<exists>cs. builtin_report (builtin_ready b) cs r \<and> distinct cs"
proof -
  let ?cs = "js_sort str_cmp (js_set (configured_capabilities e))"
  have "\<forall>c \<in> set ?cs. trim c = c" using configured_trimmed by simp
  with assms have "builtin_report (builtin_ready b) ?cs r" unfolding resolveAdapterHealth_def by (rule resolve_items_report)
  then show ?thesis by auto
qed

definition session_adapters_ok :: "session_adapters \<Rightarrow> bool" where
  "session_adapters_ok registry =
     (distinct (map fst registry) \<and>
      (\<forall>(i, m) \<in> set registry. valid_manifest m \<and> am_schemaVersion m = 2 \<and> am_adapterId m = Some i \<and>
         am_executionMode m = ''streaming-gateway''))"

lemma registry_items_ok:
  "registry_items i items registry = Inr r \<Longrightarrow> session_adapters_ok registry \<Longrightarrow> session_adapters_ok r"
proof (induction i items registry rule: registry_items.induct)
  case (3 i adapter items registry)
  from "3.prems"(1) obtain m where m: "validateAdapterManifest (si_manifest adapter) (item_name ''sessionAdapters'' i @ ''.manifest'') = Inr m"
    and c: "am_schemaVersion m = 2" "am_executionMode m = ''streaming-gateway''" "si_handleSession adapter" "si_readinessProbe adapter"
      "the (am_adapterId m) \<notin> set (map fst registry)"
    and r: "registry_items (Suc i) items (registry @ [(the (am_adapterId m), m)]) = Inr r"
    by (auto simp: and_then_Inr Let_def split: if_splits)
  have v: "valid_manifest m" using validateAdapterManifest_valid [OF m] .
  with c(1) obtain a where "am_adapterId m = Some a" by (auto simp: valid_manifest_def split: option.splits)
  with c v "3.prems"(2) have "session_adapters_ok (registry @ [(the (am_adapterId m), m)])"
    by (auto simp: session_adapters_ok_def)
  with "3.IH" [of m "the (am_adapterId m)"] c r show ?case by simp
qed auto

lemma createSessionAdapterRegistry_ok:
  assumes "createSessionAdapterRegistry lc adapters = Inr registry"
  shows "session_adapters_ok registry"
proof -
  from assms obtain items r where r: "registry_items 0 items [] = Inr r" and
    registry: "registry = js_sort (\<lambda>left right. lc (fst left) (fst right)) r"
    by (auto simp: createSessionAdapterRegistry_def Let_def and_then_Inr split: option.splits if_splits)
  have "session_adapters_ok r" by (rule registry_items_ok [OF r]) (simp add: session_adapters_ok_def)
  moreover have "distinct (map fst registry) = distinct (map fst r)"
    unfolding registry by (rule mset_eq_imp_distinct_iff) simp
  ultimately show ?thesis unfolding registry by (simp add: session_adapters_ok_def)
qed

lemma session_health_id:
  assumes "session_health t m b = Inr h"
  shows "valid_health h" and "ah_schemaVersion h = 2" and "valid_manifest m \<Longrightarrow> ah_type h = am_type m"
    and "valid_manifest m \<Longrightarrow> am_adapterId m = Some a \<Longrightarrow> ah_adapterId h = Some a"
    and "ah_state h = ''ready'' \<longleftrightarrow> b"
  using assms validateAdapterHealthReport_valid [OF assms [unfolded session_health_def]]
  by (simp_all add: session_health_def)
    (auto simp: validateAdapterHealthReport_def result_simps boundedInteger_def requireObject_def
      valid_manifest_def valid_name_def split: if_splits option.splits)

lemma traverse_session_health:
  assumes "traverse (\<lambda>i adapter. session_health t (snd adapter) (probe (snd adapter))) k registry = Inr hs"
    and "\<forall>(i, m) \<in> set registry. valid_manifest m \<and> am_adapterId m = Some i"
  shows "map (\<lambda>h. (ah_type h, ah_adapterId h, ah_state h = ''ready'')) hs =
      map (\<lambda>(i, m). (am_type m, am_adapterId m, probe m)) registry \<and>
    (\<forall>h \<in> set hs. valid_health h \<and> ah_schemaVersion h = 2)"
  using assms
proof (induction registry arbitrary: k hs)
  case (Cons e registry)
  obtain i m where e: "e = (i, m)" by force
  with Cons.prems obtain h hs1 where h: "session_health t m (probe m) = Inr h" and hs: "hs = h # hs1"
    and r: "traverse (\<lambda>i adapter. session_health t (snd adapter) (probe (snd adapter))) (Suc k) registry = Inr hs1"
    and m: "valid_manifest m" "am_adapterId m = Some i"
    by (auto simp: and_then_Inr)
  from Cons.IH [OF r] Cons.prems(2) session_health_id [OF h] m show ?case by (auto simp: e hs)
qed simp

lemma image_map_eq: "map f xs = map g ys \<Longrightarrow> f ` set xs = g ` set ys"
  by (metis set_map)

text \<open>A report of the session adapters.\<close>

definition session_types :: "session_adapters \<Rightarrow> string set" where
  "session_types registry = set (map (am_type \<circ> snd) registry)"

definition session_report :: "session_adapters \<Rightarrow> adapter_report \<Rightarrow> bool" where
  "session_report registry r =
     (distinct (map am_adapterId (ar_manifests r)) \<and> distinct (map ah_adapterId (ar_health r)) \<and>
      (\<forall>m \<in> set (ar_manifests r). valid_manifest m \<and> am_schemaVersion m = 2 \<and> am_type m \<in> session_types registry) \<and>
      (\<forall>h \<in> set (ar_health r). valid_health h \<and> ah_schemaVersion h = 2 \<and> ah_type h \<in> session_types registry) \<and>
      (\<lambda>h. (ah_type h, ah_adapterId h)) ` {h \<in> set (ar_health r). ah_state h = ''ready''} =
        (\<lambda>m. (am_type m, am_adapterId m)) ` set (ar_manifests r) \<and>
      set (ar_capabilities r) = am_type ` set (ar_manifests r) \<and> length (ar_manifests r) \<le> length (ar_health r))"

lemma probeSessionAdapters_report:
  assumes registry: "session_adapters_ok registry" and r: "probeSessionAdapters registry probe now = Inr r"
  shows "session_report registry r"
proof -
  from r obtain hs where hs: "traverse (\<lambda>i adapter. session_health now (snd adapter) (probe (snd adapter))) 0 registry = Inr hs"
    and eq: "r = \<lparr>ar_capabilities = js_sort str_cmp (js_set (map am_type (filter probe (map snd registry)))),
      ar_manifests = filter probe (map snd registry), ar_health = hs\<rparr>"
    by (auto simp: probeSessionAdapters_def and_then_Inr Let_def)
  have reg: "\<And>i m. (i, m) \<in> set registry \<Longrightarrow> valid_manifest m \<and> am_schemaVersion m = 2 \<and> am_adapterId m = Some i"
    and keys: "distinct (map fst registry)"
    using registry by (auto simp: session_adapters_ok_def)
  from traverse_session_health [OF hs] reg have
    hm: "map (\<lambda>h. (ah_type h, ah_adapterId h, ah_state h = ''ready'')) hs = map (\<lambda>(i, m). (am_type m, am_adapterId m, probe m)) registry"
    and hv: "\<And>h. h \<in> set hs \<Longrightarrow> valid_health h \<and> ah_schemaVersion h = 2" by auto
  have ids2: "map am_adapterId (map snd registry) = map Some (map fst registry)"
    using reg by auto
  have ids3: "map ah_adapterId hs = map am_adapterId (map snd registry)"
    using arg_cong [OF hm, of "map (fst \<circ> snd)"] by (simp add: split_def comp_def)
  have somes: "distinct (map Some ks)" if "distinct ks" for ks :: "string list" using that by (simp add: distinct_map)
  have d2: "distinct (map am_adapterId (filter probe (map snd registry)))"
    by (rule distinct_map_filter) (simp only: ids2 somes [OF keys])
  have d3: "distinct (map ah_adapterId hs)" by (simp only: ids3 ids2 somes [OF keys])
  have types: "ah_type ` set hs = session_types registry"
    using image_map_eq [OF arg_cong [OF hm, of "map fst", unfolded map_map comp_def split_def fst_conv]]
    by (auto simp: session_types_def)
  have eq3: "(t, i, True) \<in> (\<lambda>h. (ah_type h, ah_adapterId h, ah_state h = ''ready'')) ` set hs \<longleftrightarrow>
      (t, i, True) \<in> (\<lambda>(i, m). (am_type m, am_adapterId m, probe m)) ` set registry" for t i
    using image_map_eq [OF hm] by simp
  have same: "(\<lambda>h. (ah_type h, ah_adapterId h)) ` {h \<in> set hs. ah_state h = ''ready''} =
      (\<lambda>m. (am_type m, am_adapterId m)) ` set (filter probe (map snd registry))"
  proof (rule set_eqI)
    fix p show "p \<in> (\<lambda>h. (ah_type h, ah_adapterId h)) ` {h \<in> set hs. ah_state h = ''ready''} \<longleftrightarrow>
        p \<in> (\<lambda>m. (am_type m, am_adapterId m)) ` set (filter probe (map snd registry))"
      using eq3 [of "fst p" "snd p"] by (auto simp: image_iff)
  qed
  have len: "length (filter probe (map snd registry)) \<le> length hs"
    using map_eq_imp_length_eq [OF hm] by (metis length_filter_le length_map)
  have m: "\<forall>m \<in> set (filter probe (map snd registry)). valid_manifest m \<and> am_schemaVersion m = 2 \<and> am_type m \<in> session_types registry"
    using reg by (auto simp: session_types_def)
  have h: "\<forall>h \<in> set hs. valid_health h \<and> ah_schemaVersion h = 2 \<and> ah_type h \<in> session_types registry"
    using hv types by blast
  show ?thesis
    unfolding session_report_def eq adapter_report.select_convs by (intro conjI d2 d3 m h same len) simp
qed

text \<open>
  What \<^verbatim>\<open>#refreshCapabilities\<close> leaves: every manifest and report is well-formed, identities do not
  clash, and the ready reports are those of the manifests, whose types are the capabilities.
\<close>

definition coherent :: "advertised \<Rightarrow> bool" where
  "coherent a =
     ((\<forall>m \<in> set (ad_manifests a). valid_manifest m) \<and> (\<forall>h \<in> set (ad_health a). valid_health h) \<and>
      (length (ad_manifests a) \<le> 64 \<longrightarrow> versioned_ok am_schemaVersion am_type am_adapterId (ad_manifests a)) \<and>
      (length (ad_health a) \<le> 64 \<longrightarrow> versioned_ok ah_schemaVersion ah_type ah_adapterId (ad_health a)) \<and>
      length (ad_manifests a) \<le> length (ad_health a) \<and>
      manifest_identity ` set (ad_manifests a) = health_identity ` {h \<in> set (ad_health a). ah_state h = ''ready''} \<and>
      set (ad_capabilities a) = ah_type ` {h \<in> set (ad_health a). ah_state h = ''ready''} \<and>
      distinct (ad_capabilities a) \<and> sorted_wrt (\<lambda>x y. str_cmp x y \<le> 0) (ad_capabilities a))"

lemma schema_filter:
  assumes "\<forall>x \<in> set xs. schema x = (1::int)" and "\<forall>y \<in> set ys. schema y = 2"
  shows "filter (\<lambda>x. schema x = 1) (xs @ ys) = xs" and "filter (\<lambda>x. schema x \<noteq> 1) (xs @ ys) = ys"
  using assms by (auto simp: filter_id_conv filter_empty_conv)

lemma versioned_ok_append:
  assumes "\<forall>x \<in> set xs. schema x = (1::int)" and "\<forall>y \<in> set ys. schema y = 2" and "length (xs @ ys) \<le> 64"
    and "distinct (map type xs)" and "distinct (map adapter ys)" and "type ` set xs \<inter> type ` set ys = {}"
  shows "versioned_ok schema type adapter (xs @ ys)"
  unfolding versioned_ok_def schema_filter [OF assms(1,2)] using assms(3-6) by (auto simp: list_all_iff)

lemma length_filter_weaker: "(\<And>x. x \<in> set xs \<Longrightarrow> P x \<Longrightarrow> Q x) \<Longrightarrow> length (filter P xs) \<le> length (filter Q xs)"
  by (induction xs) (auto intro: le_SucI)

lemma same_identities:
  assumes "\<forall>m \<in> M. am_schemaVersion m = k" and "\<forall>h \<in> H. ah_schemaVersion h = k"
    and "(\<lambda>h. (ah_type h, ah_adapterId h)) ` H = (\<lambda>m. (am_type m, am_adapterId m)) ` M"
  shows "manifest_identity ` M = health_identity ` H"
proof -
  have "manifest_identity ` M = Pair k ` (\<lambda>m. (am_type m, am_adapterId m)) ` M"
    using assms(1) by (force simp: manifest_identity_def adapter_identity_def image_iff)
  moreover have "health_identity ` H = Pair k ` (\<lambda>h. (ah_type h, ah_adapterId h)) ` H"
    using assms(2) by (force simp: health_identity_def adapter_identity_def image_iff)
  ultimately show ?thesis by (simp add: assms(3))
qed

text \<open>The two reports side by side, the reports of the built-in ones restricted to other types.\<close>

lemma coherent_parts:
  assumes report: "builtin_report ready cs r" "distinct cs" and session: "session_report registry s"
    and apart: "am_type ` set (ar_manifests r) \<inter> session_types registry = {}"
    and a: "ad_manifests a = ar_manifests r @ ar_manifests s"
      "ad_health a = filter (\<lambda>h. ah_schemaVersion h = 1 \<and> ah_type h \<notin> session_types registry) (ar_health r) @ ar_health s"
      "ad_capabilities a = js_sort str_cmp (js_set (ar_capabilities r @ ar_capabilities s))"
  shows "coherent a"
proof -
  let ?H1 = "filter (\<lambda>h. ah_schemaVersion h = 1 \<and> ah_type h \<notin> session_types registry) (ar_health r)"
  from report(1) have b: "ar_capabilities r = filter ready cs" "map am_type (ar_manifests r) = filter ready cs"
    "\<And>m. m \<in> set (ar_manifests r) \<Longrightarrow> valid_manifest m \<and> am_schemaVersion m = 1 \<and> am_adapterId m = None"
    "map ah_type (ar_health r) = cs"
    "\<And>h. h \<in> set (ar_health r) \<Longrightarrow> valid_health h \<and> ah_schemaVersion h = 1 \<and> ah_adapterId h = None \<and>
        (ah_state h = ''ready'' \<longleftrightarrow> ready (ah_type h))"
    by (auto simp: builtin_report_def)
  note c = session [unfolded session_report_def]
  from b(2) have types: "am_type ` set (ar_manifests r) = {c \<in> set cs. ready c}" by (metis set_filter set_map)
  from b(4) have cs: "ah_type ` set (ar_health r) = set cs" by (metis set_map)
  have apart_h: "ah_type h \<notin> session_types registry" if "h \<in> set (ar_health r)" "ready (ah_type h)" for h
    using that types apart cs by blast
  have ready1: "{h \<in> set ?H1. ah_state h = ''ready''} = {h \<in> set (ar_health r). ready (ah_type h)}"
    using b(5) apart_h by auto
  have ready_types: "ah_type ` {h \<in> set (ar_health r). ready (ah_type h)} = {c \<in> set cs. ready c}"
    unfolding cs [symmetric] by auto
  have "(\<lambda>h. (ah_type h, ah_adapterId h)) ` {h \<in> set ?H1. ah_state h = ''ready''} = (\<lambda>t. (t, None)) ` {c \<in> set cs. ready c}"
    unfolding ready1 ready_types [symmetric] image_image using b(5) by (intro image_cong) auto
  moreover have "(\<lambda>m. (am_type m, am_adapterId m)) ` set (ar_manifests r) = (\<lambda>t. (t, None)) ` {c \<in> set cs. ready c}"
    unfolding types [symmetric] image_image using b(3) by (intro image_cong) auto
  ultimately have i1: "manifest_identity ` set (ar_manifests r) = health_identity ` {h \<in> set ?H1. ah_state h = ''ready''}"
    using b(3,5) by (intro same_identities [of _ 1]) auto
  have i2: "manifest_identity ` set (ar_manifests s) = health_identity ` {h \<in> set (ar_health s). ah_state h = ''ready''}"
    using c by (intro same_identities [of _ 2]) auto
  have "length (filter (ready \<circ> ah_type) (ar_health r)) \<le> length ?H1"
    using b(5) apart_h by (intro length_filter_weaker) auto
  moreover have "length (ar_manifests r) = length (filter (ready \<circ> ah_type) (ar_health r))"
    by (metis b(2,4) filter_map length_map)
  ultimately have len: "length (ad_manifests a) \<le> length (ad_health a)" using c by (simp add: a)
  have d: "distinct (map am_type (ar_manifests r))" "distinct (map ah_type ?H1)"
    using b(2,4) report(2) by (simp, intro distinct_map_filter) simp
  have t2: "ah_type ` {h \<in> set (ar_health s). ah_state h = ''ready''} = am_type ` set (ar_manifests s)"
    using arg_cong [OF conjunct1 [OF conjunct2 [OF conjunct2 [OF conjunct2 [OF conjunct2 [OF c]]]]], of "image fst"]
    by (simp add: image_image)
  have ready: "{h \<in> set (ad_health a). ah_state h = ''ready''} =
      {h \<in> set (ar_health r). ready (ah_type h)} \<union> {h \<in> set (ar_health s). ah_state h = ''ready''}"
    unfolding ready1 [symmetric] a set_append by blast
  have caps: "set (ad_capabilities a) = ah_type ` {h \<in> set (ad_health a). ah_state h = ''ready''}"
    unfolding ready image_Un ready_types t2 using c by (simp add: a b(1))
  have ids: "manifest_identity ` set (ad_manifests a) = health_identity ` {h \<in> set (ad_health a). ah_state h = ''ready''}"
    unfolding ready image_Un a(1) set_append i1 i2 ready1 ..
  have vm: "versioned_ok am_schemaVersion am_type am_adapterId (ad_manifests a)" if "length (ad_manifests a) \<le> 64"
    using that b(3) c apart d(1) unfolding a by (intro versioned_ok_append) auto
  have vh: "versioned_ok ah_schemaVersion ah_type ah_adapterId (ad_health a)" if "length (ad_health a) \<le> 64"
    using that b(5) c d(2) unfolding a by (intro versioned_ok_append) auto
  have "\<forall>m \<in> set (ad_manifests a). valid_manifest m" "\<forall>h \<in> set (ad_health a). valid_health h"
    using b(3,5) c by (auto simp: a)
  with len ids caps vm vh show ?thesis
    unfolding coherent_def using code_units.sorted_js_sort by (simp add: a(3))
qed

lemma refresh_coherent:
  assumes report: "builtin_report ready cs report" "distinct cs" and registry: "session_adapters_ok registry"
    and a: "refreshCapabilities registry probe intervalMs True now (Inr report) a0 = Inr a"
  shows "coherent a"
proof -
  have v1: "filter (\<lambda>m. am_schemaVersion m = 1) (ar_manifests report) = ar_manifests report"
    using report(1) by (simp add: filter_id_conv builtin_report_def)
  have caps: "filter (\<lambda>c. c \<in> am_type ` set (ar_manifests report)) (ar_capabilities report) = ar_capabilities report"
    using report(1) by (metis (mono_tags, lifting) builtin_report_def filter_id_conv set_map)
  from a obtain s where s: "probeSessionAdapters registry probe now = Inr s"
    and apart: "am_type ` set (ar_manifests report) \<inter> session_types registry = {}"
    and eq: "a = \<lparr>ad_capabilities = js_sort str_cmp (js_set (ar_capabilities report @ ar_capabilities s)),
        ad_manifests = ar_manifests report @ ar_manifests s,
        ad_health = filter (\<lambda>h. ah_schemaVersion h = 1 \<and> ah_type h \<notin> session_types registry) (ar_health report) @ ar_health s,
        ad_readyAdapters = map ah_adapterId (filter (\<lambda>h. ah_state h = ''ready'') (ar_health s)), ad_checkedAt = now\<rparr>"
    by (auto simp: refreshCapabilities_def and_then_Inr Let_def v1 caps session_types_def filter_empty_conv split: list.splits)
  show ?thesis
    by (rule coherent_parts [OF report probeSessionAdapters_report [OF registry s] apart]) (simp_all add: eq)
qed

section \<open>What the control plane makes of it\<close>

lemma sameStringSet_sets: "set left = set right \<Longrightarrow> sameStringSet left right"
  by (simp add: sameStringSet_def list_all_iff flip: distinct_card)

lemma coherent_accepted:
  assumes "coherent a" and "length (ad_health a) \<le> 64"
    and m: "js_get object ''adapterManifests'' = JArr (map manifest_js (ad_manifests a))"
    and h: "js_get object ''adapterHealth'' = JArr (map health_js (ad_health a))"
  shows "validateAdvertisedAdapterState lc object (ad_capabilities a) =
    Inr (js_sort (versioned_order am_type am_adapterId lc) (ad_manifests a), js_sort (versioned_order ah_type ah_adapterId lc) (ad_health a))"
proof -
  let ?ms = "js_sort (versioned_order am_type am_adapterId lc) (ad_manifests a)"
  let ?hs = "js_sort (versioned_order ah_type ah_adapterId lc) (ad_health a)"
  note c = assms(1) [unfolded coherent_def]
  have ms: "validateAdapterManifests lc (JArr (map manifest_js (ad_manifests a))) name = Inr ?ms" for name
    unfolding validateAdapterManifests_def using c assms(2)
    by (intro versioned_list_sorts validateAdapterManifest_id) auto
  have hs: "validateAdapterHealth lc (JArr (map health_js (ad_health a))) name = Inr ?hs" for name
    unfolding validateAdapterHealth_def using c assms(2)
    by (intro versioned_list_sorts validateAdapterHealthReport_id) auto
  have ids: "manifest_identity ` set (ad_manifests a) = health_identity ` {h \<in> set (ad_health a). ah_state h = ''ready''}"
    and caps: "set (ad_capabilities a) = ah_type ` {h \<in> set (ad_health a). ah_state h = ''ready''}"
    using c by simp_all
  have types: "am_type ` set (ad_manifests a) = set (ad_capabilities a)"
    using arg_cong [OF ids, of "image (fst \<circ> snd)"]
    by (simp add: caps image_image manifest_identity_def health_identity_def adapter_identity_def)
  then have known: "filter (\<lambda>m. am_type m \<notin> set (ad_capabilities a)) ?ms = []"
    by (auto simp: filter_empty_conv)
  show ?thesis
  proof (cases "ad_health a = []")
    case True
    with ids have "ad_manifests a = []" by simp
    with True show ?thesis by (simp add: validateAdvertisedAdapterState_def m h ms [of "''adapterManifests''"] nullish_def validateAdapterManifests_def
        validateAdapterHealth_def versioned_list_def)
  next
    case False
    have "sameStringSet (map manifest_identity ?ms) (map health_identity (filter (\<lambda>h. ah_state h = ''ready'') ?hs))"
      by (rule sameStringSet_sets) (simp add: ids)
    moreover have "sameStringSet (ad_capabilities a) (map ah_type (filter (\<lambda>h. ah_state h = ''ready'') ?hs))"
      by (rule sameStringSet_sets) (simp add: caps)
    ultimately show ?thesis using False known
      by (simp add: validateAdvertisedAdapterState_def m h ms hs nullish_def)
  qed
qed

lemma coherent_capabilities:
  assumes "coherent a" and "length (ad_health a) \<le> 64"
  shows "stringArray (JArr (map JStr (ad_capabilities a))) name 64 = Inr (ad_capabilities a)"
proof (rule stringArray_id)
  note c = assms(1) [unfolded coherent_def]
  have caps: "set (ad_capabilities a) \<subseteq> ah_type ` set (ad_health a)" using c by auto
  then show "valid_names (ad_capabilities a)"
    using c by (auto simp: valid_names_def list_all_iff valid_health_def)
  have "distinct (ad_capabilities a)" using c by blast
  then have "length (ad_capabilities a) = card (set (ad_capabilities a))" by (rule distinct_card [symmetric])
  also have "\<dots> \<le> card (ah_type ` set (ad_health a))" by (rule card_mono [OF _ caps]) simp
  also have "\<dots> \<le> length (ad_health a)" using card_image_le card_length order_trans by (metis List.finite_set)
  finally show "length (ad_capabilities a) \<le> 64" using assms(2) by simp
qed

text \<open>
  C33. Whatever the readiness probes answer, the capabilities, manifests and reports that a worker
  refreshes from its configuration and its session adapters are accepted by the control plane's
  validation of a registration or heartbeat, as long as there are at most 64 reports, and are stored
  as they are up to the order of the lists.
\<close>

theorem advertisement_accepted:
  assumes registry: "createSessionAdapterRegistry lc adapters = Inr registry"
    and resolved: "resolveAdapterHealth (configured_capabilities environment) benchmark now = Inr report"
    and a: "refreshCapabilities registry probe intervalMs True now (Inr report) a0 = Inr a"
    and size: "length (ad_health a) \<le> 64"
    and m: "js_get object ''adapterManifests'' = JArr (map manifest_js (ad_manifests a))"
    and h: "js_get object ''adapterHealth'' = JArr (map health_js (ad_health a))"
  shows "stringArray (JArr (map JStr (ad_capabilities a))) ''capabilities'' 64 = Inr (ad_capabilities a) \<and>
    validateAdvertisedAdapterState lc object (ad_capabilities a) =
      Inr (js_sort (versioned_order am_type am_adapterId lc) (ad_manifests a),
           js_sort (versioned_order ah_type ah_adapterId lc) (ad_health a))"
proof -
  from resolveAdapterHealth_report [OF resolved] obtain cs where r: "builtin_report (builtin_ready benchmark) cs report" "distinct cs"
    by blast
  have "coherent a" by (rule refresh_coherent [OF r createSessionAdapterRegistry_ok [OF registry] a])
  then show ?thesis using coherent_accepted [OF _ size m h] coherent_capabilities [OF _ size] by simp
qed

lemma too_many_reports:
  assumes "js_get object ''adapterHealth'' = JArr (map health_js hs)" and "64 < length hs"
  shows "\<exists>e. validateAdvertisedAdapterState lc object capabilities = Inl e"
  using assms by (cases "validateAdapterManifests lc (nullish (js_get object ''adapterManifests'') (JArr [])) ''adapterManifests''")
    (auto simp: validateAdvertisedAdapterState_def validateAdapterHealth_def versioned_list_def nullish_def)

definition sample_session_manifest :: adapter_manifest where
  "sample_session_manifest = \<lparr>am_schemaVersion = 2, am_type = ''asr'', am_adapterId = Some ''asr/a'', am_version = ''1.0.0'',
     am_executionMode = ''streaming-gateway''\<rparr>"

definition sample_registry :: session_adapters where
  "sample_registry = [(''asr/a'', sample_session_manifest)]"

lemma sample_registry_created:
  "createSessionAdapterRegistry lc (Some [Some \<lparr>si_manifest = manifest_js sample_session_manifest, si_handleSession = True,
     si_readinessProbe = True\<rparr>]) = Inr sample_registry"
proof -
  have "valid_manifest sample_session_manifest" by code_simp
  then show ?thesis
    by (simp add: createSessionAdapterRegistry_def validateAdapterManifest_id sample_registry_def)
      (simp add: sample_session_manifest_def)
qed

definition sample_report :: adapter_report where
  "sample_report = (case resolveAdapterHealth (configured_capabilities None) False 5 of Inr r \<Rightarrow> r)"

lemma sample_report_resolved: "resolveAdapterHealth (configured_capabilities None) False 5 = Inr sample_report"
  unfolding sample_report_def by code_simp

definition sample_advertised :: advertised where
  "sample_advertised = (case refreshCapabilities sample_registry (\<lambda>m. True) 300000 True 5 (Inr sample_report) no_advertisement of Inr a \<Rightarrow> a)"

lemma sample_advertised_refreshed:
  "refreshCapabilities sample_registry (\<lambda>m. True) 300000 True 5 (Inr sample_report) no_advertisement = Inr sample_advertised"
  "length (ad_health sample_advertised) = 3"
  "ad_capabilities sample_advertised = [''asr'', ''diagnostic.echo'', ''diagnostic.gpu-status'']"
  unfolding sample_advertised_def by code_simp+

theorem advertisement_accepted_witness:
  "\<exists>state. validateAdvertisedAdapterState str_cmp
     [(''adapterManifests'', JArr (map manifest_js (ad_manifests sample_advertised))),
      (''adapterHealth'', JArr (map health_js (ad_health sample_advertised)))]
     [''asr'', ''diagnostic.echo'', ''diagnostic.gpu-status''] = Inr state"
  using advertisement_accepted [OF sample_registry_created [of str_cmp] sample_report_resolved sample_advertised_refreshed(1)]
    sample_advertised_refreshed(2,3) by (simp add: js_get_def)

end
