(* ===== verification/WorkerAgent.thy ===== *)
theory WorkerAgent
  imports WorkerAdapters Traces
begin

text \<open>
  \<^verbatim>\<open>src/worker/agent.mjs\<close>: what a worker does with the leases it is told to hold. Functions are split at their awaits. What the
  control plane, an adapter or the data plane answers is an argument of the piece that goes on
  with it. \<open>ag_log\<close> is what has happened, newest last.
\<close>

section \<open>State\<close>

datatype agent_request =
    StartJobRequest string "string option"
  | RenewJobRequest string "string option"
  | FinishJobRequest string "string option" string
  | StartSessionRequest string "string option"
  | RenewSessionRequest string "string option"
  | WorkerGrantRequest string "string option"

datatype agent_event =
    Polled "job list" "session list"
  | Sent agent_request
  | Answered agent_request bool
  | Executed string "string option" bool
  | HandlerStarted string "string option"

text \<open>
  Where \<^verbatim>\<open>#executeLease\<close> is: it has sent startJob, it reports a missing adapter, the adapter runs, it
  reports success, or it reports a failure.
\<close>

datatype job_phase = JobStarting | JobMissingAdapter | JobExecuting | JobReporting | JobReportingFailure

record agent_job =
  aj_row :: job
  aj_phase :: job_phase
  aj_aborted :: bool

text \<open>
  Where \<^verbatim>\<open>#maintainSessionLease\<close> is: it has sent startSession, it waits for the grant, the socket
  connects, it closes unopened, the handler runs beside the renewal, or it waits for both to settle.
\<close>

datatype session_phase =
    SessionStarting | SessionGrant | SessionConnecting | SessionClosing | SessionServing | SessionSettling

record agent_session =
  gs_row :: session
  gs_connecting :: session
  gs_phase :: session_phase
  gs_aborted :: bool
  gs_handlerDone :: bool
  gs_renewalDone :: bool

record agent =
  ag_running :: bool
  ag_polling :: bool
  ag_jobs :: "(string \<times> agent_job) list"
  ag_sessions :: "(string \<times> agent_session) list"
  ag_log :: "agent_event list"

definition started_agent :: agent where
  "started_agent = \<lparr>ag_running = True, ag_polling = False, ag_jobs = [], ag_sessions = [], ag_log = []\<rparr>"

definition note_event :: "agent_event \<Rightarrow> agent \<Rightarrow> agent" where
  "note_event e a = a\<lparr>ag_log := ag_log a @ [e]\<rparr>"

definition set_job :: "string \<Rightarrow> agent_job \<Rightarrow> agent \<Rightarrow> agent" where
  "set_job i x a = a\<lparr>ag_jobs := map (\<lambda>(k, y). (k, if k = i then x else y)) (ag_jobs a)\<rparr>"

definition drop_job :: "string \<Rightarrow> agent \<Rightarrow> agent" where
  "drop_job i a = a\<lparr>ag_jobs := filter (\<lambda>(k, y). k \<noteq> i) (ag_jobs a)\<rparr>"

definition set_session :: "string \<Rightarrow> agent_session \<Rightarrow> agent \<Rightarrow> agent" where
  "set_session i x a = a\<lparr>ag_sessions := map (\<lambda>(k, y). (k, if k = i then x else y)) (ag_sessions a)\<rparr>"

definition drop_session :: "string \<Rightarrow> agent \<Rightarrow> agent" where
  "drop_session i a = a\<lparr>ag_sessions := filter (\<lambda>(k, y). k \<noteq> i) (ag_sessions a)\<rparr>"

section \<open>Jobs\<close>

definition runJob :: "job \<Rightarrow> agent \<Rightarrow> agent" where
  "runJob j a =
     (let a1 = note_event (Sent (StartJobRequest (j_id j) (j_leaseId j))) a in
      a1\<lparr>ag_jobs := ag_jobs a1 @ [(j_id j, \<lparr>aj_row = j, aj_phase = JobStarting, aj_aborted = False\<rparr>)]\<rparr>)"

definition finish_request :: "agent_job \<Rightarrow> string \<Rightarrow> agent_request" where
  "finish_request x outcome = FinishJobRequest (j_id (aj_row x)) (j_leaseId (aj_row x)) outcome"

definition report :: "string \<Rightarrow> agent_job \<Rightarrow> string \<Rightarrow> job_phase \<Rightarrow> agent \<Rightarrow> agent" where
  "report i x outcome phase a = note_event (Sent (finish_request x outcome)) (set_job i (x\<lparr>aj_phase := phase\<rparr>) a)"

text \<open>The answer to startJob: an error leaves the function, and the entry is deleted.\<close>

definition job_start_answered :: "string \<Rightarrow> agent_job \<Rightarrow> bool \<Rightarrow> agent \<Rightarrow> agent" where
  "job_start_answered i x fine a =
     (let a1 = note_event (Answered (StartJobRequest (j_id (aj_row x)) (j_leaseId (aj_row x))) fine) a in
      if \<not> fine then drop_job i a1
      else if \<not> hasAdapter (j_type (aj_row x)) then report i x ''failed'' JobMissingAdapter a1
      else set_job i (x\<lparr>aj_phase := JobExecuting\<rparr>) a1)"

text \<open>\<^verbatim>\<open>renewIntervalMs\<close>, and the timer's callback: its errors are only logged.\<close>

definition renew_interval :: "int \<Rightarrow> int \<Rightarrow> int" where
  "renew_interval heartbeatIntervalMs remaining = max 1000 (min heartbeatIntervalMs (remaining div 3))"

definition job_renewed :: "agent_job \<Rightarrow> agent \<Rightarrow> agent" where
  "job_renewed x a = note_event (Sent (RenewJobRequest (j_id (aj_row x)) (j_leaseId (aj_row x)))) a"

text \<open>The adapter returned or threw.\<close>

definition job_executed :: "string \<Rightarrow> agent_job \<Rightarrow> bool \<Rightarrow> agent \<Rightarrow> agent" where
  "job_executed i x fine a =
     (let a1 = note_event (Executed (j_id (aj_row x)) (j_leaseId (aj_row x)) fine) a in
      if fine then report i x ''succeeded'' JobReporting a1 else report i x ''failed'' JobReportingFailure a1)"

text \<open>The answer to a report. An error on reporting success is caught like one of the adapter.\<close>

definition job_report_answered :: "string \<Rightarrow> agent_job \<Rightarrow> bool \<Rightarrow> agent \<Rightarrow> agent" where
  "job_report_answered i x fine a =
     (case aj_phase x of
        JobReporting \<Rightarrow>
          (let a1 = note_event (Answered (finish_request x ''succeeded'') fine) a in
           if fine then drop_job i a1 else report i x ''failed'' JobReportingFailure a1)
      | _ \<Rightarrow> drop_job i (note_event (Answered (finish_request x ''failed'') fine) a))"

section \<open>Sessions\<close>

definition session_start_request :: "agent_session \<Rightarrow> agent_request" where
  "session_start_request x = StartSessionRequest (s_id (gs_row x)) (s_leaseId (gs_row x))"

definition grant_request :: "agent_session \<Rightarrow> agent_request" where
  "grant_request x = WorkerGrantRequest (s_id (gs_connecting x)) (s_leaseId (gs_row x))"

definition runSession :: "session \<Rightarrow> agent \<Rightarrow> agent" where
  "runSession s a =
     (let a1 = note_event (Sent (StartSessionRequest (s_id s) (s_leaseId s))) a in
      a1\<lparr>ag_sessions := ag_sessions a1 @
        [(s_id s, \<lparr>gs_row = s, gs_connecting = s, gs_phase = SessionStarting, gs_aborted = False, gs_handlerDone = False, gs_renewalDone = False\<rparr>)]\<rparr>)"

text \<open>The answer to startSession carries the session that the function goes on with.\<close>

definition session_start_answered :: "string \<Rightarrow> agent_session \<Rightarrow> session option \<Rightarrow> agent \<Rightarrow> agent" where
  "session_start_answered i x answer a =
     (let a1 = note_event (Answered (session_start_request x) (answer \<noteq> None)) a in
      case answer of
        None \<Rightarrow> drop_session i a1
      | Some connecting \<Rightarrow>
          (let x1 = x\<lparr>gs_connecting := connecting, gs_phase := SessionGrant\<rparr> in
           note_event (Sent (grant_request x1)) (set_session i x1 a1)))"

text \<open>Without a token there is no socket; an aborted session closes the socket before it opens.\<close>

definition session_grant_answered :: "string \<Rightarrow> agent_session \<Rightarrow> bool \<Rightarrow> agent \<Rightarrow> agent" where
  "session_grant_answered i x fine a =
     (let a1 = note_event (Answered (grant_request x) fine) a in
      if \<not> fine then drop_session i a1
      else set_session i (x\<lparr>gs_phase := if gs_aborted x then SessionClosing else SessionConnecting\<rparr>) a1)"

definition session_socket_opened :: "string \<Rightarrow> agent_session \<Rightarrow> agent \<Rightarrow> agent" where
  "session_socket_opened i x a =
     note_event (HandlerStarted (s_id (gs_connecting x)) (s_leaseId (gs_row x))) (set_session i (x\<lparr>gs_phase := SessionServing\<rparr>) a)"

text \<open>
  A handler that throws before it returns a promise is past no \<^verbatim>\<open>try\<close> yet: the session ends without a
  renewal and without the socket being closed.
\<close>

definition session_handler_threw :: "string \<Rightarrow> agent_session \<Rightarrow> agent \<Rightarrow> agent" where
  "session_handler_threw i x a =
     drop_session i (note_event (HandlerStarted (s_id (gs_connecting x)) (s_leaseId (gs_row x))) a)"

definition session_socket_failed :: "string \<Rightarrow> agent_session \<Rightarrow> agent \<Rightarrow> agent" where
  "session_socket_failed i x a = set_session i (x\<lparr>gs_phase := SessionClosing\<rparr>) a"

text \<open>\<^verbatim>\<open>renewDelayMs\<close>, a renewal, and its answer; a conflict or an abort ends the renewal loop.\<close>

definition renew_delay :: "int \<Rightarrow> int \<Rightarrow> int" where
  "renew_delay heartbeatIntervalMs remaining = max 100 (min heartbeatIntervalMs (max 1 remaining div 3))"

definition session_renewed :: "agent_session \<Rightarrow> agent \<Rightarrow> agent" where
  "session_renewed x a = note_event (Sent (RenewSessionRequest (s_id (gs_connecting x)) (s_leaseId (gs_row x)))) a"

text \<open>What ends the race: the controller is aborted and the socket closed.\<close>

definition settle :: "agent_session \<Rightarrow> agent_session" where
  "settle x = x\<lparr>gs_aborted := True, gs_phase := SessionSettling\<rparr>"

definition session_part_ended :: "string \<Rightarrow> agent_session \<Rightarrow> agent \<Rightarrow> agent" where
  "session_part_ended i x a =
     (let x1 = settle x in
      if gs_handlerDone x1 \<and> gs_renewalDone x1 then drop_session i a else set_session i x1 a)"

definition session_handler_ended :: "string \<Rightarrow> agent_session \<Rightarrow> agent \<Rightarrow> agent" where
  "session_handler_ended i x = session_part_ended i (x\<lparr>gs_handlerDone := True\<rparr>)"

definition session_renewal_ended :: "string \<Rightarrow> agent_session \<Rightarrow> agent \<Rightarrow> agent" where
  "session_renewal_ended i x = session_part_ended i (x\<lparr>gs_renewalDone := True\<rparr>)"

definition session_socket_closed :: "string \<Rightarrow> agent_session \<Rightarrow> agent \<Rightarrow> agent" where
  "session_socket_closed i x a = (if gs_phase x = SessionClosing then drop_session i a else session_part_ended i x a)"

section \<open>The poll\<close>

definition abort_missing_jobs :: "job list \<Rightarrow> agent \<Rightarrow> agent" where
  "abort_missing_jobs jobs a =
     a\<lparr>ag_jobs := map (\<lambda>(i, x). (i, if i \<in> set (map j_id jobs) then x else x\<lparr>aj_aborted := True\<rparr>)) (ag_jobs a)\<rparr>"

definition run_leased_jobs :: "job list \<Rightarrow> agent \<Rightarrow> agent" where
  "run_leased_jobs jobs a =
     fold (\<lambda>j a. if j_status j = Leased \<and> j_id j \<notin> set (map fst (ag_jobs a)) then runJob j a else a) jobs a"

text \<open>The last of two sessions with one id is the one in \<^verbatim>\<open>sessionsById\<close>.\<close>

definition abort_lost_sessions :: "session list \<Rightarrow> agent \<Rightarrow> agent" where
  "abort_lost_sessions sessions a =
     a\<lparr>ag_sessions := map (\<lambda>(i, x). (i,
        case map_of (rev (map (\<lambda>s. (s_id s, s)) sessions)) i of
          None \<Rightarrow> x\<lparr>gs_aborted := True\<rparr>
        | Some current \<Rightarrow> if s_leaseId current \<noteq> s_leaseId (gs_row x) then x\<lparr>gs_aborted := True\<rparr> else x)) (ag_sessions a)\<rparr>"

definition run_allocated_sessions :: "(string \<Rightarrow> string \<Rightarrow> int) \<Rightarrow> session_registry \<Rightarrow> session list \<Rightarrow> agent \<Rightarrow> agent" where
  "run_allocated_sessions lc registry sessions a =
     fold (\<lambda>s a.
       if s_status s \<noteq> Allocated \<or> s_id s \<in> set (map fst (ag_sessions a)) then a
       else if selectSessionHandler lc registry s = None then a
       else runSession s a) sessions a"

definition poll_answered :: "(string \<Rightarrow> string \<Rightarrow> int) \<Rightarrow> session_registry \<Rightarrow> job list \<Rightarrow> session list \<Rightarrow> agent \<Rightarrow> agent" where
  "poll_answered lc registry jobs sessions a =
     run_allocated_sessions lc registry sessions (abort_lost_sessions sessions
       (run_leased_jobs jobs (abort_missing_jobs jobs (note_event (Polled jobs sessions) (a\<lparr>ag_polling := False\<rparr>)))))"

text \<open>\<^verbatim>\<open>stop\<close>: after the operations in progress the jobs are aborted, and after these the sessions.\<close>

definition stop_jobs :: "agent \<Rightarrow> agent" where
  "stop_jobs a = a\<lparr>ag_jobs := map (\<lambda>(i, x). (i, x\<lparr>aj_aborted := True\<rparr>)) (ag_jobs a)\<rparr>"

definition stop_sessions :: "agent \<Rightarrow> agent" where
  "stop_sessions a = a\<lparr>ag_sessions := map (\<lambda>(i, x). (i, x\<lparr>gs_aborted := True\<rparr>)) (ag_sessions a)\<rparr>"

abbreviation job_at :: "string \<Rightarrow> agent_job \<Rightarrow> agent \<Rightarrow> bool" where
  "job_at i x a \<equiv> (i, x) \<in> set (ag_jobs a)"

abbreviation session_at :: "string \<Rightarrow> agent_session \<Rightarrow> agent \<Rightarrow> bool" where
  "session_at i x a \<equiv> (i, x) \<in> set (ag_sessions a)"

inductive agent_step :: "(string \<Rightarrow> string \<Rightarrow> int) \<Rightarrow> agent \<Rightarrow> agent \<Rightarrow> bool" for lc where
  poll: "ag_running a \<Longrightarrow> \<not> ag_polling a \<Longrightarrow> agent_step lc a (a\<lparr>ag_polling := True\<rparr>)"
| poll_answer: "ag_polling a \<Longrightarrow> agent_step lc a (poll_answered lc registry jobs sessions a)"
| poll_failed: "ag_polling a \<Longrightarrow> agent_step lc a (a\<lparr>ag_polling := False\<rparr>)"
| job_start: "job_at i x a \<Longrightarrow> aj_phase x = JobStarting \<Longrightarrow> agent_step lc a (job_start_answered i x fine a)"
| job_renew: "job_at i x a \<Longrightarrow> aj_phase x \<in> {JobExecuting, JobReporting, JobReportingFailure} \<Longrightarrow> agent_step lc a (job_renewed x a)"
| job_execute: "job_at i x a \<Longrightarrow> aj_phase x = JobExecuting \<Longrightarrow> agent_step lc a (job_executed i x fine a)"
| job_report: "job_at i x a \<Longrightarrow> aj_phase x \<in> {JobMissingAdapter, JobReporting, JobReportingFailure} \<Longrightarrow>
    agent_step lc a (job_report_answered i x fine a)"
| session_start: "session_at i x a \<Longrightarrow> gs_phase x = SessionStarting \<Longrightarrow> agent_step lc a (session_start_answered i x answer a)"
| session_grant: "session_at i x a \<Longrightarrow> gs_phase x = SessionGrant \<Longrightarrow> agent_step lc a (session_grant_answered i x fine a)"
| session_opened: "session_at i x a \<Longrightarrow> gs_phase x = SessionConnecting \<Longrightarrow> \<not> gs_aborted x \<Longrightarrow>
    agent_step lc a (session_socket_opened i x a)"
| session_threw: "session_at i x a \<Longrightarrow> gs_phase x = SessionConnecting \<Longrightarrow> \<not> gs_aborted x \<Longrightarrow>
    agent_step lc a (session_handler_threw i x a)"
| session_failed: "session_at i x a \<Longrightarrow> gs_phase x = SessionConnecting \<Longrightarrow> agent_step lc a (session_socket_failed i x a)"
| session_renew: "session_at i x a \<Longrightarrow> gs_phase x = SessionServing \<Longrightarrow> \<not> gs_aborted x \<Longrightarrow> \<not> gs_renewalDone x \<Longrightarrow> agent_step lc a (session_renewed x a)"
| session_handler: "session_at i x a \<Longrightarrow> gs_phase x \<in> {SessionServing, SessionSettling} \<Longrightarrow> \<not> gs_handlerDone x \<Longrightarrow>
    agent_step lc a (session_handler_ended i x a)"
| session_renewal: "session_at i x a \<Longrightarrow> gs_phase x \<in> {SessionServing, SessionSettling} \<Longrightarrow> \<not> gs_renewalDone x \<Longrightarrow>
    agent_step lc a (session_renewal_ended i x a)"
| session_closed: "session_at i x a \<Longrightarrow> gs_phase x \<in> {SessionClosing, SessionServing} \<Longrightarrow> agent_step lc a (session_socket_closed i x a)"
| stop: "agent_step lc a (a\<lparr>ag_running := False\<rparr>)"
| stopping_jobs: "\<not> ag_running a \<Longrightarrow> \<not> ag_polling a \<Longrightarrow> agent_step lc a (stop_jobs a)"
| stopping_sessions: "\<not> ag_running a \<Longrightarrow> \<not> ag_polling a \<Longrightarrow> ag_jobs a = [] \<Longrightarrow> agent_step lc a (stop_sessions a)"

inductive agent_reachable :: "(string \<Rightarrow> string \<Rightarrow> int) \<Rightarrow> agent \<Rightarrow> bool" for lc where
  fresh: "agent_reachable lc started_agent"
| step: "agent_reachable lc a \<Longrightarrow> agent_step lc a a' \<Longrightarrow> agent_reachable lc a'"

text \<open>Two thirds of a lease of three seconds or more are left when it is renewed for the first time.\<close>

lemma renewed_early:
  "3000 \<le> remaining \<Longrightarrow> 3 * renew_interval heartbeatIntervalMs remaining \<le> remaining"
  "300 \<le> remaining \<Longrightarrow> 3 * renew_delay heartbeatIntervalMs remaining \<le> remaining"
  by (auto simp: renew_interval_def renew_delay_def)

section \<open>What the log shows\<close>

text \<open>A polled row that was leased, or allocated, and what has happened since in this order.\<close>

definition held_job :: "job \<Rightarrow> agent_event list \<Rightarrow> agent_event list \<Rightarrow> bool" where
  "held_job j es xs = (\<exists>jobs sessions. j \<in> set jobs \<and> j_status j = Leased \<and> subseq (Polled jobs sessions # es) xs)"

definition held_session :: "session \<Rightarrow> agent_event list \<Rightarrow> agent_event list \<Rightarrow> bool" where
  "held_session s es xs = (\<exists>jobs sessions. s \<in> set sessions \<and> s_status s = Allocated \<and> subseq (Polled jobs sessions # es) xs)"

definition start_trace :: "job \<Rightarrow> agent_event list" where
  "start_trace j = (let r = StartJobRequest (j_id j) (j_leaseId j) in [Sent r, Answered r True])"

definition finish_of :: "job \<Rightarrow> string \<Rightarrow> agent_request" where
  "finish_of j outcome = FinishJobRequest (j_id j) (j_leaseId j) outcome"

definition executed_trace :: "job \<Rightarrow> bool \<Rightarrow> agent_event list" where
  "executed_trace j fine = start_trace j @ [Executed (j_id j) (j_leaseId j) fine]"

definition connecting_trace :: "session \<Rightarrow> agent_event list" where
  "connecting_trace s = (let r = StartSessionRequest (s_id s) (s_leaseId s) in [Sent r, Answered r True])"

definition granted_trace :: "session \<Rightarrow> session \<Rightarrow> agent_event list" where
  "granted_trace s c = (let r = WorkerGrantRequest (s_id c) (s_leaseId s) in connecting_trace s @ [Sent r, Answered r True])"

text \<open>What must have happened before an event: the reason for a request, an execution, a handler.\<close>

fun justified :: "agent_event \<Rightarrow> agent_event list \<Rightarrow> bool" where
  "justified (Sent (StartJobRequest i l)) xs = (\<exists>j. j_id j = i \<and> j_leaseId j = l \<and> held_job j [] xs)"
| "justified (Sent (RenewJobRequest i l)) xs =
     (\<exists>j. j_id j = i \<and> j_leaseId j = l \<and> hasAdapter (j_type j) \<and> held_job j (start_trace j) xs)"
| "justified (Executed i l fine) xs =
     (\<exists>j. j_id j = i \<and> j_leaseId j = l \<and> hasAdapter (j_type j) \<and> held_job j (start_trace j) xs)"
| "justified (Sent (FinishJobRequest i l outcome)) xs =
     (\<exists>j. j_id j = i \<and> j_leaseId j = l \<and>
        (if outcome = ''succeeded'' then held_job j (executed_trace j True) xs
         else \<not> hasAdapter (j_type j) \<and> held_job j (start_trace j) xs \<or>
           held_job j (executed_trace j False) xs \<or>
           held_job j (executed_trace j True @ [Sent (finish_of j ''succeeded''), Answered (finish_of j ''succeeded'') False]) xs))"
| "justified (Sent (StartSessionRequest i l)) xs = (\<exists>s. s_id s = i \<and> s_leaseId s = l \<and> held_session s [] xs)"
| "justified (Sent (WorkerGrantRequest i l)) xs = (\<exists>s. s_leaseId s = l \<and> held_session s (connecting_trace s) xs)"
| "justified (HandlerStarted i l) xs =
     (\<exists>s c. s_id c = i \<and> s_leaseId s = l \<and> held_session s (granted_trace s c) xs)"
| "justified (Sent (RenewSessionRequest i l)) xs =
     (\<exists>s c. s_id c = i \<and> s_leaseId s = l \<and> held_session s (granted_trace s c @ [HandlerStarted i l]) xs)"
| "justified (Polled jobs sessions) xs = True"
| "justified (Answered r fine) xs = (Sent r \<in> set xs)"

fun job_trace :: "job_phase \<Rightarrow> job \<Rightarrow> agent_event list" where
  "job_trace JobStarting j = [Sent (StartJobRequest (j_id j) (j_leaseId j))]"
| "job_trace JobMissingAdapter j = start_trace j @ [Sent (finish_of j ''failed'')]"
| "job_trace JobExecuting j = start_trace j"
| "job_trace JobReporting j = executed_trace j True @ [Sent (finish_of j ''succeeded'')]"
| "job_trace JobReportingFailure j = start_trace j @ [Sent (finish_of j ''failed'')]"

fun session_trace :: "session_phase \<Rightarrow> session \<Rightarrow> session \<Rightarrow> agent_event list" where
  "session_trace SessionStarting s c = [Sent (StartSessionRequest (s_id s) (s_leaseId s))]"
| "session_trace SessionGrant s c = connecting_trace s @ [Sent (WorkerGrantRequest (s_id c) (s_leaseId s))]"
| "session_trace SessionConnecting s c = granted_trace s c"
| "session_trace SessionClosing s c = granted_trace s c"
| "session_trace SessionServing s c = granted_trace s c @ [HandlerStarted (s_id c) (s_leaseId s)]"
| "session_trace SessionSettling s c = granted_trace s c @ [HandlerStarted (s_id c) (s_leaseId s)]"

definition job_entry_ok :: "agent_event list \<Rightarrow> string \<times> agent_job \<Rightarrow> bool" where
  "job_entry_ok xs e =
     (fst e = j_id (aj_row (snd e)) \<and> held_job (aj_row (snd e)) (job_trace (aj_phase (snd e)) (aj_row (snd e))) xs \<and>
      (aj_phase (snd e) \<in> {JobExecuting, JobReporting, JobReportingFailure} \<longrightarrow> hasAdapter (j_type (aj_row (snd e)))))"

definition session_entry_ok :: "agent_event list \<Rightarrow> string \<times> agent_session \<Rightarrow> bool" where
  "session_entry_ok xs e =
     (fst e = s_id (gs_row (snd e)) \<and>
      held_session (gs_row (snd e)) (session_trace (gs_phase (snd e)) (gs_row (snd e)) (gs_connecting (snd e))) xs)"

definition agent_ok :: "agent \<Rightarrow> bool" where
  "agent_ok a =
     (distinct (map fst (ag_jobs a)) \<and> distinct (map fst (ag_sessions a)) \<and>
      (\<forall>e \<in> set (ag_jobs a). job_entry_ok (ag_log a) e) \<and> (\<forall>e \<in> set (ag_sessions a). session_entry_ok (ag_log a) e) \<and>
      justified_log justified (ag_log a))"

lemma held_job_later: "held_job j es xs \<Longrightarrow> held_job j es (xs @ ys)"
  unfolding held_job_def using subseq_later by blast

lemma held_job_then: "held_job j es xs \<Longrightarrow> held_job j (es @ [e]) (xs @ [e])"
  unfolding held_job_def using subseq_then [of "_ # _" xs e "[e]"] by (metis append_Cons list.set_intros(1))

lemma held_session_later: "held_session s es xs \<Longrightarrow> held_session s es (xs @ ys)"
  unfolding held_session_def using subseq_later by blast

lemma held_session_then: "held_session s es xs \<Longrightarrow> held_session s (es @ [e]) (xs @ [e])"
  unfolding held_session_def using subseq_then [of "_ # _" xs e "[e]"] by (metis append_Cons list.set_intros(1))

lemma held_job_mem: "held_job j es xs \<Longrightarrow> e \<in> set es \<Longrightarrow> e \<in> set xs"
  unfolding held_job_def by (metis list.set_intros(2) subseq_mem)

lemma held_session_mem: "held_session s es xs \<Longrightarrow> e \<in> set es \<Longrightarrow> e \<in> set xs"
  unfolding held_session_def by (metis list.set_intros(2) subseq_mem)

lemma entry_ok_later:
  "job_entry_ok xs e \<Longrightarrow> job_entry_ok (xs @ ys) e" "session_entry_ok xs f \<Longrightarrow> session_entry_ok (xs @ ys) f"
  by (auto simp: job_entry_ok_def session_entry_ok_def intro: held_job_later held_session_later)

text \<open>The pieces every step is made of.\<close>

lemma agent_ok_note: "agent_ok a \<Longrightarrow> justified e (ag_log a) \<Longrightarrow> agent_ok (note_event e a)"
  by (auto simp: agent_ok_def note_event_def entry_ok_later)

lemma map_fst_updated: "map fst (map (\<lambda>(k, y). (k, f k y)) xs) = map fst xs"
  by (simp add: split_def)

lemma agent_ok_set_job: "agent_ok a \<Longrightarrow> job_entry_ok (ag_log a) (i, x) \<Longrightarrow> agent_ok (set_job i x a)"
  by (auto simp: agent_ok_def set_job_def map_fst_updated simp del: map_map)

lemma agent_ok_set_session: "agent_ok a \<Longrightarrow> session_entry_ok (ag_log a) (i, x) \<Longrightarrow> agent_ok (set_session i x a)"
  by (auto simp: agent_ok_def set_session_def map_fst_updated simp del: map_map)

lemma agent_ok_drop: "agent_ok a \<Longrightarrow> agent_ok (drop_job i a)" "agent_ok a \<Longrightarrow> agent_ok (drop_session i a)"
  by (auto simp: agent_ok_def drop_job_def drop_session_def distinct_map_filter)

lemma log_unchanged [simp]:
  "ag_log (set_job i x a) = ag_log a" "ag_log (drop_job i a) = ag_log a" "ag_log (set_session i y a) = ag_log a"
  "ag_log (drop_session i a) = ag_log a" "ag_log (note_event e a) = ag_log a @ [e]"
  by (simp_all add: set_job_def drop_job_def set_session_def drop_session_def note_event_def)

lemma set_then_note:
  "note_event e (set_job i x a) = set_job i x (note_event e a)"
  "note_event e (set_session i y a) = set_session i y (note_event e a)"
  by (simp_all add: note_event_def set_job_def set_session_def)

lemma report_ok:
  assumes "agent_ok a" and "justified (Sent (finish_request x outcome)) (ag_log a)"
    and "job_entry_ok (ag_log a @ [Sent (finish_request x outcome)]) (i, x\<lparr>aj_phase := phase\<rparr>)"
  shows "agent_ok (report i x outcome phase a)"
  unfolding report_def set_then_note using assms by (intro agent_ok_set_job agent_ok_note) simp_all

lemma job_entryD:
  assumes "agent_ok a" and "job_at i x a"
  shows "job_entry_ok (ag_log a) (i, x)"
  using assms by (simp add: agent_ok_def)

lemma session_entryD:
  assumes "agent_ok a" and "session_at i x a"
  shows "session_entry_ok (ag_log a) (i, x)"
  using assms by (simp add: agent_ok_def)

lemmas held_job_grow = held_job_later held_job_then

lemma start_trace_then: "held_job j [Sent (StartJobRequest (j_id j) (j_leaseId j))] xs \<Longrightarrow>
    held_job j (start_trace j) (xs @ [Answered (StartJobRequest (j_id j) (j_leaseId j)) True])"
  by (drule held_job_then) (simp add: start_trace_def Let_def)

lemma job_start_ok:
  assumes a: "agent_ok a" "job_at i x a" "aj_phase x = JobStarting"
  shows "agent_ok (job_start_answered i x fine a)"
proof -
  let ?j = "aj_row x" and ?e = "Answered (StartJobRequest (j_id (aj_row x)) (j_leaseId (aj_row x))) fine"
  from job_entryD [OF a(1,2)] a(3) have i: "i = j_id ?j" and h: "held_job ?j [Sent (StartJobRequest (j_id ?j) (j_leaseId ?j))] (ag_log a)"
    by (simp_all add: job_entry_ok_def)
  have n: "agent_ok (note_event ?e a)"
    by (rule agent_ok_note [OF a(1)]) (use held_job_mem [OF h] in simp)
  show ?thesis
  proof (cases fine)
    case True
    with start_trace_then [OF h] have t: "held_job ?j (start_trace ?j) (ag_log (note_event ?e a))" by simp
    show ?thesis
    proof (cases "hasAdapter (j_type ?j)")
      case True
      then show ?thesis using n t i \<open>fine\<close> unfolding job_start_answered_def Let_def
        by (simp add: agent_ok_set_job job_entry_ok_def)
    next
      case False
      have "agent_ok (report i x ''failed'' JobMissingAdapter (note_event ?e a))"
      proof (rule report_ok [OF n])
        show "justified (Sent (finish_request x ''failed'')) (ag_log (note_event ?e a))"
          using t False by (auto simp: finish_request_def)
        show "job_entry_ok (ag_log (note_event ?e a) @ [Sent (finish_request x ''failed'')]) (i, x\<lparr>aj_phase := JobMissingAdapter\<rparr>)"
          using held_job_then [OF t, of "Sent (finish_request x ''failed'')"] i
          by (simp add: job_entry_ok_def finish_request_def finish_of_def)
      qed
      then show ?thesis using False \<open>fine\<close> by (simp add: job_start_answered_def Let_def)
    qed
  next
    case False
    with n show ?thesis by (simp add: job_start_answered_def Let_def agent_ok_drop)
  qed
qed

lemma held_job_prefix: "held_job j (es @ fs) xs \<Longrightarrow> held_job j es xs"
  unfolding held_job_def using subseq_start [of "_ # es" fs xs] by (metis append_Cons)

lemma executed_started: "held_job j (executed_trace j fine @ es) xs \<Longrightarrow> held_job j (start_trace j) xs"
  unfolding executed_trace_def append_assoc by (rule held_job_prefix)

lemma job_started:
  assumes "job_entry_ok xs (i, x)" and "aj_phase x \<in> {JobExecuting, JobReporting, JobReportingFailure}"
  shows "i = j_id (aj_row x)" and "hasAdapter (j_type (aj_row x))" and "held_job (aj_row x) (start_trace (aj_row x)) xs"
  using assms executed_started held_job_prefix by (auto simp: job_entry_ok_def)

lemma failure_entry:
  assumes "held_job (aj_row x) (start_trace (aj_row x)) xs" and "i = j_id (aj_row x)" and "hasAdapter (j_type (aj_row x))"
  shows "job_entry_ok (xs @ [Sent (finish_request x ''failed'')]) (i, x\<lparr>aj_phase := JobReportingFailure\<rparr>)"
  using held_job_then [OF assms(1), of "Sent (finish_request x ''failed'')"] assms(2,3)
  by (simp add: job_entry_ok_def finish_request_def finish_of_def)

lemma job_renew_ok:
  assumes "agent_ok a" and "job_at i x a" and "aj_phase x \<in> {JobExecuting, JobReporting, JobReportingFailure}"
  shows "agent_ok (job_renewed x a)"
  unfolding job_renewed_def using assms(1) job_started [OF job_entryD [OF assms(1,2)] assms(3)]
  by (intro agent_ok_note) auto

lemma job_execute_ok:
  assumes a: "agent_ok a" "job_at i x a" "aj_phase x = JobExecuting"
  shows "agent_ok (job_executed i x fine a)"
proof -
  let ?j = "aj_row x" and ?e = "Executed (j_id (aj_row x)) (j_leaseId (aj_row x)) fine"
  have s: "i = j_id ?j" "hasAdapter (j_type ?j)" "held_job ?j (start_trace ?j) (ag_log a)"
    using job_started [OF job_entryD [OF a(1,2)]] a(3) by simp_all
  have n: "agent_ok (note_event ?e a)" by (rule agent_ok_note [OF a(1)]) (use s in auto)
  have t: "held_job ?j (executed_trace ?j fine) (ag_log (note_event ?e a))"
    using held_job_then [OF s(3), of ?e] by (simp add: executed_trace_def)
  have started: "held_job ?j (start_trace ?j) (ag_log (note_event ?e a))" using s(3) by (simp add: held_job_later)
  show ?thesis
  proof (cases fine)
    case True
    have "agent_ok (report i x ''succeeded'' JobReporting (note_event ?e a))"
    proof (rule report_ok [OF n])
      show "justified (Sent (finish_request x ''succeeded'')) (ag_log (note_event ?e a))"
        using t True by (auto simp: finish_request_def)
      show "job_entry_ok (ag_log (note_event ?e a) @ [Sent (finish_request x ''succeeded'')]) (i, x\<lparr>aj_phase := JobReporting\<rparr>)"
        using held_job_then [OF t, of "Sent (finish_request x ''succeeded'')"] s True
        by (simp add: job_entry_ok_def finish_request_def finish_of_def)
    qed
    with True show ?thesis by (simp add: job_executed_def Let_def)
  next
    case False
    have "agent_ok (report i x ''failed'' JobReportingFailure (note_event ?e a))"
      using n t False failure_entry [OF started s(1,2)] by (intro report_ok) (auto simp: finish_request_def)
    with False show ?thesis by (simp add: job_executed_def Let_def)
  qed
qed

lemma answer_noted: "agent_ok a \<Longrightarrow> Sent r \<in> set (ag_log a) \<Longrightarrow> agent_ok (note_event (Answered r fine) a)"
  by (rule agent_ok_note) simp_all

lemma job_report_ok:
  assumes a: "agent_ok a" "job_at i x a" "aj_phase x \<in> {JobMissingAdapter, JobReporting, JobReportingFailure}"
  shows "agent_ok (job_report_answered i x fine a)"
proof (cases "aj_phase x = JobReporting")
  case False
  with a job_entryD [OF a(1,2)] have "held_job (aj_row x) (start_trace (aj_row x) @ [Sent (finish_request x ''failed'')]) (ag_log a)"
    by (auto simp: job_entry_ok_def finish_request_def finish_of_def)
  then have "Sent (finish_request x ''failed'') \<in> set (ag_log a)" by (rule held_job_mem) simp
  with a False show ?thesis by (auto simp: job_report_answered_def intro!: agent_ok_drop answer_noted)
next
  case True
  let ?j = "aj_row x" and ?r = "finish_request x ''succeeded''"
  let ?a = "note_event (Answered ?r fine) a"
  have s: "i = j_id ?j" "hasAdapter (j_type ?j)" "held_job ?j (start_trace ?j) (ag_log a)"
    using job_started [OF job_entryD [OF a(1,2)]] True by simp_all
  have t: "held_job ?j (executed_trace ?j True @ [Sent ?r]) (ag_log a)"
    using job_entryD [OF a(1,2)] True by (simp add: job_entry_ok_def finish_request_def finish_of_def)
  have n: "agent_ok ?a" by (rule answer_noted [OF a(1) held_job_mem [OF t]]) simp
  show ?thesis
  proof (cases fine)
    case True
    with n \<open>aj_phase x = JobReporting\<close> show ?thesis by (simp add: job_report_answered_def Let_def agent_ok_drop)
  next
    case False
    have "held_job ?j (executed_trace ?j True @ [Sent (finish_of ?j ''succeeded''), Answered (finish_of ?j ''succeeded'') False]) (ag_log ?a)"
      using held_job_then [OF t, of "Answered ?r fine"] False by (simp add: finish_of_def finish_request_def)
    then have just: "justified (Sent (finish_request x ''failed'')) (ag_log ?a)" by (auto simp: finish_request_def)
    have "held_job ?j (start_trace ?j) (ag_log ?a)" using s(3) by (simp add: held_job_later)
    from report_ok [OF n just failure_entry [OF this s(1,2)]] have "agent_ok (report i x ''failed'' JobReportingFailure ?a)" .
    with False \<open>aj_phase x = JobReporting\<close> show ?thesis by (simp add: job_report_answered_def Let_def)
  qed
qed

text \<open>Sessions.\<close>

lemma held_session_prefix: "held_session s (es @ fs) xs \<Longrightarrow> held_session s es xs"
  unfolding held_session_def using subseq_start [of "_ # es" fs xs] by (metis append_Cons)

lemma session_start_ok:
  assumes a: "agent_ok a" "session_at i x a" "gs_phase x = SessionStarting"
  shows "agent_ok (session_start_answered i x answer a)"
proof -
  let ?s = "gs_row x" and ?r = "session_start_request x"
  let ?a = "note_event (Answered ?r (answer \<noteq> None)) a"
  have i: "i = s_id ?s" and h: "held_session ?s [Sent ?r] (ag_log a)"
    using session_entryD [OF a(1,2)] a(3) by (simp_all add: session_entry_ok_def session_start_request_def)
  have n: "agent_ok ?a" by (rule answer_noted [OF a(1) held_session_mem [OF h]]) simp
  show ?thesis
  proof (cases answer)
    case None
    with n show ?thesis by (simp add: session_start_answered_def Let_def agent_ok_drop)
  next
    case (Some c)
    let ?x = "x\<lparr>gs_connecting := c, gs_phase := SessionGrant\<rparr>"
    have t: "held_session ?s (connecting_trace ?s) (ag_log ?a)"
      using held_session_then [OF h, of "Answered ?r True"] Some by (simp add: connecting_trace_def Let_def session_start_request_def)
    have g: "agent_ok (note_event (Sent (grant_request ?x)) ?a)"
      by (rule agent_ok_note [OF n]) (use t in \<open>auto simp: grant_request_def\<close>)
    have "agent_ok (note_event (Sent (grant_request ?x)) (set_session i ?x ?a))"
      unfolding set_then_note
      by (rule agent_ok_set_session [OF g])
        (use held_session_then [OF t, of "Sent (grant_request ?x)"] i in \<open>simp add: session_entry_ok_def grant_request_def\<close>)
    with Some show ?thesis by (simp add: session_start_answered_def Let_def)
  qed
qed

lemma session_grant_ok:
  assumes a: "agent_ok a" "session_at i x a" "gs_phase x = SessionGrant"
  shows "agent_ok (session_grant_answered i x fine a)"
proof -
  let ?s = "gs_row x" and ?r = "grant_request x"
  let ?a = "note_event (Answered ?r fine) a"
  have i: "i = s_id ?s" and h: "held_session ?s (connecting_trace ?s @ [Sent ?r]) (ag_log a)"
    using session_entryD [OF a(1,2)] a(3) by (simp_all add: session_entry_ok_def grant_request_def)
  have n: "agent_ok ?a" by (rule answer_noted [OF a(1) held_session_mem [OF h]]) simp
  show ?thesis
  proof (cases fine)
    case True
    have t: "held_session ?s (granted_trace ?s (gs_connecting x)) (ag_log ?a)"
      using held_session_then [OF h, of "Answered ?r fine"] True by (simp add: granted_trace_def Let_def grant_request_def)
    have "agent_ok (set_session i (x\<lparr>gs_phase := if gs_aborted x then SessionClosing else SessionConnecting\<rparr>) ?a)"
      by (rule agent_ok_set_session [OF n]) (use t i in \<open>simp add: session_entry_ok_def\<close>)
    with True show ?thesis by (simp add: session_grant_answered_def Let_def)
  next
    case False
    with n show ?thesis by (simp add: session_grant_answered_def Let_def agent_ok_drop)
  qed
qed

lemma session_opened_ok:
  assumes a: "agent_ok a" "session_at i x a" "gs_phase x = SessionConnecting"
  shows "agent_ok (session_socket_opened i x a)" and "agent_ok (session_handler_threw i x a)"
proof -
  let ?s = "gs_row x" and ?e = "HandlerStarted (s_id (gs_connecting x)) (s_leaseId (gs_row x))"
  have i: "i = s_id ?s" and h: "held_session ?s (granted_trace ?s (gs_connecting x)) (ag_log a)"
    using session_entryD [OF a(1,2)] a(3) by (simp_all add: session_entry_ok_def)
  have n: "agent_ok (note_event ?e a)" by (rule agent_ok_note [OF a(1)]) (use h in auto)
  show "agent_ok (session_socket_opened i x a)" unfolding session_socket_opened_def set_then_note
    by (rule agent_ok_set_session [OF n]) (use held_session_then [OF h, of ?e] i in \<open>simp add: session_entry_ok_def\<close>)
  show "agent_ok (session_handler_threw i x a)" unfolding session_handler_threw_def using n by (rule agent_ok_drop)
qed

lemma session_phase_ok:
  assumes "agent_ok a" and "session_at i x a" and "gs_row y = gs_row x" and "gs_connecting y = gs_connecting x"
    and "\<exists>es. session_trace (gs_phase x) (gs_row x) (gs_connecting x) = session_trace (gs_phase y) (gs_row x) (gs_connecting x) @ es"
  shows "agent_ok (set_session i y a)"
proof (rule agent_ok_set_session [OF assms(1)])
  from session_entryD [OF assms(1,2)] assms(5) show "session_entry_ok (ag_log a) (i, y)"
    unfolding session_entry_ok_def using assms(3,4) held_session_prefix by (metis fst_conv snd_conv)
qed

lemma session_renew_ok:
  assumes a: "agent_ok a" "session_at i x a" "gs_phase x = SessionServing"
  shows "agent_ok (session_renewed x a)"
  unfolding session_renewed_def
  by (rule agent_ok_note [OF a(1)]) (use session_entryD [OF a(1,2)] a(3) in \<open>auto simp: session_entry_ok_def\<close>)

lemma session_part_ok:
  assumes "agent_ok a" and "session_at i x a" and "gs_phase x \<in> {SessionServing, SessionSettling}"
    and "gs_row y = gs_row x" and "gs_connecting y = gs_connecting x"
  shows "agent_ok (session_part_ended i y a)"
  using assms(1) session_phase_ok [OF assms(1,2), of "settle y"] assms(3-5)
  by (auto simp: session_part_ended_def Let_def agent_ok_drop settle_def)

text \<open>The poll.\<close>

lemma agent_ok_map_job:
  assumes "agent_ok a" and "\<And>i x. aj_row (f i x) = aj_row x \<and> aj_phase (f i x) = aj_phase x"
  shows "agent_ok (a\<lparr>ag_jobs := map (\<lambda>(i, x). (i, f i x)) (ag_jobs a)\<rparr>)"
  using assms by (auto simp: agent_ok_def job_entry_ok_def map_fst_updated simp del: map_map)

lemma agent_ok_map_session:
  assumes "agent_ok a" and "\<And>i x. gs_row (f i x) = gs_row x \<and> gs_connecting (f i x) = gs_connecting x \<and> gs_phase (f i x) = gs_phase x"
  shows "agent_ok (a\<lparr>ag_sessions := map (\<lambda>(i, x). (i, f i x)) (ag_sessions a)\<rparr>)"
  using assms by (auto simp: agent_ok_def session_entry_ok_def map_fst_updated simp del: map_map)

lemma runJob_ok:
  assumes "agent_ok a" and "Polled jobs sessions \<in> set (ag_log a)" and "j \<in> set jobs" and "j_status j = Leased"
    and "j_id j \<notin> set (map fst (ag_jobs a))"
  shows "agent_ok (runJob j a)"
proof -
  let ?e = "Sent (StartJobRequest (j_id j) (j_leaseId j))"
  have h: "held_job j [] (ag_log a)" using assms(2-4) by (auto simp: held_job_def subseq_singleton_left)
  then have "agent_ok (note_event ?e a)" by (intro agent_ok_note [OF assms(1)]) auto
  with held_job_then [OF h, of ?e] assms(5) show ?thesis
    by (auto simp: runJob_def Let_def agent_ok_def job_entry_ok_def note_event_def)
qed

lemma runSession_ok:
  assumes "agent_ok a" and "Polled jobs sessions \<in> set (ag_log a)" and "s \<in> set sessions" and "s_status s = Allocated"
    and "s_id s \<notin> set (map fst (ag_sessions a))"
  shows "agent_ok (runSession s a)"
proof -
  let ?e = "Sent (StartSessionRequest (s_id s) (s_leaseId s))"
  have h: "held_session s [] (ag_log a)" using assms(2-4) by (auto simp: held_session_def subseq_singleton_left)
  then have "agent_ok (note_event ?e a)" by (intro agent_ok_note [OF assms(1)]) auto
  with held_session_then [OF h, of ?e] assms(5) show ?thesis
    by (auto simp: runSession_def Let_def agent_ok_def session_entry_ok_def note_event_def)
qed

lemma run_log: "set (ag_log a) \<subseteq> set (ag_log (runJob j a))" "set (ag_log a) \<subseteq> set (ag_log (runSession s a))"
  by (auto simp: runJob_def runSession_def Let_def note_event_def)

lemma run_leased_jobs_ok:
  assumes "agent_ok a" and "Polled jobs sessions \<in> set (ag_log a)" and "set js \<subseteq> set jobs"
  shows "agent_ok (run_leased_jobs js a) \<and> Polled jobs sessions \<in> set (ag_log (run_leased_jobs js a))"
  using assms
proof (induction js arbitrary: a)
  case (Cons j js)
  show ?case
  proof (cases "j_status j = Leased \<and> j_id j \<notin> set (map fst (ag_jobs a))")
    case True
    with Cons.prems have "agent_ok (runJob j a)" by (intro runJob_ok) auto
    moreover have "Polled jobs sessions \<in> set (ag_log (runJob j a))" using run_log Cons.prems(2) by blast
    ultimately show ?thesis using Cons.IH [of "runJob j a"] Cons.prems(3) True by (simp add: run_leased_jobs_def)
  next
    case False
    then show ?thesis using Cons.IH [of a] Cons.prems by (auto simp: run_leased_jobs_def)
  qed
qed (simp add: run_leased_jobs_def)

lemma run_allocated_sessions_ok:
  assumes "agent_ok a" and "Polled jobs sessions \<in> set (ag_log a)" and "set ss \<subseteq> set sessions"
  shows "agent_ok (run_allocated_sessions lc registry ss a)"
  using assms
proof (induction ss arbitrary: a)
  case (Cons s ss)
  show ?case
  proof (cases "s_status s \<noteq> Allocated \<or> s_id s \<in> set (map fst (ag_sessions a)) \<or> selectSessionHandler lc registry s = None")
    case False
    with Cons.prems have "agent_ok (runSession s a)" by (intro runSession_ok) auto
    moreover have "Polled jobs sessions \<in> set (ag_log (runSession s a))" using run_log Cons.prems(2) by blast
    ultimately show ?thesis using Cons.IH [of "runSession s a"] Cons.prems(3) False by (auto simp: run_allocated_sessions_def)
  next
    case True
    then show ?thesis using Cons.IH [of a] Cons.prems by (auto simp: run_allocated_sessions_def)
  qed
qed (simp add: run_allocated_sessions_def)

lemma poll_ok:
  assumes "agent_ok a"
  shows "agent_ok (poll_answered lc registry jobs sessions a)"
proof -
  let ?a = "note_event (Polled jobs sessions) (a\<lparr>ag_polling := False\<rparr>)"
  have "agent_ok (a\<lparr>ag_polling := False\<rparr>)" using assms by (simp add: agent_ok_def)
  then have "agent_ok ?a" by (rule agent_ok_note) simp
  then have "agent_ok (abort_missing_jobs jobs ?a)"
    unfolding abort_missing_jobs_def by (rule agent_ok_map_job) simp
  moreover have "Polled jobs sessions \<in> set (ag_log (abort_missing_jobs jobs ?a))"
    by (simp add: abort_missing_jobs_def note_event_def)
  ultimately have b: "agent_ok (run_leased_jobs jobs (abort_missing_jobs jobs ?a)) \<and>
      Polled jobs sessions \<in> set (ag_log (run_leased_jobs jobs (abort_missing_jobs jobs ?a)))"
    by (rule run_leased_jobs_ok) simp
  then have "agent_ok (abort_lost_sessions sessions (run_leased_jobs jobs (abort_missing_jobs jobs ?a)))"
    unfolding abort_lost_sessions_def by (intro agent_ok_map_session) (auto split: option.splits)
  with b show ?thesis unfolding poll_answered_def
    by (intro run_allocated_sessions_ok [of _ jobs sessions]) (simp_all add: abort_lost_sessions_def)
qed

lemma agent_step_ok:
  assumes "agent_step lc a a'" and "agent_ok a"
  shows "agent_ok a'"
  using assms
proof (induction rule: agent_step.induct)
  case (session_failed i x a)
  then show ?case unfolding session_socket_failed_def by (intro session_phase_ok) auto
next
  case (session_handler i x a)
  then show ?case unfolding session_handler_ended_def by (intro session_part_ok) auto
next
  case (session_renewal i x a)
  then show ?case unfolding session_renewal_ended_def by (intro session_part_ok) auto
next
  case (session_closed i x a)
  then show ?case unfolding session_socket_closed_def using agent_ok_drop session_part_ok by auto
next
  case (stopping_jobs a)
  then show ?case unfolding stop_jobs_def by (intro agent_ok_map_job) auto
next
  case (stopping_sessions a)
  then show ?case unfolding stop_sessions_def by (intro agent_ok_map_session) auto
qed (simp_all add: poll_ok job_start_ok job_renew_ok job_execute_ok job_report_ok session_start_ok session_grant_ok
    session_opened_ok session_renew_ok, auto simp: agent_ok_def)

lemma agent_invariant: "agent_reachable lc a \<Longrightarrow> agent_ok a"
proof (induction rule: agent_reachable.induct)
  case fresh
  show ?case by (simp add: started_agent_def agent_ok_def)
qed (rule agent_step_ok)

section \<open>What a poll changes\<close>

lemma selected_cons: "f ` {y \<in> set (x # xs). P y} = (if P x then insert (f x) (f ` {y \<in> set xs. P y}) else f ` {y \<in> set xs. P y})"
  by auto

lemma run_leased_jobs_adds:
  "(\<exists>new. ag_jobs (run_leased_jobs js a) = ag_jobs a @ new) \<and> ag_sessions (run_leased_jobs js a) = ag_sessions a \<and>
   fst ` set (ag_jobs (run_leased_jobs js a)) = fst ` set (ag_jobs a) \<union> j_id ` {j \<in> set js. j_status j = Leased}"
proof (induction js arbitrary: a)
  case (Cons j js)
  show ?case
  proof (cases "j_status j = Leased \<and> j_id j \<notin> set (map fst (ag_jobs a))")
    case True
    then have "run_leased_jobs (j # js) a = run_leased_jobs js (runJob j a)" by (simp add: run_leased_jobs_def)
    moreover have "\<exists>x. ag_jobs (runJob j a) = ag_jobs a @ [(j_id j, x)]" "ag_sessions (runJob j a) = ag_sessions a"
      by (simp_all add: runJob_def Let_def note_event_def)
    ultimately show ?thesis using Cons.IH [of "runJob j a"] True unfolding selected_cons by (auto simp del: image_Un)
  next
    case False
    then have "run_leased_jobs (j # js) a = run_leased_jobs js a" by (auto simp: run_leased_jobs_def)
    with Cons.IH [of a] False show ?thesis unfolding selected_cons by (auto simp: image_iff)
  qed
qed (simp add: run_leased_jobs_def)

lemma run_allocated_sessions_adds:
  "(\<exists>new. ag_sessions (run_allocated_sessions lc registry ss a) = ag_sessions a @ new) \<and>
   ag_jobs (run_allocated_sessions lc registry ss a) = ag_jobs a \<and>
   fst ` set (ag_sessions (run_allocated_sessions lc registry ss a)) = fst ` set (ag_sessions a) \<union>
     s_id ` {s \<in> set ss. s_status s = Allocated \<and> selectSessionHandler lc registry s \<noteq> None}"
proof (induction ss arbitrary: a)
  case (Cons s ss)
  show ?case
  proof (cases "s_status s = Allocated \<and> s_id s \<notin> set (map fst (ag_sessions a)) \<and> selectSessionHandler lc registry s \<noteq> None")
    case True
    then have "run_allocated_sessions lc registry (s # ss) a = run_allocated_sessions lc registry ss (runSession s a)"
      by (auto simp: run_allocated_sessions_def)
    moreover have "\<exists>x. ag_sessions (runSession s a) = ag_sessions a @ [(s_id s, x)]" "ag_jobs (runSession s a) = ag_jobs a"
      by (simp_all add: runSession_def Let_def note_event_def)
    ultimately show ?thesis using Cons.IH [of "runSession s a"] True unfolding selected_cons by (auto simp del: image_Un)
  next
    case False
    then have "run_allocated_sessions lc registry (s # ss) a = run_allocated_sessions lc registry ss a"
      by (auto simp: run_allocated_sessions_def)
    with Cons.IH [of a] False show ?thesis unfolding selected_cons by (auto simp: image_iff)
  qed
qed (simp add: run_allocated_sessions_def)

text \<open>The leases of the session an id stands for in a poll's answer.\<close>

definition polled_lease :: "session list \<Rightarrow> string \<Rightarrow> string option option" where
  "polled_lease sessions i = map_option s_leaseId (map_of (rev (map (\<lambda>s. (s_id s, s)) sessions)) i)"

text \<open>
  C32. A poll keeps every run in progress. A job is aborted when its id is no longer listed, whatever
  its lease, and a session when its id is not listed with its lease; the new runs are those of the
  leased jobs, and of the allocated sessions that a ready adapter serves, without a run.
\<close>

theorem poll_exact:
  "let a' = poll_answered lc registry jobs sessions a in
    (\<exists>new. ag_jobs a' = map (\<lambda>(i, x). (i, x\<lparr>aj_aborted := aj_aborted x \<or> i \<notin> j_id ` set jobs\<rparr>)) (ag_jobs a) @ new) \<and>
    (\<exists>new. ag_sessions a' = map (\<lambda>(i, x). (i, x\<lparr>gs_aborted := gs_aborted x \<or> polled_lease sessions i \<noteq> Some (s_leaseId (gs_row x))\<rparr>))
       (ag_sessions a) @ new) \<and>
    fst ` set (ag_jobs a') = fst ` set (ag_jobs a) \<union> j_id ` {j \<in> set jobs. j_status j = Leased} \<and>
    fst ` set (ag_sessions a') = fst ` set (ag_sessions a) \<union>
      s_id ` {s \<in> set sessions. s_status s = Allocated \<and> selectSessionHandler lc registry s \<noteq> None}"
proof -
  let ?a1 = "abort_missing_jobs jobs (note_event (Polled jobs sessions) (a\<lparr>ag_polling := False\<rparr>))"
  let ?a2 = "run_leased_jobs jobs ?a1"
  let ?a3 = "abort_lost_sessions sessions ?a2"
  have a1: "ag_jobs ?a1 = map (\<lambda>(i, x). (i, x\<lparr>aj_aborted := aj_aborted x \<or> i \<notin> j_id ` set jobs\<rparr>)) (ag_jobs a)"
    "ag_sessions ?a1 = ag_sessions a"
    by (auto simp: abort_missing_jobs_def note_event_def)
  have a3: "ag_sessions ?a3 = map (\<lambda>(i, x). (i, x\<lparr>gs_aborted := gs_aborted x \<or> polled_lease sessions i \<noteq> Some (s_leaseId (gs_row x))\<rparr>))
      (ag_sessions a)" "ag_jobs ?a3 = ag_jobs ?a2"
    using run_leased_jobs_adds [of jobs ?a1] a1(2)
    by (auto simp: abort_lost_sessions_def polled_lease_def split: option.splits)
  have k1: "fst ` set (ag_jobs ?a1) = fst ` set (ag_jobs a)" and k3: "fst ` set (ag_sessions ?a3) = fst ` set (ag_sessions a)"
    unfolding a1 a3 by force+
  show ?thesis
    using run_leased_jobs_adds [of jobs ?a1] run_allocated_sessions_adds [of lc registry sessions ?a3] a1(1) a3 k1 k3
    by (simp add: Let_def poll_answered_def)
qed

text \<open>An answer that refuses the report of a success has the run reported as failed.\<close>

lemma refused_success:
  "aj_phase x = JobReporting \<Longrightarrow>
   ag_log (job_report_answered i x False a) =
     ag_log a @ [Answered (finish_request x ''succeeded'') False, Sent (finish_request x ''failed'')]"
  by (simp add: job_report_answered_def report_def Let_def)

section \<open>Guarantees\<close>

text \<open>
  C31. A worker has at most one run of a job and of a session. When it reports that a job succeeded,
  it had polled the leased row, its startJob with this lease was accepted, and the adapter returned;
  it renews and fails a job only after startJob was accepted. It starts a session's handler, and
  renews the session, only after startSession with the polled lease was accepted and a grant issued.
\<close>

theorem agent_acts_in_order:
  assumes "agent_reachable lc a"
  shows "distinct (map fst (ag_jobs a)) \<and> distinct (map fst (ag_sessions a)) \<and>
    (\<forall>before i l outcome after. ag_log a = before @ Sent (FinishJobRequest i l outcome) # after \<longrightarrow>
      (\<exists>jobs sessions j. j \<in> set jobs \<and> j_status j = Leased \<and> j_id j = i \<and> j_leaseId j = l \<and>
        subseq ([Polled jobs sessions, Sent (StartJobRequest i l), Answered (StartJobRequest i l) True] @
          (if outcome = ''succeeded'' then [Executed i l True] else [])) before)) \<and>
    (\<forall>before i l after. ag_log a = before @ Sent (RenewJobRequest i l) # after \<longrightarrow> Answered (StartJobRequest i l) True \<in> set before) \<and>
    (\<forall>before i l after. ag_log a = before @ HandlerStarted i l # after \<longrightarrow>
      (\<exists>jobs sessions s. s \<in> set sessions \<and> s_status s = Allocated \<and> s_leaseId s = l \<and>
        subseq [Polled jobs sessions, Sent (StartSessionRequest (s_id s) l), Answered (StartSessionRequest (s_id s) l) True,
          Sent (WorkerGrantRequest i l), Answered (WorkerGrantRequest i l) True] before)) \<and>
    (\<forall>before i l after. ag_log a = before @ Sent (RenewSessionRequest i l) # after \<longrightarrow> HandlerStarted i l \<in> set before)"
proof -
  from agent_invariant [OF assms] have ok: "agent_ok a" .
  then have just: "justified e before" if "ag_log a = before @ e # after" for before e after
    using that by (simp add: agent_ok_def justified_log_split)
  have finish: "\<exists>jobs sessions j. j \<in> set jobs \<and> j_status j = Leased \<and> j_id j = i \<and> j_leaseId j = l \<and>
      subseq ([Polled jobs sessions, Sent (StartJobRequest i l), Answered (StartJobRequest i l) True] @
        (if outcome = ''succeeded'' then [Executed i l True] else [])) before"
    if "ag_log a = before @ Sent (FinishJobRequest i l outcome) # after" for before i l outcome after
  proof (cases "outcome = ''succeeded''")
    case True
    with just [OF that] show ?thesis by (auto simp: held_job_def executed_trace_def start_trace_def Let_def)
  next
    case False
    with just [OF that] obtain j where "j_id j = i" "j_leaseId j = l" "held_job j (start_trace j) before"
      using executed_started executed_started [of _ _ "[]", simplified] by auto
    with False show ?thesis by (auto simp: held_job_def start_trace_def Let_def)
  qed
  have renew: "Answered (StartJobRequest i l) True \<in> set before"
    if "ag_log a = before @ Sent (RenewJobRequest i l) # after" for before i l after
    using just [OF that] held_job_mem by (fastforce simp: start_trace_def Let_def)
  have handler: "\<exists>jobs sessions s. s \<in> set sessions \<and> s_status s = Allocated \<and> s_leaseId s = l \<and>
      subseq [Polled jobs sessions, Sent (StartSessionRequest (s_id s) l), Answered (StartSessionRequest (s_id s) l) True,
        Sent (WorkerGrantRequest i l), Answered (WorkerGrantRequest i l) True] before"
    if "ag_log a = before @ HandlerStarted i l # after" for before i l after
    using just [OF that] by (auto simp: held_session_def granted_trace_def connecting_trace_def Let_def)
  have renewal: "HandlerStarted i l \<in> set before"
    if "ag_log a = before @ Sent (RenewSessionRequest i l) # after" for before i l after
    using just [OF that] held_session_mem by fastforce
  from ok finish renew handler renewal show ?thesis by (auto simp: agent_ok_def)
qed

text \<open>A worker that polls an echo job, starts it, runs it and reports it.\<close>

definition sample_echo_job :: job where
  "sample_echo_job = \<lparr>j_id = ''job_e'', j_projectId = ''p'', j_type = ''diagnostic.echo'', j_priority = 0, j_status = Leased,
     j_constraints = \<lparr>rq_gpuCount = 1, rq_minVramMiB = 0, rq_capabilities = [''diagnostic.echo''], rq_model = None, rq_adapter = None\<rparr>,
     j_payload = JObj [], j_result = None, j_error = None, j_assignedWorkerId = Some ''w1'', j_assignedGpuUuid = Some ''g1'',
     j_leaseId = Some ''lease_1'', j_leaseExpiresAt = Some 63000, j_attempt = 1, j_maxAttempts = 3, j_idempotencyKey = None,
     j_createdAt = 2000, j_updatedAt = 3000\<rparr>"

definition sample_run :: "job_phase \<Rightarrow> agent_job" where
  "sample_run phase = \<lparr>aj_row = sample_echo_job, aj_phase = phase, aj_aborted = False\<rparr>"

definition agent2 :: agent where
  "agent2 = poll_answered str_cmp \<lparr>sr_adapters = [], sr_ready = [], sr_legacy = False\<rparr> [sample_echo_job] [] (started_agent\<lparr>ag_polling := True\<rparr>)"

definition agent3 :: agent where
  "agent3 = job_start_answered ''job_e'' (sample_run JobStarting) True agent2"

definition agent4 :: agent where
  "agent4 = job_executed ''job_e'' (sample_run JobExecuting) True agent3"

lemma agent_jobs: "ag_jobs agent2 = [(''job_e'', sample_run JobStarting)]" "ag_jobs agent3 = [(''job_e'', sample_run JobExecuting)]"
  by code_simp+

lemma agent4_log: "ag_log agent4 =
  [Polled [sample_echo_job] [], Sent (StartJobRequest ''job_e'' (Some ''lease_1'')), Answered (StartJobRequest ''job_e'' (Some ''lease_1'')) True,
   Executed ''job_e'' (Some ''lease_1'') True] @ Sent (FinishJobRequest ''job_e'' (Some ''lease_1'') ''succeeded'') # []"
  by code_simp

lemma agent4_reachable: "agent_reachable str_cmp agent4"
proof -
  have 1: "agent_reachable str_cmp (started_agent\<lparr>ag_polling := True\<rparr>)"
    by (rule agent_reachable.step [OF agent_reachable.fresh agent_step.poll]) (simp_all add: started_agent_def)
  have 2: "agent_reachable str_cmp agent2"
    unfolding agent2_def by (rule agent_reachable.step [OF 1 agent_step.poll_answer]) simp
  have 3: "agent_reachable str_cmp agent3"
    unfolding agent3_def by (rule agent_reachable.step [OF 2 agent_step.job_start]) (simp_all add: agent_jobs sample_run_def)
  show ?thesis
    unfolding agent4_def by (rule agent_reachable.step [OF 3 agent_step.job_execute]) (simp_all add: agent_jobs sample_run_def)
qed

theorem agent_acts_in_order_witness:
  "\<exists>jobs sessions. subseq [Polled jobs sessions, Sent (StartJobRequest ''job_e'' (Some ''lease_1'')),
     Answered (StartJobRequest ''job_e'' (Some ''lease_1'')) True, Executed ''job_e'' (Some ''lease_1'') True] (butlast (ag_log agent4))"
  using agent_acts_in_order [OF agent4_reachable] agent4_log by fastforce

text \<open>When the job is no longer listed its run is kept and aborted.\<close>

theorem poll_exact_witness:
  "(''job_e'', (sample_run JobStarting)\<lparr>aj_aborted := True\<rparr>) \<in>
     set (ag_jobs (poll_answered str_cmp \<lparr>sr_adapters = [], sr_ready = [], sr_legacy = False\<rparr> [] [] agent2))"
proof -
  let ?registry = "\<lparr>sr_adapters = [], sr_ready = [], sr_legacy = False\<rparr>"
  from conjunct1 [OF poll_exact [of str_cmp ?registry "[]" "[]" agent2, unfolded Let_def]] obtain new
    where "ag_jobs (poll_answered str_cmp ?registry [] [] agent2) =
      map (\<lambda>(i, x). (i, x\<lparr>aj_aborted := aj_aborted x \<or> i \<notin> j_id ` set ([] :: job list)\<rparr>)) (ag_jobs agent2) @ new" by (rule exE)
  then show ?thesis unfolding agent_jobs by (simp only: list.map prod.case set_append list.set) simp
qed

end
