(* ===== verification/Spec2Isabelle.thy ===== *)
theory Spec2Isabelle
  imports Guarantees Passes WorkloadContracts RelayAborts HttpServer BrokerObservation
    SchedulerRunner Persistence AdapterIpc AsrSession WorkerAgent
begin

text \<open>
  GPULink places jobs and interactive sessions on the GPUs of remote workers. Its control plane
  (\<^verbatim>\<open>src/control-plane/\<close>) keeps workers, jobs, sessions, an event log and GPU fences in a database,
  leases GPUs in scheduler passes, lets workers start, renew and finish what they hold under
  the lease they were given, and relays the data of a session between its client and its worker.

  The theories, from the bottom up, and the code they model:

    \<^item> \<open>Prelude\<close>: results of code that may throw, \<^verbatim>\<open>Array.prototype.sort\<close> with a comparator, tables.
    \<^item> \<open>JsValues\<close>: JSON values and \<^verbatim>\<open>shared/validation.mjs\<close>, \<^verbatim>\<open>shared/ids.mjs\<close>.
    \<^item> \<open>AdapterContracts\<close>: \<^verbatim>\<open>shared/adapter-manifest.mjs\<close>, \<^verbatim>\<open>adapter-health.mjs\<close>, \<^verbatim>\<open>model-inventory.mjs\<close>.
    \<^item> \<open>WorkloadContracts\<close>, \<open>SessionContract\<close>, \<open>DataPlane\<close>: job payloads, session requests with the
      normal form of their metadata, and the signed grants and subprotocols of the data plane.
    \<^item> \<open>Database\<close>: \<^verbatim>\<open>control-plane/database.mjs\<close>. A table is a list of records in insertion order, a
      statement a function on the database, a transaction one that keeps the old database on error.
    \<^item> \<open>Lifecycle\<close>: the invariant of the tables (\<open>db_ok\<close>) and how rows evolve (\<open>evolves\<close>).
    \<^item> \<open>Scheduler\<close>: \<^verbatim>\<open>control-plane/scheduler.mjs\<close>, placement and the pass.
    \<^item> \<open>Service\<close>: \<^verbatim>\<open>control-plane/service.mjs\<close>, one function per operation with the pass that follows it.
    \<^item> \<open>ExecutionClaims\<close>: \<^verbatim>\<open>execution-claim-authority.mjs\<close> and \<^verbatim>\<open>broker-claim-service.mjs\<close>.
    \<^item> \<open>ControlPlane\<close>: all of it as a transition system on databases (\<open>cp_step\<close>, \<open>cp_reachable\<close>).
    \<^item> \<open>Passes\<close>, \<open>Guarantees\<close>: what a pass does, and the properties of the control plane.
    \<^item> \<open>Relay\<close>: \<^verbatim>\<open>control-plane/data-plane-relay.mjs\<close> as a transition system beside the control plane
      (\<open>relay_step\<close>, \<open>relay_run\<close>): shared objects are in stores, functions are split at their awaits.
    \<^item> \<open>RelayInvariant\<close>, \<open>RelaySafety\<close>, \<open>RelayAuthority\<close>, \<open>RelayRounds\<close>, \<open>RelayGuarantees\<close>,
      \<open>RelayAborts\<close>: its invariant, the frames delivered, on whose authority pairs are linked,
      stopping and revalidation, the properties of the relay, and how a round is broken off.
    \<^item> \<open>HttpServer\<close>: \<^verbatim>\<open>control-plane/http-server.mjs\<close>: routes, tokens, bodies, answers and event streams
      over the operations of \<open>Service\<close> and \<open>ExecutionClaims\<close>; each request is a run of \<open>cp_step\<close>.
    \<^item> \<open>BrokerObservation\<close>: \<^verbatim>\<open>control-plane/broker-authority-observation.mjs\<close>.
    \<^item> \<open>Persistence\<close>: \<^verbatim>\<open>persistence/sqlite.mjs\<close>, the queue in front of the store. \<open>persistence_serial\<close> shows
      that transactions are atomic although their callbacks wait, which is why \<open>cp_step\<close> may take
      each of them as one step. Callbacks issue one call at a time.
    \<^item> \<open>SchedulerRunner\<close>: \<^verbatim>\<open>control-plane/scheduler-runner.mjs\<close>. \<open>runner_coalesces\<close> shows that an operation that
      waits for a trigger has seen a pass that began after its transaction, as \<open>then_pass\<close> says.
    \<^item> \<open>AdapterIpc\<close>: \<^verbatim>\<open>worker/adapter-ipc-v1.mjs\<close>, the frames between a worker and its adapter process
      and their incremental decoder, against a parser of the whole stream (\<open>parse_frames\<close>).
      \<open>ipc_roundtrip\<close> says which ways of cutting a stream into chunks it takes.
    \<^item> \<open>AsrProtocol\<close>, \<open>AsrSession\<close>: \<^verbatim>\<open>shared/asr-protocol-v1.mjs\<close>, \<^verbatim>\<open>asr-worker-output-v1.mjs\<close> and
      \<^verbatim>\<open>asr-session-coordinator-v1.mjs\<close>: frames of speech recognition sessions and the two state
      machines the coordinator keeps in step (\<open>asr_run\<close>: a session with the replies it gave).

    \<^item> \<open>WorkerAdapters\<close>: \<^verbatim>\<open>worker/adapters.mjs\<close>, \<^verbatim>\<open>session-adapters.mjs\<close> and the capability refresh of
      \<^verbatim>\<open>agent.mjs\<close>: what a worker advertises, shown to pass the validation in \<open>Service\<close>.
    \<^item> \<open>WorkerAgent\<close>: \<^verbatim>\<open>worker/agent.mjs\<close>: polls, runs of jobs and sessions, renewals and stopping as a
      transition system (\<open>agent_step\<close>) with a log of requests and answers; timers may fire at any time.
    \<^item> \<open>Traces\<close>: what the transition systems with a log share.

  Strings are lists of code units below 256. Locale-aware comparison (\<open>lc\<close>, assumed to be a
  comparator), printing of non-integer numbers, JSON parsing, HMAC-SHA256 and URL parsing are
  parameters; identifiers and clock readings are arguments of the operations. No fuel is used: every
  recursive function is total, but for the decoder's loop (\<open>decode_loop\<close>, a \<^verbatim>\<open>while\<close> whose end depends on
  its buffers), of which \<open>ipc_push_refines\<close> shows that it always returns.

  Not modelled: process wiring, the PostgreSQL store and the migration script (their statements repeat
  those of \<open>Database\<close> over an external server), process supervision, the
  adapters that worker processes run, the discovery of GPUs and models, the Python broker, CLI and
  SDKs. A worker agent that is started again after it was stopped is outside \<open>agent_step\<close>.
\<close>

end
